(* ===== verification/VSync_Prelude.thy ===== *)
theory VSync_Prelude
  imports Main "HOL-Library.Word" "HOL-Library.Monad_Syntax"
begin

text \<open>
  Shared vocabulary of the development: the machine types of the RV32 target, C strings as
  NUL-terminated byte lists, string literals, the total-correctness predicate \<open>returns\<close>
  for computations of type \<open>'a option\<close>, and generic lemmas on lists and words.

  Convention for the whole development: a C function that can spin forever, or that could read
  or write outside an object, is modelled with an option result. \<open>None\<close> means that the call
  does not return normally (it spins for ever, or it leaves the object it works on). A theorem
  of the form \<open>f x = Some y\<close> or \<open>returns Q (f x)\<close> therefore states termination and memory
  safety as well as the result.
\<close>

unbundle bit_operations_syntax

type_synonym byte = "8 word"
type_synonym u32 = "32 word"

named_theorems literal_simps "facts that evaluate string literals"

section \<open>C strings\<close>

text \<open>
  A pointer into a character array is the list of the bytes from the pointed-to element to the
  end of the array object. \<open>c_string\<close> is the string a pointer denotes: the bytes before the
  first NUL, \<open>None\<close> when there is no NUL before the end of the object.
\<close>

fun c_string :: "byte list \<Rightarrow> byte list option" where
  "c_string [] = None"
| "c_string (c # cs) = (if c = 0 then Some [] else map_option (Cons c) (c_string cs))"

lemma c_string_append [simp]: "0 \<notin> set xs \<Longrightarrow> c_string (xs @ 0 # ys) = Some xs"
  by (induction xs) auto

lemma c_string_SomeD:
  assumes "c_string s = Some xs"
  shows "0 \<notin> set xs \<and> (\<exists>ys. s = xs @ 0 # ys)"
  using assms
  by (induction s arbitrary: xs) (auto split: if_splits)

lemma c_string_Some_iff: "c_string s = Some xs \<longleftrightarrow> 0 \<notin> set xs \<and> (\<exists>ys. s = xs @ 0 # ys)"
  by (metis c_string_append c_string_SomeD)

lemma c_string_SomeE:
  assumes "c_string s = Some xs"
  obtains ys where "s = xs @ 0 # ys" and "0 \<notin> set xs"
  using c_string_SomeD [OF assms] by blast

text \<open>
  \<open>ascii t\<close> is the bytes of an ASCII literal, \<open>lit bs\<close> the array a literal denotes (with its
  terminating NUL), and \<open>CRLF\<close> the two bytes of the line ending the shell prints.
\<close>

definition ascii :: "string \<Rightarrow> byte list" where
  "ascii t = map of_char t"

definition CRLF :: "byte list" where
  "CRLF = [13, 10]"

definition lit :: "byte list \<Rightarrow> byte list" where
  "lit bs = bs @ [0]"

lemma unat_of_char_byte: "unat (of_char c :: byte) = of_char c"
proof -
  have "unat (of_char c :: byte) = unat (of_nat (of_char c) :: byte)"
    by (simp only: of_nat_of_char)
  also have "\<dots> = of_char c mod 256"
    by (simp only: unat_of_nat) simp
  finally show ?thesis by simp
qed

lemma of_char_byte_eq_iff [literal_simps]: "(of_char c :: byte) = of_char d \<longleftrightarrow> c = d"
  by (metis unat_of_char_byte of_char_eq_iff)

lemma of_char_byte_eq_0 [literal_simps]: "(of_char c :: byte) = 0 \<longleftrightarrow> c = CHR 0x00"
  using of_char_byte_eq_iff [of c "CHR 0x00"] by simp

lemma zero_in_ascii [literal_simps]: "0 \<in> set (ascii t) \<longleftrightarrow> CHR 0x00 \<in> set t"
  by (auto simp: ascii_def image_iff of_char_byte_eq_0 eq_commute [of 0])

lemma zero_in_CRLF [literal_simps]: "0 \<notin> set CRLF"
  by (simp add: CRLF_def)

lemma c_string_lit [simp]: "0 \<notin> set bs \<Longrightarrow> c_string (lit bs) = Some bs"
  by (simp add: lit_def)

section \<open>Computations that return\<close>

definition returns :: "('a \<Rightarrow> bool) \<Rightarrow> 'a option \<Rightarrow> bool" where
  "returns Q m \<longleftrightarrow> (\<exists>x. m = Some x \<and> Q x)"

lemma returns_Some [simp]: "returns Q (Some x) \<longleftrightarrow> Q x"
  by (simp add: returns_def)

lemma returns_None [simp]: "\<not> returns Q None"
  by (simp add: returns_def)

lemma returnsE:
  assumes "returns Q m"
  obtains x where "m = Some x" and "Q x"
  using assms by (auto simp: returns_def)

lemma returns_bind: "returns Q (Option.bind m f) \<longleftrightarrow> returns (\<lambda>x. returns Q (f x)) m"
  by (cases m) auto

lemma returns_mono: "returns Q m \<Longrightarrow> (\<And>x. Q x \<Longrightarrow> R x) \<Longrightarrow> returns R m"
  by (auto simp: returns_def)

lemma returns_bindI:
  assumes "returns R m" and "\<And>x. R x \<Longrightarrow> returns Q (f x)"
  shows "returns Q (Option.bind m f)"
  using assms by (auto simp: returns_bind intro: returns_mono)

section \<open>Lists\<close>

lemma drop_ConsD:
  assumes "drop p xs = y # ys"
  shows "p < length xs" and "xs ! p = y" and "drop (Suc p) xs = ys"
  using assms
  by (metis drop_all linorder_not_le list.distinct(1), metis nth_via_drop,
      metis drop_Suc list.sel(3) tl_drop)

lemma append_length_nth [simp]: "(xs @ y # ys) ! length xs = y"
  by (simp add: nth_append)

lemma append_length_update [simp]: "(xs @ y # ys)[length xs := z] = xs @ z # ys"
  by (simp add: list_update_append)

lemma filter_ConsD: "filter P xs = y # ys \<Longrightarrow> y \<in> set xs \<and> P y"
  by (auto simp: filter_eq_Cons_iff)

text \<open>A store \<open>xs[i] = x\<close> into an array, out of bounds past its end.\<close>

definition put_at :: "'a list \<Rightarrow> nat \<Rightarrow> 'a \<Rightarrow> 'a list option" where
  "put_at xs i x = (if i < length xs then Some (xs[i := x]) else None)"

section \<open>Words\<close>

lemma word_zero_bit_and_iff: "(w AND 1 = (0::u32)) \<longleftrightarrow> \<not> bit w 0"
  by (simp add: and_one_eq bit_0 even_iff_mod_2_eq_zero)

lemma unat_less_Suc_word: "i < (n::u32) \<Longrightarrow> unat (i + 1) = Suc (unat i)"
  by unat_arith

lemma unat_mask_4: "unat (w AND 15 :: u32) = unat w mod 16"
proof -
  have "w AND 15 = take_bit 4 w"
    by (simp add: take_bit_eq_mask mask_eq_exp_minus_1)
  then have "w AND 15 = w mod 16"
    by (simp add: take_bit_eq_mod)
  then show ?thesis
    by (simp only: unat_mod) simp
qed

lemma u32_bound: "unat (w :: u32) < 4294967296"
proof -
  have "unat w < 2 ^ LENGTH(32)"
    by (rule unsigned_less)
  then show ?thesis by simp
qed

lemma unat_of_nat_small: "n < 2 ^ LENGTH('a::len) \<Longrightarrow> unat (of_nat n :: 'a word) = n"
  by (simp add: unat_of_nat)

lemma u32_decimal_bound: "unat (w :: u32) < 10 ^ 10"
  using u32_bound [of w] by simp

lemma unat_ucast_byte [simp]: "unat (ucast (b :: byte) :: u32) = unat b"
proof -
  have "unat b < 2 ^ LENGTH(8)"
    by (rule unsigned_less)
  then have "unat b < 2 ^ 32" by simp
  then show ?thesis
    by (simp add: unsigned_ucast_eq take_bit_nat_eq_self)
qed

lemma uint_ucast_byte [simp]: "uint (ucast (b :: byte) :: u32) = uint b"
  using unat_ucast_byte [of b] by (metis uint_nat)

lemma ucast_ucast_byte [simp]: "ucast (ucast (b :: byte) :: u32) = b"
  by (rule bit_word_eqI) (simp add: bit_unsigned_iff)

lemma take_bit_small:
  assumes "unat (w :: 'a::len word) < 2 ^ n"
  shows "take_bit n w = w"
proof -
  have "unat (take_bit n w) = unat w"
    using assms by (simp add: unsigned_take_bit_eq take_bit_nat_eq_self)
  then show ?thesis by (simp only: word_unat_eq_iff)
qed

lemma or_shift_small:
  assumes "unat (b :: 'a::len word) < 2 ^ n"
  shows "push_bit n a OR b = push_bit n a + b"
proof (rule disjunctive_add [symmetric])
  fix m
  have "bit b m \<longleftrightarrow> bit (take_bit n b) m"
    using assms by (simp add: take_bit_small)
  then show "\<not> bit (push_bit n a) m \<or> \<not> bit b m"
    by (auto simp: bit_push_bit_iff bit_take_bit_iff)
qed

end
