(* ===== verification/VSync_Hw.thy ===== *)
theory VSync_Hw
  imports VSync_Prelude
begin

text \<open>
  The memory map and the register offsets of sw/lib/vsync_hw.h, under the names and with the
  values of the header. \<open>hw_defs\<close> collects the definitions.
\<close>

named_theorems hw_defs "values of the hardware register definitions"

definition IMEM_BASE :: u32 where [hw_defs]: "IMEM_BASE = 0x00000000"
definition IMEM_SIZE :: u32 where [hw_defs]: "IMEM_SIZE = 0x00010000"
definition DMEM_BASE :: u32 where [hw_defs]: "DMEM_BASE = 0x00010000"
definition DMEM_SIZE :: u32 where [hw_defs]: "DMEM_SIZE = 0x00004000"
definition CLINT_BASE :: u32 where [hw_defs]: "CLINT_BASE = 0x02000000"
definition PLIC_BASE :: u32 where [hw_defs]: "PLIC_BASE = 0x0C000000"
definition UART_BASE :: u32 where [hw_defs]: "UART_BASE = 0x10000000"
definition GPIO_BASE :: u32 where [hw_defs]: "GPIO_BASE = 0x10000100"
definition RTOS_BASE :: u32 where [hw_defs]: "RTOS_BASE = 0x11000000"
definition POSIX_BASE :: u32 where [hw_defs]: "POSIX_BASE = 0x12000000"
definition HYPERRAM_BASE :: u32 where [hw_defs]: "HYPERRAM_BASE = 0x20000000"
definition UART_TX_DATA :: u32 where [hw_defs]: "UART_TX_DATA = 0x00"
definition UART_RX_DATA :: u32 where [hw_defs]: "UART_RX_DATA = 0x04"
definition UART_STATUS :: u32 where [hw_defs]: "UART_STATUS = 0x08"
definition UART_CTRL :: u32 where [hw_defs]: "UART_CTRL = 0x0C"
definition UART_BAUD_DIV :: u32 where [hw_defs]: "UART_BAUD_DIV = 0x10"
definition UART_ST_TX_FULL :: u32 where [hw_defs]: "UART_ST_TX_FULL = push_bit 0 1"
definition UART_ST_TX_EMPTY :: u32 where [hw_defs]: "UART_ST_TX_EMPTY = push_bit 1 1"
definition UART_ST_RX_FULL :: u32 where [hw_defs]: "UART_ST_RX_FULL = push_bit 2 1"
definition UART_ST_RX_EMPTY :: u32 where [hw_defs]: "UART_ST_RX_EMPTY = push_bit 3 1"
definition UART_ST_TX_BUSY :: u32 where [hw_defs]: "UART_ST_TX_BUSY = push_bit 4 1"
definition UART_CTRL_TX_IE :: u32 where [hw_defs]: "UART_CTRL_TX_IE = push_bit 0 1"
definition UART_CTRL_RX_IE :: u32 where [hw_defs]: "UART_CTRL_RX_IE = push_bit 1 1"
definition UART_CTRL_TX_EN :: u32 where [hw_defs]: "UART_CTRL_TX_EN = push_bit 2 1"
definition UART_CTRL_RX_EN :: u32 where [hw_defs]: "UART_CTRL_RX_EN = push_bit 3 1"
definition GPIO_OUT :: u32 where [hw_defs]: "GPIO_OUT = 0x00"
definition GPIO_IN :: u32 where [hw_defs]: "GPIO_IN = 0x04"
definition GPIO_DIR :: u32 where [hw_defs]: "GPIO_DIR = 0x08"
definition GPIO_INT_EN :: u32 where [hw_defs]: "GPIO_INT_EN = 0x0C"
definition GPIO_INT_STATUS :: u32 where [hw_defs]: "GPIO_INT_STATUS = 0x10"
definition GPIO_INT_TYPE :: u32 where [hw_defs]: "GPIO_INT_TYPE = 0x14"
definition GPIO_INT_POL :: u32 where [hw_defs]: "GPIO_INT_POL = 0x18"
definition RTOS_SCHED_EN :: u32 where [hw_defs]: "RTOS_SCHED_EN = 0x00"
definition RTOS_SCHED_POLICY :: u32 where [hw_defs]: "RTOS_SCHED_POLICY = 0x04"
definition RTOS_CURRENT_TASK :: u32 where [hw_defs]: "RTOS_CURRENT_TASK = 0x08"
definition RTOS_NEXT_TASK :: u32 where [hw_defs]: "RTOS_NEXT_TASK = 0x0C"
definition RTOS_TASK_ACTIVE :: u32 where [hw_defs]: "RTOS_TASK_ACTIVE = 0x10"
definition RTOS_TASK_COUNT :: u32 where [hw_defs]: "RTOS_TASK_COUNT = 0x14"
definition RTOS_TIME_SLICE :: u32 where [hw_defs]: "RTOS_TIME_SLICE = 0x18"
definition RTOS_FSM_STATE :: u32 where [hw_defs]: "RTOS_FSM_STATE = 0x1C"
definition RTOS_IRQ_STATUS :: u32 where [hw_defs]: "RTOS_IRQ_STATUS = 0x20"
definition RTOS_SCHED_TRIGGER :: u32 where [hw_defs]: "RTOS_SCHED_TRIGGER = 0x24"
definition TASK_STATE_READY :: u32 where [hw_defs]: "TASK_STATE_READY = 0"
definition TASK_STATE_RUNNING :: u32 where [hw_defs]: "TASK_STATE_RUNNING = 1"
definition TASK_STATE_BLOCKED :: u32 where [hw_defs]: "TASK_STATE_BLOCKED = 2"
definition TASK_STATE_SUSPENDED :: u32 where [hw_defs]: "TASK_STATE_SUSPENDED = 3"
definition TASK_STATE_DORMANT :: u32 where [hw_defs]: "TASK_STATE_DORMANT = 4"
definition SCHED_FSM_IDLE :: u32 where [hw_defs]: "SCHED_FSM_IDLE = 0"
definition SCHED_FSM_SCAN :: u32 where [hw_defs]: "SCHED_FSM_SCAN = 1"
definition SCHED_FSM_PREEMPT :: u32 where [hw_defs]: "SCHED_FSM_PREEMPT = 2"
definition SCHED_FSM_SWITCH :: u32 where [hw_defs]: "SCHED_FSM_SWITCH = 3"
definition SCHED_FSM_DONE :: u32 where [hw_defs]: "SCHED_FSM_DONE = 4"
definition RTOS_MAX_TASKS :: u32 where [hw_defs]: "RTOS_MAX_TASKS = 16"
definition RTOS_DEFAULT_TSLICE :: u32 where [hw_defs]: "RTOS_DEFAULT_TSLICE = 1000"
definition CLINT_MSIP :: u32 where [hw_defs]: "CLINT_MSIP = 0x0000"
definition CLINT_MTIMECMP_LO :: u32 where [hw_defs]: "CLINT_MTIMECMP_LO = 0x4000"
definition CLINT_MTIMECMP_HI :: u32 where [hw_defs]: "CLINT_MTIMECMP_HI = 0x4004"
definition CLINT_MTIME_LO :: u32 where [hw_defs]: "CLINT_MTIME_LO = 0xBFF8"
definition CLINT_MTIME_HI :: u32 where [hw_defs]: "CLINT_MTIME_HI = 0xBFFC"
definition SYS_CLK_HZ :: u32 where [hw_defs]: "SYS_CLK_HZ = 25000000"
definition PLIC_PRIORITY_BASE :: u32 where [hw_defs]: "PLIC_PRIORITY_BASE = 0x0000"
definition PLIC_PENDING_BASE :: u32 where [hw_defs]: "PLIC_PENDING_BASE = 0x1000"
definition PLIC_ENABLE_BASE :: u32 where [hw_defs]: "PLIC_ENABLE_BASE = 0x2000"
definition PLIC_THRESHOLD :: u32 where [hw_defs]: "PLIC_THRESHOLD = 0x200000"
definition PLIC_CLAIM :: u32 where [hw_defs]: "PLIC_CLAIM = 0x200004"

text \<open>\<open>UART_BAUD_DIV_CALC(clk_hz, baud)\<close>: the divisor rounded to the nearest integer.\<close>

definition UART_BAUD_DIV_CALC :: "u32 \<Rightarrow> u32 \<Rightarrow> u32" where
  "UART_BAUD_DIV_CALC clk_hz baud = (clk_hz + baud div 2) div baud"

text \<open>The addresses of the UART registers the console uses.\<close>

abbreviation UART_STATUS_ADDR :: u32 where
  "UART_STATUS_ADDR \<equiv> UART_BASE + UART_STATUS"

abbreviation UART_RX_DATA_ADDR :: u32 where
  "UART_RX_DATA_ADDR \<equiv> UART_BASE + UART_RX_DATA"

end
