(* ===== verification/Platform.thy ===== *)
theory Platform
  imports VSync_Hw
begin

text \<open>
  What the C code sees of the machine below it: 32-bit volatile accesses through \<open>REG32\<close>, the
  \<open>ecall\<close> instruction, the \<open>csrci\<close> instruction and a jump. A \<open>platform\<close> is an
  implementation of these over a world type \<open>'w\<close>; the theory \<open>Soc\<close> builds the one the
  repository's hardware provides. The C state carries the world and, as a ghost, the trace of all
  such accesses, which is the observable behaviour of the program.
\<close>

section \<open>The machine interface\<close>

text \<open>
  \<open>load_ends a w\<close> and \<open>store_ends a w\<close>: the access is ever answered; then \<open>load32\<close> and \<open>store32\<close> say with
  what. \<open>syscall a7 args w\<close>: the environment call with the argument registers \<open>a0, a1, \<dots>\<close> that the
  stub sets; the registers it does not set hold values the platform chooses. \<open>None\<close>: the call
  never completes.
\<close>

record 'w platform =
  load_ends :: "u32 \<Rightarrow> 'w \<Rightarrow> bool"
  load32 :: "u32 \<Rightarrow> 'w \<Rightarrow> u32 \<times> 'w"
  store_ends :: "u32 \<Rightarrow> 'w \<Rightarrow> bool"
  store32 :: "u32 \<Rightarrow> u32 \<Rightarrow> 'w \<Rightarrow> 'w"
  syscall :: "u32 \<Rightarrow> u32 list \<Rightarrow> 'w \<Rightarrow> (u32 \<times> 'w) option"
  csr_clear :: "u32 \<Rightarrow> u32 \<Rightarrow> 'w \<Rightarrow> 'w"

datatype io_event =
    Load u32 u32 \<comment> \<open>address, value read\<close>
  | Store u32 u32 \<comment> \<open>address, value written\<close>
  | Ecall u32 "u32 list" u32 \<comment> \<open>number, arguments, value returned in a0\<close>
  | Csr_clear u32 u32 \<comment> \<open>CSR, mask\<close>
  | Jump u32

record 'w machine =
  hw :: 'w
  trace :: "io_event list"

definition REG32_load ::
  "'w platform \<Rightarrow> u32 \<Rightarrow> ('w, 'x) machine_scheme \<Rightarrow> (u32 \<times> ('w, 'x) machine_scheme) option" where
  "REG32_load P a s =
     (if load_ends P a (hw s)
      then (let (v, w) = load32 P a (hw s) in Some (v, s\<lparr>hw := w, trace := trace s @ [Load a v]\<rparr>))
      else None)"

definition REG32_store ::
  "'w platform \<Rightarrow> u32 \<Rightarrow> u32 \<Rightarrow> ('w, 'x) machine_scheme \<Rightarrow> ('w, 'x) machine_scheme option" where
  "REG32_store P a v s =
     (if store_ends P a (hw s)
      then Some (s\<lparr>hw := store32 P a v (hw s), trace := trace s @ [Store a v]\<rparr>) else None)"

definition ecall ::
  "'w platform \<Rightarrow> u32 \<Rightarrow> u32 list \<Rightarrow> ('w, 'x) machine_scheme \<Rightarrow>
   (u32 \<times> ('w, 'x) machine_scheme) option" where
  "ecall P num args s =
     do { (r, w) \<leftarrow> syscall P num args (hw s);
          Some (r, s\<lparr>hw := w, trace := trace s @ [Ecall num args r]\<rparr>) }"

definition csrci ::
  "'w platform \<Rightarrow> u32 \<Rightarrow> u32 \<Rightarrow> ('w, 'x) machine_scheme \<Rightarrow> ('w, 'x) machine_scheme" where
  "csrci P csr bits s =
     s\<lparr>hw := csr_clear P csr bits (hw s), trace := trace s @ [Csr_clear csr bits]\<rparr>"

definition jump :: "u32 \<Rightarrow> ('w, 'x) machine_scheme \<Rightarrow> ('w, 'x) machine_scheme" where
  "jump a s = s\<lparr>trace := trace s @ [Jump a]\<rparr>"

section \<open>Observations\<close>

text \<open>
  What a trace means at the console. A \<open>Text\<close> byte stands for the polls of the UART status that
  found the transmit FIFO full, the one that found room, and the \<open>write\<close> call that delivered the
  byte; a \<open>Key\<close> for the polls that found the receive FIFO empty, the one that did not, and the
  read of the byte; \<open>Drained\<close> for polls up to the first that found the transmit FIFO empty. Every
  other access stands for itself.
\<close>

datatype obs = Text byte | Key byte | Drained | Act io_event

definition SYS_WRITE :: u32 where "SYS_WRITE = 0x53"

abbreviation polls :: "u32 list \<Rightarrow> io_event list" where
  "polls vs \<equiv> map (Load UART_STATUS_ADDR) vs"

fun expands :: "u32 \<Rightarrow> obs \<Rightarrow> io_event list \<Rightarrow> bool" where
  "expands fd (Text b) tr \<longleftrightarrow> (\<exists>vs v r. tr = polls (vs @ [v]) @ [Ecall SYS_WRITE [fd, ucast b, 1] r]
     \<and> (\<forall>x \<in> set vs. x AND UART_ST_TX_FULL \<noteq> 0) \<and> v AND UART_ST_TX_FULL = 0 \<and> 0 \<le> sint r)"
| "expands fd (Key c) tr \<longleftrightarrow> (\<exists>vs v d. tr = polls (vs @ [v]) @ [Load UART_RX_DATA_ADDR d]
     \<and> (\<forall>x \<in> set vs. x AND UART_ST_RX_EMPTY \<noteq> 0) \<and> v AND UART_ST_RX_EMPTY = 0
     \<and> c = ucast (d AND 0xFF))"
| "expands fd Drained tr \<longleftrightarrow> (\<exists>vs v. tr = polls (vs @ [v])
     \<and> (\<forall>x \<in> set vs. x AND UART_ST_TX_EMPTY = 0) \<and> v AND UART_ST_TX_EMPTY \<noteq> 0)"
| "expands fd (Act e) tr \<longleftrightarrow> tr = [e]"

definition displays :: "u32 \<Rightarrow> obs list \<Rightarrow> io_event list \<Rightarrow> bool" where
  "displays fd os tr \<longleftrightarrow> (\<exists>trs. list_all2 (expands fd) os trs \<and> tr = concat trs)"

fun text_of :: "obs \<Rightarrow> byte list" where
  "text_of (Text b) = [b]"
| "text_of _ = []"

definition texts :: "obs list \<Rightarrow> byte list" where
  "texts os = concat (map text_of os)"

fun keys_of :: "obs \<Rightarrow> byte list" where
  "keys_of (Key c) = [c]"
| "keys_of _ = []"

definition keys :: "obs list \<Rightarrow> byte list" where
  "keys os = concat (map keys_of os)"

lemma displays_Nil [simp]: "displays fd [] []"
  by (simp add: displays_def)

lemma displays_append:
  assumes "displays fd os tr" and "displays fd os' tr'"
  shows "displays fd (os @ os') (tr @ tr')"
proof -
  obtain trs trs' where "list_all2 (expands fd) os trs" "tr = concat trs"
    and "list_all2 (expands fd) os' trs'" "tr' = concat trs'"
    using assms by (auto simp: displays_def)
  then show ?thesis
    unfolding displays_def by (intro exI [of _ "trs @ trs'"]) (simp add: list_all2_appendI)
qed

lemma displays_single: "expands fd ob tr \<Longrightarrow> displays fd [ob] tr"
  unfolding displays_def by (rule exI [of _ "[tr]"]) simp

lemma texts_simps [simp]:
  "texts [] = []"
  "texts (ob # os) = text_of ob @ texts os"
  "texts (os @ os') = texts os @ texts os'"
  by (simp_all add: texts_def)

lemma texts_Text [simp]: "texts (map Text bs) = bs"
  by (induction bs) simp_all

lemma keys_simps [simp]:
  "keys [] = []"
  "keys (ob # os) = keys_of ob @ keys os"
  "keys (os @ os') = keys os @ keys os'"
  by (simp_all add: keys_def)

lemma keys_Text [simp]: "keys (map Text bs) = []"
  by (induction bs) simp_all

end
