(* ===== verification/Posix_Lib.thy ===== *)
theory Posix_Lib
  imports Platform
begin

text \<open>
  The C library: the constants and the system call stubs of sw/lib/vsync_posix.h and the
  functions of sw/lib/vsync_posix.c. A C \<open>int\<close> or \<open>long\<close> result is the 32-bit register value;
  its sign is read with \<open>sint\<close>. Pointers that are only passed on are addresses.
\<close>

section \<open>Constants of sw/lib/vsync\_posix.h\<close>

named_theorems posix_defs "values of the constants of the C library"

declare SYS_WRITE_def [posix_defs]

definition FD_TYPE_NONE :: u32 where [posix_defs]: "FD_TYPE_NONE = 0"
definition FD_TYPE_UART :: u32 where [posix_defs]: "FD_TYPE_UART = 1"
definition FD_TYPE_GPIO :: u32 where [posix_defs]: "FD_TYPE_GPIO = 2"
definition FD_TYPE_MEM :: u32 where [posix_defs]: "FD_TYPE_MEM = 3"
definition FD_TYPE_PIPE :: u32 where [posix_defs]: "FD_TYPE_PIPE = 4"
definition CLOCK_REALTIME :: u32 where [posix_defs]: "CLOCK_REALTIME = 0"
definition CLOCK_MONOTONIC :: u32 where [posix_defs]: "CLOCK_MONOTONIC = 1"
definition O_RDONLY :: u32 where [posix_defs]: "O_RDONLY = 0x0000"
definition O_WRONLY :: u32 where [posix_defs]: "O_WRONLY = 0x0001"
definition O_RDWR :: u32 where [posix_defs]: "O_RDWR = 0x0002"
definition O_CREAT :: u32 where [posix_defs]: "O_CREAT = 0x0040"
definition O_TRUNC :: u32 where [posix_defs]: "O_TRUNC = 0x0200"
definition O_APPEND :: u32 where [posix_defs]: "O_APPEND = 0x0400"
definition GPIO_SET_OUTPUT :: u32 where [posix_defs]: "GPIO_SET_OUTPUT = 0x00"
definition GPIO_GET_INPUT :: u32 where [posix_defs]: "GPIO_GET_INPUT = 0x04"
definition GPIO_SET_DIR :: u32 where [posix_defs]: "GPIO_SET_DIR = 0x08"
definition ENOMEM :: u32 where [posix_defs]: "ENOMEM = 12"
definition EINVAL :: u32 where [posix_defs]: "EINVAL = 22"
definition EAGAIN :: u32 where [posix_defs]: "EAGAIN = 11"
definition EBUSY :: u32 where [posix_defs]: "EBUSY = 16"
definition ETIMEDOUT :: u32 where [posix_defs]: "ETIMEDOUT = 110"
definition ENOSYS :: u32 where [posix_defs]: "ENOSYS = 38"
definition EBADF :: u32 where [posix_defs]: "EBADF = 9"
definition SYS_PTHREAD_CREATE :: u32 where [posix_defs]: "SYS_PTHREAD_CREATE = 0x00"
definition SYS_PTHREAD_EXIT :: u32 where [posix_defs]: "SYS_PTHREAD_EXIT = 0x01"
definition SYS_PTHREAD_JOIN :: u32 where [posix_defs]: "SYS_PTHREAD_JOIN = 0x02"
definition SYS_PTHREAD_DETACH :: u32 where [posix_defs]: "SYS_PTHREAD_DETACH = 0x03"
definition SYS_PTHREAD_SELF :: u32 where [posix_defs]: "SYS_PTHREAD_SELF = 0x04"
definition SYS_PTHREAD_YIELD :: u32 where [posix_defs]: "SYS_PTHREAD_YIELD = 0x05"
definition SYS_PTHREAD_SETSCHEDPARAM :: u32 where [posix_defs]: "SYS_PTHREAD_SETSCHEDPARAM = 0x06"
definition SYS_PTHREAD_GETSCHEDPARAM :: u32 where [posix_defs]: "SYS_PTHREAD_GETSCHEDPARAM = 0x07"
definition SYS_MUTEX_INIT :: u32 where [posix_defs]: "SYS_MUTEX_INIT = 0x10"
definition SYS_MUTEX_LOCK :: u32 where [posix_defs]: "SYS_MUTEX_LOCK = 0x11"
definition SYS_MUTEX_TRYLOCK :: u32 where [posix_defs]: "SYS_MUTEX_TRYLOCK = 0x12"
definition SYS_MUTEX_UNLOCK :: u32 where [posix_defs]: "SYS_MUTEX_UNLOCK = 0x13"
definition SYS_MUTEX_DESTROY :: u32 where [posix_defs]: "SYS_MUTEX_DESTROY = 0x14"
definition SYS_SEM_INIT :: u32 where [posix_defs]: "SYS_SEM_INIT = 0x20"
definition SYS_SEM_WAIT :: u32 where [posix_defs]: "SYS_SEM_WAIT = 0x21"
definition SYS_SEM_TRYWAIT :: u32 where [posix_defs]: "SYS_SEM_TRYWAIT = 0x22"
definition SYS_SEM_TIMEDWAIT :: u32 where [posix_defs]: "SYS_SEM_TIMEDWAIT = 0x23"
definition SYS_SEM_POST :: u32 where [posix_defs]: "SYS_SEM_POST = 0x24"
definition SYS_SEM_GETVALUE :: u32 where [posix_defs]: "SYS_SEM_GETVALUE = 0x25"
definition SYS_SEM_DESTROY :: u32 where [posix_defs]: "SYS_SEM_DESTROY = 0x26"
definition SYS_MQ_OPEN :: u32 where [posix_defs]: "SYS_MQ_OPEN = 0x30"
definition SYS_MQ_SEND :: u32 where [posix_defs]: "SYS_MQ_SEND = 0x31"
definition SYS_MQ_RECEIVE :: u32 where [posix_defs]: "SYS_MQ_RECEIVE = 0x32"
definition SYS_MQ_CLOSE :: u32 where [posix_defs]: "SYS_MQ_CLOSE = 0x33"
definition SYS_MQ_TIMEDRECEIVE :: u32 where [posix_defs]: "SYS_MQ_TIMEDRECEIVE = 0x34"
definition SYS_MQ_TIMEDSEND :: u32 where [posix_defs]: "SYS_MQ_TIMEDSEND = 0x35"
definition SYS_CLOCK_GETTIME :: u32 where [posix_defs]: "SYS_CLOCK_GETTIME = 0x40"
definition SYS_CLOCK_SETTIME :: u32 where [posix_defs]: "SYS_CLOCK_SETTIME = 0x41"
definition SYS_NANOSLEEP :: u32 where [posix_defs]: "SYS_NANOSLEEP = 0x42"
definition SYS_TIMER_CREATE :: u32 where [posix_defs]: "SYS_TIMER_CREATE = 0x43"
definition SYS_TIMER_SETTIME :: u32 where [posix_defs]: "SYS_TIMER_SETTIME = 0x44"
definition SYS_TIMER_DELETE :: u32 where [posix_defs]: "SYS_TIMER_DELETE = 0x45"
definition SYS_TIMER_GETTIME :: u32 where [posix_defs]: "SYS_TIMER_GETTIME = 0x46"
definition SYS_OPEN :: u32 where [posix_defs]: "SYS_OPEN = 0x50"
definition SYS_CLOSE :: u32 where [posix_defs]: "SYS_CLOSE = 0x51"
definition SYS_READ :: u32 where [posix_defs]: "SYS_READ = 0x52"
definition SYS_IOCTL :: u32 where [posix_defs]: "SYS_IOCTL = 0x54"
definition SYS_LSEEK :: u32 where [posix_defs]: "SYS_LSEEK = 0x55"

section \<open>Types of sw/lib/vsync\_posix.h\<close>

type_synonym pthread_t = u32
type_synonym pthread_mutex_t = u32
type_synonym pthread_mutexattr_t = u32
type_synonym sem_t = u32
type_synonym mqd_t = u32
type_synonym clockid_t = u32

record pthread_attr_t =
  stack_size :: u32
  priority :: u32
  detach_state :: u32

record mq_attr_t =
  mq_flags :: u32
  mq_maxmsg :: u32
  mq_msgsize :: u32
  mq_curmsgs :: u32

record timespec_t =
  tv_sec :: u32
  tv_nsec :: u32

record sched_param_t =
  sched_priority :: u32

section \<open>System call stubs\<close>

type_synonym ('w, 'x) sys_result = "(u32 \<times> ('w, 'x) machine_scheme) option"

definition syscall0 :: "'w platform \<Rightarrow> u32 \<Rightarrow> ('w, 'x) machine_scheme \<Rightarrow> ('w, 'x) sys_result" where
  "syscall0 P num s = ecall P num [] s"

definition syscall1 ::
  "'w platform \<Rightarrow> u32 \<Rightarrow> u32 \<Rightarrow> ('w, 'x) machine_scheme \<Rightarrow> ('w, 'x) sys_result" where
  "syscall1 P num a0 s = ecall P num [a0] s"

definition syscall2 ::
  "'w platform \<Rightarrow> u32 \<Rightarrow> u32 \<Rightarrow> u32 \<Rightarrow> ('w, 'x) machine_scheme \<Rightarrow> ('w, 'x) sys_result" where
  "syscall2 P num a0 a1 s = ecall P num [a0, a1] s"

definition syscall3 ::
  "'w platform \<Rightarrow> u32 \<Rightarrow> u32 \<Rightarrow> u32 \<Rightarrow> u32 \<Rightarrow> ('w, 'x) machine_scheme \<Rightarrow> ('w, 'x) sys_result"
  where
  "syscall3 P num a0 a1 a2 s = ecall P num [a0, a1, a2] s"

definition syscall4 ::
  "'w platform \<Rightarrow> u32 \<Rightarrow> u32 \<Rightarrow> u32 \<Rightarrow> u32 \<Rightarrow> u32 \<Rightarrow> ('w, 'x) machine_scheme \<Rightarrow> ('w, 'x) sys_result"
  where
  "syscall4 P num a0 a1 a2 a3 s = ecall P num [a0, a1, a2, a3] s"

section \<open>Threads\<close>

definition pthread_create ::
  "'w platform \<Rightarrow> u32 \<Rightarrow> u32 \<Rightarrow> u32 \<Rightarrow> u32 \<Rightarrow> ('w, 'x) machine_scheme \<Rightarrow> ('w, 'x) sys_result" where
  "pthread_create P thread attr start_routine arg s = syscall4 P SYS_PTHREAD_CREATE thread attr start_routine arg s"

text \<open>\<open>while (1) wfi\<close>: a wait for an interrupt changes nothing the program can see.\<close>

partial_function (option) wfi_loop :: "('w, 'x) machine_scheme \<Rightarrow> ('w, 'x) machine_scheme option" where
  "wfi_loop s = wfi_loop s"

definition pthread_exit ::
  "'w platform \<Rightarrow> u32 \<Rightarrow> ('w, 'x) machine_scheme \<Rightarrow> ('w, 'x) machine_scheme option" where
  "pthread_exit P retval s = do { (_, s) \<leftarrow> syscall1 P SYS_PTHREAD_EXIT retval s; wfi_loop s }"

definition pthread_yield ::
  "'w platform \<Rightarrow> ('w, 'x) machine_scheme \<Rightarrow> ('w, 'x) sys_result" where
  "pthread_yield P s = syscall0 P SYS_PTHREAD_YIELD s"

definition pthread_self ::
  "'w platform \<Rightarrow> ('w, 'x) machine_scheme \<Rightarrow> ('w, 'x) sys_result" where
  "pthread_self P s = syscall0 P SYS_PTHREAD_SELF s"

definition pthread_join ::
  "'w platform \<Rightarrow> u32 \<Rightarrow> u32 \<Rightarrow> ('w, 'x) machine_scheme \<Rightarrow> ('w, 'x) sys_result" where
  "pthread_join P thread retval s = syscall2 P SYS_PTHREAD_JOIN thread retval s"

definition pthread_detach ::
  "'w platform \<Rightarrow> u32 \<Rightarrow> ('w, 'x) machine_scheme \<Rightarrow> ('w, 'x) sys_result" where
  "pthread_detach P thread s = syscall1 P SYS_PTHREAD_DETACH thread s"

section \<open>Mutexes and semaphores\<close>

definition pthread_mutex_init ::
  "'w platform \<Rightarrow> u32 \<Rightarrow> u32 \<Rightarrow> ('w, 'x) machine_scheme \<Rightarrow> ('w, 'x) sys_result" where
  "pthread_mutex_init P mutex attr s = syscall2 P SYS_MUTEX_INIT mutex attr s"

definition pthread_mutex_lock ::
  "'w platform \<Rightarrow> u32 \<Rightarrow> ('w, 'x) machine_scheme \<Rightarrow> ('w, 'x) sys_result" where
  "pthread_mutex_lock P mutex s = syscall1 P SYS_MUTEX_LOCK mutex s"

definition pthread_mutex_trylock ::
  "'w platform \<Rightarrow> u32 \<Rightarrow> ('w, 'x) machine_scheme \<Rightarrow> ('w, 'x) sys_result" where
  "pthread_mutex_trylock P mutex s = syscall1 P SYS_MUTEX_TRYLOCK mutex s"

definition pthread_mutex_unlock ::
  "'w platform \<Rightarrow> u32 \<Rightarrow> ('w, 'x) machine_scheme \<Rightarrow> ('w, 'x) sys_result" where
  "pthread_mutex_unlock P mutex s = syscall1 P SYS_MUTEX_UNLOCK mutex s"

definition pthread_mutex_destroy ::
  "'w platform \<Rightarrow> u32 \<Rightarrow> ('w, 'x) machine_scheme \<Rightarrow> ('w, 'x) sys_result" where
  "pthread_mutex_destroy P mutex s = syscall1 P SYS_MUTEX_DESTROY mutex s"

definition sem_init ::
  "'w platform \<Rightarrow> u32 \<Rightarrow> u32 \<Rightarrow> u32 \<Rightarrow> ('w, 'x) machine_scheme \<Rightarrow> ('w, 'x) sys_result" where
  "sem_init P sem pshared value s = syscall3 P SYS_SEM_INIT sem pshared value s"

definition sem_wait ::
  "'w platform \<Rightarrow> u32 \<Rightarrow> ('w, 'x) machine_scheme \<Rightarrow> ('w, 'x) sys_result" where
  "sem_wait P sem s = syscall1 P SYS_SEM_WAIT sem s"

definition sem_trywait ::
  "'w platform \<Rightarrow> u32 \<Rightarrow> ('w, 'x) machine_scheme \<Rightarrow> ('w, 'x) sys_result" where
  "sem_trywait P sem s = syscall1 P SYS_SEM_TRYWAIT sem s"

definition sem_post ::
  "'w platform \<Rightarrow> u32 \<Rightarrow> ('w, 'x) machine_scheme \<Rightarrow> ('w, 'x) sys_result" where
  "sem_post P sem s = syscall1 P SYS_SEM_POST sem s"

definition sem_getvalue ::
  "'w platform \<Rightarrow> u32 \<Rightarrow> u32 \<Rightarrow> ('w, 'x) machine_scheme \<Rightarrow> ('w, 'x) sys_result" where
  "sem_getvalue P sem sval s = syscall2 P SYS_SEM_GETVALUE sem sval s"

definition sem_destroy ::
  "'w platform \<Rightarrow> u32 \<Rightarrow> ('w, 'x) machine_scheme \<Rightarrow> ('w, 'x) sys_result" where
  "sem_destroy P sem s = syscall1 P SYS_SEM_DESTROY sem s"

section \<open>Message queues\<close>

definition mq_open ::
  "'w platform \<Rightarrow> u32 \<Rightarrow> u32 \<Rightarrow> ('w, 'x) machine_scheme \<Rightarrow> ('w, 'x) sys_result" where
  "mq_open P name oflag s = syscall2 P SYS_MQ_OPEN name oflag s"

definition mq_send ::
  "'w platform \<Rightarrow> u32 \<Rightarrow> u32 \<Rightarrow> u32 \<Rightarrow> u32 \<Rightarrow> ('w, 'x) machine_scheme \<Rightarrow> ('w, 'x) sys_result" where
  "mq_send P mqdes msg_ptr msg_len msg_prio s = syscall4 P SYS_MQ_SEND mqdes msg_ptr msg_len msg_prio s"

definition mq_receive ::
  "'w platform \<Rightarrow> u32 \<Rightarrow> u32 \<Rightarrow> u32 \<Rightarrow> u32 \<Rightarrow> ('w, 'x) machine_scheme \<Rightarrow> ('w, 'x) sys_result" where
  "mq_receive P mqdes msg_ptr msg_len msg_prio s = syscall4 P SYS_MQ_RECEIVE mqdes msg_ptr msg_len msg_prio s"

definition mq_close ::
  "'w platform \<Rightarrow> u32 \<Rightarrow> ('w, 'x) machine_scheme \<Rightarrow> ('w, 'x) sys_result" where
  "mq_close P mqdes s = syscall1 P SYS_MQ_CLOSE mqdes s"

section \<open>Files and clocks\<close>

text \<open>
  \<open>open\<close>, \<open>close\<close>, \<open>read\<close> and \<open>write\<close> carry the prefix \<open>posix_\<close>. \<open>write\<close> makes one call per byte
  of the buffer \<open>p\<close>; a read past the end of the buffer is out of bounds.
\<close>

definition posix_open ::
  "'w platform \<Rightarrow> u32 \<Rightarrow> u32 \<Rightarrow> ('w, 'x) machine_scheme \<Rightarrow> ('w, 'x) sys_result" where
  "posix_open P fd_type flags s = syscall2 P SYS_OPEN fd_type flags s"

definition posix_close ::
  "'w platform \<Rightarrow> u32 \<Rightarrow> ('w, 'x) machine_scheme \<Rightarrow> ('w, 'x) sys_result" where
  "posix_close P fd s = syscall1 P SYS_CLOSE fd s"

definition posix_read ::
  "'w platform \<Rightarrow> u32 \<Rightarrow> u32 \<Rightarrow> u32 \<Rightarrow> ('w, 'x) machine_scheme \<Rightarrow> ('w, 'x) sys_result" where
  "posix_read P fd buf count s = syscall3 P SYS_READ fd buf count s"

function write_loop ::
  "'w platform \<Rightarrow> u32 \<Rightarrow> byte list \<Rightarrow> u32 \<Rightarrow> u32 \<Rightarrow> ('w, 'x) machine_scheme \<Rightarrow> ('w, 'x) sys_result"
  where
  "write_loop P fd p count i s =
     (if i < count then
        if unat i < length p then
          do { (ret, s') \<leftarrow> syscall3 P SYS_WRITE fd (ucast (p ! unat i)) 1 s;
               if sint ret < 0 then Some (ret, s') else write_loop P fd p count (i + 1) s' }
        else None
      else Some (count, s))"
  by pat_completeness auto
termination
proof (relation "measure (\<lambda>(P, fd, p, count, i, s). unat count - unat i)", goal_cases)
  case (2 P fd p count i s)
  then show ?case using unat_less_Suc_word [of i count] by (simp add: word_less_nat_alt)
qed simp

declare write_loop.simps [simp del]

definition posix_write ::
  "'w platform \<Rightarrow> u32 \<Rightarrow> byte list \<Rightarrow> u32 \<Rightarrow> ('w, 'x) machine_scheme \<Rightarrow> ('w, 'x) sys_result" where
  "posix_write P fd buf count s = write_loop P fd buf count 0 s"

definition ioctl ::
  "'w platform \<Rightarrow> u32 \<Rightarrow> u32 \<Rightarrow> u32 \<Rightarrow> ('w, 'x) machine_scheme \<Rightarrow> ('w, 'x) sys_result" where
  "ioctl P fd request arg s = syscall3 P SYS_IOCTL fd request arg s"

definition lseek ::
  "'w platform \<Rightarrow> u32 \<Rightarrow> u32 \<Rightarrow> u32 \<Rightarrow> ('w, 'x) machine_scheme \<Rightarrow> ('w, 'x) sys_result" where
  "lseek P fd offset whence s = syscall3 P SYS_LSEEK fd offset whence s"

definition clock_gettime ::
  "'w platform \<Rightarrow> u32 \<Rightarrow> u32 \<Rightarrow> ('w, 'x) machine_scheme \<Rightarrow> ('w, 'x) sys_result" where
  "clock_gettime P clk_id tp s = syscall2 P SYS_CLOCK_GETTIME clk_id tp s"

definition nanosleep ::
  "'w platform \<Rightarrow> u32 \<Rightarrow> u32 \<Rightarrow> ('w, 'x) machine_scheme \<Rightarrow> ('w, 'x) sys_result" where
  "nanosleep P req rem s = syscall2 P SYS_NANOSLEEP req rem s"

section \<open>Behaviour\<close>

lemma wfi_loop_None [simp]: "wfi_loop s = None"
proof (cases "wfi_loop s")
  case (Some y)
  then have False
    by (rule wfi_loop.raw_induct [rotated])
  then show ?thesis ..
qed

lemma pthread_exit_None: "pthread_exit P retval s = None"
  by (cases "syscall1 P SYS_PTHREAD_EXIT retval s") (auto simp: pthread_exit_def)

text \<open>
  \<open>writes fd bs rs\<close>: the calls of \<open>write\<close> for the bytes \<open>bs\<close> with the results \<open>rs\<close>. A call of
  \<open>write\<close> delivers a prefix of the bytes in order: either every call succeeded and the result is
  the count, or the last call failed and its error is the result.
\<close>

definition writes :: "u32 \<Rightarrow> byte list \<Rightarrow> u32 list \<Rightarrow> io_event list" where
  "writes fd bs rs = map2 (\<lambda>b r. Ecall SYS_WRITE [fd, ucast b, 1] r) bs rs"

lemma writes_simps [simp]:
  "writes fd [] rs = []"
  "writes fd bs [] = []"
  "writes fd (b # bs) (r # rs) = Ecall SYS_WRITE [fd, ucast b, 1] r # writes fd bs rs"
  by (simp_all add: writes_def)

definition write_result :: "u32 \<Rightarrow> u32 list \<Rightarrow> u32 \<Rightarrow> nat \<Rightarrow> bool" where
  "write_result count rs ret n \<longleftrightarrow>
     (length rs = n \<and> ret = count \<and> (\<forall>r \<in> set rs. 0 \<le> sint r))
     \<or> (\<exists>ok. rs = ok @ [ret] \<and> length rs \<le> n \<and> (\<forall>r \<in> set ok. 0 \<le> sint r) \<and> sint ret < 0)"

lemma write_result_stop: "sint ret < 0 \<Longrightarrow> 0 < n \<Longrightarrow> write_result count [ret] ret n"
  by (auto simp: write_result_def)

lemma write_result_Cons:
  "0 \<le> sint r \<Longrightarrow> write_result count rs ret n \<Longrightarrow> write_result count (r # rs) ret (Suc n)"
  by (auto simp: write_result_def)

lemma write_loop_trace:
  assumes "write_loop P fd p count i s = Some (ret, s')" and "i \<le> count"
    and "unat i \<le> length p"
  shows "\<exists>rs. trace s' = trace s @ writes fd (drop (unat i) p) rs
    \<and> write_result count rs ret (unat count - unat i)
    \<and> unat i + length rs \<le> length p"
  using assms
proof (induction P fd p count i s rule: write_loop.induct)
  case (1 P fd p count i s)
  show ?case
  proof (cases "i < count")
    case False
    with "1.prems" show ?thesis
      by (intro exI [of _ "[]"]) (auto simp: write_loop.simps [of P fd p count i] write_result_def)
  next
    case True
    with "1.prems" obtain r s1 where ip: "unat i < length p"
      and call: "syscall3 P SYS_WRITE fd (ucast (p ! unat i)) 1 s = Some (r, s1)"
      and rest: "(if sint r < 0 then Some (r, s1) else write_loop P fd p count (i + 1) s1) = Some (ret, s')"
      by (auto simp: write_loop.simps [of P fd p count i] Option.bind_eq_Some_conv split: if_split_asm)
    from call have tr: "trace s1 = trace s @ [Ecall SYS_WRITE [fd, ucast (p ! unat i), 1] r]"
      by (auto simp: syscall3_def ecall_def Option.bind_eq_Some_conv)
    have drop: "drop (unat i) p = p ! unat i # drop (Suc (unat i)) p"
      using ip by (rule Cons_nth_drop_Suc [symmetric])
    have n: "unat count - unat i = Suc (unat count - Suc (unat i))"
      using True by (simp add: word_less_nat_alt)
    have next_i: "unat (i + 1) = Suc (unat i)" and le: "i + 1 \<le> count"
      using True unat_less_Suc_word [OF True] by (simp_all add: word_less_nat_alt word_le_nat_alt)
    show ?thesis
    proof (cases "sint r < 0")
      case True
      with rest tr drop ip n show ?thesis
        by (intro exI [of _ "[r]"]) (auto simp: write_result_stop)
    next
      case False
      then obtain rs where "trace s' = trace s1 @ writes fd (drop (Suc (unat i)) p) rs"
        "write_result count rs ret (unat count - Suc (unat i))" "Suc (unat i) + length rs \<le> length p"
        using "1.IH" [OF \<open>i < count\<close> ip call refl False _ le] rest next_i ip by auto
      with False tr drop n show ?thesis
        by (intro exI [of _ "r # rs"]) (auto simp: write_result_Cons)
    qed
  qed
qed

lemma posix_write_trace:
  assumes "posix_write P fd buf count s = Some (ret, s')"
  shows "\<exists>rs. trace s' = trace s @ writes fd buf rs \<and> write_result count rs ret (unat count)
    \<and> length rs \<le> length buf"
  using write_loop_trace [OF assms [unfolded posix_write_def]] by simp

lemma posix_write_byte:
  "posix_write P fd [b] 1 s = do { (ret, s) \<leftarrow> syscall3 P SYS_WRITE fd (ucast b) 1 s;
     Some (if sint ret < 0 then ret else 1, s) }"
  by (auto simp: posix_write_def write_loop.simps [of P fd "[b]" 1 0]
      write_loop.simps [of P fd "[b]" 1 1] intro!: Option.bind_cong)

end
