(* ===== verification/Posix_Layer.thy ===== *)
theory Posix_Layer
  imports Posix_Lib
begin

text \<open>
  rtl/posix/posix_hw_layer.sv at the level of clock edges: the state machine that serves the system
  calls, its descriptor table and its signal and heap tables. The hardware RTOS and the peripheral
  bridge are inputs. The AXI slave that shows the state for debugging only reads it and is not
  modelled.
\<close>

section \<open>Constants\<close>

named_theorems layer_defs "constants of the POSIX hardware layer"

definition POSIX_EMFILE :: u32 where [layer_defs]: "POSIX_EMFILE = 0xFFFFFFE4"
definition POSIX_ENOENT :: u32 where [layer_defs]: "POSIX_ENOENT = 0xFFFFFFFE"
definition POSIX_EPERM :: u32 where [layer_defs]: "POSIX_EPERM = 0xFFFFFFFF"
definition POSIX_ESPIPE :: u32 where [layer_defs]: "POSIX_ESPIPE = 0xFFFFFFE3"
definition POSIX_ESRCH :: u32 where [layer_defs]: "POSIX_ESRCH = 0xFFFFFFFD"
definition POSIX_EINVAL :: u32 where [layer_defs]: "POSIX_EINVAL = 0xFFFFFFEA"
definition POSIX_EAGAIN :: u32 where [layer_defs]: "POSIX_EAGAIN = 0xFFFFFFF5"
definition POSIX_EBUSY :: u32 where [layer_defs]: "POSIX_EBUSY = 0xFFFFFFF0"
definition POSIX_ENOSYS :: u32 where [layer_defs]: "POSIX_ENOSYS = 0xFFFFFFD8"
definition POSIX_EBADF :: u32 where [layer_defs]: "POSIX_EBADF = 0xFFFFFFF7"
definition MAX_FD :: nat where [layer_defs]: "MAX_FD = 16"
definition MAX_TASKS :: nat where [layer_defs]: "MAX_TASKS = 16"

definition ADDR_MTIME_LO :: u32 where "ADDR_MTIME_LO = 0x0200BFF8"
definition ADDR_MTIME_HI :: u32 where "ADDR_MTIME_HI = 0x0200BFFC"

section \<open>State and inputs\<close>

datatype posix_state_t = S_IDLE | S_DECODE | S_THREAD_OP | S_MUTEX_OP | S_SEM_OP | S_MSGQ_OP
  | S_TIMER_OP | S_FILE_OP | S_SIGNAL_OP | S_SYSTEM_OP | S_PERIPH_WAIT | S_WAIT_RTOS | S_COMPLETE

record posix =
  state_r :: posix_state_t
  latched_syscall_num :: byte
  latched_arg0 :: u32
  latched_arg1 :: u32
  latched_arg2 :: u32
  result_r :: u32
  fd_valid :: "bool list"
  fd_type_r :: "u32 list"
  fd_base_addr :: "u32 list"
  fd_flags :: "16 word list"
  pending_syscall_cnt :: byte
  last_syscall_num_r :: byte
  last_syscall_ret_r :: u32
  heap_brk :: "u32 list"
  signal_pending :: "u32 list"
  signal_mask :: "u32 list"
  sig_handler :: "u32 list"
  sigwait_set :: "u32 list"
  current_tid_r :: "4 word"

definition posix_reset :: posix where
  "posix_reset = \<lparr>state_r = S_IDLE, latched_syscall_num = 0, latched_arg0 = 0, latched_arg1 = 0,
     latched_arg2 = 0, result_r = 0,
     fd_valid = replicate 3 True @ replicate 13 False,
     fd_type_r = replicate 3 FD_TYPE_UART @ replicate 13 FD_TYPE_NONE,
     fd_base_addr = replicate 3 UART_BASE @ replicate 13 0,
     fd_flags = [0, 1, 1] @ replicate 13 0,
     pending_syscall_cnt = 0, last_syscall_num_r = 0, last_syscall_ret_r = 0,
     heap_brk = replicate 16 0, signal_pending = replicate 16 0, signal_mask = replicate 16 0,
     sig_handler = replicate 16 0, sigwait_set = replicate 16 0, current_tid_r = 0\<rparr>"

text \<open>The request of the core, the answers of the RTOS and of the peripheral bridge.\<close>

record ecall_port =
  ecall_req :: bool
  syscall_num :: byte
  syscall_arg0 :: u32
  syscall_arg1 :: u32
  syscall_arg2 :: u32

record rtos_port =
  rtos_task_create_done :: bool
  rtos_task_create_id :: "4 word"
  rtos_task_join_done :: bool
  rtos_sem_done :: bool
  rtos_sem_result :: bool
  rtos_mutex_done :: bool
  rtos_mutex_result :: bool
  rtos_msgq_done :: bool
  rtos_msgq_result :: u32
  rtos_msgq_success :: bool
  rtos_current_tid :: "4 word"

record periph_port =
  periph_rdata :: u32
  periph_ready :: bool

text \<open>Category and operation of the latched call, and the indices its first argument selects.\<close>

definition syscall_category :: "posix \<Rightarrow> nat" where
  "syscall_category p = unat (latched_syscall_num p) div 16"

definition syscall_subop :: "posix \<Rightarrow> nat" where
  "syscall_subop p = unat (latched_syscall_num p) mod 16"

definition fd_index :: "posix \<Rightarrow> nat" where
  "fd_index p = unat (latched_arg0 p) mod 16"

definition fd_open :: "posix \<Rightarrow> bool" where
  "fd_open p \<longleftrightarrow> unat (latched_arg0 p) < MAX_FD \<and> fd_valid p ! fd_index p"

text \<open>The first free descriptor from 3 on, \<open>MAX_FD\<close> when there is none.\<close>

definition free_fd_idx :: "posix \<Rightarrow> nat" where
  "free_fd_idx p = (case filter (\<lambda>i. \<not> fd_valid p ! i) [3..<MAX_FD] of [] \<Rightarrow> MAX_FD | i # _ \<Rightarrow> i)"

definition device_type :: "posix \<Rightarrow> u32" where
  "device_type p = latched_arg0 p AND 7"

definition get_device_base :: "u32 \<Rightarrow> u32" where
  "get_device_base t =
     (if t = FD_TYPE_UART then UART_BASE
      else if t = FD_TYPE_GPIO then GPIO_BASE
      else if t = FD_TYPE_MEM then HYPERRAM_BASE
      else 0)"

section \<open>Next state\<close>

definition decode_state :: "posix \<Rightarrow> posix_state_t" where
  "decode_state p =
     (let c = syscall_category p in
      if c = 0 then S_THREAD_OP else if c = 1 then S_MUTEX_OP else if c = 2 then S_SEM_OP
      else if c = 3 then S_MSGQ_OP else if c = 4 then S_TIMER_OP else if c = 5 then S_FILE_OP
      else if c = 6 then S_SIGNAL_OP else if c = 7 then S_SYSTEM_OP else S_COMPLETE)"

definition rtos_done :: "posix \<Rightarrow> rtos_port \<Rightarrow> bool" where
  "rtos_done p k =
     (let c = syscall_category p in
      if c = 0 then (if syscall_subop p = 2 then rtos_task_join_done k else rtos_task_create_done k)
      else if c = 1 then rtos_mutex_done k
      else if c = 2 then rtos_sem_done k
      else if c = 3 then rtos_msgq_done k
      else True)"

definition state_next :: "ecall_port \<Rightarrow> rtos_port \<Rightarrow> periph_port \<Rightarrow> posix \<Rightarrow> posix_state_t" where
  "state_next c k d p =
     (let op = syscall_subop p in case state_r p of
        S_IDLE \<Rightarrow> if ecall_req c then S_DECODE else S_IDLE
      | S_DECODE \<Rightarrow> decode_state p
      | S_THREAD_OP \<Rightarrow> if op \<in> {0, 2, 6, 7} then S_WAIT_RTOS else S_COMPLETE
      | S_MUTEX_OP \<Rightarrow> if op < 5 then S_WAIT_RTOS else S_COMPLETE
      | S_SEM_OP \<Rightarrow> if op < 7 then S_WAIT_RTOS else S_COMPLETE
      | S_MSGQ_OP \<Rightarrow> if op < 6 then S_WAIT_RTOS else S_COMPLETE
      | S_TIMER_OP \<Rightarrow> S_PERIPH_WAIT
      | S_FILE_OP \<Rightarrow> if op \<in> {2, 3, 4} \<and> fd_open p then S_PERIPH_WAIT else S_COMPLETE
      | S_SIGNAL_OP \<Rightarrow> S_COMPLETE
      | S_SYSTEM_OP \<Rightarrow> S_COMPLETE
      | S_PERIPH_WAIT \<Rightarrow> if periph_ready d then S_COMPLETE else S_PERIPH_WAIT
      | S_WAIT_RTOS \<Rightarrow> if rtos_done p k then S_COMPLETE else S_WAIT_RTOS
      | S_COMPLETE \<Rightarrow> S_IDLE)"

section \<open>Outputs\<close>

text \<open>The access asked of the peripheral bridge: write or read, address and data.\<close>

definition periph_out :: "posix \<Rightarrow> (bool \<times> u32 \<times> u32) option" where
  "periph_out p =
     (let op = syscall_subop p; base = fd_base_addr p ! fd_index p in case state_r p of
        S_TIMER_OP \<Rightarrow>
          if op = 0 \<or> op = 2 then Some (False, ADDR_MTIME_LO, 0)
          else if op = 1 then Some (True, ADDR_MTIME_HI, latched_arg2 p)
          else Some (False, CLINT_BASE + of_nat (16 * op), 0)
      | S_FILE_OP \<Rightarrow>
          if op = 2 \<and> fd_open p then
            Some (False, if fd_type_r p ! fd_index p = FD_TYPE_UART then base + 0x04 else base, 0)
          else if op = 3 \<and> fd_open p then Some (True, base, latched_arg1 p)
          else if op = 4 \<and> fd_open p then
            Some (True, base + (latched_arg1 p AND 0xFFF), latched_arg2 p)
          else None
      | _ \<Rightarrow> None)"

definition syscall_done :: "posix \<Rightarrow> bool" where
  "syscall_done p \<longleftrightarrow> state_r p = S_COMPLETE"

text \<open>The commands to the RTOS.\<close>

record rtos_cmd =
  rtos_task_create :: bool
  rtos_task_create_pc :: u32
  rtos_task_create_sp :: u32
  rtos_task_create_prio :: "4 word"
  rtos_task_exit :: bool
  rtos_task_join :: bool
  rtos_task_target_id :: "4 word"
  rtos_task_yield :: bool
  rtos_sem_op :: nat
  rtos_sem_id :: nat
  rtos_sem_value :: byte
  rtos_mutex_op :: nat
  rtos_mutex_id :: nat
  rtos_msgq_op :: nat
  rtos_msgq_id :: nat
  rtos_msgq_data :: u32

definition rtos_none :: rtos_cmd where
  "rtos_none = \<lparr>rtos_task_create = False, rtos_task_create_pc = 0, rtos_task_create_sp = 0,
     rtos_task_create_prio = 0, rtos_task_exit = False, rtos_task_join = False,
     rtos_task_target_id = 0, rtos_task_yield = False, rtos_sem_op = 0, rtos_sem_id = 0,
     rtos_sem_value = 0, rtos_mutex_op = 0, rtos_mutex_id = 0, rtos_msgq_op = 0, rtos_msgq_id = 0,
     rtos_msgq_data = 0\<rparr>"

definition thread_cmd :: "posix \<Rightarrow> rtos_cmd" where
  "thread_cmd p =
     (let op = syscall_subop p in
      if op = 0 then rtos_none\<lparr>rtos_task_create := True, rtos_task_create_pc := latched_arg0 p,
        rtos_task_create_sp := latched_arg1 p, rtos_task_create_prio := ucast (latched_arg2 p)\<rparr>
      else if op = 2 then rtos_none\<lparr>rtos_task_join := True, rtos_task_target_id := ucast (latched_arg0 p)\<rparr>
      else if state_r p = S_WAIT_RTOS then rtos_none
      else if op = 1 then rtos_none\<lparr>rtos_task_exit := True\<rparr>
      else if op = 5 then rtos_none\<lparr>rtos_task_yield := True\<rparr>
      else if op = 6 then rtos_none\<lparr>rtos_task_create := True, rtos_task_create_pc := latched_arg0 p,
        rtos_task_create_sp := latched_arg1 p\<rparr>
      else if op = 7 then rtos_none\<lparr>rtos_task_create := True, rtos_task_create_pc := latched_arg0 p\<rparr>
      else rtos_none)"

definition mutex_cmd :: "posix \<Rightarrow> rtos_cmd" where
  "mutex_cmd p = rtos_none\<lparr>rtos_mutex_id := unat (latched_arg0 p) mod 8,
     rtos_mutex_op := (let op = syscall_subop p in
       if op = 0 \<or> op = 4 then 1 else if op = 1 \<or> op = 2 then 2 else if op = 3 then 3 else 0)\<rparr>"

definition sem_cmd :: "posix \<Rightarrow> rtos_cmd" where
  "sem_cmd p = rtos_none\<lparr>rtos_sem_id := unat (latched_arg0 p) mod 8,
     rtos_sem_value := (if syscall_subop p = 0 then ucast (latched_arg1 p) else 0),
     rtos_sem_op := (let op = syscall_subop p in
       if op = 0 \<or> op = 5 \<or> op = 6 then 1 else if op = 1 \<or> op = 2 \<or> op = 3 then 2
       else if op = 4 then 3 else 0)\<rparr>"

definition msgq_cmd :: "posix \<Rightarrow> rtos_cmd" where
  "msgq_cmd p =
     (let op = syscall_subop p in
      rtos_none\<lparr>rtos_msgq_id := unat (latched_arg0 p) mod 4,
        rtos_msgq_data := (if op = 1 \<or> op = 5 then latched_arg1 p else 0),
        rtos_msgq_op := (if op = 0 \<or> op = 3 then 1 else if op = 1 \<or> op = 5 then 2
          else if op = 2 \<or> op = 4 then 3 else 0)\<rparr>)"

definition rtos_out :: "posix \<Rightarrow> rtos_cmd" where
  "rtos_out p = (case state_r p of
       S_THREAD_OP \<Rightarrow> thread_cmd p
     | S_MUTEX_OP \<Rightarrow> mutex_cmd p
     | S_SEM_OP \<Rightarrow> sem_cmd p
     | S_MSGQ_OP \<Rightarrow> msgq_cmd p
     | S_WAIT_RTOS \<Rightarrow>
         (let c = syscall_category p in
          if c = 0 then thread_cmd p else if c = 1 then mutex_cmd p
          else if c = 2 then sem_cmd p else if c = 3 then msgq_cmd p else rtos_none)
     | _ \<Rightarrow> rtos_none)"

section \<open>Results\<close>

definition file_result :: "posix \<Rightarrow> u32" where
  "file_result p =
     (let op = syscall_subop p in
      if op = 0 then
        (if device_type p \<le> 4 then
           (if free_fd_idx p < MAX_FD then of_nat (free_fd_idx p) else POSIX_EMFILE)
         else POSIX_ENOENT)
      else if op = 1 then
        (if \<not> fd_open p then POSIX_EBADF else if fd_index p \<le> 2 then POSIX_EPERM else 0)
      else if op = 2 then (if \<not> fd_open p then POSIX_EBADF else 0)
      else if op = 3 then (if \<not> fd_open p then POSIX_EBADF else latched_arg2 p)
      else if op = 4 then (if \<not> fd_open p then POSIX_EBADF else 0)
      else if op = 5 then
        (if \<not> fd_open p then POSIX_EBADF
         else if fd_type_r p ! fd_index p \<noteq> FD_TYPE_MEM then POSIX_ESPIPE
         else latched_arg1 p)
      else POSIX_ENOSYS)"

definition signal_number_ok :: "u32 \<Rightarrow> bool" where
  "signal_number_ok n \<longleftrightarrow> n < 32 \<and> n \<noteq> 0"

definition tid :: "posix \<Rightarrow> nat" where
  "tid p = unat (current_tid_r p)"

definition signal_result :: "posix \<Rightarrow> u32" where
  "signal_result p =
     (let op = syscall_subop p; a0 = latched_arg0 p in
      if op = 0 then
        (if unat a0 \<ge> MAX_TASKS then POSIX_ESRCH
         else if \<not> signal_number_ok (latched_arg1 p) then POSIX_EINVAL else 0)
      else if op = 1 then (if \<not> signal_number_ok a0 \<or> a0 = 9 then POSIX_EINVAL else 0)
      else if op = 2 then (if a0 > 2 then POSIX_EINVAL else signal_mask p ! tid p)
      else if op = 3 then (if a0 = 0 then POSIX_EINVAL else 0)
      else if op = 4 then (if \<not> signal_number_ok a0 then POSIX_EINVAL else 0)
      else POSIX_ENOSYS)"

definition sysconf_value :: "u32 \<Rightarrow> u32" where
  "sysconf_value n =
     (let i = unat n mod 16 in
      if i < 10 then [1, 1, 4096, of_nat MAX_TASKS, 8, 65535, 4, 8, of_nat MAX_FD, 1000] ! i
      else POSIX_EINVAL)"

definition system_result :: "posix \<Rightarrow> u32" where
  "system_result p =
     (let op = syscall_subop p in
      if op = 0 then sysconf_value (latched_arg0 p)
      else if op = 1 then 15
      else if op = 2 then 0
      else if op = 3 then heap_brk p ! tid p
      else POSIX_ENOSYS)"

definition rtos_answer :: "posix \<Rightarrow> rtos_port \<Rightarrow> u32" where
  "rtos_answer p k =
     (let c = syscall_category p in
      if c = 0 then (if syscall_subop p = 2 then 0 else ucast (rtos_task_create_id k))
      else if c = 1 then (if rtos_mutex_result k then 0 else POSIX_EBUSY)
      else if c = 2 then (if rtos_sem_result k then 0 else POSIX_EAGAIN)
      else if c = 3 then (if rtos_msgq_success k then rtos_msgq_result k else POSIX_EINVAL)
      else result_r p)"

definition result_next :: "rtos_port \<Rightarrow> periph_port \<Rightarrow> posix \<Rightarrow> u32" where
  "result_next k d p = (case state_r p of
       S_DECODE \<Rightarrow> if syscall_category p > 7 then POSIX_ENOSYS else 0
     | S_THREAD_OP \<Rightarrow> if syscall_subop p = 4 then ucast (current_tid_r p) else 0
     | S_MUTEX_OP \<Rightarrow> 0
     | S_SEM_OP \<Rightarrow> 0
     | S_MSGQ_OP \<Rightarrow> 0
     | S_FILE_OP \<Rightarrow> file_result p
     | S_TIMER_OP \<Rightarrow> 0
     | S_SIGNAL_OP \<Rightarrow> signal_result p
     | S_SYSTEM_OP \<Rightarrow> system_result p
     | S_PERIPH_WAIT \<Rightarrow> if periph_ready d then periph_rdata d else result_r p
     | S_WAIT_RTOS \<Rightarrow> if rtos_done p k then rtos_answer p k else result_r p
     | _ \<Rightarrow> result_r p)"

section \<open>Tables\<close>

text \<open>The descriptor table changes by \<open>open\<close> and \<open>close\<close>.\<close>

definition fd_update :: "posix \<Rightarrow> posix \<Rightarrow> posix" where
  "fd_update p p' =
     (if state_r p \<noteq> S_FILE_OP then p'
      else if syscall_subop p = 0 \<and> free_fd_idx p < MAX_FD then
        p'\<lparr>fd_valid := (fd_valid p)[free_fd_idx p := True],
           fd_type_r := (fd_type_r p)[free_fd_idx p := device_type p],
           fd_base_addr := (fd_base_addr p)[free_fd_idx p := get_device_base (device_type p)],
           fd_flags := (fd_flags p)[free_fd_idx p := ucast (latched_arg1 p)]\<rparr>
      else if syscall_subop p = 1 \<and> fd_open p \<and> fd_index p > 2 then
        p'\<lparr>fd_valid := (fd_valid p)[fd_index p := False],
           fd_type_r := (fd_type_r p)[fd_index p := FD_TYPE_NONE]\<rparr>
      else p')"

definition add_signal :: "u32 list \<Rightarrow> nat \<Rightarrow> u32 \<Rightarrow> u32 list" where
  "add_signal m t n = m[t := m ! t OR push_bit (unat n) 1]"

text \<open>The new mask of \<open>sigprocmask\<close>: signal 9 cannot be masked.\<close>

definition new_mask :: "posix \<Rightarrow> u32" where
  "new_mask p =
     (let old = signal_mask p ! tid p; how = unat (latched_arg0 p) mod 4 in
      if how = 0 then (old OR latched_arg1 p) AND NOT (push_bit 9 1)
      else if how = 1 then (old AND NOT (latched_arg1 p)) AND NOT (push_bit 9 1)
      else if how = 2 then latched_arg1 p AND NOT (push_bit 9 1)
      else old)"

definition signal_update :: "posix \<Rightarrow> posix \<Rightarrow> posix" where
  "signal_update p p' =
     (let op = syscall_subop p; a0 = latched_arg0 p; a1 = latched_arg1 p in
      if state_r p \<noteq> S_SIGNAL_OP then p'
      else if op = 0 \<and> unat a0 < MAX_TASKS \<and> signal_number_ok a1 then
        p'\<lparr>signal_pending := add_signal (signal_pending p) (unat a0 mod 16) a1\<rparr>
      else if op = 1 \<and> signal_number_ok a0 \<and> a0 \<noteq> 9 then
        p'\<lparr>sig_handler := (sig_handler p)[tid p := a1]\<rparr>
      else if op = 2 then p'\<lparr>signal_mask := (signal_mask p)[tid p := new_mask p]\<rparr>
      else if op = 3 \<and> a0 \<noteq> 0 then p'\<lparr>sigwait_set := (sigwait_set p)[tid p := a0]\<rparr>
      else if op = 4 \<and> signal_number_ok a0 then
        p'\<lparr>signal_pending := add_signal (signal_pending p) (tid p) a0\<rparr>
      else p')"

definition heap_update :: "posix \<Rightarrow> posix \<Rightarrow> posix" where
  "heap_update p p' =
     (if state_r p = S_SYSTEM_OP \<and> syscall_subop p = 3
      then p'\<lparr>heap_brk := (heap_brk p)[tid p := heap_brk p ! tid p + latched_arg0 p]\<rparr>
      else p')"

text \<open>One clock edge.\<close>

definition posix_step :: "ecall_port \<Rightarrow> rtos_port \<Rightarrow> periph_port \<Rightarrow> posix \<Rightarrow> posix" where
  "posix_step c k d p =
     (let latch = ecall_req c \<and> state_r p = S_IDLE;
          complete = state_r p = S_COMPLETE
      in fd_update p (signal_update p (heap_update p (p\<lparr>
           state_r := state_next c k d p,
           latched_syscall_num := if latch then syscall_num c else latched_syscall_num p,
           latched_arg0 := if latch then syscall_arg0 c else latched_arg0 p,
           latched_arg1 := if latch then syscall_arg1 c else latched_arg1 p,
           latched_arg2 := if latch then syscall_arg2 c else latched_arg2 p,
           result_r := result_next k d p,
           pending_syscall_cnt := if latch then pending_syscall_cnt p + 1 else pending_syscall_cnt p,
           last_syscall_num_r := if complete then latched_syscall_num p else last_syscall_num_r p,
           last_syscall_ret_r := if complete then result_r p else last_syscall_ret_r p,
           current_tid_r := rtos_current_tid k\<rparr>))))"

section \<open>The descriptor table\<close>

text \<open>
  The tables have one entry per descriptor and per task, and the three standard descriptors are
  open on the UART.
\<close>

definition fd_wf :: "posix \<Rightarrow> bool" where
  "fd_wf p \<longleftrightarrow> length (fd_valid p) = MAX_FD \<and> length (fd_type_r p) = MAX_FD
     \<and> length (fd_base_addr p) = MAX_FD \<and> length (fd_flags p) = MAX_FD"

definition std_open :: "posix \<Rightarrow> bool" where
  "std_open p \<longleftrightarrow> (\<forall>i < 3. fd_valid p ! i \<and> fd_type_r p ! i = FD_TYPE_UART \<and> fd_base_addr p ! i = UART_BASE)"

text \<open>An open descriptor leads to the device of its type.\<close>

definition fd_based :: "posix \<Rightarrow> bool" where
  "fd_based p \<longleftrightarrow> (\<forall>i < MAX_FD. fd_valid p ! i \<longrightarrow> fd_base_addr p ! i = get_device_base (fd_type_r p ! i))"

lemma update_simps [simp]:
  "state_r (fd_update p p') = state_r p'" "state_r (signal_update p p') = state_r p'"
  "state_r (heap_update p p') = state_r p'"
  "latched_syscall_num (fd_update p p') = latched_syscall_num p'"
  "latched_syscall_num (signal_update p p') = latched_syscall_num p'"
  "latched_syscall_num (heap_update p p') = latched_syscall_num p'"
  "latched_arg0 (fd_update p p') = latched_arg0 p'" "latched_arg0 (signal_update p p') = latched_arg0 p'"
  "latched_arg0 (heap_update p p') = latched_arg0 p'"
  "latched_arg1 (fd_update p p') = latched_arg1 p'" "latched_arg1 (signal_update p p') = latched_arg1 p'"
  "latched_arg1 (heap_update p p') = latched_arg1 p'"
  "latched_arg2 (fd_update p p') = latched_arg2 p'" "latched_arg2 (signal_update p p') = latched_arg2 p'"
  "latched_arg2 (heap_update p p') = latched_arg2 p'"
  "result_r (fd_update p p') = result_r p'" "result_r (signal_update p p') = result_r p'"
  "result_r (heap_update p p') = result_r p'"
  by (simp_all add: fd_update_def signal_update_def heap_update_def Let_def)

lemma update_fds [simp]:
  "fd_valid (signal_update p p') = fd_valid p'" "fd_valid (heap_update p p') = fd_valid p'"
  "fd_type_r (signal_update p p') = fd_type_r p'" "fd_type_r (heap_update p p') = fd_type_r p'"
  "fd_base_addr (signal_update p p') = fd_base_addr p'" "fd_base_addr (heap_update p p') = fd_base_addr p'"
  "fd_flags (signal_update p p') = fd_flags p'" "fd_flags (heap_update p p') = fd_flags p'"
  by (simp_all add: signal_update_def heap_update_def Let_def)

lemma nth_update: "xs[i := x] ! j = (if i = j \<and> i < length xs then x else xs ! j)"
  by (cases "i < length xs") (auto simp: nth_list_update list_update_beyond)

lemma free_fd_idx_Least:
  "free_fd_idx p = (if \<exists>i. 3 \<le> i \<and> i < MAX_FD \<and> \<not> fd_valid p ! i
     then LEAST i. 3 \<le> i \<and> i < MAX_FD \<and> \<not> fd_valid p ! i else MAX_FD)"
proof (cases "filter (\<lambda>i. \<not> fd_valid p ! i) [3..<MAX_FD]")
  case Nil
  then have "\<forall>i \<in> set [3..<MAX_FD]. fd_valid p ! i" by (simp add: filter_empty_conv)
  with Nil show ?thesis by (auto simp: free_fd_idx_def)
next
  case (Cons i js)
  let ?Q = "\<lambda>i. 3 \<le> i \<and> i < MAX_FD \<and> \<not> fd_valid p ! i"
  have set: "{i. ?Q i} = set (i # js)" by (subst Cons [symmetric]) auto
  have "sorted (i # js)" by (subst Cons [symmetric]) (rule sorted_wrt_filter, simp)
  then have "(LEAST i. ?Q i) = i"
    using set by (intro Least_equality) (auto simp: set_eq_iff)
  moreover have "\<exists>i. ?Q i" using set by (auto simp: set_eq_iff)
  ultimately show ?thesis by (simp add: free_fd_idx_def Cons)
qed

lemma free_fd_idx_cases:
  "free_fd_idx p = MAX_FD \<or>
    (3 \<le> free_fd_idx p \<and> free_fd_idx p < MAX_FD \<and> \<not> fd_valid p ! free_fd_idx p)"
proof (cases "\<exists>i. 3 \<le> i \<and> i < MAX_FD \<and> \<not> fd_valid p ! i")
  case True
  from LeastI_ex [OF True] show ?thesis by (simp add: free_fd_idx_Least True)
qed (auto simp: free_fd_idx_Least)

lemma free_fd_idx_bounds: "3 \<le> free_fd_idx p \<and> free_fd_idx p \<le> MAX_FD"
  and free_fd_idx_free: "free_fd_idx p < MAX_FD \<Longrightarrow> \<not> fd_valid p ! free_fd_idx p"
  using free_fd_idx_cases [of p] by (auto simp: MAX_FD_def)

lemma fd_update_table:
  assumes "fd_wf p" and "fd_valid p' = fd_valid p" "fd_type_r p' = fd_type_r p"
    "fd_base_addr p' = fd_base_addr p" "fd_flags p' = fd_flags p"
  shows "fd_wf (fd_update p p')" and "std_open p \<Longrightarrow> std_open (fd_update p p')"
    and "fd_based p \<Longrightarrow> fd_based (fd_update p p')"
proof -
  have b: "3 \<le> free_fd_idx p" using free_fd_idx_bounds [of p] by simp
  note simps = assms(2-) fd_update_def nth_update
  show "fd_wf (fd_update p p')" using assms(1) by (simp add: fd_wf_def simps)
  show "std_open p \<Longrightarrow> std_open (fd_update p p')" using b by (auto simp: std_open_def simps)
  show "fd_based p \<Longrightarrow> fd_based (fd_update p p')"
    using assms(1) by (auto simp: fd_based_def fd_wf_def simps)
qed

lemma posix_step_table:
  assumes "fd_wf p"
  shows "fd_wf (posix_step c k d p)" and "std_open p \<Longrightarrow> std_open (posix_step c k d p)"
    and "fd_based p \<Longrightarrow> fd_based (posix_step c k d p)"
  unfolding posix_step_def Let_def by (rule fd_update_table; use assms in simp)+

lemma posix_reset_table: "fd_wf posix_reset" "std_open posix_reset" "fd_based posix_reset"
proof -
  show "fd_wf posix_reset" by (simp add: fd_wf_def posix_reset_def MAX_FD_def)
  show "std_open posix_reset"
    by (simp add: std_open_def posix_reset_def nth_append)
  show "fd_based posix_reset"
    by (simp add: fd_based_def posix_reset_def nth_append get_device_base_def MAX_FD_def)
qed

text \<open>Only \<open>close\<close> ends the validity of a descriptor.\<close>

lemma fd_stays_open:
  assumes "fd_valid p ! i" and "i < length (fd_valid p)" and "state_r p = S_FILE_OP \<Longrightarrow> syscall_subop p \<noteq> 1"
  shows "fd_valid (posix_step c k d p) ! i"
  using assms by (auto simp: posix_step_def fd_update_def Let_def nth_update)

section \<open>A system call inside the layer\<close>

lemma posix_step_simps [simp]:
  "state_r (posix_step c k d p) = state_next c k d p"
  "result_r (posix_step c k d p) = result_next k d p"
  by (simp_all add: posix_step_def Let_def)

lemma posix_step_latched:
  assumes "\<not> (ecall_req c \<and> state_r p = S_IDLE)"
  shows "latched_syscall_num (posix_step c k d p) = latched_syscall_num p"
    and "latched_arg0 (posix_step c k d p) = latched_arg0 p"
    and "latched_arg1 (posix_step c k d p) = latched_arg1 p"
    and "latched_arg2 (posix_step c k d p) = latched_arg2 p"
  using assms by (auto simp: posix_step_def Let_def)

lemma posix_step_latch:
  assumes "ecall_req c" and "state_r p = S_IDLE"
  shows "latched_syscall_num (posix_step c k d p) = syscall_num c"
    and "latched_arg0 (posix_step c k d p) = syscall_arg0 c"
    and "latched_arg1 (posix_step c k d p) = syscall_arg1 c"
    and "latched_arg2 (posix_step c k d p) = syscall_arg2 c"
  using assms by (simp_all add: posix_step_def Let_def)

lemma posix_step_fds:
  assumes "state_r p \<noteq> S_FILE_OP \<or> syscall_subop p > 1"
  shows "fd_valid (posix_step c k d p) = fd_valid p" "fd_type_r (posix_step c k d p) = fd_type_r p"
    "fd_base_addr (posix_step c k d p) = fd_base_addr p" "fd_flags (posix_step c k d p) = fd_flags p"
  using assms by (auto simp: posix_step_def fd_update_def Let_def)

end
