(* ===== verification/Rtos_Sync.thy ===== *)
theory Rtos_Sync
  imports VSync_Prelude
begin

text \<open>
  The synchronisation units of the hardware RTOS at the level of clock edges: eight counting semaphores
  (rtl/rtos/hw\_semaphore.sv), eight mutexes with priority inheritance (hw\_mutex.sv) and four message
  queues (hw\_msgqueue.sv). A task number is an index below 16, a set of waiting tasks is a bit ws,
  and each unit executes one operation per clock.
\<close>

type_synonym task_mask = "16 word"
type_synonym task_prio = "nat \<Rightarrow> 4 word"

section \<open>The waiting task to wake\<close>

text \<open>The first of highest priority.\<close>

definition best_wake :: "task_prio \<Rightarrow> task_mask \<Rightarrow> nat option" where
  "best_wake prio ws =
     fold (\<lambda>i best. case best of
         None \<Rightarrow> if bit ws i then Some i else None
       | Some j \<Rightarrow> if bit ws i \<and> prio i > prio j then Some i else Some j) [0..<16] None"

text \<open>The first of all.\<close>

definition first_waiting :: "task_mask \<Rightarrow> nat option" where
  "first_waiting ws = (case filter (bit ws) [0..<16] of [] \<Rightarrow> None | i # _ \<Rightarrow> Some i)"

lemma best_wake_upto:
  fixes prio :: task_prio and ws :: task_mask
  defines "f \<equiv> (\<lambda>i best. case best of
         None \<Rightarrow> if bit ws i then Some i else None
       | Some j \<Rightarrow> if bit ws i \<and> prio i > prio j then Some i else Some j)"
  shows "case fold f [0..<n] None of
      None \<Rightarrow> \<forall>i < n. \<not> bit ws i
    | Some j \<Rightarrow> j < n \<and> bit ws j \<and> (\<forall>i < n. bit ws i \<longrightarrow> prio i \<le> prio j)"
proof (induction n)
  case (Suc n)
  then show ?case
    by (cases "fold f [0..<n] None") (auto simp: f_def less_Suc_eq not_less intro: order_trans less_imp_le)
qed simp

lemma mask_zero: "(ws :: task_mask) = 0 \<longleftrightarrow> (\<forall>i < 16. \<not> bit ws i)"
  by (auto simp: bit_eq_iff dest: bit_imp_le_length)

lemma best_wake_None [simp]: "best_wake prio ws = None \<longleftrightarrow> ws = 0"
  using best_wake_upto [where ws = ws and prio = prio and n = 16] by (auto simp: best_wake_def mask_zero split: option.splits)

lemma best_wake_Some:
  assumes "best_wake prio ws = Some j"
  shows "j < 16 \<and> bit ws j \<and> (\<forall>i < 16. bit ws i \<longrightarrow> prio i \<le> prio j)"
  using best_wake_upto [where ws = ws and prio = prio and n = 16] assms by (simp add: best_wake_def)

lemma best_wake_cong:
  assumes "\<And>i. i < 16 \<Longrightarrow> prio i = prio' i"
  shows "best_wake prio ws = best_wake prio' ws"
proof -
  define f where "f = (\<lambda>prio :: task_prio. \<lambda>i best. case best of
         None \<Rightarrow> if bit ws i then Some i else None
       | Some j \<Rightarrow> if bit ws i \<and> prio i > prio j then Some i else Some j)"
  have bound: "j < n" if "fold (f prio) [0..<n] None = Some j" for n j
    using best_wake_upto [where ws = ws and prio = prio and n = n] that unfolding f_def by simp
  have "fold (f prio) [0..<n] None = fold (f prio') [0..<n] None" if "n \<le> 16" for n
    using that
  proof (induction n)
    case (Suc n)
    then have IH: "fold (f prio') [0..<n] None = fold (f prio) [0..<n] None" by simp
    have "f prio n best = f prio' n best" if "best = fold (f prio) [0..<n] None" for best
    proof (cases best)
      case (Some j)
      then have "j < 16" using bound [of n j] that Suc.prems by simp
      then show ?thesis using Some Suc.prems assms [of n] assms [of j] by (simp add: f_def)
    qed (simp add: f_def)
    then show ?case by (simp add: IH)
  qed simp
  then show ?thesis by (simp add: best_wake_def f_def)
qed

lemma best_wake_zero [simp]: "best_wake prio 0 = None"
  by simp

section \<open>Tables of objects\<close>

text \<open>
  What the three units have in common: a table of objects, of which an operation changes only the one it
  names, and keeps that one well formed.
\<close>

locale object_table =
  fixes size :: nat and objects :: "'u \<Rightarrow> 'q list" and ok :: "'q \<Rightarrow> bool" and wf :: "'u \<Rightarrow> bool"
    and step :: "nat \<Rightarrow> 'x \<Rightarrow> 'u \<Rightarrow> 'u"
  assumes wf_iff: "wf u \<longleftrightarrow> length (objects u) = size \<and> (\<forall>q \<in> set (objects u). ok q)"
    and step_length: "length (objects (step i x u)) = length (objects u)"
    and step_others: "j \<noteq> i \<Longrightarrow> objects (step i x u) ! j = objects u ! j"
    and step_ok: "i < length (objects u) \<Longrightarrow> ok (objects u ! i) \<Longrightarrow> ok (objects (step i x u) ! i)"
begin

lemma step_wf:
  assumes "wf u" and "i < size"
  shows "wf (step i x u)"
proof -
  have "ok (objects (step i x u) ! j)" if "j < size" for j
    using step_ok [of i u x] step_others [of j i x u] assms that by (cases "j = i") (auto simp: wf_iff)
  then show ?thesis using assms(1) by (auto simp: wf_iff step_length in_set_conv_nth)
qed

text \<open>A sequence of operations keeps the table well formed, and leaves alone what it does not name.\<close>

lemma run_wf:
  assumes "wf u" and "\<forall>(i, x) \<in> set xs. i < size"
  shows "wf (fold (\<lambda>(i, x). step i x) xs u)"
  using assms by (induction xs arbitrary: u) (auto simp: step_wf)

lemma run_others: "\<forall>(i, x) \<in> set xs. i \<noteq> j \<Longrightarrow> objects (fold (\<lambda>(i, x). step i x) xs u) ! j = objects u ! j"
  by (induction xs arbitrary: u) (auto simp: step_others)

end

section \<open>Semaphores\<close>

record semaphore =
  count_r :: byte
  max_count_r :: byte
  sem_wait_mask_r :: task_mask

record sem_unit =
  sems :: "semaphore list"
  sem_success :: bool
  sem_block :: bool
  sem_wake_task_id :: nat
  sem_wake_valid :: bool

definition NUM_SEMS :: nat where "NUM_SEMS = 8"

definition sem_reset :: sem_unit where
  "sem_reset = \<lparr>sems = replicate NUM_SEMS \<lparr>count_r = 0, max_count_r = 0, sem_wait_mask_r = 0\<rparr>,
     sem_success = False, sem_block = False, sem_wake_task_id = 0, sem_wake_valid = False\<rparr>"

definition wake_id :: "nat option \<Rightarrow> nat" where
  "wake_id w = (case w of None \<Rightarrow> 0 | Some i \<Rightarrow> i)"

text \<open>
  One clock: 1 is INIT, 2 is WAIT, 3 is POST. A POST at the maximum neither succeeds nor blocks.
\<close>

definition hw_semaphore ::
  "nat \<Rightarrow> nat \<Rightarrow> nat \<Rightarrow> byte \<Rightarrow> byte \<Rightarrow> task_prio \<Rightarrow> sem_unit \<Rightarrow> sem_unit" where
  "hw_semaphore op i task init_count max_count prio u =
     (let s = sems u ! i;
          out = (\<lambda>ok blk wake s'. \<lparr>sems = (sems u)[i := s'], sem_success = ok, sem_block = blk,
            sem_wake_task_id = wake_id wake, sem_wake_valid = (wake \<noteq> None)\<rparr>)
      in if op = 1 then
           out True False None \<lparr>count_r = init_count, max_count_r = max_count, sem_wait_mask_r = 0\<rparr>
         else if op = 2 then
           (if count_r s > 0 then out True False None (s\<lparr>count_r := count_r s - 1\<rparr>)
            else out False True None (s\<lparr>sem_wait_mask_r := set_bit task (sem_wait_mask_r s)\<rparr>))
         else if op = 3 then
           (case best_wake prio (sem_wait_mask_r s) of
              Some j \<Rightarrow> out True False (Some j) (s\<lparr>sem_wait_mask_r := unset_bit j (sem_wait_mask_r s)\<rparr>)
            | None \<Rightarrow> if count_r s < max_count_r s then out True False None (s\<lparr>count_r := count_r s + 1\<rparr>)
                else out False False None s)
         else out False False None s)"

text \<open>Tasks wait only while the count is zero.\<close>

definition sem_ok :: "semaphore \<Rightarrow> bool" where
  "sem_ok s \<longleftrightarrow> (sem_wait_mask_r s \<noteq> 0 \<longrightarrow> count_r s = 0)"

definition sem_wf :: "sem_unit \<Rightarrow> bool" where
  "sem_wf u \<longleftrightarrow> length (sems u) = NUM_SEMS \<and> (\<forall>s \<in> set (sems u). sem_ok s)"

lemma sem_reset_wf: "sem_wf sem_reset"
  by (simp add: sem_wf_def sem_reset_def sem_ok_def)

lemma hw_semaphore_table:
  "length (sems (hw_semaphore op i t c m prio u)) = length (sems u)"
  "j \<noteq> i \<Longrightarrow> sems (hw_semaphore op i t c m prio u) ! j = sems u ! j"
  by (simp_all add: hw_semaphore_def Let_def split: option.split)

lemma hw_semaphore_ok:
  assumes "i < length (sems u)" and "sem_ok (sems u ! i)"
  shows "sem_ok (sems (hw_semaphore op i t c m prio u) ! i)"
  using assms word_gt_0 [of "count_r (sems u ! i)"]
  by (auto simp: hw_semaphore_def Let_def sem_ok_def split: option.split dest: best_wake_Some)

interpretation sem: object_table NUM_SEMS sems sem_ok sem_wf "\<lambda>i (op, t, c, m, prio). hw_semaphore op i t c m prio"
  by unfold_locales (auto simp: sem_wf_def hw_semaphore_table hw_semaphore_ok)

lemma hw_semaphore_wf: "\<lbrakk>sem_wf u; i < NUM_SEMS\<rbrakk> \<Longrightarrow> sem_wf (hw_semaphore op i task c m prio u)"
  using sem.step_wf [of u i "(op, task, c, m, prio)"] by simp

section \<open>Mutexes\<close>

record mutex =
  locked_r :: bool
  owner_id_r :: nat
  original_prio_r :: "4 word"
  mutex_wait_mask_r :: task_mask

record mutex_unit =
  mutexes :: "mutex list"
  mutex_success :: bool
  mutex_block :: bool
  mutex_wake_task_id :: nat
  mutex_wake_valid :: bool
  prio_boost :: "(nat \<times> 4 word) option" \<comment> \<open>\<open>prio_boost_id\<close> and \<open>prio_boost_val\<close> when valid\<close>

definition NUM_MUTEXES :: nat where "NUM_MUTEXES = 8"

definition mutex_reset :: mutex_unit where
  "mutex_reset = \<lparr>mutexes = replicate NUM_MUTEXES \<lparr>locked_r = False, owner_id_r = 0, original_prio_r = 0,
       mutex_wait_mask_r = 0\<rparr>,
     mutex_success = False, mutex_block = False, mutex_wake_task_id = 0, mutex_wake_valid = False,
     prio_boost = None\<rparr>"

text \<open>One clock: 1 is LOCK, 2 is UNLOCK.\<close>

definition hw_mutex :: "nat \<Rightarrow> nat \<Rightarrow> nat \<Rightarrow> task_prio \<Rightarrow> mutex_unit \<Rightarrow> mutex_unit" where
  "hw_mutex op i task prio u =
     (let m = mutexes u ! i;
          out = (\<lambda>ok blk wake boost m'. \<lparr>mutexes = (mutexes u)[i := m'], mutex_success = ok,
            mutex_block = blk, mutex_wake_task_id = wake_id wake, mutex_wake_valid = (wake \<noteq> None),
            prio_boost = boost\<rparr>)
      in if op = 1 then
           (if \<not> locked_r m then
              out True False None None
                (m\<lparr>locked_r := True, owner_id_r := task, original_prio_r := prio task\<rparr>)
            else
              out False True None
                (if prio task > prio (owner_id_r m) then Some (owner_id_r m, prio task) else None)
                (m\<lparr>mutex_wait_mask_r := set_bit task (mutex_wait_mask_r m)\<rparr>))
         else if op = 2 then
           (if locked_r m \<and> owner_id_r m = task then
              (case best_wake prio (mutex_wait_mask_r m) of
                 Some j \<Rightarrow> out True False (Some j) (Some (task, original_prio_r m))
                   (m\<lparr>owner_id_r := j, original_prio_r := prio j,
                      mutex_wait_mask_r := unset_bit j (mutex_wait_mask_r m)\<rparr>)
               | None \<Rightarrow> out True False None (Some (task, original_prio_r m))
                   (m\<lparr>locked_r := False, owner_id_r := 0\<rparr>))
            else out True False None None m)
         else out False False None None m)"

text \<open>Tasks wait only for a locked mutex.\<close>

definition mutex_ok :: "mutex \<Rightarrow> bool" where
  "mutex_ok m \<longleftrightarrow> (mutex_wait_mask_r m \<noteq> 0 \<longrightarrow> locked_r m)"

definition mutex_wf :: "mutex_unit \<Rightarrow> bool" where
  "mutex_wf u \<longleftrightarrow> length (mutexes u) = NUM_MUTEXES \<and> (\<forall>m \<in> set (mutexes u). mutex_ok m)"

lemma mutex_reset_wf: "mutex_wf mutex_reset"
  by (simp add: mutex_wf_def mutex_reset_def mutex_ok_def)

lemma hw_mutex_table:
  "length (mutexes (hw_mutex op i t prio u)) = length (mutexes u)"
  "j \<noteq> i \<Longrightarrow> mutexes (hw_mutex op i t prio u) ! j = mutexes u ! j"
  by (simp_all add: hw_mutex_def Let_def split: option.split)

lemma hw_mutex_ok:
  assumes "i < length (mutexes u)" and "mutex_ok (mutexes u ! i)"
  shows "mutex_ok (mutexes (hw_mutex op i t prio u) ! i)"
  using assms by (auto simp: hw_mutex_def Let_def mutex_ok_def split: option.split)

interpretation mutex: object_table NUM_MUTEXES mutexes mutex_ok mutex_wf "\<lambda>i (op, t, prio). hw_mutex op i t prio"
  by unfold_locales (auto simp: mutex_wf_def hw_mutex_table hw_mutex_ok)

lemma hw_mutex_wf: "\<lbrakk>mutex_wf u; i < NUM_MUTEXES\<rbrakk> \<Longrightarrow> mutex_wf (hw_mutex op i task prio u)"
  using mutex.step_wf [of u i "(op, task, prio)"] by simp

section \<open>Message queues\<close>

record msgq =
  fifo_mem :: "u32 list"
  wr_ptr_r :: nat
  rd_ptr_r :: nat
  msgq_count_r :: nat
  send_wait_r :: task_mask
  recv_wait_r :: task_mask

record msgq_unit =
  queues :: "msgq list"
  msgq_success :: bool
  msgq_block :: bool
  msg_data_out :: u32
  msgq_wake_task_id :: nat
  msgq_wake_valid :: bool

definition NUM_QUEUES :: nat where "NUM_QUEUES = 4"
definition QUEUE_DEPTH :: nat where "QUEUE_DEPTH = 8"

definition msgq_reset :: msgq_unit where
  "msgq_reset = \<lparr>queues = replicate NUM_QUEUES \<lparr>fifo_mem = replicate QUEUE_DEPTH 0, wr_ptr_r = 0,
       rd_ptr_r = 0, msgq_count_r = 0, send_wait_r = 0, recv_wait_r = 0\<rparr>,
     msgq_success = False, msgq_block = False, msg_data_out = 0, msgq_wake_task_id = 0,
     msgq_wake_valid = False\<rparr>"

definition next_ptr :: "nat \<Rightarrow> nat" where
  "next_ptr p = (if p = QUEUE_DEPTH - 1 then 0 else p + 1)"

definition unwait :: "nat option \<Rightarrow> task_mask \<Rightarrow> task_mask" where
  "unwait w ws = (case w of None \<Rightarrow> ws | Some j \<Rightarrow> unset_bit j ws)"

text \<open>One clock: 1 is SEND, 2 is RECV.\<close>

definition hw_msgqueue :: "nat \<Rightarrow> nat \<Rightarrow> u32 \<Rightarrow> nat \<Rightarrow> msgq_unit \<Rightarrow> msgq_unit" where
  "hw_msgqueue op i data task u =
     (let q = queues u ! i;
          out = (\<lambda>ok blk d wake q'. \<lparr>queues = (queues u)[i := q'], msgq_success = ok, msgq_block = blk,
            msg_data_out = d, msgq_wake_task_id = wake_id wake, msgq_wake_valid = (wake \<noteq> None)\<rparr>);
          receiver = first_waiting (recv_wait_r q);
          sender = first_waiting (send_wait_r q)
      in if op = 1 then
           (if msgq_count_r q \<noteq> QUEUE_DEPTH then
              out True False 0 receiver
                (q\<lparr>fifo_mem := (fifo_mem q)[wr_ptr_r q := data], wr_ptr_r := next_ptr (wr_ptr_r q),
                   msgq_count_r := msgq_count_r q + 1, recv_wait_r := unwait receiver (recv_wait_r q)\<rparr>)
            else out False True 0 None (q\<lparr>send_wait_r := set_bit task (send_wait_r q)\<rparr>))
         else if op = 2 then
           (if msgq_count_r q \<noteq> 0 then
              out True False (fifo_mem q ! rd_ptr_r q) sender
                (q\<lparr>rd_ptr_r := next_ptr (rd_ptr_r q), msgq_count_r := msgq_count_r q - 1,
                   send_wait_r := unwait sender (send_wait_r q)\<rparr>)
            else out False True 0 None (q\<lparr>recv_wait_r := set_bit task (recv_wait_r q)\<rparr>))
         else out False False 0 None q)"

text \<open>The abstract queue: the messages in it, oldest first.\<close>

definition messages :: "msgq \<Rightarrow> u32 list" where
  "messages q = map (\<lambda>j. fifo_mem q ! ((rd_ptr_r q + j) mod QUEUE_DEPTH)) [0..<msgq_count_r q]"

definition msgq_ok :: "msgq \<Rightarrow> bool" where
  "msgq_ok q \<longleftrightarrow> length (fifo_mem q) = QUEUE_DEPTH \<and> rd_ptr_r q < QUEUE_DEPTH \<and> msgq_count_r q \<le> QUEUE_DEPTH
     \<and> wr_ptr_r q = (rd_ptr_r q + msgq_count_r q) mod QUEUE_DEPTH"

definition msgq_wf :: "msgq_unit \<Rightarrow> bool" where
  "msgq_wf u \<longleftrightarrow> length (queues u) = NUM_QUEUES \<and> (\<forall>q \<in> set (queues u). msgq_ok q)"

lemma msgq_reset_wf: "msgq_wf msgq_reset"
  by (simp add: msgq_wf_def msgq_reset_def msgq_ok_def QUEUE_DEPTH_def)

lemma next_ptr_mod: "p < QUEUE_DEPTH \<Longrightarrow> next_ptr p = (p + 1) mod QUEUE_DEPTH"
  by (auto simp: next_ptr_def QUEUE_DEPTH_def)

lemma messages_send:
  assumes q: "msgq_ok q" and room: "msgq_count_r q \<noteq> QUEUE_DEPTH"
    and q': "fifo_mem q' = (fifo_mem q)[wr_ptr_r q := d]" "wr_ptr_r q' = next_ptr (wr_ptr_r q)"
      "rd_ptr_r q' = rd_ptr_r q" "msgq_count_r q' = msgq_count_r q + 1"
  shows "msgq_ok q' \<and> messages q' = messages q @ [d]"
proof -
  have b: "msgq_count_r q < 8" "rd_ptr_r q < 8" "length (fifo_mem q) = 8"
    and wr: "wr_ptr_r q = (rd_ptr_r q + msgq_count_r q) mod 8"
    using q room by (simp_all add: msgq_ok_def QUEUE_DEPTH_def)
  have "wr_ptr_r q < QUEUE_DEPTH" by (simp add: wr QUEUE_DEPTH_def)
  note np = next_ptr_mod [OF this]
  have ne: "(rd_ptr_r q + j) mod 8 \<noteq> wr_ptr_r q" if j: "j < msgq_count_r q" for j
  proof
    assume "(rd_ptr_r q + j) mod 8 = wr_ptr_r q"
    then have "(rd_ptr_r q + msgq_count_r q) mod 8 = (rd_ptr_r q + j) mod 8" by (simp add: wr)
    then have "8 dvd msgq_count_r q - j" using j by (metis mod_eq_dvd_iff_nat diff_add_inverse add_diff_cancel_left nat_add_left_cancel_le less_imp_le)
    then show False using j b(1) by (auto dest: dvd_imp_le)
  qed
  have "messages q' = messages q @ [d]"
    using b ne [THEN not_sym] q' \<open>wr_ptr_r q < QUEUE_DEPTH\<close>
    by (simp add: messages_def QUEUE_DEPTH_def wr [symmetric])
  moreover have "msgq_ok q'"
    using b q' np wr by (simp add: msgq_ok_def QUEUE_DEPTH_def mod_simps)
  ultimately show ?thesis by simp
qed

lemma messages_recv:
  assumes q: "msgq_ok q" and some: "msgq_count_r q \<noteq> 0"
    and q': "fifo_mem q' = fifo_mem q" "wr_ptr_r q' = wr_ptr_r q" "rd_ptr_r q' = next_ptr (rd_ptr_r q)"
      "msgq_count_r q' = msgq_count_r q - 1"
  shows "msgq_ok q' \<and> messages q = fifo_mem q ! rd_ptr_r q # messages q'"
proof -
  obtain n where n: "msgq_count_r q = Suc n" using some by (cases "msgq_count_r q") auto
  have rd: "rd_ptr_r q < QUEUE_DEPTH" using q by (simp add: msgq_ok_def)
  note np = next_ptr_mod [OF rd]
  have "messages q = map (\<lambda>j. fifo_mem q ! ((rd_ptr_r q + j) mod QUEUE_DEPTH)) (0 # map Suc [0..<n])"
    by (simp only: messages_def n map_Suc_upt upt_conv_Cons [OF zero_less_Suc, symmetric])
  also have "\<dots> = fifo_mem q ! rd_ptr_r q # messages q'"
    using rd n q' np by (simp add: messages_def mod_simps del: upt_Suc)
  finally have "messages q = fifo_mem q ! rd_ptr_r q # messages q'" .
  moreover have "msgq_ok q'"
    using q n q' np by (simp add: msgq_ok_def QUEUE_DEPTH_def mod_simps)
  ultimately show ?thesis by simp
qed

text \<open>
  What each operation does to the queue it names. It does nothing to the others.
\<close>

lemma hw_msgqueue_queue:
  assumes "msgq_ok (queues u ! i)" and "i < length (queues u)"
  shows "msgq_ok (queues (hw_msgqueue op i d task u) ! i)
    \<and> messages (queues (hw_msgqueue op i d task u) ! i) =
      (if op = 1 \<and> length (messages (queues u ! i)) < QUEUE_DEPTH then messages (queues u ! i) @ [d]
       else if op = 2 then tl (messages (queues u ! i)) else messages (queues u ! i))
    \<and> (op = 2 \<longrightarrow> msg_data_out (hw_msgqueue op i d task u)
        = (case messages (queues u ! i) of [] \<Rightarrow> 0 | m # _ \<Rightarrow> m))
    \<and> (msgq_success (hw_msgqueue op i d task u) \<longleftrightarrow>
        (op = 1 \<and> length (messages (queues u ! i)) < QUEUE_DEPTH) \<or> (op = 2 \<and> messages (queues u ! i) \<noteq> []))"
proof -
  let ?q = "queues u ! i"
  let ?sent = "?q\<lparr>fifo_mem := (fifo_mem ?q)[wr_ptr_r ?q := d], wr_ptr_r := next_ptr (wr_ptr_r ?q),
    msgq_count_r := msgq_count_r ?q + 1, recv_wait_r := unwait (first_waiting (recv_wait_r ?q)) (recv_wait_r ?q)\<rparr>"
  let ?got = "?q\<lparr>rd_ptr_r := next_ptr (rd_ptr_r ?q), msgq_count_r := msgq_count_r ?q - 1,
    send_wait_r := unwait (first_waiting (send_wait_r ?q)) (send_wait_r ?q)\<rparr>"
  have len: "length (messages ?q) = msgq_count_r ?q" by (simp add: messages_def)
  have le: "msgq_count_r ?q \<le> QUEUE_DEPTH" using assms(1) by (simp add: msgq_ok_def)
  have same: "msgq_ok (?q\<lparr>send_wait_r := a\<rparr>) = msgq_ok ?q" "msgq_ok (?q\<lparr>recv_wait_r := a\<rparr>) = msgq_ok ?q"
    "messages (?q\<lparr>send_wait_r := a\<rparr>) = messages ?q" "messages (?q\<lparr>recv_wait_r := a\<rparr>) = messages ?q" for a
    by (simp_all add: msgq_ok_def messages_def)
  have sent: "msgq_ok ?sent \<and> messages ?sent = messages ?q @ [d]" if "msgq_count_r ?q \<noteq> QUEUE_DEPTH"
    by (rule messages_send [OF assms(1) that]) simp_all
  have got: "msgq_ok ?got \<and> messages ?q = fifo_mem ?q ! rd_ptr_r ?q # messages ?got" if "msgq_count_r ?q \<noteq> 0"
    by (rule messages_recv [OF assms(1) that]) simp_all
  have nil: "messages ?q = [] \<longleftrightarrow> msgq_count_r ?q = 0" using len by (metis length_0_conv)
  consider "op = 1" "msgq_count_r ?q = QUEUE_DEPTH" | "op = 1" "msgq_count_r ?q \<noteq> QUEUE_DEPTH"
    | "op = 2" "msgq_count_r ?q = 0" | "op = 2" "msgq_count_r ?q \<noteq> 0" | "op \<noteq> 1" "op \<noteq> 2" by blast
  then show ?thesis
  proof cases
    case 2
    then show ?thesis using sent assms(2) le by (simp add: hw_msgqueue_def Let_def len)
  next
    case 4
    then show ?thesis using got assms(2) nil by (auto simp: hw_msgqueue_def Let_def)
  qed (use assms nil same in \<open>simp_all add: hw_msgqueue_def Let_def len\<close>)
qed

lemma hw_msgqueue_others: "j \<noteq> i \<Longrightarrow> queues (hw_msgqueue op i d task u) ! j = queues u ! j"
  by (simp add: hw_msgqueue_def Let_def)

lemma hw_msgqueue_length: "length (queues (hw_msgqueue op i d task u)) = length (queues u)"
  by (simp add: hw_msgqueue_def Let_def)

interpretation msgq: object_table NUM_QUEUES queues msgq_ok msgq_wf "\<lambda>i (op, d, t). hw_msgqueue op i d t"
  by unfold_locales (auto simp: msgq_wf_def hw_msgqueue_length hw_msgqueue_others hw_msgqueue_queue)

lemma hw_msgqueue_wf: "\<lbrakk>msgq_wf u; i < NUM_QUEUES\<rbrakk> \<Longrightarrow> msgq_wf (hw_msgqueue op i d task u)"
  using msgq.step_wf [of u i "(op, d, task)"] by simp

end
