(* ===== verification/Rtos_Tasks.thy ===== *)
theory Rtos_Tasks
  imports Rtos_Sync
begin

text \<open>
  The task control blocks of the hardware RTOS (rtl/rtos/tcb\_array.sv) and the unit that chooses the
  next task (task\_scheduler.sv), clock by clock. The unit looks at one block per clock; it is shown
  to make the choice of a definition that looks at all of them at once.
\<close>

section \<open>Task control blocks\<close>

datatype task_state_t = TASK_READY | TASK_RUNNING | TASK_BLOCKED | TASK_SUSPENDED | TASK_DORMANT

record tcb =
  task_id :: nat
  prio_level :: "4 word"
  task_state :: task_state_t
  task_pc :: u32
  task_sp :: u32
  time_slice :: "16 word"
  task_valid :: bool

definition NUM_TASKS :: nat where "NUM_TASKS = 16"

definition tcb_reset :: "tcb list" where
  "tcb_reset = map (\<lambda>i. \<lparr>task_id = i, prio_level = 0, task_state = TASK_DORMANT, task_pc = 0, task_sp = 0,
     time_slice = 0, task_valid = False\<rparr>) [0..<NUM_TASKS]"

text \<open>The ports of the array, \<open>None\<close> where the enable signal is low.\<close>

record tcb_ports =
  create_port :: "(nat \<times> u32 \<times> u32 \<times> 4 word) option" \<comment> \<open>\<open>create_id\<close>, \<open>create_pc\<close>, \<open>create_sp\<close>, \<open>create_prio\<close>\<close>
  delete_port :: "nat option"
  state_port :: "(nat \<times> task_state_t) option"
  reload_port :: "(nat \<times> 16 word) option"

definition no_ports :: tcb_ports where
  "no_ports = \<lparr>create_port = None, delete_port = None, state_port = None, reload_port = None\<rparr>"

definition slice_tick :: "tcb \<Rightarrow> tcb" where
  "slice_tick t = (if task_valid t \<and> task_state t = TASK_RUNNING \<and> 0 < time_slice t
     then t\<lparr>time_slice := time_slice t - 1\<rparr> else t)"

definition tcb_create :: "tcb_ports \<Rightarrow> tcb list \<Rightarrow> tcb list" where
  "tcb_create p ts = (case create_port p of None \<Rightarrow> ts
     | Some (i, pc, sp, prio) \<Rightarrow> ts[i := \<lparr>task_id = i, prio_level = prio, task_state = TASK_READY,
         task_pc = pc, task_sp = sp, time_slice = - 1, task_valid = True\<rparr>])"

definition tcb_delete :: "tcb_ports \<Rightarrow> tcb list \<Rightarrow> tcb list" where
  "tcb_delete p ts = (case delete_port p of None \<Rightarrow> ts
     | Some i \<Rightarrow> ts[i := (ts ! i)\<lparr>task_state := TASK_DORMANT, task_valid := False\<rparr>])"

definition tcb_write :: "(nat \<times> tcb) option \<Rightarrow> tcb list \<Rightarrow> tcb list" where
  "tcb_write w ts = (case w of None \<Rightarrow> ts | Some (i, t) \<Rightarrow> ts[i := t])"

definition tcb_set_state :: "tcb_ports \<Rightarrow> tcb list \<Rightarrow> tcb list" where
  "tcb_set_state p ts = (case state_port p of None \<Rightarrow> ts | Some (i, st) \<Rightarrow> ts[i := (ts ! i)\<lparr>task_state := st\<rparr>])"

definition tcb_reload :: "tcb_ports \<Rightarrow> tcb list \<Rightarrow> tcb list" where
  "tcb_reload p ts = (case reload_port p of None \<Rightarrow> ts | Some (i, v) \<Rightarrow> ts[i := (ts ! i)\<lparr>time_slice := v\<rparr>])"

text \<open>One clock; \<open>w\<close> is the write of a whole block. What comes later takes precedence.\<close>

definition tcb_array :: "tcb_ports \<Rightarrow> (nat \<times> tcb) option \<Rightarrow> tcb list \<Rightarrow> tcb list" where
  "tcb_array p w ts =
     tcb_reload p (tcb_set_state p (tcb_write w (tcb_delete p (tcb_create p (map slice_tick ts)))))"

lemmas tcb_port_defs = tcb_create_def tcb_delete_def tcb_write_def tcb_set_state_def tcb_reload_def

lemma tcb_array_length [simp]: "length (tcb_array p w ts) = length ts"
  by (simp add: tcb_array_def tcb_port_defs split: option.split prod.split)

lemma slice_tick_simps [simp]:
  "task_id (slice_tick t) = task_id t" "prio_level (slice_tick t) = prio_level t"
  "task_state (slice_tick t) = task_state t" "task_pc (slice_tick t) = task_pc t"
  "task_sp (slice_tick t) = task_sp t" "task_valid (slice_tick t) = task_valid t"
  by (simp_all add: slice_tick_def)

lemma tcb_array_idle [simp]: "tcb_array no_ports None ts = map slice_tick ts"
  by (simp add: tcb_array_def tcb_port_defs no_ports_def)

section \<open>The choice of the next task\<close>

text \<open>A block without its time slice, which counts down on its own and does not matter to the scheduler.\<close>

definition status :: "tcb list \<Rightarrow> nat \<Rightarrow> tcb" where
  "status ts i = (ts ! i)\<lparr>time_slice := 0\<rparr>"

definition ready :: "tcb list \<Rightarrow> nat \<Rightarrow> bool" where
  "ready ts i \<longleftrightarrow> task_valid (ts ! i) \<and> task_state (ts ! i) = TASK_READY"

text \<open>The first of the ready tasks of highest priority.\<close>

definition best_ready :: "tcb list \<Rightarrow> nat option" where
  "best_ready ts = (let is = filter (ready ts) [0..<NUM_TASKS]
     in if is = [] then None
        else Some (hd (filter (\<lambda>i. \<forall>j \<in> set is. prio_level (ts ! j) \<le> prio_level (ts ! i)) is)))"

text \<open>It replaces the current task when that has a lower priority, or does not run.\<close>

definition schedule :: "nat \<Rightarrow> tcb list \<Rightarrow> nat" where
  "schedule cur ts = (case best_ready ts of None \<Rightarrow> cur
     | Some b \<Rightarrow> if b \<noteq> cur \<and> (prio_level (ts ! b) > prio_level (ts ! cur) \<or> task_state (ts ! cur) \<noteq> TASK_RUNNING)
         then b else cur)"

section \<open>The unit\<close>

datatype sched_state_t = SCHED_IDLE | SCHED_SCAN | SCHED_PREEMPT | SCHED_SWITCH | SCHED_DONE

record sched_unit =
  sched_state :: sched_state_t
  scan_idx :: nat
  best_task_id :: nat
  best_prio :: "4 word"
  found_ready :: bool
  next_task_id_reg :: nat
  switch_request_reg :: bool

definition sched_reset :: sched_unit where
  "sched_reset = \<lparr>sched_state = SCHED_IDLE, scan_idx = 0, best_task_id = 0, best_prio = 0,
     found_ready = False, next_task_id_reg = 0, switch_request_reg = False\<rparr>"

definition sched_busy :: "sched_unit \<Rightarrow> bool" where
  "sched_busy s \<longleftrightarrow> sched_state s \<noteq> SCHED_IDLE"

definition sched_done :: "sched_unit \<Rightarrow> bool" where
  "sched_done s \<longleftrightarrow> sched_state s = SCHED_DONE"

definition scan_entry :: "tcb list \<Rightarrow> sched_unit \<Rightarrow> sched_unit" where
  "scan_entry ts s = (let i = scan_idx s; prio = prio_level (ts ! i) in
     if ready ts i \<and> (\<not> found_ready s \<or> prio > best_prio s \<or> (prio = best_prio s \<and> i < best_task_id s))
     then s\<lparr>best_task_id := i, best_prio := prio, found_ready := True\<rparr> else s)"

definition task_scheduler :: "bool \<Rightarrow> nat \<Rightarrow> tcb list \<Rightarrow> sched_unit \<Rightarrow> sched_unit" where
  "task_scheduler trigger cur ts s = (case sched_state s of
       SCHED_IDLE \<Rightarrow>
         (let s' = s\<lparr>switch_request_reg := False\<rparr> in
          if trigger then s'\<lparr>sched_state := SCHED_SCAN, scan_idx := 0, best_task_id := 0, best_prio := 0,
            found_ready := False\<rparr>
          else s')
     | SCHED_SCAN \<Rightarrow>
         (let s' = scan_entry ts s in
          if scan_idx s = NUM_TASKS - 1 then s'\<lparr>sched_state := SCHED_PREEMPT\<rparr>
          else s'\<lparr>scan_idx := scan_idx s + 1\<rparr>)
     | SCHED_PREEMPT \<Rightarrow>
         (if found_ready s \<and> best_task_id s \<noteq> cur
             \<and> (best_prio s > prio_level (ts ! cur) \<or> task_state (ts ! cur) \<noteq> TASK_RUNNING)
          then s\<lparr>next_task_id_reg := best_task_id s, sched_state := SCHED_SWITCH\<rparr>
          else s\<lparr>next_task_id_reg := cur, sched_state := SCHED_DONE\<rparr>)
     | SCHED_SWITCH \<Rightarrow> s\<lparr>switch_request_reg := True, sched_state := SCHED_DONE\<rparr>
     | SCHED_DONE \<Rightarrow> s\<lparr>sched_state := SCHED_IDLE\<rparr>)"

section \<open>The unit makes the choice\<close>

definition is_best :: "tcb list \<Rightarrow> nat \<Rightarrow> nat \<Rightarrow> bool" where
  "is_best ts n b \<longleftrightarrow> b < n \<and> ready ts b \<and> (\<forall>j < n. ready ts j \<longrightarrow> prio_level (ts ! j) \<le> prio_level (ts ! b))
     \<and> (\<forall>j < b. ready ts j \<longrightarrow> prio_level (ts ! j) < prio_level (ts ! b))"

lemma is_best_unique: "is_best ts n b \<Longrightarrow> is_best ts n c \<Longrightarrow> b = c"
  unfolding is_best_def by (metis linorder_neqE_nat leD)

lemma exists_best:
  assumes "ready ts i" and "i < n"
  shows "\<exists>m < n. ready ts m \<and> (\<forall>j < n. ready ts j \<longrightarrow> prio_level (ts ! j) \<le> prio_level (ts ! m))"
proof -
  let ?P = "\<lambda>j. j < n \<and> ready ts j" and ?f = "\<lambda>j. unat (prio_level (ts ! j))"
  have "?f j < 16" for j using unsigned_less [of "prio_level (ts ! j)", where 'a = nat] by simp
  then have "?P (arg_max ?f ?P) \<and> (\<forall>j. ?P j \<longrightarrow> ?f j \<le> ?f (arg_max ?f ?P))"
    using assms by (intro arg_max_nat_lemma [of ?P i ?f 16]) auto
  then show ?thesis by (auto simp only: word_le_nat_alt)
qed

lemma best_ready_None: "best_ready ts = None \<longleftrightarrow> (\<forall>i < NUM_TASKS. \<not> ready ts i)"
  by (auto simp: best_ready_def Let_def filter_empty_conv)

lemma sorted_filter_hd:
  fixes xs :: "nat list"
  assumes "sorted xs" and "filter P xs = y # ys"
  shows "y \<in> set xs \<and> P y \<and> (\<forall>x \<in> set xs. P x \<longrightarrow> y \<le> x)"
proof -
  have "sorted (y # ys)" unfolding assms(2) [symmetric] using assms(1) by (rule sorted_wrt_filter)
  moreover have "set (y # ys) = {x \<in> set xs. P x}" unfolding assms(2) [symmetric] by simp
  ultimately show ?thesis by auto
qed

lemma best_ready_Some:
  assumes "best_ready ts = Some b"
  shows "is_best ts NUM_TASKS b"
proof -
  define ids where "ids = filter (ready ts) [0..<NUM_TASKS]"
  define top where "top = (\<lambda>i. \<forall>j \<in> set ids. prio_level (ts ! j) \<le> prio_level (ts ! i))"
  have set: "set ids = {i. i < NUM_TASKS \<and> ready ts i}" "sorted ids"
    by (auto simp: ids_def intro: sorted_wrt_filter)
  have ne: "ids \<noteq> []" and b: "b = hd (filter top ids)"
    using assms by (simp_all add: best_ready_def Let_def ids_def [symmetric] top_def split: if_split_asm)
  from ne have "hd ids \<in> set ids" by simp
  then have "ready ts (hd ids)" "hd ids < NUM_TASKS" by (simp_all add: set(1))
  from exists_best [OF this] obtain m where m: "m \<in> set ids" "top m" by (auto simp: top_def set(1))
  then have "filter top ids \<noteq> []" by (auto simp: filter_empty_conv)
  with b have bs: "filter top ids = b # tl (filter top ids)" by simp
  note hd = sorted_filter_hd [OF set(2) bs]
  have "prio_level (ts ! j) < prio_level (ts ! b)" if "j < b" "ready ts j" for j
  proof -
    have j: "j \<in> set ids" using that hd by (auto simp: set(1))
    with hd that(1) have "\<not> top j" by auto
    then obtain l where "l \<in> set ids" "prio_level (ts ! j) < prio_level (ts ! l)" by (auto simp: top_def not_le)
    with hd show ?thesis by (auto simp: top_def)
  qed
  with hd show ?thesis unfolding is_best_def by (simp add: set(1) top_def)
qed

definition same_status :: "tcb list \<Rightarrow> tcb list \<Rightarrow> bool" where
  "same_status ts ts' \<longleftrightarrow> length ts = NUM_TASKS \<and> length ts' = NUM_TASKS \<and> (\<forall>i < NUM_TASKS. status ts i = status ts' i)"

lemma same_statusD:
  assumes "same_status ts ts'" and "i < NUM_TASKS"
  shows "ready ts' i = ready ts i" "prio_level (ts' ! i) = prio_level (ts ! i)" "task_state (ts' ! i) = task_state (ts ! i)"
    "task_valid (ts' ! i) = task_valid (ts ! i)" "task_pc (ts' ! i) = task_pc (ts ! i)" "task_sp (ts' ! i) = task_sp (ts ! i)"
proof -
  have "(ts' ! i)\<lparr>time_slice := 0\<rparr> = (ts ! i)\<lparr>time_slice := 0\<rparr>" using assms by (simp add: same_status_def status_def)
  then show "ready ts' i = ready ts i" "prio_level (ts' ! i) = prio_level (ts ! i)" "task_state (ts' ! i) = task_state (ts ! i)"
    "task_valid (ts' ! i) = task_valid (ts ! i)" "task_pc (ts' ! i) = task_pc (ts ! i)" "task_sp (ts' ! i) = task_sp (ts ! i)"
    by (cases "ts ! i"; cases "ts' ! i"; simp add: ready_def)+
qed

text \<open>The registers of the unit after it has looked at the first \<open>n\<close> blocks.\<close>

definition scanned :: "tcb list \<Rightarrow> nat \<Rightarrow> sched_unit \<Rightarrow> bool" where
  "scanned ts n s \<longleftrightarrow> (if found_ready s then is_best ts n (best_task_id s) \<and> best_prio s = prio_level (ts ! best_task_id s)
     else \<forall>i < n. \<not> ready ts i)"

lemma scanned_simps [simp]:
  "scanned ts n (s\<lparr>sched_state := st\<rparr>) = scanned ts n s" "scanned ts n (s\<lparr>scan_idx := i\<rparr>) = scanned ts n s"
  by (simp_all add: scanned_def)

lemma is_best_first: "\<forall>i < n. \<not> ready ts i \<Longrightarrow> ready ts n \<Longrightarrow> is_best ts (Suc n) n"
  by (simp add: is_best_def less_Suc_eq)

lemma is_best_higher:
  assumes "is_best ts n b" "ready ts n" "prio_level (ts ! n) > prio_level (ts ! b)"
  shows "is_best ts (Suc n) n"
proof -
  have "prio_level (ts ! j) < prio_level (ts ! n)" if "j < n" "ready ts j" for j
    using assms(1) that le_less_trans [OF _ assms(3)] by (auto simp: is_best_def)
  then show ?thesis using assms(2) by (auto simp: is_best_def less_Suc_eq intro: less_imp_le)
qed

lemma is_best_same:
  assumes "is_best ts n b" and "\<not> (ready ts n \<and> prio_level (ts ! n) > prio_level (ts ! b))"
  shows "is_best ts (Suc n) b"
  using assms by (auto simp: is_best_def less_Suc_eq not_less)

lemma scan_entry_scanned:
  assumes "scanned ts n s" and "scan_idx s = n" and "n < NUM_TASKS" and "same_status ts ts'"
  shows "scanned ts (Suc n) (scan_entry ts' s)" "scan_idx (scan_entry ts' s) = n"
    "sched_state (scan_entry ts' s) = sched_state s"
proof -
  note same = same_statusD [OF assms(4,3)]
  show "scan_idx (scan_entry ts' s) = n" "sched_state (scan_entry ts' s) = sched_state s"
    using assms(2) by (simp_all add: scan_entry_def Let_def)
  show "scanned ts (Suc n) (scan_entry ts' s)"
  proof (cases "found_ready s")
    case True
    then have b: "is_best ts n (best_task_id s)" "best_prio s = prio_level (ts ! best_task_id s)"
      using assms(1) by (simp_all add: scanned_def)
    then have "\<not> n < best_task_id s" by (simp add: is_best_def)
    then show ?thesis
      using b True assms(2) same is_best_higher [OF b(1)] is_best_same [OF b(1)]
      by (simp add: scan_entry_def Let_def) (simp add: scanned_def)
  next
    case False
    then have "\<forall>i < n. \<not> ready ts i" using assms(1) by (simp add: scanned_def)
    from is_best_first [OF this] this show ?thesis
      using False assms(2) same by (auto simp: scan_entry_def Let_def scanned_def less_Suc_eq)
  qed
qed

lemma schedule_scanned:
  assumes "scanned ts NUM_TASKS s"
  shows "schedule cur ts = (if found_ready s \<and> best_task_id s \<noteq> cur
      \<and> (best_prio s > prio_level (ts ! cur) \<or> task_state (ts ! cur) \<noteq> TASK_RUNNING) then best_task_id s else cur)"
proof (cases "best_ready ts")
  case None
  then have "\<not> found_ready s" using assms by (auto simp: best_ready_None scanned_def is_best_def split: if_split_asm)
  with None show ?thesis by (simp add: schedule_def)
next
  case (Some b)
  note best = best_ready_Some [OF Some]
  then have "found_ready s" using assms by (auto simp: scanned_def is_best_def split: if_split_asm)
  then have "best_task_id s = b" "best_prio s = prio_level (ts ! b)"
    using assms is_best_unique [OF _ best] by (auto simp: scanned_def)
  with Some \<open>found_ready s\<close> show ?thesis by (auto simp: schedule_def)
qed

text \<open>A run of the unit: at each clock the trigger and the blocks.\<close>

definition sched_run :: "nat \<Rightarrow> (bool \<times> tcb list) list \<Rightarrow> sched_unit \<Rightarrow> sched_unit" where
  "sched_run cur xs s = fold (\<lambda>(trigger, ts). task_scheduler trigger cur ts) xs s"

text \<open>The moment \<open>k\<close> clocks after the trigger: 1 to 16 scan, 17 decides, 18 may announce a switch.\<close>

definition sched_at :: "nat \<Rightarrow> tcb list \<Rightarrow> nat \<Rightarrow> sched_unit \<Rightarrow> bool" where
  "sched_at cur ts k s \<longleftrightarrow>
     (if k = 0 then sched_state s = SCHED_IDLE
      else if k \<le> NUM_TASKS then sched_state s = SCHED_SCAN \<and> scan_idx s = k - 1 \<and> scanned ts (k - 1) s
      else if k = NUM_TASKS + 1 then sched_state s = SCHED_PREEMPT \<and> scanned ts NUM_TASKS s
      else next_task_id_reg s = schedule cur ts
        \<and> sched_state s = (if k = NUM_TASKS + 2 \<and> schedule cur ts \<noteq> cur then SCHED_SWITCH else SCHED_DONE))"

definition sched_clocks :: "nat \<Rightarrow> tcb list \<Rightarrow> nat" where
  "sched_clocks cur ts = (if schedule cur ts = cur then NUM_TASKS + 2 else NUM_TASKS + 3)"

lemma sched_step:
  assumes s: "sched_at cur ts k s" and k: "k < sched_clocks cur ts" and ts: "same_status ts ts'" "cur < NUM_TASKS"
    and tr: "k = 0 \<Longrightarrow> trigger"
  shows "sched_at cur ts (Suc k) (task_scheduler trigger cur ts' s) \<and> \<not> sched_done s"
proof -
  consider "k = 0" | "0 < k" "k \<le> NUM_TASKS" | "k = NUM_TASKS + 1" | "k = NUM_TASKS + 2" "schedule cur ts \<noteq> cur"
    using k by (fastforce simp: sched_clocks_def split: if_split_asm)
  then show ?thesis
  proof cases
    case 1
    then show ?thesis using s tr by (simp add: sched_at_def task_scheduler_def sched_done_def Let_def scanned_def NUM_TASKS_def)
  next
    case 2
    then have c: "sched_state s = SCHED_SCAN" "scan_idx s = k - 1" "scanned ts (k - 1) s" "k - 1 < NUM_TASKS"
      using s by (simp_all add: sched_at_def)
    note e = scan_entry_scanned [OF c(3,2,4) ts(1)]
    have "k = NUM_TASKS" if "k - 1 = NUM_TASKS - 1" using that 2 by simp
    then show ?thesis
      using 2 c e by (auto simp: sched_at_def task_scheduler_def sched_done_def Let_def)
  next
    case 3
    then have c: "sched_state s = SCHED_PREEMPT" "scanned ts NUM_TASKS s" using s by (simp_all add: sched_at_def)
    show ?thesis
      using 3 c schedule_scanned [OF c(2), of cur] same_statusD [OF ts]
      by (auto simp: sched_at_def task_scheduler_def sched_done_def)
  next
    case 4
    then show ?thesis using s by (simp add: sched_at_def task_scheduler_def sched_done_def)
  qed
qed

lemma sched_run_at:
  assumes "sched_at cur ts 0 s" and "length xs \<le> sched_clocks cur ts" and "cur < NUM_TASKS"
    and "\<forall>x \<in> set xs. same_status ts (snd x)" and "xs \<noteq> [] \<Longrightarrow> fst (hd xs)"
  shows "sched_at cur ts (length xs) (sched_run cur xs s)"
  using assms
proof (induction xs rule: rev_induct)
  case (snoc x xs)
  have hd: "xs \<noteq> [] \<Longrightarrow> fst (hd xs)" using snoc.prems(5) by (cases xs) auto
  have "sched_at cur ts (length xs) (sched_run cur xs s)"
    using snoc.prems(1-4) hd by (intro snoc.IH) auto
  moreover have "length xs = 0 \<Longrightarrow> fst x" using snoc.prems(5) by simp
  ultimately show ?case
    using snoc.prems(2-4) sched_step [of cur ts "length xs" "sched_run cur xs s" "snd x" "fst x"]
    by (simp add: sched_run_def split_beta)
qed (simp add: sched_run_def)

lemma sched_run_done:
  assumes s: "sched_state s = SCHED_IDLE" and xs: "length xs = sched_clocks cur ts" and cur: "cur < NUM_TASKS"
    and ts: "\<forall>x \<in> set xs. same_status ts (snd x)" and tr: "fst (hd xs)"
  shows "sched_done (sched_run cur xs s) \<and> next_task_id_reg (sched_run cur xs s) = schedule cur ts"
proof -
  have "sched_at cur ts (length xs) (sched_run cur xs s)"
    using assms by (intro sched_run_at) (simp_all add: sched_at_def)
  then show ?thesis unfolding xs by (auto simp: sched_at_def sched_clocks_def sched_done_def split: if_split_asm)
qed

lemma sched_run_not_done:
  assumes s: "sched_state s = SCHED_IDLE" and xs: "length xs = sched_clocks cur ts" and cur: "cur < NUM_TASKS"
    and ts: "\<forall>x \<in> set xs. same_status ts (snd x)" and tr: "fst (hd xs)"
  shows "\<forall>k < length xs. \<not> sched_done (sched_run cur (take k xs) s)"
proof (intro allI impI)
  fix k assume k: "k < length xs"
  have hd: "take k xs \<noteq> [] \<Longrightarrow> fst (hd (take k xs))" using tr by (cases xs; cases k) auto
  have x: "xs ! k \<in> set xs" using k by simp
  have len: "length (take k xs) = k" using k by simp
  have "\<forall>x \<in> set (take k xs). same_status ts (snd x)" using ts by (auto dest: in_set_takeD)
  moreover have "sched_at cur ts 0 s" using s by (simp add: sched_at_def)
  ultimately have at: "sched_at cur ts k (sched_run cur (take k xs) s)"
    using sched_run_at [of cur ts s "take k xs", unfolded len] cur hd xs k by simp
  show "\<not> sched_done (sched_run cur (take k xs) s)"
    using sched_step [OF at _ bspec [OF ts x] cur, of True] k xs by simp
qed

end
