(* ===== verification/Rtos_Switch.thy ===== *)
theory Rtos_Switch
  imports Rtos_Tasks
begin

text \<open>
  The two machines of a context switch: rtl/rtos/context\_switch.sv, which keeps the registers of every
  task, and the context switch state machine of rtl/core/rv32im\_core.sv, which reads and writes the
  register file. What the read port of the register file shows while the core is not saving
  (\<open>other_rs1\<close>), the fetch address and whether the core is serving a system call are inputs.
\<close>

section \<open>context\_switch.sv\<close>

datatype ctx_state_t = CTX_IDLE | CTX_SAVE | CTX_LOAD | CTX_DONE

record ctx_unit =
  ctx_state :: ctx_state_t
  reg_banks :: "u32 list list"
  saved_pc :: "u32 list"
  reg_idx :: nat
  old_id_latched :: nat
  new_id_latched :: nat
  restore_pc_reg :: u32

definition ctx_reset :: ctx_unit where
  "ctx_reset = \<lparr>ctx_state = CTX_IDLE, reg_banks = replicate NUM_TASKS (replicate 32 0),
     saved_pc = replicate NUM_TASKS 0, reg_idx = 1, old_id_latched = 0, new_id_latched = 0, restore_pc_reg = 0\<rparr>"

definition stall_pipeline :: "ctx_unit \<Rightarrow> bool" where
  "stall_pipeline u \<longleftrightarrow> ctx_state u = CTX_SAVE \<or> ctx_state u = CTX_LOAD"

definition switch_done :: "ctx_unit \<Rightarrow> bool" where
  "switch_done u \<longleftrightarrow> ctx_state u = CTX_DONE"

text \<open>The register asked to be written: its number and value.\<close>

definition cpu_reg_write :: "ctx_unit \<Rightarrow> (nat \<times> u32) option" where
  "cpu_reg_write u = (if ctx_state u = CTX_LOAD then Some (reg_idx u, reg_banks u ! new_id_latched u ! reg_idx u) else None)"

definition context_switch :: "(nat \<times> nat) option \<Rightarrow> u32 \<Rightarrow> u32 \<Rightarrow> ctx_unit \<Rightarrow> ctx_unit" where
  "context_switch req rdata pc u = (case ctx_state u of
       CTX_IDLE \<Rightarrow> (case req of None \<Rightarrow> u
         | Some (old, new) \<Rightarrow> u\<lparr>ctx_state := CTX_SAVE, reg_idx := 1, old_id_latched := old,
             new_id_latched := new, saved_pc := (saved_pc u)[old := pc]\<rparr>)
     | CTX_SAVE \<Rightarrow>
         (let u' = u\<lparr>reg_banks := (reg_banks u)[old_id_latched u := (reg_banks u ! old_id_latched u)[reg_idx u := rdata]]\<rparr>
          in if reg_idx u = 31 then u'\<lparr>ctx_state := CTX_LOAD, reg_idx := 1\<rparr>
             else u'\<lparr>reg_idx := reg_idx u + 1\<rparr>)
     | CTX_LOAD \<Rightarrow>
         (if reg_idx u = 31 then u\<lparr>ctx_state := CTX_DONE, restore_pc_reg := saved_pc u ! new_id_latched u\<rparr>
          else u\<lparr>reg_idx := reg_idx u + 1\<rparr>)
     | CTX_DONE \<Rightarrow> u\<lparr>ctx_state := CTX_IDLE\<rparr>)"

section \<open>The core\<close>

datatype core_ctx_t = CORE_IDLE | CORE_FLUSH | CORE_SAVE_REGS | CORE_SAVE_PC | CORE_WAIT_RESTORE
  | CORE_RESTORE_REGS | CORE_RESUME

record core_ctx =
  core_state :: core_ctx_t
  ctx_reg_counter :: nat
  regs :: "u32 list"

text \<open>
  What the rest of the core does at a clock. \<open>wb_write\<close> is what the pipeline or the end of a system call
  writes to the register file.
\<close>

record core_in =
  other_rs1 :: u32
  fetch_pc :: u32
  syscall_active :: bool
  wb_write :: "(nat \<times> u32) option"

definition ctx_switch_ack :: "core_ctx \<Rightarrow> bool" where
  "ctx_switch_ack k \<longleftrightarrow> core_state k = CORE_RESUME"

text \<open>The write port of the register file: a restored register goes first.\<close>

definition rf_write :: "(nat \<times> u32) option \<Rightarrow> core_in \<Rightarrow> core_ctx \<Rightarrow> (nat \<times> u32) option" where
  "rf_write w x k = (if core_state k = CORE_RESTORE_REGS \<and> w \<noteq> None then w else wb_write x)"

text \<open>A register being written is read with its new value.\<close>

definition rf_read :: "(nat \<times> u32) option \<Rightarrow> core_ctx \<Rightarrow> nat \<Rightarrow> u32" where
  "rf_read wr k i = (if i = 0 then 0 else case wr of
       Some (j, v) \<Rightarrow> if j = i then v else regs k ! i | None \<Rightarrow> regs k ! i)"

definition ctx_save_reg_data :: "(nat \<times> u32) option \<Rightarrow> core_in \<Rightarrow> core_ctx \<Rightarrow> u32" where
  "ctx_save_reg_data w x k =
     (if core_state k = CORE_SAVE_REGS then rf_read (rf_write w x k) k (ctx_reg_counter k) else other_rs1 x)"

definition core_ctx_state :: "bool \<Rightarrow> bool \<Rightarrow> core_in \<Rightarrow> core_ctx \<Rightarrow> core_ctx" where
  "core_ctx_state req restore_en x k = (case core_state k of
       CORE_IDLE \<Rightarrow> if req \<and> \<not> syscall_active x then k\<lparr>core_state := CORE_FLUSH, ctx_reg_counter := 0\<rparr> else k
     | CORE_FLUSH \<Rightarrow> k\<lparr>core_state := CORE_SAVE_REGS, ctx_reg_counter := 0\<rparr>
     | CORE_SAVE_REGS \<Rightarrow>
         if ctx_reg_counter k = 31 then k\<lparr>core_state := CORE_SAVE_PC\<rparr>
         else k\<lparr>ctx_reg_counter := ctx_reg_counter k + 1\<rparr>
     | CORE_SAVE_PC \<Rightarrow> k\<lparr>core_state := CORE_WAIT_RESTORE\<rparr>
     | CORE_WAIT_RESTORE \<Rightarrow>
         if restore_en then k\<lparr>core_state := CORE_RESTORE_REGS, ctx_reg_counter := 0\<rparr> else k
     | CORE_RESTORE_REGS \<Rightarrow>
         if restore_en then k\<lparr>ctx_reg_counter := (ctx_reg_counter k + 1) mod 32\<rparr>
         else if 0 < ctx_reg_counter k then k\<lparr>core_state := CORE_RESUME\<rparr> else k
     | CORE_RESUME \<Rightarrow> k\<lparr>core_state := CORE_IDLE\<rparr>)"

definition core_regs :: "(nat \<times> u32) option \<Rightarrow> core_ctx \<Rightarrow> u32 list" where
  "core_regs wr k = (case wr of
       Some (i, v) \<Rightarrow> if i \<noteq> 0 then (regs k)[i := v] else regs k
     | None \<Rightarrow> regs k)"

definition core_ctx_clock :: "bool \<Rightarrow> (nat \<times> u32) option \<Rightarrow> core_in \<Rightarrow> core_ctx \<Rightarrow> core_ctx" where
  "core_ctx_clock req w x k = (core_ctx_state req (w \<noteq> None) x k)\<lparr>regs := core_regs (rf_write w x k) k\<rparr>"

section \<open>Both together\<close>

definition switch_clock :: "(nat \<times> nat) option \<Rightarrow> core_in \<Rightarrow> ctx_unit \<times> core_ctx \<Rightarrow> ctx_unit \<times> core_ctx" where
  "switch_clock req x uk = (case uk of (u, k) \<Rightarrow>
     (context_switch req (ctx_save_reg_data (cpu_reg_write u) x k) (fetch_pc x) u,
      core_ctx_clock (stall_pipeline u) (cpu_reg_write u) x k))"

definition switch_run :: "core_in list \<Rightarrow> ctx_unit \<times> core_ctx \<Rightarrow> ctx_unit \<times> core_ctx" where
  "switch_run xs uk = fold (switch_clock None) xs uk"

text \<open>The core serves no system call and its pipeline writes nothing.\<close>

definition core_still :: "core_in \<Rightarrow> bool" where
  "core_still x \<longleftrightarrow> \<not> syscall_active x \<and> wb_write x = None"

text \<open>
  The core starts to show its registers two clocks after the unit starts to store them, and starts to take
  them five clocks late. \<open>saving n\<close> and \<open>loading n\<close> are the moments \<open>n\<close> clocks after the request; \<open>rs\<close>
  are the registers at the request and \<open>bank\<close> those kept for the new task.
\<close>

definition core_at :: "nat \<Rightarrow> core_ctx \<Rightarrow> bool" where
  "core_at n k \<longleftrightarrow>
     (if n = 0 then core_state k = CORE_IDLE
      else if n = 1 then core_state k = CORE_FLUSH
      else if n < 34 then core_state k = CORE_SAVE_REGS \<and> ctx_reg_counter k = n - 2
      else if n = 34 then core_state k = CORE_SAVE_PC
      else if n = 35 then core_state k = CORE_WAIT_RESTORE
      else if n < 63 then core_state k = CORE_RESTORE_REGS \<and> ctx_reg_counter k = n - 36
      else core_state k = CORE_RESUME)"

definition saving :: "nat \<Rightarrow> nat \<Rightarrow> nat \<Rightarrow> u32 list \<Rightarrow> u32 list \<Rightarrow> ctx_unit \<times> core_ctx \<Rightarrow> bool" where
  "saving n old new rs bank uk \<longleftrightarrow> (case uk of (u, k) \<Rightarrow>
     ctx_state u = CTX_SAVE \<and> reg_idx u = n + 1 \<and> old_id_latched u = old \<and> new_id_latched u = new
     \<and> length (reg_banks u) = NUM_TASKS \<and> length (reg_banks u ! old) = 32 \<and> reg_banks u ! new = bank
     \<and> (\<forall>i. 3 \<le> i \<and> i \<le> n \<longrightarrow> reg_banks u ! old ! i = (if i = 3 then 0 else rs ! (i - 3)))
     \<and> core_at n k \<and> regs k = rs)"

definition loading :: "nat \<Rightarrow> nat \<Rightarrow> nat \<Rightarrow> u32 list \<Rightarrow> u32 list \<Rightarrow> ctx_unit \<times> core_ctx \<Rightarrow> bool" where
  "loading n old new rs bank uk \<longleftrightarrow> (case uk of (u, k) \<Rightarrow>
     ctx_state u = (if n < 62 then CTX_LOAD else if n = 62 then CTX_DONE else CTX_IDLE) \<and> (n < 62 \<longrightarrow> reg_idx u = n - 30)
     \<and> new_id_latched u = new \<and> reg_banks u ! new = bank
     \<and> (\<forall>i. 3 \<le> i \<and> i < 32 \<longrightarrow> reg_banks u ! old ! i = (if i = 3 then 0 else rs ! (i - 3)))
     \<and> core_at n k \<and> length (regs k) = 32
     \<and> (\<forall>i < 32. regs k ! i = (if 6 \<le> i \<and> i < n - 30 then bank ! i else rs ! i)))"

lemmas switch_defs = switch_clock_def context_switch_def core_ctx_clock_def core_ctx_state_def core_regs_def
  rf_write_def ctx_save_reg_data_def cpu_reg_write_def stall_pipeline_def core_still_def Let_def

lemma saving_step:
  assumes "saving n old new rs bank uk" and "n < 30" and "core_still x" and "old < NUM_TASKS" "old \<noteq> new"
  shows "saving (Suc n) old new rs bank (switch_clock None x uk)"
proof -
  obtain u k where uk: "uk = (u, k)" by (cases uk)
  have core: "core_at (Suc n) (core_ctx_clock True None x k)" "regs (core_ctx_clock True None x k) = regs k"
    using assms uk by (auto simp: saving_def core_at_def switch_defs split: if_split_asm)
  have data: "ctx_save_reg_data None x k = (if n = 2 then 0 else rs ! (n - 2))" if "2 \<le> n"
    using that assms uk by (auto simp: saving_def core_at_def switch_defs rf_read_def split: if_split_asm)
  show ?thesis
    using assms core data uk
    by (auto simp: saving_def switch_clock_def context_switch_def cpu_reg_write_def stall_pipeline_def Let_def
        nth_list_update le_Suc_eq)
qed

lemma saving_last:
  assumes "saving 30 old new rs bank uk" and "core_still x" and "old < NUM_TASKS" "old \<noteq> new" "length rs = 32"
  shows "loading 31 old new rs bank (switch_clock None x uk)"
proof -
  obtain u k where uk: "uk = (u, k)" by (cases uk)
  have core: "core_at 31 (core_ctx_clock True None x k)" "regs (core_ctx_clock True None x k) = regs k"
    using assms uk by (auto simp: saving_def core_at_def switch_defs split: if_split_asm)
  have data: "ctx_save_reg_data None x k = rs ! 28"
    using assms uk by (auto simp: saving_def core_at_def switch_defs rf_read_def)
  have le: "i \<le> 30 \<or> i = 31" if "i < 32" for i :: nat using that by auto
  show ?thesis
    using assms core data uk
    by (auto simp: saving_def loading_def switch_clock_def context_switch_def cpu_reg_write_def stall_pipeline_def
        Let_def nth_list_update dest!: le)
qed

lemma loading_step:
  assumes "loading n old new rs bank uk" and "31 \<le> n" "n < 63" and "core_still x"
  shows "loading (Suc n) old new rs bank (switch_clock None x uk)"
proof -
  obtain u k where uk: "uk = (u, k)" by (cases uk)
  define w where "w = cpu_reg_write u"
  have w: "w = (if n < 62 then Some (n - 30, bank ! (n - 30)) else None)"
    using assms uk by (simp add: w_def loading_def cpu_reg_write_def)
  have core: "core_at (Suc n) (core_ctx_clock (stall_pipeline u) w x k)"
    using assms(1-4) uk w by (auto simp: loading_def core_at_def switch_defs split: if_split_asm)
  have st: "core_state k = CORE_RESTORE_REGS \<longleftrightarrow> 36 \<le> n" and wb: "wb_write x = None"
    using assms uk by (auto simp: loading_def core_at_def core_still_def split: if_split_asm)
  have regs: "regs (core_ctx_clock (stall_pipeline u) w x k)
      = (if 36 \<le> n \<and> n < 62 then (regs k)[n - 30 := bank ! (n - 30)] else regs k)"
    using w by (simp add: core_ctx_clock_def core_regs_def rf_write_def st wb)
  have unit: "ctx_state (context_switch None d pc u) = (if Suc n < 62 then CTX_LOAD else if Suc n = 62 then CTX_DONE else CTX_IDLE)"
    "Suc n < 62 \<Longrightarrow> reg_idx (context_switch None d pc u) = Suc n - 30"
    "reg_banks (context_switch None d pc u) = reg_banks u" "new_id_latched (context_switch None d pc u) = new_id_latched u" for d pc
    using assms uk by (auto simp: loading_def context_switch_def split: if_split_asm)
  have "regs (core_ctx_clock (stall_pipeline u) w x k) ! i = (if 6 \<le> i \<and> i < Suc n - 30 then bank ! i else rs ! i)"
    if "i < 32" for i
    using assms(1-3) uk regs that by (cases "n < 36") (auto simp: loading_def nth_list_update less_Suc_eq)
  then show ?thesis
    using assms(1) core regs unit uk by (simp add: loading_def switch_clock_def w_def [symmetric])
qed

lemma switch_run_simps [simp]:
  "switch_run [] uk = uk" "switch_run (x # xs) uk = switch_run xs (switch_clock None x uk)"
  "switch_run (xs @ ys) uk = switch_run ys (switch_run xs uk)"
  by (simp_all add: switch_run_def)

lemma saving_run:
  assumes "saving 0 old new rs bank uk" and "length xs \<le> 30" and "\<forall>x \<in> set xs. core_still x"
    and "old < NUM_TASKS" "old \<noteq> new"
  shows "saving (length xs) old new rs bank (switch_run xs uk)"
  using assms
proof (induction xs rule: rev_induct)
  case (snoc x xs)
  then have "saving (length xs) old new rs bank (switch_run xs uk)" by simp
  from saving_step [OF this _ _ snoc.prems(4,5)] snoc.prems(2,3) show ?case by simp
qed simp

lemma loading_run:
  assumes "loading 31 old new rs bank uk" and "length xs \<le> 32" and "\<forall>x \<in> set xs. core_still x"
  shows "loading (31 + length xs) old new rs bank (switch_run xs uk)"
  using assms
proof (induction xs rule: rev_induct)
  case (snoc x xs)
  then have "loading (31 + length xs) old new rs bank (switch_run xs uk)" by simp
  from loading_step [OF this] snoc.prems(2,3) show ?case by simp
qed simp

text \<open>The whole switch, from the request to the end of the core's machine.\<close>

definition switch_from :: "nat \<Rightarrow> nat \<Rightarrow> core_in list \<Rightarrow> ctx_unit \<times> core_ctx \<Rightarrow> ctx_unit \<times> core_ctx" where
  "switch_from old new xs uk = (case xs of [] \<Rightarrow> uk | x # xs' \<Rightarrow> switch_run xs' (switch_clock (Some (old, new)) x uk))"

lemma switch_start:
  assumes "ctx_state u = CTX_IDLE" "core_state k = CORE_IDLE" and "core_still x"
    and "length (reg_banks u) = NUM_TASKS" "length (reg_banks u ! old) = 32" and "old < NUM_TASKS" "old \<noteq> new"
  shows "saving 0 old new (regs k) (reg_banks u ! new) (switch_clock (Some (old, new)) x (u, k))"
  using assms by (simp add: saving_def core_at_def switch_defs)

theorem switch_misplaces:
  assumes "ctx_state u = CTX_IDLE" "core_state k = CORE_IDLE" "length (regs k) = 32"
    and "length (reg_banks u) = NUM_TASKS" "length (reg_banks u ! old) = 32" and t: "old < NUM_TASKS" "old \<noteq> new"
    and xs: "length xs = 64" "\<forall>x \<in> set xs. core_still x"
  shows "case switch_from old new xs (u, k) of (u', k') \<Rightarrow>
    core_state k' = CORE_RESUME \<and> ctx_state u' = CTX_IDLE
    \<and> (\<forall>i. 4 \<le> i \<and> i < 32 \<longrightarrow> reg_banks u' ! old ! i = regs k ! (i - 3))
    \<and> (\<forall>i < 32. regs k' ! i = (if i < 6 then regs k ! i else reg_banks u ! new ! i))"
proof -
  obtain x ys where x: "xs = x # ys" "length ys = 63" using xs(1) by (cases xs) auto
  obtain y zs where z: "drop 30 ys = y # zs" "length zs = 32"
    using x(2) by (cases "drop 30 ys") (auto dest: arg_cong [of _ _ length])
  have ys: "ys = take 30 ys @ y # zs" by (metis append_take_drop_id z(1))
  have "set ys = set (take 30 ys) \<union> insert y (set zs)" by (subst ys) simp
  then have still: "core_still x" "\<forall>x \<in> set (take 30 ys). core_still x" "core_still y" "\<forall>x \<in> set zs. core_still x"
    using xs(2) x(1) by auto
  note s0 = switch_start [OF assms(1,2) still(1) assms(4,5) t]
  from saving_run [OF s0 _ still(2) t] have
    "saving 30 old new (regs k) (reg_banks u ! new) (switch_run (take 30 ys) (switch_clock (Some (old, new)) x (u, k)))"
    using x(2) by simp
  note s31 = saving_last [OF this still(3) t assms(3)]
  have "switch_from old new xs (u, k)
      = switch_run zs (switch_clock None y (switch_run (take 30 ys) (switch_clock (Some (old, new)) x (u, k))))"
    unfolding switch_from_def x(1) list.case by (subst ys) simp
  with loading_run [OF s31 _ still(4)] z(2) have
    "loading 63 old new (regs k) (reg_banks u ! new) (switch_from old new xs (u, k))" by simp
  then show ?thesis by (auto simp: loading_def core_at_def split: prod.split)
qed

end
