(* ===== verification/Hw_Rtos.thy ===== *)
theory Hw_Rtos
  imports Posix_Layer Rtos_Switch
begin

text \<open>
  The hardware RTOS as a whole, rtl/rtos/hw\_rtos.sv: its scheduler state machine, the registers that
  machine writes and the six units it drives, at clock edges. The input \<open>scheduler_en\<close> is constantly true
  in rtl/top/vsync\_top.sv. The registers of the PMP unit are never written by hw\_rtos.sv, which
  constantly drives their write enables low.
\<close>

section \<open>State and inputs\<close>

datatype rtos_fsm_t = FSM_IDLE | FSM_SCAN_READY | FSM_COMPARE_PRIORITY | FSM_PREEMPT_CHECK
  | FSM_CONTEXT_SAVE | FSM_CONTEXT_LOAD | FSM_DISPATCH | FSM_TIMER_UPDATE | FSM_TASK_CREATE
  | FSM_TASK_EXIT | FSM_BLOCK_TASK | FSM_UNBLOCK_TASK | FSM_WAIT_CTX_ACK | FSM_TASK_JOIN | FSM_EXIT_SETTLE

record hw_rtos =
  fsm_state :: rtos_fsm_t
  current_task_id_r :: nat
  next_task_id_r :: nat
  task_active_r :: bool
  need_reschedule :: bool
  timer_tick_pending :: bool
  time_slice_config :: "16 word"
  sched_trigger :: bool
  cs_switch_req :: bool
  cs_old_task_id :: nat
  cs_new_task_id :: nat
  ctx_switch_active :: bool
  ports :: tcb_ports
  tcb_wr_en :: bool
  tcb_rd_id :: nat
  prio_boost_wr_pending :: bool
  prio_boost_id_r :: nat
  prio_boost_val_r :: "4 word"
  task_create_pending :: bool
  task_create_pc_r :: u32
  task_create_sp_r :: u32
  task_create_prio_r :: "4 word"
  create_done_r :: bool
  create_id_r :: nat
  join_done_r :: bool
  join_on :: "nat option list" \<comment> \<open>\<open>join_target\<close> where \<open>join_valid\<close>\<close>
  sem_op_int :: nat
  sem_id_int :: nat
  sem_op_pending :: bool
  mutex_op_int :: nat
  mutex_id_int :: nat
  mutex_op_pending :: bool
  msgq_op_int :: nat
  msgq_queue_id :: nat
  msgq_data_in :: u32
  msgq_op_pending :: bool
  wake_target_id :: nat
  wake_pending :: bool
  sem_done_r :: bool
  sem_result_r :: bool
  mutex_done_r :: bool
  mutex_result_r :: bool
  msgq_done_r :: bool
  msgq_result_r :: u32
  msgq_success_r :: bool
  tcbs :: "tcb list"
  sched_u :: sched_unit
  ctx_u :: ctx_unit
  sem_u :: sem_unit
  mutex_u :: mutex_unit
  msgq_u :: msgq_unit

definition DEFAULT_TIME_SLICE :: "16 word" where "DEFAULT_TIME_SLICE = 1000"

definition rtos_reset :: hw_rtos where
  "rtos_reset = \<lparr>fsm_state = FSM_IDLE, current_task_id_r = 0, next_task_id_r = 0, task_active_r = False,
     need_reschedule = False, timer_tick_pending = False, time_slice_config = DEFAULT_TIME_SLICE,
     sched_trigger = False, cs_switch_req = False, cs_old_task_id = 0, cs_new_task_id = 0,
     ctx_switch_active = False, ports = no_ports, tcb_wr_en = False, tcb_rd_id = 0,
     prio_boost_wr_pending = False, prio_boost_id_r = 0, prio_boost_val_r = 0,
     task_create_pending = False, task_create_pc_r = 0, task_create_sp_r = 0, task_create_prio_r = 0,
     create_done_r = False, create_id_r = 0, join_done_r = False, join_on = replicate NUM_TASKS None,
     sem_op_int = 0, sem_id_int = 0, sem_op_pending = False, mutex_op_int = 0, mutex_id_int = 0,
     mutex_op_pending = False, msgq_op_int = 0, msgq_queue_id = 0, msgq_data_in = 0, msgq_op_pending = False,
     wake_target_id = 0, wake_pending = False, sem_done_r = False, sem_result_r = False, mutex_done_r = False,
     mutex_result_r = False, msgq_done_r = False, msgq_result_r = 0, msgq_success_r = False,
     tcbs = tcb_reset, sched_u = sched_reset, ctx_u = ctx_reset, sem_u = sem_reset, mutex_u = mutex_reset,
     msgq_u = msgq_reset\<rparr>"

text \<open>What else reaches the RTOS at a clock: the timer, the core and the register writes over AXI.\<close>

record rtos_in =
  timer_tick :: bool
  core_ack :: bool
  core_reg_data :: u32
  core_pc :: u32
  axi_wr_time_slice :: "16 word option"
  axi_wr_reschedule_req :: bool

definition all_valid :: "hw_rtos \<Rightarrow> bool list" where
  "all_valid r = map task_valid (tcbs r)"

definition task_prios :: "hw_rtos \<Rightarrow> task_prio" where
  "task_prios r i = prio_level (tcbs r ! i)"

text \<open>The first free place of the task table from 1 on, and the answer to a creation: 0 when there is none.\<close>

definition free_task_id :: "bool list \<Rightarrow> nat option" where
  "free_task_id valid = (case filter (\<lambda>i. \<not> valid ! i) [1..<NUM_TASKS] of [] \<Rightarrow> None | i # _ \<Rightarrow> Some i)"

section \<open>The state machine\<close>

definition any_wake :: "hw_rtos \<Rightarrow> bool" where
  "any_wake r \<longleftrightarrow> sem_wake_valid (sem_u r) \<or> mutex_wake_valid (mutex_u r) \<or> msgq_wake_valid (msgq_u r)"

definition after_op :: "bool \<Rightarrow> hw_rtos \<Rightarrow> rtos_fsm_t" where
  "after_op block r =
     (if block then FSM_SCAN_READY
      else if wake_pending r \<or> any_wake r then FSM_UNBLOCK_TASK else FSM_IDLE)"

definition idle_next :: "rtos_cmd \<Rightarrow> hw_rtos \<Rightarrow> rtos_fsm_t" where
  "idle_next c r =
     (if rtos_task_create c \<or> task_create_pending r then FSM_TASK_CREATE
      else if rtos_task_exit c then FSM_TASK_EXIT
      else if rtos_task_join c then FSM_TASK_JOIN
      else if rtos_task_yield c then FSM_SCAN_READY
      else if rtos_sem_op c \<noteq> 0 \<or> rtos_mutex_op c \<noteq> 0 \<or> rtos_msgq_op c \<noteq> 0 then FSM_BLOCK_TASK
      else if timer_tick_pending r then FSM_TIMER_UPDATE
      else if need_reschedule r then FSM_SCAN_READY
      else FSM_IDLE)"

definition compare_next :: "hw_rtos \<Rightarrow> rtos_fsm_t" where
  "compare_next r = (let next = next_task_id_reg (sched_u r) in
     if \<not> task_active_r r \<and> next \<noteq> 0 then FSM_DISPATCH
     else if next = current_task_id_r r \<and> task_active_r r then FSM_DISPATCH
     else if \<not> task_active_r r then FSM_IDLE
     else FSM_PREEMPT_CHECK)"

definition block_next :: "rtos_cmd \<Rightarrow> hw_rtos \<Rightarrow> rtos_fsm_t" where
  "block_next c r =
     (if rtos_task_exit c then FSM_TASK_EXIT
      else if sem_op_pending r \<or> mutex_op_pending r \<or> msgq_op_pending r then
        (if sem_op_pending r \<and> (sem_success (sem_u r) \<or> sem_block (sem_u r)) then
           after_op (sem_block (sem_u r)) r
         else if mutex_op_pending r \<and> (mutex_success (mutex_u r) \<or> mutex_block (mutex_u r)) then
           after_op (mutex_block (mutex_u r)) r
         else if msgq_op_pending r \<and> (msgq_success (msgq_u r) \<or> msgq_block (msgq_u r)) then
           after_op (msgq_block (msgq_u r)) r
         else FSM_BLOCK_TASK)
      else FSM_IDLE)"

definition fsm_next :: "rtos_in \<Rightarrow> rtos_cmd \<Rightarrow> hw_rtos \<Rightarrow> rtos_fsm_t" where
  "fsm_next i c r = (case fsm_state r of
       FSM_IDLE \<Rightarrow> idle_next c r
     | FSM_TIMER_UPDATE \<Rightarrow> FSM_SCAN_READY
     | FSM_SCAN_READY \<Rightarrow> if sched_done (sched_u r) then FSM_COMPARE_PRIORITY else FSM_SCAN_READY
     | FSM_COMPARE_PRIORITY \<Rightarrow> compare_next r
     | FSM_PREEMPT_CHECK \<Rightarrow> FSM_WAIT_CTX_ACK
     | FSM_WAIT_CTX_ACK \<Rightarrow>
         if core_ack i then (if \<not> task_active_r r then FSM_CONTEXT_LOAD else FSM_CONTEXT_SAVE) else FSM_WAIT_CTX_ACK
     | FSM_CONTEXT_SAVE \<Rightarrow> if switch_done (ctx_u r) then FSM_CONTEXT_LOAD else FSM_CONTEXT_SAVE
     | FSM_CONTEXT_LOAD \<Rightarrow> if switch_done (ctx_u r) then FSM_DISPATCH else FSM_CONTEXT_LOAD
     | FSM_DISPATCH \<Rightarrow> FSM_IDLE
     | FSM_TASK_CREATE \<Rightarrow> FSM_SCAN_READY
     | FSM_TASK_EXIT \<Rightarrow> FSM_EXIT_SETTLE
     | FSM_EXIT_SETTLE \<Rightarrow> FSM_SCAN_READY
     | FSM_BLOCK_TASK \<Rightarrow> block_next c r
     | FSM_UNBLOCK_TASK \<Rightarrow> FSM_SCAN_READY
     | FSM_TASK_JOIN \<Rightarrow> FSM_SCAN_READY)"

section \<open>The registers\<close>

text \<open>What happens at every clock, before the state is looked at: pulses end, requests are kept.\<close>

definition rtos_latch :: "rtos_in \<Rightarrow> rtos_cmd \<Rightarrow> hw_rtos \<Rightarrow> hw_rtos" where
  "rtos_latch i c r = (let late = rtos_task_create c \<and> fsm_state r \<noteq> FSM_IDLE in r\<lparr>
     sched_trigger := False, cs_switch_req := False, ports := no_ports,
     create_done_r := False, join_done_r := False, sem_done_r := False, mutex_done_r := False, msgq_done_r := False,
     tcb_wr_en := prio_boost_wr_pending r, prio_boost_wr_pending := False,
     task_create_pending := task_create_pending r \<or> late,
     task_create_pc_r := if late then rtos_task_create_pc c else task_create_pc_r r,
     task_create_sp_r := if late then rtos_task_create_sp c else task_create_sp_r r,
     task_create_prio_r := if late then rtos_task_create_prio c else task_create_prio_r r,
     timer_tick_pending := timer_tick_pending r \<or> timer_tick i,
     wake_target_id :=
       (if sem_wake_valid (sem_u r) then sem_wake_task_id (sem_u r)
        else if mutex_wake_valid (mutex_u r) then mutex_wake_task_id (mutex_u r)
        else if msgq_wake_valid (msgq_u r) then msgq_wake_task_id (msgq_u r) else wake_target_id r),
     wake_pending := wake_pending r \<or> any_wake r,
     sem_op_int := (if sem_success (sem_u r) \<or> sem_block (sem_u r) then 0 else sem_op_int r),
     mutex_op_int := (if mutex_success (mutex_u r) \<or> mutex_block (mutex_u r) then 0 else mutex_op_int r),
     msgq_op_int := (if msgq_success (msgq_u r) \<or> msgq_block (msgq_u r) then 0 else msgq_op_int r)\<rparr>)"

definition put_state :: "nat \<Rightarrow> task_state_t \<Rightarrow> hw_rtos \<Rightarrow> hw_rtos" where
  "put_state i st r = r\<lparr>ports := (ports r)\<lparr>state_port := Some (i, st)\<rparr>\<rparr>"

definition put_reload :: "nat \<Rightarrow> 16 word \<Rightarrow> hw_rtos \<Rightarrow> hw_rtos" where
  "put_reload i v r = r\<lparr>ports := (ports r)\<lparr>reload_port := Some (i, v)\<rparr>\<rparr>"

text \<open>
  The updates of each state. They read the registers \<open>r\<close> as they were and change \<open>r'\<close>, the outcome of
  \<open>rtos_latch\<close>.
\<close>

definition rtos_issue :: "rtos_cmd \<Rightarrow> hw_rtos \<Rightarrow> hw_rtos \<Rightarrow> hw_rtos" where
  "rtos_issue c r r' =
     (if rtos_task_create c \<or> rtos_task_exit c \<or> rtos_task_join c then r'
      else if rtos_task_yield c then
        (if task_active_r r then put_state (current_task_id_r r) TASK_READY r' else r')
      else if rtos_sem_op c \<noteq> 0 then
        r'\<lparr>sem_op_int := rtos_sem_op c, sem_id_int := rtos_sem_id c, sem_op_pending := True\<rparr>
      else if rtos_mutex_op c \<noteq> 0 then
        r'\<lparr>mutex_op_int := rtos_mutex_op c, mutex_id_int := rtos_mutex_id c, mutex_op_pending := True\<rparr>
      else if rtos_msgq_op c \<noteq> 0 then
        r'\<lparr>msgq_op_int := rtos_msgq_op c, msgq_queue_id := rtos_msgq_id c, msgq_data_in := rtos_msgq_data c,
          msgq_op_pending := True\<rparr>
      else r')"

definition rtos_timer :: "hw_rtos \<Rightarrow> hw_rtos \<Rightarrow> hw_rtos" where
  "rtos_timer r r' = (let t = current_task_id_r r; r'' = r'\<lparr>timer_tick_pending := False, sched_trigger := True\<rparr> in
     if task_active_r r \<and> time_slice (tcbs r ! t) = 0
     then put_state t TASK_READY (put_reload t (time_slice_config r) r'') else r'')"

definition rtos_scan :: "hw_rtos \<Rightarrow> hw_rtos \<Rightarrow> hw_rtos" where
  "rtos_scan r r' = r'\<lparr>sched_trigger := \<not> sched_busy (sched_u r) \<and> \<not> sched_done (sched_u r),
     next_task_id_r := (if sched_done (sched_u r) then next_task_id_reg (sched_u r) else next_task_id_r r)\<rparr>"

definition rtos_preempt :: "hw_rtos \<Rightarrow> hw_rtos \<Rightarrow> hw_rtos" where
  "rtos_preempt r r' = (let r'' = r'\<lparr>cs_switch_req := True, cs_new_task_id := next_task_id_r r, ctx_switch_active := True\<rparr> in
     if task_active_r r
     then put_state (current_task_id_r r) TASK_READY (r''\<lparr>cs_old_task_id := current_task_id_r r\<rparr>)
     else r''\<lparr>cs_old_task_id := 0\<rparr>)"

definition rtos_save :: "hw_rtos \<Rightarrow> hw_rtos \<Rightarrow> hw_rtos" where
  "rtos_save r r' =
     (if switch_done (ctx_u r)
      then r'\<lparr>cs_switch_req := True, cs_old_task_id := current_task_id_r r, cs_new_task_id := next_task_id_r r\<rparr> else r')"

definition rtos_load :: "hw_rtos \<Rightarrow> hw_rtos \<Rightarrow> hw_rtos" where
  "rtos_load r r' = (if switch_done (ctx_u r) then r'\<lparr>ctx_switch_active := False\<rparr> else r')"

definition rtos_dispatch :: "hw_rtos \<Rightarrow> hw_rtos \<Rightarrow> hw_rtos" where
  "rtos_dispatch r r' = (let t = next_task_id_r r in
     put_state t TASK_RUNNING (put_reload t (time_slice_config r)
       (r'\<lparr>current_task_id_r := t, task_active_r := True, need_reschedule := wake_pending r,
           wake_pending := (if wake_pending r then False else wake_pending r')\<rparr>)))"

definition rtos_create :: "rtos_cmd \<Rightarrow> hw_rtos \<Rightarrow> hw_rtos \<Rightarrow> hw_rtos" where
  "rtos_create c r r' = (let late = task_create_pending r in case free_task_id (all_valid r) of
       Some i \<Rightarrow> put_reload i (time_slice_config r)
         (r'\<lparr>ports := (ports r')\<lparr>create_port := Some (i,
               (if late then task_create_pc_r r else rtos_task_create_pc c),
               (if late then task_create_sp_r r else rtos_task_create_sp c),
               (if late then task_create_prio_r r else rtos_task_create_prio c))\<rparr>,
             create_done_r := True, create_id_r := i, sched_trigger := True, task_create_pending := False\<rparr>)
     | None \<Rightarrow> r'\<lparr>create_done_r := True, create_id_r := 0, task_create_pending := False\<rparr>)"

definition rtos_exit :: "hw_rtos \<Rightarrow> hw_rtos \<Rightarrow> hw_rtos" where
  "rtos_exit r r' = (let t = current_task_id_r r; joiners = filter (\<lambda>i. join_on r ! i = Some t) [0..<NUM_TASKS] in
     if task_active_r r then
       (let r'' = put_state t TASK_DORMANT (r'\<lparr>ports := (ports r')\<lparr>delete_port := Some t\<rparr>, task_active_r := False,
              join_on := map (\<lambda>x. if x = Some t then None else x) (join_on r)\<rparr>)
        in if joiners = [] then r'' else r''\<lparr>wake_target_id := last joiners, wake_pending := True\<rparr>)
     else r')"

definition rtos_block :: "hw_rtos \<Rightarrow> hw_rtos \<Rightarrow> hw_rtos" where
  "rtos_block r r' = put_state (current_task_id_r r) TASK_BLOCKED (r'\<lparr>task_active_r := False, sched_trigger := True\<rparr>)"

definition rtos_collect :: "rtos_cmd \<Rightarrow> hw_rtos \<Rightarrow> hw_rtos \<Rightarrow> hw_rtos" where
  "rtos_collect c r r' = (let r'' =
     (if rtos_task_exit c then
        r'\<lparr>sem_op_pending := False, mutex_op_pending := False, msgq_op_pending := False,
          sem_op_int := 0, mutex_op_int := 0, msgq_op_int := 0\<rparr>
      else if sem_op_pending r then
        (if sem_success (sem_u r) then r'\<lparr>sem_done_r := True, sem_result_r := True, sem_op_pending := False\<rparr>
         else if sem_block (sem_u r) then
           rtos_block r (r'\<lparr>sem_done_r := True, sem_result_r := False, sem_op_pending := False\<rparr>)
         else r')
      else if mutex_op_pending r then
        (if mutex_success (mutex_u r) then
           r'\<lparr>mutex_done_r := True, mutex_result_r := True, mutex_op_pending := False\<rparr>
         else if mutex_block (mutex_u r) then
           rtos_block r (r'\<lparr>mutex_done_r := True, mutex_result_r := False, mutex_op_pending := False\<rparr>)
         else r')
      else if msgq_op_pending r then
        (if msgq_success (msgq_u r) then
           r'\<lparr>msgq_done_r := True, msgq_result_r := msg_data_out (msgq_u r), msgq_success_r := True,
             msgq_op_pending := False\<rparr>
         else if msgq_block (msgq_u r) then
           rtos_block r (r'\<lparr>msgq_done_r := True, msgq_result_r := 0, msgq_success_r := False, msgq_op_pending := False\<rparr>)
         else r')
      else r')
     in r''\<lparr>need_reschedule := need_reschedule r \<or> any_wake r\<rparr>)"

definition rtos_unblock :: "hw_rtos \<Rightarrow> hw_rtos \<Rightarrow> hw_rtos" where
  "rtos_unblock r r' =
     (if wake_pending r
      then put_state (wake_target_id r) TASK_READY (r'\<lparr>wake_pending := False, sched_trigger := True\<rparr>) else r')"

definition rtos_join :: "rtos_cmd \<Rightarrow> hw_rtos \<Rightarrow> hw_rtos \<Rightarrow> hw_rtos" where
  "rtos_join c r r' = (let target = unat (rtos_task_target_id c); r'' = r'\<lparr>join_done_r := True\<rparr> in
     if task_active_r r \<and> all_valid r ! target
     then rtos_block r (r''\<lparr>join_on := (join_on r)[current_task_id_r r := Some target]\<rparr>) else r'')"

definition rtos_state_update :: "rtos_cmd \<Rightarrow> hw_rtos \<Rightarrow> hw_rtos \<Rightarrow> hw_rtos" where
  "rtos_state_update c r r' = (case fsm_state r of
       FSM_IDLE \<Rightarrow> rtos_issue c r r'
     | FSM_TIMER_UPDATE \<Rightarrow> rtos_timer r r'
     | FSM_SCAN_READY \<Rightarrow> rtos_scan r r'
     | FSM_COMPARE_PRIORITY \<Rightarrow> r'
     | FSM_PREEMPT_CHECK \<Rightarrow> rtos_preempt r r'
     | FSM_WAIT_CTX_ACK \<Rightarrow> r'
     | FSM_CONTEXT_SAVE \<Rightarrow> rtos_save r r'
     | FSM_CONTEXT_LOAD \<Rightarrow> rtos_load r r'
     | FSM_DISPATCH \<Rightarrow> rtos_dispatch r r'
     | FSM_TASK_CREATE \<Rightarrow> rtos_create c r r'
     | FSM_TASK_EXIT \<Rightarrow> rtos_exit r r'
     | FSM_EXIT_SETTLE \<Rightarrow> r'\<lparr>sched_trigger := True\<rparr>
     | FSM_BLOCK_TASK \<Rightarrow> rtos_collect c r r'
     | FSM_UNBLOCK_TASK \<Rightarrow> rtos_unblock r r'
     | FSM_TASK_JOIN \<Rightarrow> rtos_join c r r')"

text \<open>After the state: a change of priority asked for by a mutex, and the register writes over AXI.\<close>

definition rtos_boost :: "hw_rtos \<Rightarrow> hw_rtos \<Rightarrow> hw_rtos" where
  "rtos_boost r r' = (case prio_boost (mutex_u r) of None \<Rightarrow> r'
     | Some (i, v) \<Rightarrow> r'\<lparr>tcb_rd_id := i, prio_boost_wr_pending := True, prio_boost_id_r := i, prio_boost_val_r := v\<rparr>)"

definition rtos_axi :: "rtos_in \<Rightarrow> hw_rtos \<Rightarrow> hw_rtos" where
  "rtos_axi i r' = r'\<lparr>
     time_slice_config := (case axi_wr_time_slice i of None \<Rightarrow> time_slice_config r' | Some v \<Rightarrow> v),
     need_reschedule := need_reschedule r' \<or> axi_wr_reschedule_req i\<rparr>"

text \<open>The write of a whole block: what is read, with the new priority while one is pending.\<close>

definition tcb_wr :: "hw_rtos \<Rightarrow> (nat \<times> tcb) option" where
  "tcb_wr r = (let t = tcbs r ! tcb_rd_id r in
     if \<not> tcb_wr_en r then None
     else if prio_boost_wr_pending r then Some (prio_boost_id_r r, t\<lparr>prio_level := prio_boost_val_r r\<rparr>)
     else Some (0, t))"

text \<open>One clock edge of the state machine, its registers and the units.\<close>

definition rtos_clock :: "rtos_in \<Rightarrow> rtos_cmd \<Rightarrow> hw_rtos \<Rightarrow> hw_rtos" where
  "rtos_clock i c r =
     (let r' = rtos_axi i (rtos_boost r (rtos_state_update c r (rtos_latch i c r)));
          task = current_task_id_r r
      in r'\<lparr>fsm_state := fsm_next i c r,
         tcbs := tcb_array (ports r) (tcb_wr r) (tcbs r),
         sched_u := task_scheduler (sched_trigger r) task (tcbs r) (sched_u r),
         ctx_u := context_switch (if cs_switch_req r then Some (cs_old_task_id r, cs_new_task_id r) else None)
           (core_reg_data i) (core_pc i) (ctx_u r),
         sem_u := hw_semaphore (sem_op_int r) (sem_id_int r) task (rtos_sem_value c) 0xFF (task_prios r) (sem_u r),
         mutex_u := hw_mutex (mutex_op_int r) (mutex_id_int r) task (task_prios r) (mutex_u r),
         msgq_u := hw_msgqueue (msgq_op_int r) (msgq_queue_id r) (msgq_data_in r) task (msgq_u r)\<rparr>)"

section \<open>The registers one by one\<close>

lemma rtos_boost_simps [simp]:
  "fsm_state (rtos_boost r r') = fsm_state r'" "current_task_id_r (rtos_boost r r') = current_task_id_r r'"
  "next_task_id_r (rtos_boost r r') = next_task_id_r r'" "task_active_r (rtos_boost r r') = task_active_r r'"
  "need_reschedule (rtos_boost r r') = need_reschedule r'" "timer_tick_pending (rtos_boost r r') = timer_tick_pending r'"
  "time_slice_config (rtos_boost r r') = time_slice_config r'" "sched_trigger (rtos_boost r r') = sched_trigger r'"
  "cs_switch_req (rtos_boost r r') = cs_switch_req r'" "cs_old_task_id (rtos_boost r r') = cs_old_task_id r'"
  "cs_new_task_id (rtos_boost r r') = cs_new_task_id r'" "ctx_switch_active (rtos_boost r r') = ctx_switch_active r'"
  "ports (rtos_boost r r') = ports r'" "tcb_wr_en (rtos_boost r r') = tcb_wr_en r'"
  "task_create_pending (rtos_boost r r') = task_create_pending r'"
  "task_create_pc_r (rtos_boost r r') = task_create_pc_r r'" "task_create_sp_r (rtos_boost r r') = task_create_sp_r r'"
  "task_create_prio_r (rtos_boost r r') = task_create_prio_r r'" "create_done_r (rtos_boost r r') = create_done_r r'"
  "create_id_r (rtos_boost r r') = create_id_r r'" "join_done_r (rtos_boost r r') = join_done_r r'"
  "join_on (rtos_boost r r') = join_on r'" "sem_op_int (rtos_boost r r') = sem_op_int r'"
  "sem_id_int (rtos_boost r r') = sem_id_int r'" "sem_op_pending (rtos_boost r r') = sem_op_pending r'"
  "mutex_op_int (rtos_boost r r') = mutex_op_int r'" "mutex_id_int (rtos_boost r r') = mutex_id_int r'"
  "mutex_op_pending (rtos_boost r r') = mutex_op_pending r'" "msgq_op_int (rtos_boost r r') = msgq_op_int r'"
  "msgq_queue_id (rtos_boost r r') = msgq_queue_id r'" "msgq_data_in (rtos_boost r r') = msgq_data_in r'"
  "msgq_op_pending (rtos_boost r r') = msgq_op_pending r'" "wake_target_id (rtos_boost r r') = wake_target_id r'"
  "wake_pending (rtos_boost r r') = wake_pending r'" "sem_done_r (rtos_boost r r') = sem_done_r r'"
  "sem_result_r (rtos_boost r r') = sem_result_r r'" "mutex_done_r (rtos_boost r r') = mutex_done_r r'"
  "mutex_result_r (rtos_boost r r') = mutex_result_r r'" "msgq_done_r (rtos_boost r r') = msgq_done_r r'"
  "msgq_result_r (rtos_boost r r') = msgq_result_r r'" "msgq_success_r (rtos_boost r r') = msgq_success_r r'"
  "tcbs (rtos_boost r r') = tcbs r'" "sched_u (rtos_boost r r') = sched_u r'" "ctx_u (rtos_boost r r') = ctx_u r'"
  "sem_u (rtos_boost r r') = sem_u r'" "mutex_u (rtos_boost r r') = mutex_u r'" "msgq_u (rtos_boost r r') = msgq_u r'"
  by (simp_all add: rtos_boost_def split: option.split prod.split)

lemma rtos_axi_simps [simp]:
  "fsm_state (rtos_axi i r') = fsm_state r'" "current_task_id_r (rtos_axi i r') = current_task_id_r r'"
  "next_task_id_r (rtos_axi i r') = next_task_id_r r'" "task_active_r (rtos_axi i r') = task_active_r r'"
  "timer_tick_pending (rtos_axi i r') = timer_tick_pending r'" "sched_trigger (rtos_axi i r') = sched_trigger r'"
  "cs_switch_req (rtos_axi i r') = cs_switch_req r'" "cs_old_task_id (rtos_axi i r') = cs_old_task_id r'"
  "cs_new_task_id (rtos_axi i r') = cs_new_task_id r'" "ctx_switch_active (rtos_axi i r') = ctx_switch_active r'"
  "ports (rtos_axi i r') = ports r'" "tcb_wr_en (rtos_axi i r') = tcb_wr_en r'" "tcb_rd_id (rtos_axi i r') = tcb_rd_id r'"
  "prio_boost_wr_pending (rtos_axi i r') = prio_boost_wr_pending r'" "prio_boost_id_r (rtos_axi i r') = prio_boost_id_r r'"
  "prio_boost_val_r (rtos_axi i r') = prio_boost_val_r r'" "task_create_pending (rtos_axi i r') = task_create_pending r'"
  "task_create_pc_r (rtos_axi i r') = task_create_pc_r r'" "task_create_sp_r (rtos_axi i r') = task_create_sp_r r'"
  "task_create_prio_r (rtos_axi i r') = task_create_prio_r r'" "create_done_r (rtos_axi i r') = create_done_r r'"
  "create_id_r (rtos_axi i r') = create_id_r r'" "join_done_r (rtos_axi i r') = join_done_r r'"
  "join_on (rtos_axi i r') = join_on r'" "sem_op_int (rtos_axi i r') = sem_op_int r'"
  "sem_id_int (rtos_axi i r') = sem_id_int r'" "sem_op_pending (rtos_axi i r') = sem_op_pending r'"
  "mutex_op_int (rtos_axi i r') = mutex_op_int r'" "mutex_id_int (rtos_axi i r') = mutex_id_int r'"
  "mutex_op_pending (rtos_axi i r') = mutex_op_pending r'" "msgq_op_int (rtos_axi i r') = msgq_op_int r'"
  "msgq_queue_id (rtos_axi i r') = msgq_queue_id r'" "msgq_data_in (rtos_axi i r') = msgq_data_in r'"
  "msgq_op_pending (rtos_axi i r') = msgq_op_pending r'" "wake_target_id (rtos_axi i r') = wake_target_id r'"
  "wake_pending (rtos_axi i r') = wake_pending r'" "sem_done_r (rtos_axi i r') = sem_done_r r'"
  "sem_result_r (rtos_axi i r') = sem_result_r r'" "mutex_done_r (rtos_axi i r') = mutex_done_r r'"
  "mutex_result_r (rtos_axi i r') = mutex_result_r r'" "msgq_done_r (rtos_axi i r') = msgq_done_r r'"
  "msgq_result_r (rtos_axi i r') = msgq_result_r r'" "msgq_success_r (rtos_axi i r') = msgq_success_r r'"
  "tcbs (rtos_axi i r') = tcbs r'" "sched_u (rtos_axi i r') = sched_u r'" "ctx_u (rtos_axi i r') = ctx_u r'"
  "sem_u (rtos_axi i r') = sem_u r'" "mutex_u (rtos_axi i r') = mutex_u r'" "msgq_u (rtos_axi i r') = msgq_u r'"
  by (simp_all add: rtos_axi_def)

lemma rtos_latch_simps [simp]:
  "fsm_state (rtos_latch i c r) = fsm_state r" "current_task_id_r (rtos_latch i c r) = current_task_id_r r"
  "next_task_id_r (rtos_latch i c r) = next_task_id_r r" "task_active_r (rtos_latch i c r) = task_active_r r"
  "need_reschedule (rtos_latch i c r) = need_reschedule r" "time_slice_config (rtos_latch i c r) = time_slice_config r"
  "cs_old_task_id (rtos_latch i c r) = cs_old_task_id r" "cs_new_task_id (rtos_latch i c r) = cs_new_task_id r"
  "ctx_switch_active (rtos_latch i c r) = ctx_switch_active r" "tcb_rd_id (rtos_latch i c r) = tcb_rd_id r"
  "prio_boost_id_r (rtos_latch i c r) = prio_boost_id_r r" "prio_boost_val_r (rtos_latch i c r) = prio_boost_val_r r"
  "create_id_r (rtos_latch i c r) = create_id_r r" "join_on (rtos_latch i c r) = join_on r"
  "sem_id_int (rtos_latch i c r) = sem_id_int r" "sem_op_pending (rtos_latch i c r) = sem_op_pending r"
  "mutex_id_int (rtos_latch i c r) = mutex_id_int r" "mutex_op_pending (rtos_latch i c r) = mutex_op_pending r"
  "msgq_queue_id (rtos_latch i c r) = msgq_queue_id r" "msgq_data_in (rtos_latch i c r) = msgq_data_in r"
  "msgq_op_pending (rtos_latch i c r) = msgq_op_pending r" "sem_result_r (rtos_latch i c r) = sem_result_r r"
  "mutex_result_r (rtos_latch i c r) = mutex_result_r r" "msgq_result_r (rtos_latch i c r) = msgq_result_r r"
  "msgq_success_r (rtos_latch i c r) = msgq_success_r r" "tcbs (rtos_latch i c r) = tcbs r"
  "sched_u (rtos_latch i c r) = sched_u r" "ctx_u (rtos_latch i c r) = ctx_u r" "sem_u (rtos_latch i c r) = sem_u r"
  "mutex_u (rtos_latch i c r) = mutex_u r" "msgq_u (rtos_latch i c r) = msgq_u r" "\<not> sched_trigger (rtos_latch i c r)"
  "\<not> cs_switch_req (rtos_latch i c r)" "\<not> create_done_r (rtos_latch i c r)"
  "\<not> join_done_r (rtos_latch i c r)" "\<not> sem_done_r (rtos_latch i c r)" "\<not> mutex_done_r (rtos_latch i c r)"
  "\<not> msgq_done_r (rtos_latch i c r)" "\<not> prio_boost_wr_pending (rtos_latch i c r)"
  "ports (rtos_latch i c r) = no_ports" "tcb_wr_en (rtos_latch i c r) = prio_boost_wr_pending r"
  "timer_tick_pending (rtos_latch i c r) = (timer_tick_pending r \<or> timer_tick i)"
  "wake_pending (rtos_latch i c r) = (wake_pending r \<or> any_wake r)"
  "task_create_pending (rtos_latch i c r) = (task_create_pending r \<or> rtos_task_create c \<and> fsm_state r \<noteq> FSM_IDLE)"
  "sem_op_int (rtos_latch i c r) = (if sem_success (sem_u r) \<or> sem_block (sem_u r) then 0 else sem_op_int r)"
  "mutex_op_int (rtos_latch i c r) = (if mutex_success (mutex_u r) \<or> mutex_block (mutex_u r) then 0 else mutex_op_int r)"
  "msgq_op_int (rtos_latch i c r) = (if msgq_success (msgq_u r) \<or> msgq_block (msgq_u r) then 0 else msgq_op_int r)"
  by (simp_all add: rtos_latch_def Let_def)

lemma rtos_clock_regs [simp]:
  "current_task_id_r (rtos_clock i c r) = current_task_id_r (rtos_state_update c r (rtos_latch i c r))"
  "next_task_id_r (rtos_clock i c r) = next_task_id_r (rtos_state_update c r (rtos_latch i c r))"
  "task_active_r (rtos_clock i c r) = task_active_r (rtos_state_update c r (rtos_latch i c r))"
  "timer_tick_pending (rtos_clock i c r) = timer_tick_pending (rtos_state_update c r (rtos_latch i c r))"
  "sched_trigger (rtos_clock i c r) = sched_trigger (rtos_state_update c r (rtos_latch i c r))"
  "cs_switch_req (rtos_clock i c r) = cs_switch_req (rtos_state_update c r (rtos_latch i c r))"
  "cs_old_task_id (rtos_clock i c r) = cs_old_task_id (rtos_state_update c r (rtos_latch i c r))"
  "cs_new_task_id (rtos_clock i c r) = cs_new_task_id (rtos_state_update c r (rtos_latch i c r))"
  "ctx_switch_active (rtos_clock i c r) = ctx_switch_active (rtos_state_update c r (rtos_latch i c r))"
  "ports (rtos_clock i c r) = ports (rtos_state_update c r (rtos_latch i c r))"
  "tcb_wr_en (rtos_clock i c r) = tcb_wr_en (rtos_state_update c r (rtos_latch i c r))"
  "task_create_pending (rtos_clock i c r) = task_create_pending (rtos_state_update c r (rtos_latch i c r))"
  "task_create_pc_r (rtos_clock i c r) = task_create_pc_r (rtos_state_update c r (rtos_latch i c r))"
  "task_create_sp_r (rtos_clock i c r) = task_create_sp_r (rtos_state_update c r (rtos_latch i c r))"
  "task_create_prio_r (rtos_clock i c r) = task_create_prio_r (rtos_state_update c r (rtos_latch i c r))"
  "create_done_r (rtos_clock i c r) = create_done_r (rtos_state_update c r (rtos_latch i c r))"
  "create_id_r (rtos_clock i c r) = create_id_r (rtos_state_update c r (rtos_latch i c r))"
  "join_done_r (rtos_clock i c r) = join_done_r (rtos_state_update c r (rtos_latch i c r))"
  "join_on (rtos_clock i c r) = join_on (rtos_state_update c r (rtos_latch i c r))"
  "sem_op_int (rtos_clock i c r) = sem_op_int (rtos_state_update c r (rtos_latch i c r))"
  "sem_id_int (rtos_clock i c r) = sem_id_int (rtos_state_update c r (rtos_latch i c r))"
  "sem_op_pending (rtos_clock i c r) = sem_op_pending (rtos_state_update c r (rtos_latch i c r))"
  "mutex_op_int (rtos_clock i c r) = mutex_op_int (rtos_state_update c r (rtos_latch i c r))"
  "mutex_id_int (rtos_clock i c r) = mutex_id_int (rtos_state_update c r (rtos_latch i c r))"
  "mutex_op_pending (rtos_clock i c r) = mutex_op_pending (rtos_state_update c r (rtos_latch i c r))"
  "msgq_op_int (rtos_clock i c r) = msgq_op_int (rtos_state_update c r (rtos_latch i c r))"
  "msgq_queue_id (rtos_clock i c r) = msgq_queue_id (rtos_state_update c r (rtos_latch i c r))"
  "msgq_data_in (rtos_clock i c r) = msgq_data_in (rtos_state_update c r (rtos_latch i c r))"
  "msgq_op_pending (rtos_clock i c r) = msgq_op_pending (rtos_state_update c r (rtos_latch i c r))"
  "wake_target_id (rtos_clock i c r) = wake_target_id (rtos_state_update c r (rtos_latch i c r))"
  "wake_pending (rtos_clock i c r) = wake_pending (rtos_state_update c r (rtos_latch i c r))"
  "sem_done_r (rtos_clock i c r) = sem_done_r (rtos_state_update c r (rtos_latch i c r))"
  "sem_result_r (rtos_clock i c r) = sem_result_r (rtos_state_update c r (rtos_latch i c r))"
  "mutex_done_r (rtos_clock i c r) = mutex_done_r (rtos_state_update c r (rtos_latch i c r))"
  "mutex_result_r (rtos_clock i c r) = mutex_result_r (rtos_state_update c r (rtos_latch i c r))"
  "msgq_done_r (rtos_clock i c r) = msgq_done_r (rtos_state_update c r (rtos_latch i c r))"
  "msgq_result_r (rtos_clock i c r) = msgq_result_r (rtos_state_update c r (rtos_latch i c r))"
  "msgq_success_r (rtos_clock i c r) = msgq_success_r (rtos_state_update c r (rtos_latch i c r))"
  by (simp_all add: rtos_clock_def Let_def)

lemma rtos_clock_units [simp]:
  "fsm_state (rtos_clock i c r) = fsm_next i c r"
  "tcbs (rtos_clock i c r) = tcb_array (ports r) (tcb_wr r) (tcbs r)"
  "sched_u (rtos_clock i c r) = task_scheduler (sched_trigger r) (current_task_id_r r) (tcbs r) (sched_u r)"
  "ctx_u (rtos_clock i c r) = context_switch (if cs_switch_req r then Some (cs_old_task_id r, cs_new_task_id r) else None)
     (core_reg_data i) (core_pc i) (ctx_u r)"
  "sem_u (rtos_clock i c r) = hw_semaphore (sem_op_int r) (sem_id_int r) (current_task_id_r r) (rtos_sem_value c) 0xFF
     (task_prios r) (sem_u r)"
  "mutex_u (rtos_clock i c r) = hw_mutex (mutex_op_int r) (mutex_id_int r) (current_task_id_r r) (task_prios r) (mutex_u r)"
  "msgq_u (rtos_clock i c r) = hw_msgqueue (msgq_op_int r) (msgq_queue_id r) (msgq_data_in r) (current_task_id_r r) (msgq_u r)"
  by (simp_all add: rtos_clock_def Let_def)

lemma rtos_clock_late [simp]:
  "time_slice_config (rtos_clock i c r) = time_slice_config (rtos_axi i (rtos_state_update c r (rtos_latch i c r)))"
  "need_reschedule (rtos_clock i c r) = need_reschedule (rtos_axi i (rtos_state_update c r (rtos_latch i c r)))"
  by (simp_all add: rtos_clock_def rtos_axi_def Let_def split: option.split)

lemma rtos_clock_boost [simp]:
  "tcb_rd_id (rtos_clock i c r) = tcb_rd_id (rtos_boost r (rtos_state_update c r (rtos_latch i c r)))"
  "prio_boost_wr_pending (rtos_clock i c r) = prio_boost_wr_pending (rtos_boost r (rtos_state_update c r (rtos_latch i c r)))"
  "prio_boost_id_r (rtos_clock i c r) = prio_boost_id_r (rtos_boost r (rtos_state_update c r (rtos_latch i c r)))"
  "prio_boost_val_r (rtos_clock i c r) = prio_boost_val_r (rtos_boost r (rtos_state_update c r (rtos_latch i c r)))"
  by (simp_all add: rtos_clock_def Let_def)

lemma rtos_state_update_simps [simp]:
  "fsm_state r = FSM_IDLE \<Longrightarrow> rtos_state_update c r r' = rtos_issue c r r'"
  "fsm_state r = FSM_TIMER_UPDATE \<Longrightarrow> rtos_state_update c r r' = rtos_timer r r'"
  "fsm_state r = FSM_SCAN_READY \<Longrightarrow> rtos_state_update c r r' = rtos_scan r r'"
  "fsm_state r = FSM_COMPARE_PRIORITY \<Longrightarrow> rtos_state_update c r r' = r'"
  "fsm_state r = FSM_PREEMPT_CHECK \<Longrightarrow> rtos_state_update c r r' = rtos_preempt r r'"
  "fsm_state r = FSM_WAIT_CTX_ACK \<Longrightarrow> rtos_state_update c r r' = r'"
  "fsm_state r = FSM_CONTEXT_SAVE \<Longrightarrow> rtos_state_update c r r' = rtos_save r r'"
  "fsm_state r = FSM_CONTEXT_LOAD \<Longrightarrow> rtos_state_update c r r' = rtos_load r r'"
  "fsm_state r = FSM_DISPATCH \<Longrightarrow> rtos_state_update c r r' = rtos_dispatch r r'"
  "fsm_state r = FSM_TASK_CREATE \<Longrightarrow> rtos_state_update c r r' = rtos_create c r r'"
  "fsm_state r = FSM_TASK_EXIT \<Longrightarrow> rtos_state_update c r r' = rtos_exit r r'"
  "fsm_state r = FSM_EXIT_SETTLE \<Longrightarrow> rtos_state_update c r r' = r'\<lparr>sched_trigger := True\<rparr>"
  "fsm_state r = FSM_BLOCK_TASK \<Longrightarrow> rtos_state_update c r r' = rtos_collect c r r'"
  "fsm_state r = FSM_UNBLOCK_TASK \<Longrightarrow> rtos_state_update c r r' = rtos_unblock r r'"
  "fsm_state r = FSM_TASK_JOIN \<Longrightarrow> rtos_state_update c r r' = rtos_join c r r'"
  by (simp_all add: rtos_state_update_def)

lemmas state_updates = rtos_issue_def rtos_timer_def rtos_scan_def rtos_preempt_def rtos_save_def
  rtos_load_def rtos_dispatch_def rtos_create_def rtos_exit_def rtos_block_def rtos_collect_def rtos_unblock_def
  rtos_join_def put_state_def put_reload_def Let_def

section \<open>The answers to the POSIX layer\<close>

definition rtos_port_of :: "hw_rtos \<Rightarrow> rtos_port" where
  "rtos_port_of r = \<lparr>rtos_task_create_done = create_done_r r, rtos_task_create_id = of_nat (create_id_r r),
     rtos_task_join_done = join_done_r r,
     rtos_sem_done = sem_done_r r, rtos_sem_result = sem_result_r r, rtos_mutex_done = mutex_done_r r,
     rtos_mutex_result = mutex_result_r r, rtos_msgq_done = msgq_done_r r, rtos_msgq_result = msgq_result_r r,
     rtos_msgq_success = msgq_success_r r, rtos_current_tid = of_nat (current_task_id_r r)\<rparr>"

end
