(* ===== verification/Ring_Fifo.thy ===== *)
theory Ring_Fifo
  imports VSync_Prelude
begin

text \<open>
  The transmit and receive FIFOs of rtl/peripherals/uart_apb.sv: a memory of 16 bytes, a write and a
  read pointer of five bits and a count of five bits, all updated by one clock edge from the
  \<open>push\<close> and \<open>pop\<close> requests. The locale \<open>clocked_queue\<close> is what the UART relies on: the FIFO is a
  queue of at most \<open>cap\<close> bytes.
\<close>

section \<open>The registers\<close>

definition FIFO_DEPTH :: nat where
  "FIFO_DEPTH = 16"

record ring =
  fifo :: "byte list"
  wr_ptr :: nat
  rd_ptr :: nat
  fifo_count :: nat

definition fifo_full :: "ring \<Rightarrow> bool" where
  "fifo_full q \<longleftrightarrow> fifo_count q = FIFO_DEPTH"

definition fifo_empty :: "ring \<Rightarrow> bool" where
  "fifo_empty q \<longleftrightarrow> fifo_count q = 0"

definition fifo_reset :: ring where
  "fifo_reset = \<lparr>fifo = replicate 16 0, wr_ptr = 0, rd_ptr = 0, fifo_count = 0\<rparr>"

text \<open>The byte at the read pointer.\<close>

definition fifo_front :: "ring \<Rightarrow> byte" where
  "fifo_front q = fifo q ! (rd_ptr q mod 16)"

text \<open>One clock edge: the three \<open>always_ff\<close> blocks of a FIFO.\<close>

definition fifo_step :: "bool \<Rightarrow> byte \<Rightarrow> bool \<Rightarrow> ring \<Rightarrow> ring" where
  "fifo_step push wdata pop q =
     (let do_push = push \<and> \<not> fifo_full q;
          do_pop = pop \<and> \<not> fifo_empty q
      in \<lparr>fifo = (if do_push then (fifo q)[wr_ptr q mod 16 := wdata] else fifo q),
          wr_ptr = (if do_push then (wr_ptr q + 1) mod 32 else wr_ptr q),
          rd_ptr = (if do_pop then (rd_ptr q + 1) mod 32 else rd_ptr q),
          fifo_count =
            (if do_push \<and> \<not> do_pop then (fifo_count q + 1) mod 32
             else if \<not> do_push \<and> do_pop then (fifo_count q + 31) mod 32
             else fifo_count q)\<rparr>)"

section \<open>The interface\<close>

text \<open>What a clock edge does to the contents of a queue of at most \<open>cap\<close> bytes.\<close>

definition queue_step :: "nat \<Rightarrow> bool \<Rightarrow> 'a \<Rightarrow> bool \<Rightarrow> 'a list \<Rightarrow> 'a list" where
  "queue_step cap push x pop xs =
     (if pop then tl xs else xs) @ (if push \<and> length xs < cap then [x] else [])"

locale clocked_queue =
  fixes wf :: "'q \<Rightarrow> bool"
    and items :: "'q \<Rightarrow> byte list"
    and step :: "bool \<Rightarrow> byte \<Rightarrow> bool \<Rightarrow> 'q \<Rightarrow> 'q"
    and front :: "'q \<Rightarrow> byte"
    and full :: "'q \<Rightarrow> bool"
    and empty :: "'q \<Rightarrow> bool"
    and cap :: nat
  assumes wf_step: "wf q \<Longrightarrow> wf (step push b pop q)"
    and items_step: "wf q \<Longrightarrow> items (step push b pop q) = queue_step cap push b pop (items q)"
    and items_front: "wf q \<Longrightarrow> items q \<noteq> [] \<Longrightarrow> front q = hd (items q)"
    and full_iff: "wf q \<Longrightarrow> full q \<longleftrightarrow> length (items q) = cap"
    and empty_iff: "wf q \<Longrightarrow> empty q \<longleftrightarrow> items q = []"
    and items_bound: "wf q \<Longrightarrow> length (items q) \<le> cap"
begin

lemma items_idle: "wf q \<Longrightarrow> items (step False b False q) = items q"
  by (simp add: items_step queue_step_def)

lemma items_pop: "wf q \<Longrightarrow> items (step False b True q) = tl (items q)"
  by (simp add: items_step queue_step_def)

lemma items_push: "wf q \<Longrightarrow> \<not> full q \<Longrightarrow>
    items (step True b pop q) = (if pop then tl (items q) else items q) @ [b]"
  using items_bound [of q] by (auto simp: items_step queue_step_def full_iff)

lemma items_push_full: "wf q \<Longrightarrow> full q \<Longrightarrow> items (step True b False q) = items q"
  by (simp add: items_step queue_step_def full_iff)

lemma not_full_step: "wf q \<Longrightarrow> \<not> full q \<Longrightarrow> \<not> full (step False b pop q)"
  using items_bound [of q] wf_step [of q False b pop]
  by (auto simp: full_iff items_step queue_step_def length_greater_0_conv [symmetric]
      simp del: length_greater_0_conv)

lemma pop_front: "wf q \<Longrightarrow> items q = x # xs \<Longrightarrow> front q = x \<and> items (step False b True q) = xs"
  by (simp add: items_pop items_front)

end

section \<open>The FIFO is a queue\<close>

definition fifo_wf :: "ring \<Rightarrow> bool" where
  "fifo_wf q \<longleftrightarrow> length (fifo q) = 16 \<and> fifo_count q \<le> 16 \<and> rd_ptr q < 32
     \<and> wr_ptr q = (rd_ptr q + fifo_count q) mod 32"

definition fifo_items :: "ring \<Rightarrow> byte list" where
  "fifo_items q = map (\<lambda>i. fifo q ! ((rd_ptr q + i) mod 16)) [0..<fifo_count q]"

lemma mod_32_16: "n mod 32 mod 16 = n mod (16 :: nat)" "(n mod 32 + k) mod 16 = (n + k) mod (16 :: nat)"
    "Suc (n mod 32) mod 32 = Suc n mod 32"
proof -
  show a: "n mod 32 mod 16 = n mod (16 :: nat)" by (rule mod_mod_cancel) simp
  have "(n mod 32 + k) mod 16 = (n mod 32 mod 16 + k) mod 16" by (simp only: mod_add_left_eq)
  then show "(n mod 32 + k) mod 16 = (n + k) mod (16 :: nat)" by (simp only: a mod_add_left_eq)
  show "Suc (n mod 32) mod 32 = Suc n mod 32" by (rule mod_Suc_eq)
qed

lemma slot_free:
  assumes "i < n" and "n < 16"
  shows "(r + i) mod 16 \<noteq> (r + n) mod (16 :: nat)"
proof
  assume "(r + i) mod 16 = (r + n) mod (16 :: nat)"
  then have "16 dvd (r + n) - (r + i)"
    using assms mod_eq_dvd_iff_nat [of "r + i" "r + n" 16] by simp
  with assms show False by (auto dest: dvd_imp_le)
qed

lemma count_down: "0 < c \<Longrightarrow> c \<le> 16 \<Longrightarrow> (c + 31) mod 32 = c - (1 :: nat)"
  by (cases c) simp_all

lemma ptr_down: "0 < c \<Longrightarrow> ((r + 1) mod 32 + (c - 1)) mod 32 = (r + c) mod (32 :: nat)"
  by (simp only: mod_add_left_eq) simp

lemma fifo_wf_step:
  assumes "fifo_wf q"
  shows "fifo_wf (fifo_step push b pop q)"
proof -
  have w: "length (fifo q) = 16" "fifo_count q \<le> 16" "rd_ptr q < 32"
    "wr_ptr q = (rd_ptr q + fifo_count q) mod 32"
    using assms by (simp_all add: fifo_wf_def)
  have up: "fifo_count q \<noteq> 16 \<Longrightarrow> (fifo_count q + 1) mod 32 = fifo_count q + 1" using w(2) by simp
  note down = count_down [OF _ w(2)] ptr_down [of "fifo_count q" "rd_ptr q"]
  show ?thesis
    unfolding fifo_wf_def fifo_step_def Let_def fifo_full_def fifo_empty_def FIFO_DEPTH_def
    using w up down
    by (cases "push \<and> fifo_count q \<noteq> 16"; cases "pop \<and> fifo_count q \<noteq> 0")
      (auto simp: mod_Suc_eq mod_add_left_eq)
qed

lemma fifo_items_push:
  assumes "length m = 16" and "c < 16" and "w mod 16 = (r + c) mod 16"
  shows "map (\<lambda>i. m[w mod 16 := b] ! ((r + i) mod 16)) [0..<Suc c]
    = map (\<lambda>i. m ! ((r + i) mod 16)) [0..<c] @ [b]"
proof -
  have "m[w mod 16 := b] ! ((r + i) mod 16) = m ! ((r + i) mod 16)" if "i < c" for i
    using slot_free [OF that assms(2), of r] assms(3) by simp
  moreover have "m[w mod 16 := b] ! ((r + c) mod 16) = b"
    using assms by simp
  ultimately show ?thesis by simp
qed

lemma map_upt_tl: "tl (map f [0..<n]) = map (\<lambda>i. f (Suc i)) [0..<n - 1]"
  by (cases n) (simp_all add: map_upt_Suc del: upt_Suc)

lemma fifo_items_step:
  assumes "fifo_wf q"
  shows "fifo_items (fifo_step push b pop q) = queue_step FIFO_DEPTH push b pop (fifo_items q)"
proof -
  let ?m = "if push \<and> \<not> fifo_full q then (fifo q)[wr_ptr q mod 16 := b] else fifo q"
  have c: "length (fifo q) = 16" "fifo_count q \<le> 16" "wr_ptr q mod 16 = (rd_ptr q + fifo_count q) mod 16"
    using assms by (auto simp: fifo_wf_def mod_32_16)
  define l where "l = map (\<lambda>i. ?m ! ((rd_ptr q + i) mod 16))
      [0..<if push \<and> \<not> fifo_full q then Suc (fifo_count q) else fifo_count q]"
  have l: "l = fifo_items q @ (if push \<and> length (fifo_items q) < FIFO_DEPTH then [b] else [])"
    using fifo_items_push [OF c(1) _ c(3), of b] c(2)
    by (auto simp: l_def fifo_items_def fifo_full_def FIFO_DEPTH_def)
  show ?thesis
  proof (cases "pop \<and> \<not> fifo_empty q")
    case True
    have "fifo_items (fifo_step push b pop q) = tl l"
      using True c(2) count_down [OF _ c(2)]
      by (auto simp: fifo_items_def fifo_step_def Let_def l_def map_upt_tl mod_32_16 fifo_full_def
          fifo_empty_def FIFO_DEPTH_def)
    moreover have "fifo_items q \<noteq> []" using True by (simp add: fifo_items_def fifo_empty_def)
    ultimately show ?thesis using True by (simp add: l queue_step_def)
  next
    case False
    have "fifo_items (fifo_step push b pop q) = l"
      using False c(2) by (auto simp: fifo_items_def fifo_step_def Let_def l_def fifo_full_def FIFO_DEPTH_def)
    moreover have "pop \<Longrightarrow> fifo_items q = []" using False by (simp add: fifo_items_def fifo_empty_def)
    ultimately show ?thesis by (auto simp: l queue_step_def)
  qed
qed

interpretation ring: clocked_queue fifo_wf fifo_items fifo_step fifo_front fifo_full fifo_empty FIFO_DEPTH
proof
  fix q assume q: "fifo_wf q"
  show "fifo_items q \<noteq> [] \<Longrightarrow> fifo_front q = hd (fifo_items q)"
    by (simp add: fifo_items_def fifo_front_def hd_map upt_conv_Cons)
  show "fifo_full q \<longleftrightarrow> length (fifo_items q) = FIFO_DEPTH" and "fifo_empty q \<longleftrightarrow> fifo_items q = []"
    by (simp_all add: fifo_full_def fifo_empty_def fifo_items_def)
  show "length (fifo_items q) \<le> FIFO_DEPTH"
    using q by (simp add: fifo_items_def fifo_wf_def FIFO_DEPTH_def)
qed (simp_all add: fifo_wf_step fifo_items_step)

lemma fifo_reset_wf: "fifo_wf fifo_reset" "fifo_items fifo_reset = []"
  by (simp_all add: fifo_wf_def fifo_reset_def fifo_items_def)

end
