(* ===== verification/Uart_Apb.thy ===== *)
theory Uart_Apb
  imports Ring_Fifo VSync_Hw
begin

text \<open>
  rtl/peripherals/uart_apb.sv at the level of clock edges: the register file, the two FIFOs and the
  transmitter with its baud counter. The deserialiser of the receiver is the environment: it
  delivers \<open>rx_done\<close> with a byte at some clock edges. \<open>tx_log\<close> is a ghost: the bytes handed to the
  transmit shift register so far.
\<close>

section \<open>The APB slave interface\<close>

record apb_req =
  apb_psel :: bool
  apb_penable :: bool
  apb_pwrite :: bool
  apb_paddr :: u32
  apb_pwdata :: u32

definition apb_write_en :: "apb_req \<Rightarrow> bool" where
  "apb_write_en q \<longleftrightarrow> apb_psel q \<and> apb_penable q \<and> apb_pwrite q"

definition apb_read_en :: "apb_req \<Rightarrow> bool" where
  "apb_read_en q \<longleftrightarrow> apb_psel q \<and> apb_penable q \<and> \<not> apb_pwrite q"

definition apb_none :: apb_req where
  "apb_none = \<lparr>apb_psel = False, apb_penable = False, apb_pwrite = False, apb_paddr = 0, apb_pwdata = 0\<rparr>"

lemma apb_none_simps [simp]: "\<not> apb_write_en apb_none" "\<not> apb_read_en apb_none"
  by (simp_all add: apb_write_en_def apb_read_en_def apb_none_def)

section \<open>State\<close>

datatype tx_state_t = TX_IDLE | TX_START | TX_DATA0 | TX_DATA1 | TX_DATA2 | TX_DATA3
  | TX_DATA4 | TX_DATA5 | TX_DATA6 | TX_DATA7 | TX_STOP

record uart =
  ctrl_tx_ie :: bool
  ctrl_rx_ie :: bool
  ctrl_tx_en :: bool
  ctrl_rx_en :: bool
  baud_div_r :: u32
  tx_ring :: ring
  rx_ring :: ring
  tx_state :: tx_state_t
  tx_baud_cnt :: u32
  tx_shift_reg :: byte
  uart_tx :: bool
  tx_log :: "byte list"

text \<open>The divisor after reset, for the clock of 25 MHz and 115200 baud of rtl/top/vsync_top.sv.\<close>

definition DEFAULT_BAUD_DIV :: u32 where
  "DEFAULT_BAUD_DIV = (25000000 + 115200 div 2) div 115200"

definition uart_reset :: uart where
  "uart_reset = \<lparr>ctrl_tx_ie = False, ctrl_rx_ie = False, ctrl_tx_en = True, ctrl_rx_en = True,
     baud_div_r = DEFAULT_BAUD_DIV, tx_ring = fifo_reset, rx_ring = fifo_reset,
     tx_state = TX_IDLE, tx_baud_cnt = 0, tx_shift_reg = 0xFF, uart_tx = True, tx_log = []\<rparr>"

section \<open>The transmitter\<close>

definition tx_baud_tick :: "uart \<Rightarrow> bool" where
  "tx_baud_tick u \<longleftrightarrow> tx_state u \<noteq> TX_IDLE \<and> tx_baud_cnt u = baud_div_r u - 1"

definition tx_baud_next :: "uart \<Rightarrow> u32" where
  "tx_baud_next u =
     (if tx_state u = TX_IDLE then 0
      else if tx_baud_cnt u \<ge> baud_div_r u - 1 then 0
      else tx_baud_cnt u + 1)"

definition tx_fifo_pop :: "uart \<Rightarrow> bool" where
  "tx_fifo_pop u \<longleftrightarrow> tx_state u = TX_IDLE \<and> \<not> fifo_empty (tx_ring u) \<and> ctrl_tx_en u"

text \<open>The state a tick leads to, in the order of the bits of a frame.\<close>

fun tx_after_tick :: "tx_state_t \<Rightarrow> tx_state_t" where
  "tx_after_tick TX_IDLE = TX_IDLE"
| "tx_after_tick TX_START = TX_DATA0"
| "tx_after_tick TX_DATA0 = TX_DATA1"
| "tx_after_tick TX_DATA1 = TX_DATA2"
| "tx_after_tick TX_DATA2 = TX_DATA3"
| "tx_after_tick TX_DATA3 = TX_DATA4"
| "tx_after_tick TX_DATA4 = TX_DATA5"
| "tx_after_tick TX_DATA5 = TX_DATA6"
| "tx_after_tick TX_DATA6 = TX_DATA7"
| "tx_after_tick TX_DATA7 = TX_STOP"
| "tx_after_tick TX_STOP = TX_IDLE"

definition tx_state_next :: "uart \<Rightarrow> tx_state_t" where
  "tx_state_next u =
     (if tx_state u = TX_IDLE then (if tx_fifo_pop u then TX_START else TX_IDLE)
      else if tx_baud_tick u then tx_after_tick (tx_state u) else tx_state u)"

text \<open>The level the transmitter drives on the line in each state.\<close>

fun tx_line :: "tx_state_t \<Rightarrow> byte \<Rightarrow> bool" where
  "tx_line TX_IDLE b = True"
| "tx_line TX_START b = False"
| "tx_line TX_DATA0 b = bit b 0"
| "tx_line TX_DATA1 b = bit b 1"
| "tx_line TX_DATA2 b = bit b 2"
| "tx_line TX_DATA3 b = bit b 3"
| "tx_line TX_DATA4 b = bit b 4"
| "tx_line TX_DATA5 b = bit b 5"
| "tx_line TX_DATA6 b = bit b 6"
| "tx_line TX_DATA7 b = bit b 7"
| "tx_line TX_STOP b = True"

section \<open>The register interface\<close>

text \<open>The slave decodes the low eight bits of the address.\<close>

definition reg_offset :: "apb_req \<Rightarrow> u32" where
  "reg_offset q = apb_paddr q AND 0xFF"

definition tx_fifo_push :: "apb_req \<Rightarrow> bool" where
  "tx_fifo_push q \<longleftrightarrow> apb_write_en q \<and> reg_offset q = 0x00"

definition rx_fifo_pop :: "apb_req \<Rightarrow> bool" where
  "rx_fifo_pop q \<longleftrightarrow> apb_read_en q \<and> reg_offset q = 0x04"

definition uart_status :: "uart \<Rightarrow> u32" where
  "uart_status u =
     push_bit 4 (of_bool (tx_state u \<noteq> TX_IDLE)) OR push_bit 3 (of_bool (fifo_empty (rx_ring u)))
     OR push_bit 2 (of_bool (fifo_full (rx_ring u))) OR push_bit 1 (of_bool (fifo_empty (tx_ring u)))
     OR of_bool (fifo_full (tx_ring u))"

definition uart_ctrl :: "uart \<Rightarrow> u32" where
  "uart_ctrl u = push_bit 3 (of_bool (ctrl_rx_en u)) OR push_bit 2 (of_bool (ctrl_tx_en u))
     OR push_bit 1 (of_bool (ctrl_rx_ie u)) OR of_bool (ctrl_tx_ie u)"

definition uart_prdata :: "apb_req \<Rightarrow> uart \<Rightarrow> u32" where
  "uart_prdata q u =
     (if apb_read_en q then
        (if reg_offset q = 0x04 then ucast (fifo_front (rx_ring u))
         else if reg_offset q = 0x08 then uart_status u
         else if reg_offset q = 0x0C then uart_ctrl u
         else if reg_offset q = 0x10 then baud_div_r u
         else 0)
      else 0)"

definition uart_pready :: "apb_req \<Rightarrow> bool" where
  "uart_pready q \<longleftrightarrow> apb_psel q \<and> apb_penable q"

definition uart_irq :: "uart \<Rightarrow> bool" where
  "uart_irq u \<longleftrightarrow> (fifo_empty (tx_ring u) \<and> ctrl_tx_ie u) \<or> (\<not> fifo_empty (rx_ring u) \<and> ctrl_rx_ie u)"

text \<open>One clock edge, with the APB request and the byte the deserialiser completes.\<close>

definition uart_step :: "apb_req \<Rightarrow> byte option \<Rightarrow> uart \<Rightarrow> uart" where
  "uart_step q rx u =
     (let ctrl = apb_write_en q \<and> reg_offset q = 0x0C;
          v = apb_pwdata q
      in \<lparr>ctrl_tx_ie = (if ctrl then bit v 0 else ctrl_tx_ie u),
          ctrl_rx_ie = (if ctrl then bit v 1 else ctrl_rx_ie u),
          ctrl_tx_en = (if ctrl then bit v 2 else ctrl_tx_en u),
          ctrl_rx_en = (if ctrl then bit v 3 else ctrl_rx_en u),
          baud_div_r = (if apb_write_en q \<and> reg_offset q = 0x10 then v else baud_div_r u),
          tx_ring = fifo_step (tx_fifo_push q) (ucast v) (tx_fifo_pop u) (tx_ring u),
          rx_ring = fifo_step (rx \<noteq> None) (case rx of Some b \<Rightarrow> b | None \<Rightarrow> 0) (rx_fifo_pop q) (rx_ring u),
          tx_state = tx_state_next u,
          tx_baud_cnt = tx_baud_next u,
          tx_shift_reg = (if tx_fifo_pop u then fifo_front (tx_ring u) else tx_shift_reg u),
          uart_tx = tx_line (tx_state u) (tx_shift_reg u),
          tx_log = (if tx_fifo_pop u then tx_log u @ [fifo_front (tx_ring u)] else tx_log u)\<rparr>)"

section \<open>Properties\<close>

definition uart_wf :: "uart \<Rightarrow> bool" where
  "uart_wf u \<longleftrightarrow> fifo_wf (tx_ring u) \<and> fifo_wf (rx_ring u)"

text \<open>The bytes the UART has accepted for transmission: those sent and those waiting.\<close>

definition accepted :: "uart \<Rightarrow> byte list" where
  "accepted u = tx_log u @ fifo_items (tx_ring u)"

lemma uart_wf_step: "uart_wf u \<Longrightarrow> uart_wf (uart_step q rx u)"
  by (simp add: uart_wf_def uart_step_def Let_def ring.wf_step)

lemma uart_reset_wf: "uart_wf uart_reset"
  by (simp add: uart_wf_def uart_reset_def fifo_reset_wf)

lemma uart_status_bits:
  "uart_status u AND UART_ST_TX_FULL = 0 \<longleftrightarrow> \<not> fifo_full (tx_ring u)"
  "uart_status u AND UART_ST_TX_EMPTY = 0 \<longleftrightarrow> \<not> fifo_empty (tx_ring u)"
  "uart_status u AND UART_ST_RX_FULL = 0 \<longleftrightarrow> \<not> fifo_full (rx_ring u)"
  "uart_status u AND UART_ST_RX_EMPTY = 0 \<longleftrightarrow> \<not> fifo_empty (rx_ring u)"
  "uart_status u AND UART_ST_TX_BUSY = 0 \<longleftrightarrow> tx_state u = TX_IDLE"
  by (cases "tx_state u = TX_IDLE"; cases "fifo_empty (rx_ring u)"; cases "fifo_full (rx_ring u)";
      cases "fifo_empty (tx_ring u)"; cases "fifo_full (tx_ring u)"; simp add: uart_status_def hw_defs)+

text \<open>No byte is lost between the register and the shift register.\<close>

lemma accepted_step:
  assumes "uart_wf u" and "tx_fifo_push q \<Longrightarrow> \<not> fifo_full (tx_ring u)"
  shows "accepted (uart_step q rx u) = accepted u @ (if tx_fifo_push q then [ucast (apb_pwdata q)] else [])"
proof -
  have wf: "fifo_wf (tx_ring u)" using assms(1) by (simp add: uart_wf_def)
  have front: "tx_log u @ fifo_front (tx_ring u) # tl (fifo_items (tx_ring u)) = accepted u"
    if "tx_fifo_pop u"
    using that wf ring.items_front [OF wf] ring.empty_iff [OF wf]
    by (cases "fifo_items (tx_ring u)") (auto simp: accepted_def tx_fifo_pop_def)
  show ?thesis
    using front assms(2) ring.items_push [OF wf] ring.items_pop [OF wf] ring.items_idle [OF wf]
    by (cases "tx_fifo_push q"; cases "tx_fifo_pop u")
      (auto simp: accepted_def uart_step_def Let_def append_eq_append_conv2)
qed

lemma uart_step_quiet:
  assumes "\<not> apb_write_en q"
  shows "ctrl_tx_en (uart_step q rx u) = ctrl_tx_en u" "ctrl_rx_en (uart_step q rx u) = ctrl_rx_en u"
    "baud_div_r (uart_step q rx u) = baud_div_r u"
  using assms by (simp_all add: uart_step_def Let_def)

lemma tx_room_step:
  assumes "uart_wf u" and "\<not> fifo_full (tx_ring u)" and "\<not> tx_fifo_push q"
  shows "\<not> fifo_full (tx_ring (uart_step q rx u))"
  using assms by (simp add: uart_wf_def uart_step_def Let_def ring.not_full_step)

lemma rx_items_step:
  assumes "uart_wf u"
  shows "fifo_items (rx_ring (uart_step q rx u)) =
    (if rx_fifo_pop q then tl (fifo_items (rx_ring u)) else fifo_items (rx_ring u))
    @ (case rx of Some b \<Rightarrow> if length (fifo_items (rx_ring u)) < FIFO_DEPTH then [b] else [] | None \<Rightarrow> [])"
  using assms
  by (simp add: uart_wf_def uart_step_def Let_def ring.items_step queue_step_def split: option.splits)

section \<open>The transmitter makes progress\<close>

text \<open>
  How far the transmitter is from being done with what it has: the bytes waiting, the bits of the
  current frame left, and the clocks of the current bit left. Without a write every clock edge
  makes it smaller as long as the FIFO is not empty.
\<close>

fun bits_left :: "tx_state_t \<Rightarrow> nat" where
  "bits_left TX_IDLE = 0"
| "bits_left TX_START = 10"
| "bits_left TX_DATA0 = 9"
| "bits_left TX_DATA1 = 8"
| "bits_left TX_DATA2 = 7"
| "bits_left TX_DATA3 = 6"
| "bits_left TX_DATA4 = 5"
| "bits_left TX_DATA5 = 4"
| "bits_left TX_DATA6 = 3"
| "bits_left TX_DATA7 = 2"
| "bits_left TX_STOP = 1"

definition clocks_left :: "uart \<Rightarrow> nat" where
  "clocks_left u =
     (if tx_baud_cnt u > baud_div_r u - 1 then 2 ^ 32 else unat (baud_div_r u - 1 - tx_baud_cnt u))"

definition tx_order :: "(uart \<times> uart) set" where
  "tx_order = inv_image (less_than <*lex*> less_than <*lex*> less_than)
     (\<lambda>u. (length (fifo_items (tx_ring u)), bits_left (tx_state u), clocks_left u))"

lemma wf_tx_order: "wf tx_order"
  by (simp add: tx_order_def wf_lex_prod)

lemma bits_left_tick: "st \<noteq> TX_IDLE \<Longrightarrow> bits_left (tx_after_tick st) < bits_left st"
  by (cases st) simp_all

lemma clocks_left_step:
  assumes "tx_state u \<noteq> TX_IDLE" and "\<not> tx_baud_tick u"
    and "baud_div_r u' = baud_div_r u" and "tx_baud_cnt u' = tx_baud_next u"
  shows "clocks_left u' < clocks_left u"
proof (cases "tx_baud_cnt u > baud_div_r u - 1")
  case True
  then have "tx_baud_next u = 0" by (simp add: tx_baud_next_def less_imp_le)
  then show ?thesis
    using True assms(3,4) u32_bound [of "baud_div_r u - 1"] by (simp add: clocks_left_def)
next
  case False
  then have lt: "tx_baud_cnt u < baud_div_r u - 1"
    using assms(1,2) by (simp add: tx_baud_tick_def)
  then have n: "tx_baud_next u = tx_baud_cnt u + 1"
    using assms(1) by (simp add: tx_baud_next_def not_le [THEN iffD2])
  have "unat (tx_baud_cnt u + 1) = Suc (unat (tx_baud_cnt u))" by (rule unat_less_Suc_word [OF lt])
  moreover from this have "tx_baud_cnt u + 1 \<le> baud_div_r u - 1"
    using lt by (simp add: word_less_nat_alt word_le_nat_alt)
  ultimately have le: "tx_baud_cnt u + 1 \<le> baud_div_r u - 1" and lt': "unat (tx_baud_cnt u) < unat (baud_div_r u - 1)"
    and suc: "unat (tx_baud_cnt u + 1) = Suc (unat (tx_baud_cnt u))"
    using lt by (simp_all add: word_less_nat_alt)
  have "clocks_left u' = unat (baud_div_r u - 1) - Suc (unat (tx_baud_cnt u))"
    unfolding clocks_left_def assms(3,4) n
    using le by (simp only: not_less if_not_P unat_sub suc if_False)
  moreover have "clocks_left u = unat (baud_div_r u - 1) - unat (tx_baud_cnt u)"
    unfolding clocks_left_def
    using less_imp_le [OF lt] by (simp only: not_less if_not_P unat_sub if_False)
  ultimately show ?thesis using lt' by linarith
qed

lemma tx_progress:
  assumes "uart_wf u" and "ctrl_tx_en u" and "fifo_items (tx_ring u) \<noteq> []"
    and "\<not> apb_write_en q"
  shows "(uart_step q rx u, u) \<in> tx_order"
proof -
  have wf: "fifo_wf (tx_ring u)" using assms(1) by (simp add: uart_wf_def)
  have ne: "\<not> fifo_empty (tx_ring u)" using assms(3) ring.empty_iff [OF wf] by simp
  have np: "\<not> tx_fifo_push q" using assms(4) by (simp add: tx_fifo_push_def)
  let ?u = "uart_step q rx u"
  show ?thesis
  proof (cases "tx_state u = TX_IDLE")
    case True
    then have "tx_fifo_pop u" using assms(2) ne by (simp add: tx_fifo_pop_def)
    then have "length (fifo_items (tx_ring ?u)) < length (fifo_items (tx_ring u))"
      using np assms(3) ring.items_pop [OF wf] by (simp add: uart_step_def Let_def)
    then show ?thesis by (simp add: tx_order_def)
  next
    case False
    then have "\<not> tx_fifo_pop u" by (simp add: tx_fifo_pop_def)
    then have same: "fifo_items (tx_ring ?u) = fifo_items (tx_ring u)"
      using np ring.items_idle [OF wf] by (simp add: uart_step_def Let_def)
    show ?thesis
    proof (cases "tx_baud_tick u")
      case True
      then have "tx_state ?u = tx_after_tick (tx_state u)"
        using False by (simp add: uart_step_def Let_def tx_state_next_def)
      then show ?thesis using same bits_left_tick [OF False] by (simp add: tx_order_def)
    next
      case nt: False
      then have "tx_state ?u = tx_state u"
        using False by (simp add: uart_step_def Let_def tx_state_next_def)
      moreover have "clocks_left ?u < clocks_left u"
        by (rule clocks_left_step [OF False nt]) (use assms(4) in \<open>simp_all add: uart_step_def Let_def\<close>)
      ultimately show ?thesis using same by (simp add: tx_order_def)
    qed
  qed
qed

end
