(* ===== verification/Gpio_Apb.thy ===== *)
theory Gpio_Apb
  imports Uart_Apb
begin

text \<open>
  rtl/peripherals/gpio_apb.sv at the level of clock edges: the registers, the input synchroniser and
  the interrupt detection of the sixteen pins that rtl/top/vsync\_top.sv gives the unit
  (\<open>GPIO_WIDTH\<close>). The APB request is the record of \<open>Uart_Apb\<close>.
\<close>

section \<open>Registers\<close>

type_synonym pins = "16 word" \<comment> \<open>\<open>GPIO_WIDTH\<close>\<close>

record gpio =
  gpio_out_r :: pins
  gpio_dir_r :: pins
  gpio_int_en_r :: pins
  gpio_int_status_r :: pins
  gpio_int_type_r :: pins
  gpio_int_pol_r :: pins
  gpio_in_sync1 :: pins
  gpio_in_sync2 :: pins
  gpio_in_prev :: pins

definition gpio_reset :: gpio where
  "gpio_reset = \<lparr>gpio_out_r = 0, gpio_dir_r = 0, gpio_int_en_r = 0, gpio_int_status_r = 0,
     gpio_int_type_r = 0, gpio_int_pol_r = 0, gpio_in_sync1 = 0, gpio_in_sync2 = 0, gpio_in_prev = 0\<rparr>"

definition rising_edge :: "gpio \<Rightarrow> pins" where
  "rising_edge g = gpio_in_sync2 g AND NOT (gpio_in_prev g)"

definition falling_edge :: "gpio \<Rightarrow> pins" where
  "falling_edge g = NOT (gpio_in_sync2 g) AND gpio_in_prev g"

text \<open>Edge or level, high or low, per pin.\<close>

definition int_detect :: "gpio \<Rightarrow> pins" where
  "int_detect g =
     (gpio_int_type_r g AND ((gpio_int_pol_r g AND rising_edge g)
        OR (NOT (gpio_int_pol_r g) AND falling_edge g)))
     OR (NOT (gpio_int_type_r g) AND ((gpio_int_pol_r g AND gpio_in_sync2 g)
        OR (NOT (gpio_int_pol_r g) AND NOT (gpio_in_sync2 g))))"

definition gpio_irq :: "gpio \<Rightarrow> bool" where
  "gpio_irq g \<longleftrightarrow> gpio_int_status_r g AND gpio_int_en_r g \<noteq> 0"

text \<open>
  One clock edge, with the APB request and the level of the pins. A write takes the low sixteen bits; in a
  read the high ones are zero.
\<close>

definition gpio_step :: "apb_req \<Rightarrow> pins \<Rightarrow> gpio \<Rightarrow> gpio" where
  "gpio_step q pins g =
     (let wr = (\<lambda>off old. if apb_write_en q \<and> reg_offset q = off then ucast (apb_pwdata q) else old)
      in \<lparr>gpio_out_r = wr 0x00 (gpio_out_r g),
          gpio_dir_r = wr 0x08 (gpio_dir_r g),
          gpio_int_en_r = wr 0x0C (gpio_int_en_r g),
          gpio_int_status_r =
            (if apb_write_en q \<and> reg_offset q = 0x10
             then gpio_int_status_r g AND NOT (ucast (apb_pwdata q))
             else gpio_int_status_r g OR (int_detect g AND gpio_int_en_r g)),
          gpio_int_type_r = wr 0x14 (gpio_int_type_r g),
          gpio_int_pol_r = wr 0x18 (gpio_int_pol_r g),
          gpio_in_sync1 = pins,
          gpio_in_sync2 = gpio_in_sync1 g,
          gpio_in_prev = gpio_in_sync2 g\<rparr>)"

definition gpio_prdata :: "apb_req \<Rightarrow> gpio \<Rightarrow> u32" where
  "gpio_prdata q g =
     (if apb_read_en q then
        (if reg_offset q = 0x00 then ucast (gpio_out_r g)
         else if reg_offset q = 0x04 then ucast (gpio_in_sync2 g)
         else if reg_offset q = 0x08 then ucast (gpio_dir_r g)
         else if reg_offset q = 0x0C then ucast (gpio_int_en_r g)
         else if reg_offset q = 0x10 then ucast (gpio_int_status_r g)
         else if reg_offset q = 0x14 then ucast (gpio_int_type_r g)
         else if reg_offset q = 0x18 then ucast (gpio_int_pol_r g)
         else 0)
      else 0)"

section \<open>Properties\<close>

text \<open>What each pin's configuration asks for.\<close>

lemma int_detect_bit:
  assumes "i < 16"
  shows "bit (int_detect g) i \<longleftrightarrow>
    (if bit (gpio_int_type_r g) i
     then (if bit (gpio_int_pol_r g) i
           then bit (gpio_in_sync2 g) i \<and> \<not> bit (gpio_in_prev g) i
           else \<not> bit (gpio_in_sync2 g) i \<and> bit (gpio_in_prev g) i)
     else bit (gpio_in_sync2 g) i = bit (gpio_int_pol_r g) i)"
  using assms
  by (auto simp: int_detect_def rising_edge_def falling_edge_def bit_and_iff bit_or_iff bit_not_iff)

text \<open>The outputs change only by a write of their register.\<close>

lemma gpio_step_quiet:
  assumes "\<not> apb_write_en q"
  shows "gpio_out_r (gpio_step q pins g) = gpio_out_r g"
    and "gpio_dir_r (gpio_step q pins g) = gpio_dir_r g"
    and "gpio_int_en_r (gpio_step q pins g) = gpio_int_en_r g"
  using assms by (simp_all add: gpio_step_def Let_def)

text \<open>An interrupt that is pending and enabled stays so until it is cleared.\<close>

lemma gpio_irq_holds: "gpio_irq g \<Longrightarrow> \<not> apb_write_en q \<Longrightarrow> gpio_irq (gpio_step q pins g)"
proof -
  assume irq: "gpio_irq g" and q: "\<not> apb_write_en q"
  then obtain n where "bit (gpio_int_status_r g AND gpio_int_en_r g) n"
    by (auto simp: gpio_irq_def bit_eq_iff)
  then have "bit (gpio_int_status_r (gpio_step q pins g) AND gpio_int_en_r (gpio_step q pins g)) n"
    using q by (simp add: gpio_step_def Let_def bit_and_iff bit_or_iff)
  then show "gpio_irq (gpio_step q pins g)" by (auto simp: gpio_irq_def)
qed

end
