(* ===== verification/Clint.thy ===== *)
theory Clint
  imports Uart_Apb
begin

text \<open>
  rtl/interrupt/clint.sv at the level of clock edges: the 64-bit timer, its compare register and the
  software interrupt bit.
\<close>

section \<open>Registers\<close>

record clint =
  msip_r :: bool
  mtime_r :: "64 word"
  mtimecmp_r :: "64 word"

definition clint_reset :: clint where
  "clint_reset = \<lparr>msip_r = False, mtime_r = 0, mtimecmp_r = -1\<rparr>"

text \<open>The two halves of a 64-bit register.\<close>

definition lo_half :: "64 word \<Rightarrow> u32" where
  "lo_half x = ucast x"

definition hi_half :: "64 word \<Rightarrow> u32" where
  "hi_half x = ucast (drop_bit 32 x)"

definition set_lo :: "u32 \<Rightarrow> 64 word \<Rightarrow> 64 word" where
  "set_lo v x = push_bit 32 (ucast (hi_half x)) OR ucast v"

definition set_hi :: "u32 \<Rightarrow> 64 word \<Rightarrow> 64 word" where
  "set_hi v x = push_bit 32 (ucast v) OR ucast (lo_half x)"

text \<open>The slave decodes the low sixteen bits of the address.\<close>

definition clint_offset :: "apb_req \<Rightarrow> u32" where
  "clint_offset q = apb_paddr q AND 0xFFFF"

definition timer_irq :: "clint \<Rightarrow> bool" where
  "timer_irq c \<longleftrightarrow> mtime_r c \<ge> mtimecmp_r c"

definition clint_step :: "apb_req \<Rightarrow> clint \<Rightarrow> clint" where
  "clint_step q c =
     (let wr = (\<lambda>off. apb_write_en q \<and> clint_offset q = off);
          v = apb_pwdata q
      in \<lparr>msip_r = (if wr 0x0000 then bit v 0 else msip_r c),
          mtime_r = (if wr 0xBFF8 then set_lo v (mtime_r c)
                     else if wr 0xBFFC then set_hi v (mtime_r c)
                     else mtime_r c + 1),
          mtimecmp_r = (if wr 0x4000 then set_lo v (mtimecmp_r c)
                        else if wr 0x4004 then set_hi v (mtimecmp_r c)
                        else mtimecmp_r c)\<rparr>)"

definition clint_prdata :: "apb_req \<Rightarrow> clint \<Rightarrow> u32" where
  "clint_prdata q c =
     (if apb_read_en q then
        (if clint_offset q = 0x0000 then of_bool (msip_r c)
         else if clint_offset q = 0x4000 then lo_half (mtimecmp_r c)
         else if clint_offset q = 0x4004 then hi_half (mtimecmp_r c)
         else if clint_offset q = 0xBFF8 then lo_half (mtime_r c)
         else if clint_offset q = 0xBFFC then hi_half (mtime_r c)
         else 0)
      else 0)"

section \<open>Properties\<close>

lemma halves:
  "lo_half (set_lo v x) = v" "hi_half (set_lo v x) = hi_half x"
  "hi_half (set_hi v x) = v" "lo_half (set_hi v x) = lo_half x"
proof -
  note bits = lo_half_def hi_half_def set_lo_def set_hi_def bit_or_iff bit_push_bit_iff
    bit_drop_bit_eq bit_unsigned_iff
  show "lo_half (set_lo v x) = v" by (rule bit_word_eqI) (simp add: bits)
  show "hi_half (set_lo v x) = hi_half x" by (rule bit_word_eqI) (auto simp: bits dest: bit_imp_le_length)
  show "hi_half (set_hi v x) = v" by (rule bit_word_eqI) (auto simp: bits dest: bit_imp_le_length)
  show "lo_half (set_hi v x) = lo_half x" by (rule bit_word_eqI) (simp add: bits)
qed

lemma mtime_step: "\<not> apb_write_en q \<Longrightarrow> mtime_r (clint_step q c) = mtime_r c + 1"
  by (simp add: clint_step_def Let_def)

lemma hi_half_unat: "unat (hi_half x) = unat x div 2 ^ 32"
proof -
  have "unat x < 2 ^ LENGTH(64)" by (rule unsigned_less)
  then have "unat x div 2 ^ 32 < 2 ^ 32" by simp
  then show ?thesis
    by (simp only: hi_half_def unsigned_ucast_eq unsigned_drop_bit_eq drop_bit_eq_div)
      (simp add: take_bit_nat_eq_self unat_div)
qed

text \<open>
  Two reads of the high half that agree enclose no carry: a time within \<open>2 ^ 32\<close> clocks of the first
  one has the same high half.
\<close>

definition after_clocks :: "nat \<Rightarrow> 64 word \<Rightarrow> 64 word" where
  "after_clocks n x = x + of_nat n"

lemma after_clocks_0 [simp]: "after_clocks 0 x = x"
  by (simp add: after_clocks_def)

lemma after_clocks_add: "after_clocks n (after_clocks m x) = after_clocks (m + n) x"
  by (simp add: after_clocks_def)

text \<open>The high half after \<open>n < 2 ^ 32\<close> clocks: the same, or one more.\<close>

lemma hi_half_after:
  assumes "n < 2 ^ 32"
  shows "hi_half (after_clocks n x)
    = (if unat x mod 2 ^ 32 + n < 2 ^ 32 then hi_half x else hi_half x + 1)"
proof -
  define X where "X = unat x"
  have X: "X < 2 ^ 64" using unsigned_less [of x] by (simp add: X_def)
  have n: "unat (of_nat n :: 64 word) = n" using assms by (simp add: unat_of_nat_small)
  have s: "unat (after_clocks n x) = (X + n) mod 2 ^ 64"
    by (simp add: after_clocks_def unat_word_ariths n X_def)
  have d: "(X + n) mod 2 ^ 64 div 2 ^ 32 = (X + n) div 2 ^ 32 mod 2 ^ 32"
    using div_exp_mod_exp_eq [of "X + n" 32 32] by simp
  have q: "(X + n) div 2 ^ 32 = X div 2 ^ 32 + (if X mod 2 ^ 32 + n < 2 ^ 32 then 0 else 1)"
    using assms by (simp add: div_add1_eq [of X n]) (auto simp: div_nat_eqI)
  have h: "unat (hi_half x) = X div 2 ^ 32" by (simp add: hi_half_unat X_def)
  have "unat (hi_half (after_clocks n x))
      = (X div 2 ^ 32 + (if X mod 2 ^ 32 + n < 2 ^ 32 then 0 else 1)) mod 2 ^ 32"
    by (simp only: hi_half_unat s d q)
  also have "\<dots> = unat (if X mod 2 ^ 32 + n < 2 ^ 32 then hi_half x else hi_half x + 1)"
    using X by (simp add: unat_word_ariths h div_less_mono mod_less)
  finally show ?thesis by (simp only: word_unat_eq_iff X_def)
qed

text \<open>
  Over less than \<open>2 ^ 32\<close> clocks the high half changes at most once, so that of two pairs of reads
  one agrees.
\<close>

lemma hi_half_once:
  assumes "a \<le> b" and "b \<le> c" and "c \<le> d" and "d < 2 ^ 32"
    and "hi_half (after_clocks a x) \<noteq> hi_half (after_clocks b x)"
  shows "hi_half (after_clocks c x) = hi_half (after_clocks d x)"
  using assms
  by (simp add: hi_half_after split: if_split_asm)

end
