(* ===== verification/Axi_Bus.thy ===== *)
theory Axi_Bus
  imports Uart_Apb
begin

text \<open>
  The way of a load or store from the core to the devices: the AXI master (rtl/bus/axi4\_master.sv), the
  interconnect (rtl/bus/axi4\_interconnect.sv) and the slave side of the six slaves: the APB bridge
  (rtl/bus/axi4\_apb\_bridge.sv), the bridges to the two block memories (rtl/top/vsync\_top.sv), the
  HyperRAM controller (rtl/memory/hyperram\_ctrl.sv), and the registers of the hardware RTOS and of the
  POSIX layer. Each is a state machine; one clock of all of them is \<open>bus_clock\<close>. Accesses are those of
  whole words: byte strobes, burst lengths, identifiers and response codes are left out; the core
  does not look at the response code.
\<close>

section \<open>The address map\<close>

definition in_page :: "u32 \<Rightarrow> u32 \<Rightarrow> u32 \<Rightarrow> bool" where
  "in_page lo hi a \<longleftrightarrow> lo \<le> a \<and> a \<le> hi"

definition imem_page :: "u32 \<Rightarrow> bool" where "imem_page = in_page IMEM_BASE 0x0000FFFF"
definition dmem_page :: "u32 \<Rightarrow> bool" where "dmem_page = in_page DMEM_BASE 0x00013FFF"
definition hyperram_page :: "u32 \<Rightarrow> bool" where "hyperram_page = in_page HYPERRAM_BASE 0x2FFFFFFF"
definition plic_page :: "u32 \<Rightarrow> bool" where "plic_page = in_page PLIC_BASE 0x0C000FFF"
definition clint_page :: "u32 \<Rightarrow> bool" where "clint_page = in_page CLINT_BASE 0x0200FFFF"
definition uart_page :: "u32 \<Rightarrow> bool" where "uart_page = in_page UART_BASE 0x100000FF"
definition gpio_page :: "u32 \<Rightarrow> bool" where "gpio_page = in_page GPIO_BASE 0x100001FF"
definition rtos_page :: "u32 \<Rightarrow> bool" where "rtos_page = in_page RTOS_BASE 0x1100FFFF"
definition posix_page :: "u32 \<Rightarrow> bool" where "posix_page = in_page POSIX_BASE 0x1200FFFF"

datatype slave = Dmem | Hyperram | Apb_bridge | Rtos_regs | Posix_regs | Imem

definition decode :: "u32 \<Rightarrow> slave option" where
  "decode a =
     (if dmem_page a then Some Dmem
      else if hyperram_page a then Some Hyperram
      else if clint_page a \<or> plic_page a \<or> uart_page a \<or> gpio_page a then Some Apb_bridge
      else if rtos_page a then Some Rtos_regs
      else if posix_page a then Some Posix_regs
      else if imem_page a then Some Imem
      else None)"

section \<open>The channels\<close>

text \<open>What a master drives, and what a slave drives.\<close>

record axi_down =
  arvalid :: bool
  rready :: bool
  awvalid :: bool
  wvalid :: bool
  bready :: bool
  axi_addr :: u32
  axi_wdata :: u32

record axi_up =
  arready :: bool
  rvalid :: bool
  axi_rdata :: u32
  awready :: bool
  wready :: bool
  bvalid :: bool

section \<open>The master\<close>

datatype master_state = M_IDLE | M_RD_ADDR | M_RD_DATA | M_WR_ADDR | M_WR_DATA | M_WR_RESP | M_DONE

record axi_master =
  m_state :: master_state
  addr_reg :: u32
  wdata_reg :: u32
  rdata_reg :: u32
  aw_done :: bool
  w_done :: bool

definition master_out :: "axi_master \<Rightarrow> axi_down" where
  "master_out m = \<lparr>arvalid = (m_state m = M_RD_ADDR), rready = (m_state m = M_RD_DATA),
     awvalid = (m_state m = M_WR_ADDR \<and> \<not> aw_done m),
     wvalid = (m_state m = M_WR_ADDR \<and> \<not> w_done m \<or> m_state m = M_WR_DATA),
     bready = (m_state m = M_WR_RESP), axi_addr = addr_reg m, axi_wdata = wdata_reg m\<rparr>"

text \<open>A command of the core: write or read, the address, the data.\<close>

type_synonym bus_cmd = "(bool \<times> u32 \<times> u32) option"

definition master_step :: "bus_cmd \<Rightarrow> axi_up \<Rightarrow> axi_master \<Rightarrow> axi_master" where
  "master_step c u m = (case m_state m of
       M_IDLE \<Rightarrow> (case c of
           None \<Rightarrow> m\<lparr>aw_done := False, w_done := False\<rparr>
         | Some (wr, a, d) \<Rightarrow>
             (if wr then m\<lparr>m_state := M_WR_ADDR, addr_reg := a, wdata_reg := d, aw_done := False, w_done := False\<rparr>
              else m\<lparr>m_state := M_RD_ADDR, addr_reg := a, aw_done := False, w_done := False\<rparr>))
     | M_RD_ADDR \<Rightarrow> if arready u then m\<lparr>m_state := M_RD_DATA\<rparr> else m
     | M_RD_DATA \<Rightarrow> if rvalid u then m\<lparr>m_state := M_DONE, rdata_reg := axi_rdata u\<rparr> else m
     | M_WR_ADDR \<Rightarrow>
         (let aw = awvalid (master_out m) \<and> awready u; w = wvalid (master_out m) \<and> wready u
          in m\<lparr>m_state := (if (aw_done m \<or> aw) \<and> (w_done m \<or> w) then M_WR_RESP
                          else if aw \<and> \<not> w then M_WR_DATA else M_WR_ADDR),
               aw_done := (aw_done m \<or> aw), w_done := (w_done m \<or> w)\<rparr>)
     | M_WR_DATA \<Rightarrow> if wready u then m\<lparr>m_state := M_WR_RESP\<rparr> else m
     | M_WR_RESP \<Rightarrow> if bvalid u then m\<lparr>m_state := M_DONE\<rparr> else m
     | M_DONE \<Rightarrow> m\<lparr>m_state := M_IDLE, aw_done := False, w_done := False\<rparr>)"

section \<open>The interconnect\<close>

datatype xbar_state = X_IDLE | X_READ | X_WRITE_AW | X_WRITE_W | X_WRITE_B | X_DECERR_R | X_DECERR_B

record xbar =
  x_state :: xbar_state
  active_slave :: slave
  aw_accepted :: bool

text \<open>To the slave \<open>i\<close>.\<close>

definition xbar_out :: "slave \<Rightarrow> axi_down \<Rightarrow> xbar \<Rightarrow> axi_down" where
  "xbar_out i d x = \<lparr>
     arvalid = (x_state x = X_IDLE \<and> arvalid d \<and> decode (axi_addr d) = Some i),
     rready = (x_state x = X_READ \<and> active_slave x = i \<and> rready d),
     awvalid = (x_state x = X_WRITE_AW \<and> \<not> aw_accepted x \<and> active_slave x = i),
     wvalid = (x_state x = X_WRITE_W \<and> active_slave x = i \<and> wvalid d),
     bready = (x_state x = X_WRITE_B \<and> active_slave x = i \<and> bready d),
     axi_addr = axi_addr d, axi_wdata = axi_wdata d\<rparr>"

text \<open>To the master, from the slaves.\<close>

definition xbar_in :: "(slave \<Rightarrow> axi_up) \<Rightarrow> axi_down \<Rightarrow> xbar \<Rightarrow> axi_up" where
  "xbar_in up d x = (let s = up (active_slave x) in \<lparr>
     arready = (x_state x = X_IDLE \<and> arvalid d
       \<and> (case decode (axi_addr d) of Some i \<Rightarrow> arready (up i) | None \<Rightarrow> True)),
     rvalid = (x_state x = X_DECERR_R \<or> x_state x = X_READ \<and> rvalid s),
     axi_rdata = (if x_state x = X_READ then axi_rdata s else 0),
     awready = (if x_state x = X_WRITE_AW \<and> \<not> aw_accepted x then awready s
       else x_state x = X_IDLE \<and> \<not> arvalid d \<and> awvalid d \<and> decode (axi_addr d) = None),
     wready = (if x_state x = X_WRITE_W then wready s else x_state x = X_DECERR_B \<and> wvalid d),
     bvalid = (x_state x = X_DECERR_B \<or> x_state x = X_WRITE_B \<and> bvalid s)\<rparr>)"

definition xbar_step :: "(slave \<Rightarrow> axi_up) \<Rightarrow> axi_down \<Rightarrow> xbar \<Rightarrow> xbar" where
  "xbar_step up d x = (let i = active_slave x in case x_state x of
       X_IDLE \<Rightarrow>
         (let sel = (case decode (axi_addr d) of Some j \<Rightarrow> j | None \<Rightarrow> Dmem); ok = decode (axi_addr d) \<noteq> None
          in if arvalid d then
               \<lparr>x_state = (if ok then X_READ else X_DECERR_R), active_slave = sel, aw_accepted = False\<rparr>
             else if awvalid d then
               \<lparr>x_state = (if ok then X_WRITE_AW else X_DECERR_B), active_slave = sel, aw_accepted = False\<rparr>
             else x\<lparr>aw_accepted := False\<rparr>)
     | X_READ \<Rightarrow> if rvalid (up i) \<and> rready d then x\<lparr>x_state := X_IDLE\<rparr> else x
     | X_WRITE_AW \<Rightarrow>
         (let ok = awvalid (xbar_out i d x) \<and> awready (up i)
          in x\<lparr>x_state := (if aw_accepted x \<or> ok then X_WRITE_W else X_WRITE_AW),
               aw_accepted := (aw_accepted x \<or> ok)\<rparr>)
     | X_WRITE_W \<Rightarrow> if wvalid (xbar_out i d x) \<and> wready (up i) then x\<lparr>x_state := X_WRITE_B\<rparr> else x
     | X_WRITE_B \<Rightarrow> if bvalid (up i) \<and> bready d then x\<lparr>x_state := X_IDLE\<rparr> else x
     | X_DECERR_R \<Rightarrow> if rready d then x\<lparr>x_state := X_IDLE\<rparr> else x
     | X_DECERR_B \<Rightarrow> if bready d then x\<lparr>x_state := X_IDLE\<rparr> else x)"

section \<open>The APB bridge\<close>

datatype apb_state = B_IDLE | B_SETUP | B_ACCESS | B_WR_RESP | B_RD_RESP | B_WR_WAIT

record apb_bridge =
  b_state :: apb_state
  txn_addr :: u32
  txn_wdata :: u32
  txn_is_write :: bool
  txn_rdata :: u32

definition apb_up :: "axi_down \<Rightarrow> apb_bridge \<Rightarrow> axi_up" where
  "apb_up d b = \<lparr>arready = (b_state b = B_IDLE \<and> arvalid d), rvalid = (b_state b = B_RD_RESP),
     axi_rdata = txn_rdata b, awready = (b_state b = B_IDLE \<and> \<not> arvalid d \<and> awvalid d),
     wready = (b_state b = B_IDLE \<and> \<not> arvalid d \<and> awvalid d \<and> wvalid d \<or> b_state b = B_WR_WAIT),
     bvalid = (b_state b = B_WR_RESP)\<rparr>"

text \<open>The request on the APB; \<open>prdata\<close> and \<open>pready\<close> come back from it.\<close>

definition apb_request :: "apb_bridge \<Rightarrow> apb_req" where
  "apb_request b = \<lparr>apb_psel = (b_state b = B_SETUP \<or> b_state b = B_ACCESS),
     apb_penable = (b_state b = B_ACCESS), apb_pwrite = txn_is_write b, apb_paddr = txn_addr b,
     apb_pwdata = txn_wdata b\<rparr>"

definition apb_bridge_step :: "axi_down \<Rightarrow> u32 \<Rightarrow> bool \<Rightarrow> apb_bridge \<Rightarrow> apb_bridge" where
  "apb_bridge_step d prdata pready b = (case b_state b of
       B_IDLE \<Rightarrow>
         (if arvalid d then b\<lparr>b_state := B_SETUP, txn_addr := axi_addr d, txn_is_write := False\<rparr>
          else if awvalid d \<and> wvalid d then
            b\<lparr>b_state := B_SETUP, txn_addr := axi_addr d, txn_wdata := axi_wdata d, txn_is_write := True\<rparr>
          else if awvalid d then b\<lparr>b_state := B_WR_WAIT, txn_addr := axi_addr d, txn_is_write := True\<rparr>
          else b)
     | B_WR_WAIT \<Rightarrow> if wvalid d then b\<lparr>b_state := B_SETUP, txn_wdata := axi_wdata d\<rparr> else b
     | B_SETUP \<Rightarrow> b\<lparr>b_state := B_ACCESS\<rparr>
     | B_ACCESS \<Rightarrow>
         (if pready then b\<lparr>b_state := (if txn_is_write b then B_WR_RESP else B_RD_RESP), txn_rdata := prdata\<rparr>
          else b)
     | B_WR_RESP \<Rightarrow> if bready d then b\<lparr>b_state := B_IDLE\<rparr> else b
     | B_RD_RESP \<Rightarrow> if rready d then b\<lparr>b_state := B_IDLE\<rparr> else b)"

section \<open>The bridges to the block memories\<close>

datatype ram_state = RAM_IDLE | RAM_WRITE_DATA | RAM_WRITE_RESP | RAM_READ_WAIT | RAM_READ_DATA

text \<open>\<open>dout\<close> is the output of the memory, \<open>ram_write\<close> the word it writes at this clock.\<close>

record ram_bridge =
  ram_state :: ram_state
  ram_addr :: u32

definition ram_up :: "axi_down \<Rightarrow> u32 \<Rightarrow> ram_bridge \<Rightarrow> axi_up" where
  "ram_up d dout r = \<lparr>arready = (ram_state r = RAM_IDLE \<and> \<not> awvalid d \<and> arvalid d),
     rvalid = (ram_state r = RAM_READ_DATA), axi_rdata = dout,
     awready = (ram_state r = RAM_IDLE \<and> awvalid d), wready = (ram_state r = RAM_WRITE_DATA),
     bvalid = (ram_state r = RAM_WRITE_RESP)\<rparr>"

definition ram_write :: "axi_down \<Rightarrow> ram_bridge \<Rightarrow> (u32 \<times> u32) option" where
  "ram_write d r = (if ram_state r = RAM_WRITE_DATA \<and> wvalid d then Some (ram_addr r, axi_wdata d) else None)"

definition ram_step :: "axi_down \<Rightarrow> ram_bridge \<Rightarrow> ram_bridge" where
  "ram_step d r = (case ram_state r of
       RAM_IDLE \<Rightarrow>
         (if awvalid d then \<lparr>ram_state = RAM_WRITE_DATA, ram_addr = axi_addr d\<rparr>
          else if arvalid d then \<lparr>ram_state = RAM_READ_WAIT, ram_addr = axi_addr d\<rparr> else r)
     | RAM_WRITE_DATA \<Rightarrow> if wvalid d then r\<lparr>ram_state := RAM_WRITE_RESP\<rparr> else r
     | RAM_WRITE_RESP \<Rightarrow> if bready d then r\<lparr>ram_state := RAM_IDLE\<rparr> else r
     | RAM_READ_WAIT \<Rightarrow> r\<lparr>ram_state := RAM_READ_DATA\<rparr>
     | RAM_READ_DATA \<Rightarrow> if rready d then r\<lparr>ram_state := RAM_IDLE\<rparr> else r)"

section \<open>The HyperRAM controller\<close>

datatype hyper_state = H_IDLE | H_CMD | H_LATENCY | H_DATA | H_DONE

record hyperram =
  h_state :: hyper_state
  h_is_read :: bool
  h_addr :: u32
  h_wr_data :: u32
  h_rd_data :: u32
  cmd_cnt :: "4 word"
  lat_cnt :: "8 word"
  lat_total :: "8 word"
  data_cnt :: "4 word"

definition HYPER_LATENCY :: "8 word" where "HYPER_LATENCY = 6"

definition hyper_up :: "axi_down \<Rightarrow> hyperram \<Rightarrow> axi_up" where
  "hyper_up d h = \<lparr>arready = (h_state h = H_IDLE \<and> arvalid d), rvalid = (h_state h = H_DONE \<and> h_is_read h),
     axi_rdata = h_rd_data h, awready = (h_state h = H_IDLE \<and> \<not> arvalid d \<and> awvalid d),
     wready = (h_state h = H_IDLE \<and> \<not> arvalid d \<and> awvalid d \<and> wvalid d),
     bvalid = (h_state h = H_DONE \<and> \<not> h_is_read h)\<rparr>"

text \<open>The byte \<open>b\<close> of a word.\<close>

definition set_byte :: "nat \<Rightarrow> byte \<Rightarrow> u32 \<Rightarrow> u32" where
  "set_byte n b w = (w AND NOT (push_bit (8 * n) 0xFF)) OR push_bit (8 * n) (ucast b)"

definition hyper_step :: "axi_down \<Rightarrow> bool \<Rightarrow> byte \<Rightarrow> hyperram \<Rightarrow> hyperram" where
  "hyper_step d rwds dq h = (case h_state h of
       H_IDLE \<Rightarrow>
         (let h = h\<lparr>cmd_cnt := 0, lat_cnt := 0, data_cnt := 0, h_rd_data := 0\<rparr>
          in if arvalid d then h\<lparr>h_state := H_CMD, h_is_read := True, h_addr := axi_addr d\<rparr>
             else if awvalid d \<and> wvalid d then
               h\<lparr>h_state := H_CMD, h_is_read := False, h_addr := axi_addr d, h_wr_data := axi_wdata d\<rparr>
             else h)
     | H_CMD \<Rightarrow> h\<lparr>h_state := (if cmd_cnt h = 5 then H_LATENCY else H_CMD),
         cmd_cnt := (if cmd_cnt h < 5 then cmd_cnt h + 1 else cmd_cnt h)\<rparr>
     | H_LATENCY \<Rightarrow>
         h\<lparr>h_state := (if ucast (lat_cnt h) \<ge> (ucast (lat_total h) :: u32) - 1 then H_DATA else H_LATENCY),
           lat_total := (if lat_cnt h = 0 then (if rwds then HYPER_LATENCY * 2 else HYPER_LATENCY) else lat_total h),
           lat_cnt := lat_cnt h + 1\<rparr>
     | H_DATA \<Rightarrow>
         h\<lparr>h_state := (if data_cnt h \<ge> 3 then H_DONE else H_DATA),
           h_rd_data := (if h_is_read h then set_byte (unat (data_cnt h) mod 4) dq (h_rd_data h) else h_rd_data h),
           data_cnt := data_cnt h + 1\<rparr>
     | H_DONE \<Rightarrow>
         (if (if h_is_read h then rready d else bready d) then h\<lparr>h_state := H_IDLE\<rparr> else h))"

section \<open>The registers of the RTOS and of the POSIX layer\<close>

text \<open>The AXI slave of rtl/rtos/hw\_rtos.sv; \<open>regs\<close> gives the values of the registers.\<close>

record rtos_axi_slave =
  axi_ar_ready_r :: bool
  axi_ar_addr_r :: u32
  axi_r_valid_r :: bool
  axi_r_data_r :: u32
  axi_aw_ready_r :: bool
  axi_aw_addr_r :: u32
  axi_aw_done :: bool
  axi_w_ready_r :: bool
  axi_w_done :: bool
  axi_b_valid_r :: bool

definition rtos_axi_up :: "rtos_axi_slave \<Rightarrow> axi_up" where
  "rtos_axi_up r = \<lparr>arready = axi_ar_ready_r r, rvalid = axi_r_valid_r r, axi_rdata = axi_r_data_r r,
     awready = axi_aw_ready_r r, wready = axi_w_ready_r r, bvalid = axi_b_valid_r r\<rparr>"

definition rtos_axi_step :: "(u32 \<Rightarrow> u32) \<Rightarrow> axi_down \<Rightarrow> rtos_axi_slave \<Rightarrow> rtos_axi_slave" where
  "rtos_axi_step regs d r =
     (let ar = arvalid d \<and> \<not> axi_r_valid_r r; aw = awvalid d \<and> \<not> axi_aw_done r;
          w = wvalid d \<and> \<not> axi_w_done r; b = bready d \<and> axi_b_valid_r r
      in \<lparr>axi_ar_ready_r = ar,
          axi_ar_addr_r = (if ar then axi_addr d else axi_ar_addr_r r),
          axi_r_valid_r = (axi_ar_ready_r r \<or> axi_r_valid_r r \<and> \<not> rready d),
          axi_r_data_r = (if axi_ar_ready_r r then regs (axi_ar_addr_r r AND 0xFF) else axi_r_data_r r),
          axi_aw_ready_r = aw,
          axi_aw_addr_r = (if aw then axi_addr d else axi_aw_addr_r r),
          axi_aw_done = ((axi_aw_done r \<or> aw) \<and> \<not> b),
          axi_w_ready_r = w,
          axi_w_done = ((axi_w_done r \<or> w) \<and> \<not> b),
          axi_b_valid_r = (axi_aw_done r \<and> axi_w_done r \<and> \<not> axi_b_valid_r r \<or> axi_b_valid_r r \<and> \<not> b)\<rparr>)"

text \<open>The write that reaches the registers at this clock.\<close>

definition rtos_axi_write :: "axi_down \<Rightarrow> rtos_axi_slave \<Rightarrow> (u32 \<times> u32) option" where
  "rtos_axi_write d r =
     (if axi_aw_done r \<and> axi_w_done r \<and> \<not> axi_b_valid_r r then Some (axi_aw_addr_r r AND 0xFF, axi_wdata d) else None)"

text \<open>The AXI slave of rtl/posix/posix\_hw\_layer.sv; writes are answered and ignored.\<close>

record posix_axi_slave =
  axi_aw_done_r :: bool
  axi_w_done_r :: bool
  s_axi_bvalid :: bool
  axi_ar_done_r :: bool
  axi_araddr_r :: u32
  s_axi_arready :: bool
  s_axi_rvalid :: bool
  s_axi_rdata :: u32

definition posix_axi_up :: "posix_axi_slave \<Rightarrow> axi_up" where
  "posix_axi_up p = \<lparr>arready = s_axi_arready p, rvalid = s_axi_rvalid p, axi_rdata = s_axi_rdata p,
     awready = (\<not> axi_aw_done_r p), wready = (\<not> axi_w_done_r p), bvalid = s_axi_bvalid p\<rparr>"

definition posix_axi_step :: "(u32 \<Rightarrow> u32) \<Rightarrow> axi_down \<Rightarrow> posix_axi_slave \<Rightarrow> posix_axi_slave" where
  "posix_axi_step regs d p =
     (let ar = arvalid d \<and> \<not> axi_ar_done_r p; rv = axi_ar_done_r p \<and> \<not> s_axi_rvalid p;
          b = s_axi_bvalid p \<and> bready d; r = s_axi_rvalid p \<and> rready d
      in \<lparr>axi_aw_done_r = ((axi_aw_done_r p \<or> awvalid d) \<and> \<not> b),
          axi_w_done_r = ((axi_w_done_r p \<or> wvalid d) \<and> \<not> b),
          s_axi_bvalid = ((s_axi_bvalid p \<or> axi_aw_done_r p \<and> axi_w_done_r p) \<and> \<not> b),
          axi_ar_done_r = ((axi_ar_done_r p \<or> ar) \<and> \<not> r),
          axi_araddr_r = (if ar then axi_addr d AND 0xFFFF else axi_araddr_r p),
          s_axi_arready = ar,
          s_axi_rvalid = ((s_axi_rvalid p \<or> rv) \<and> \<not> r),
          s_axi_rdata = (if rv then regs (axi_araddr_r p AND 0xFF) else s_axi_rdata p)\<rparr>)"

section \<open>One clock of the bus\<close>

record bus =
  bus_master :: axi_master
  bus_xbar :: xbar
  bus_dmem :: ram_bridge
  bus_imem :: ram_bridge
  bus_hyper :: hyperram
  bus_apb :: apb_bridge
  bus_rtos :: rtos_axi_slave
  bus_posix :: posix_axi_slave

record bus_in =
  bus_cmd :: bus_cmd
  bus_prdata :: u32
  bus_pready :: bool
  dmem_dout :: u32
  imem_dout :: u32
  hyper_rwds :: bool
  hyper_dq :: byte
  rtos_regs_at :: "u32 \<Rightarrow> u32"
  posix_regs_at :: "u32 \<Rightarrow> u32"

definition bus_down :: "bus \<Rightarrow> slave \<Rightarrow> axi_down" where
  "bus_down b i = xbar_out i (master_out (bus_master b)) (bus_xbar b)"

fun bus_up :: "bus_in \<Rightarrow> bus \<Rightarrow> slave \<Rightarrow> axi_up" where
  "bus_up x b Dmem = ram_up (bus_down b Dmem) (dmem_dout x) (bus_dmem b)"
| "bus_up x b Imem = ram_up (bus_down b Imem) (imem_dout x) (bus_imem b)"
| "bus_up x b Hyperram = hyper_up (bus_down b Hyperram) (bus_hyper b)"
| "bus_up x b Apb_bridge = apb_up (bus_down b Apb_bridge) (bus_apb b)"
| "bus_up x b Rtos_regs = rtos_axi_up (bus_rtos b)"
| "bus_up x b Posix_regs = posix_axi_up (bus_posix b)"

definition bus_clock :: "bus_in \<Rightarrow> bus \<Rightarrow> bus" where
  "bus_clock x b =
     (let d = master_out (bus_master b) in
      \<lparr>bus_master = master_step (bus_cmd x) (xbar_in (bus_up x b) d (bus_xbar b)) (bus_master b),
       bus_xbar = xbar_step (bus_up x b) d (bus_xbar b),
       bus_dmem = ram_step (bus_down b Dmem) (bus_dmem b),
       bus_imem = ram_step (bus_down b Imem) (bus_imem b),
       bus_hyper = hyper_step (bus_down b Hyperram) (hyper_rwds x) (hyper_dq x) (bus_hyper b),
       bus_apb = apb_bridge_step (bus_down b Apb_bridge) (bus_prdata x) (bus_pready x) (bus_apb b),
       bus_rtos = rtos_axi_step (rtos_regs_at x) (bus_down b Rtos_regs) (bus_rtos b),
       bus_posix = posix_axi_step (posix_regs_at x) (bus_down b Posix_regs) (bus_posix b)\<rparr>)"

definition bus_done :: "bus \<Rightarrow> bool" where
  "bus_done b \<longleftrightarrow> m_state (bus_master b) = M_DONE"

definition bus_reset :: bus where
  "bus_reset = \<lparr>
     bus_master = \<lparr>m_state = M_IDLE, addr_reg = 0, wdata_reg = 0, rdata_reg = 0, aw_done = False, w_done = False\<rparr>,
     bus_xbar = \<lparr>x_state = X_IDLE, active_slave = Dmem, aw_accepted = False\<rparr>,
     bus_dmem = \<lparr>ram_state = RAM_IDLE, ram_addr = 0\<rparr>, bus_imem = \<lparr>ram_state = RAM_IDLE, ram_addr = 0\<rparr>,
     bus_hyper = \<lparr>h_state = H_IDLE, h_is_read = False, h_addr = 0, h_wr_data = 0, h_rd_data = 0, cmd_cnt = 0,
       lat_cnt = 0, lat_total = 0, data_cnt = 0\<rparr>,
     bus_apb = \<lparr>b_state = B_IDLE, txn_addr = 0, txn_wdata = 0, txn_is_write = False, txn_rdata = 0\<rparr>,
     bus_rtos = \<lparr>axi_ar_ready_r = False, axi_ar_addr_r = 0, axi_r_valid_r = False, axi_r_data_r = 0,
       axi_aw_ready_r = False, axi_aw_addr_r = 0, axi_aw_done = False, axi_w_ready_r = False,
       axi_w_done = False, axi_b_valid_r = False\<rparr>,
     bus_posix = \<lparr>axi_aw_done_r = False, axi_w_done_r = False, s_axi_bvalid = False, axi_ar_done_r = False,
       axi_araddr_r = 0, s_axi_arready = False, s_axi_rvalid = False, s_axi_rdata = 0\<rparr>\<rparr>"

end
