(* ===== verification/Axi_Access.thy ===== *)
theory Axi_Access
  imports Axi_Bus
begin

text \<open>
  Which loads and stores the bus of \<open>Axi_Bus\<close> ends, and with what: a load from the registers of the RTOS
  or of the POSIX layer never ends, nor does a store to the HyperRAM; every other access does.
\<close>

section \<open>An idle bus\<close>

fun idle_slave :: "bus \<Rightarrow> slave \<Rightarrow> bool" where
  "idle_slave b Dmem \<longleftrightarrow> ram_state (bus_dmem b) = RAM_IDLE"
| "idle_slave b Imem \<longleftrightarrow> ram_state (bus_imem b) = RAM_IDLE"
| "idle_slave b Hyperram \<longleftrightarrow> h_state (bus_hyper b) = H_IDLE"
| "idle_slave b Apb_bridge \<longleftrightarrow> b_state (bus_apb b) = B_IDLE"
| "idle_slave b Rtos_regs \<longleftrightarrow> \<not> axi_ar_ready_r (bus_rtos b) \<and> \<not> axi_r_valid_r (bus_rtos b)
     \<and> \<not> axi_aw_ready_r (bus_rtos b) \<and> \<not> axi_aw_done (bus_rtos b) \<and> \<not> axi_w_ready_r (bus_rtos b)
     \<and> \<not> axi_w_done (bus_rtos b) \<and> \<not> axi_b_valid_r (bus_rtos b)"
| "idle_slave b Posix_regs \<longleftrightarrow> \<not> axi_aw_done_r (bus_posix b) \<and> \<not> axi_w_done_r (bus_posix b)
     \<and> \<not> s_axi_bvalid (bus_posix b) \<and> \<not> axi_ar_done_r (bus_posix b) \<and> \<not> s_axi_arready (bus_posix b)
     \<and> \<not> s_axi_rvalid (bus_posix b)"

definition bus_idle :: "bus \<Rightarrow> bool" where
  "bus_idle b \<longleftrightarrow> m_state (bus_master b) = M_IDLE \<and> x_state (bus_xbar b) = X_IDLE \<and> (\<forall>i. idle_slave b i)"

lemma bus_reset_idle: "bus_idle bus_reset"
proof -
  have "idle_slave bus_reset i" for i by (cases i) (simp_all add: bus_reset_def)
  then show ?thesis by (simp add: bus_idle_def) (simp add: bus_reset_def)
qed

fun bus_run :: "(nat \<Rightarrow> bus_in) \<Rightarrow> nat \<Rightarrow> bus \<Rightarrow> bus" where
  "bus_run ins 0 b = b"
| "bus_run ins (Suc n) b = bus_clock (ins n) (bus_run ins n b)"

text \<open>A slave that is not addressed stays idle.\<close>

lemma slave_clock [simp]:
  "bus_dmem (bus_clock x b) = ram_step (bus_down b Dmem) (bus_dmem b)"
  "bus_imem (bus_clock x b) = ram_step (bus_down b Imem) (bus_imem b)"
  "bus_hyper (bus_clock x b) = hyper_step (bus_down b Hyperram) (hyper_rwds x) (hyper_dq x) (bus_hyper b)"
  "bus_apb (bus_clock x b) = apb_bridge_step (bus_down b Apb_bridge) (bus_prdata x) (bus_pready x) (bus_apb b)"
  "bus_rtos (bus_clock x b) = rtos_axi_step (rtos_regs_at x) (bus_down b Rtos_regs) (bus_rtos b)"
  "bus_posix (bus_clock x b) = posix_axi_step (posix_regs_at x) (bus_down b Posix_regs) (bus_posix b)"
  "bus_master (bus_clock x b) = master_step (bus_cmd x)
     (xbar_in (bus_up x b) (master_out (bus_master b)) (bus_xbar b)) (bus_master b)"
  "bus_xbar (bus_clock x b) = xbar_step (bus_up x b) (master_out (bus_master b)) (bus_xbar b)"
  by (simp_all add: bus_clock_def Let_def)

lemma idle_slave_stays:
  assumes "idle_slave b i" and "\<not> arvalid (bus_down b i)" and "\<not> awvalid (bus_down b i)"
    and "\<not> wvalid (bus_down b i)"
  shows "idle_slave (bus_clock x b) i"
  using assms
  by (cases i) (simp_all add: ram_step_def hyper_step_def apb_bridge_step_def rtos_axi_step_def
      posix_axi_step_def Let_def)

text \<open>The signals to a slave, by the states of the master and of the interconnect.\<close>

lemma down_simps:
  "arvalid (bus_down b i) \<longleftrightarrow> x_state (bus_xbar b) = X_IDLE \<and> m_state (bus_master b) = M_RD_ADDR
     \<and> decode (addr_reg (bus_master b)) = Some i"
  "rready (bus_down b i) \<longleftrightarrow> x_state (bus_xbar b) = X_READ \<and> active_slave (bus_xbar b) = i
     \<and> m_state (bus_master b) = M_RD_DATA"
  "awvalid (bus_down b i) \<longleftrightarrow> x_state (bus_xbar b) = X_WRITE_AW \<and> \<not> aw_accepted (bus_xbar b)
     \<and> active_slave (bus_xbar b) = i"
  "wvalid (bus_down b i) \<longleftrightarrow> x_state (bus_xbar b) = X_WRITE_W \<and> active_slave (bus_xbar b) = i
     \<and> (m_state (bus_master b) = M_WR_ADDR \<and> \<not> w_done (bus_master b) \<or> m_state (bus_master b) = M_WR_DATA)"
  "bready (bus_down b i) \<longleftrightarrow> x_state (bus_xbar b) = X_WRITE_B \<and> active_slave (bus_xbar b) = i
     \<and> m_state (bus_master b) = M_WR_RESP"
  "axi_addr (bus_down b i) = addr_reg (bus_master b)" "axi_wdata (bus_down b i) = wdata_reg (bus_master b)"
  by (auto simp: bus_down_def xbar_out_def master_out_def)

lemma idle_others:
  assumes "\<And>j. j \<noteq> i \<Longrightarrow> idle_slave b j"
    and "x_state (bus_xbar b) = X_IDLE \<and> m_state (bus_master b) = M_RD_ADDR \<longrightarrow> decode (addr_reg (bus_master b)) = Some i"
    and "x_state (bus_xbar b) \<in> {X_WRITE_AW, X_WRITE_W} \<longrightarrow> active_slave (bus_xbar b) = i" and "j \<noteq> i"
  shows "idle_slave (bus_clock x b) j"
  by (rule idle_slave_stays) (use assms in \<open>auto simp: down_simps\<close>)

lemma master_read:
  "arvalid (master_out m) \<longleftrightarrow> m_state m = M_RD_ADDR" "rready (master_out m) \<longleftrightarrow> m_state m = M_RD_DATA"
  "awvalid (master_out m) \<longleftrightarrow> m_state m = M_WR_ADDR \<and> \<not> aw_done m"
  "wvalid (master_out m) \<longleftrightarrow> m_state m = M_WR_ADDR \<and> \<not> w_done m \<or> m_state m = M_WR_DATA"
  "bready (master_out m) \<longleftrightarrow> m_state m = M_WR_RESP"
  "axi_addr (master_out m) = addr_reg m" "axi_wdata (master_out m) = wdata_reg m"
  by (auto simp: master_out_def)

section \<open>Loads and stores that hang\<close>

text \<open>
  The interconnect shows the address to the slave only in its idle state, and gives up the address
  phase at the next clock; a slave whose ready signal is a register answers one clock too late. From
  then on the master waits for the address to be taken, and the interconnect for the data.
\<close>

definition read_stuck :: "bus \<Rightarrow> bool" where
  "read_stuck b \<longleftrightarrow> m_state (bus_master b) = M_RD_ADDR \<and> x_state (bus_xbar b) = X_READ"

lemma read_stuck_clock: "read_stuck b \<Longrightarrow> read_stuck (bus_clock x b)"
  by (simp add: read_stuck_def master_step_def xbar_step_def xbar_in_def Let_def master_read)

text \<open>
  The interconnect shows the data of a store only after the address has been taken, and the HyperRAM
  controller looks at neither before it sees both.
\<close>

definition write_stuck :: "bus \<Rightarrow> bool" where
  "write_stuck b \<longleftrightarrow> m_state (bus_master b) = M_WR_DATA \<and> x_state (bus_xbar b) = X_WRITE_W
     \<and> active_slave (bus_xbar b) = Hyperram \<and> h_state (bus_hyper b) = H_IDLE"

lemma write_stuck_clock: "write_stuck b \<Longrightarrow> write_stuck (bus_clock x b)"
  by (simp add: write_stuck_def master_step_def xbar_step_def xbar_in_def Let_def master_read hyper_up_def
      hyper_step_def down_simps)

lemma command_taken:
  assumes "bus_idle b" and "bus_cmd x = Some (wr, a, d)"
  shows "m_state (bus_master (bus_clock x b)) = (if wr then M_WR_ADDR else M_RD_ADDR)"
    and "addr_reg (bus_master (bus_clock x b)) = a" "wr \<Longrightarrow> wdata_reg (bus_master (bus_clock x b)) = d"
    and "\<not> aw_done (bus_master (bus_clock x b))" "\<not> w_done (bus_master (bus_clock x b))"
    and "x_state (bus_xbar (bus_clock x b)) = X_IDLE" "idle_slave (bus_clock x b) i"
proof -
  have m: "m_state (bus_master b) = M_IDLE" "x_state (bus_xbar b) = X_IDLE" "idle_slave b i"
    using assms(1) by (simp_all add: bus_idle_def)
  show "m_state (bus_master (bus_clock x b)) = (if wr then M_WR_ADDR else M_RD_ADDR)"
    "addr_reg (bus_master (bus_clock x b)) = a" "wr \<Longrightarrow> wdata_reg (bus_master (bus_clock x b)) = d"
    "\<not> aw_done (bus_master (bus_clock x b))" "\<not> w_done (bus_master (bus_clock x b))"
    "x_state (bus_xbar (bus_clock x b)) = X_IDLE"
    using m assms(2) by (simp_all add: master_step_def xbar_step_def master_read Let_def)
  show "idle_slave (bus_clock x b) i"
    by (rule idle_slave_stays [OF m(3)]) (simp_all add: down_simps m)
qed

lemma stuck_forever:
  assumes "read_stuck b \<or> write_stuck b"
  shows "\<not> bus_done (bus_run ins n b)"
proof -
  have "read_stuck (bus_run ins n b) \<or> write_stuck (bus_run ins n b)"
    by (induction n) (use assms read_stuck_clock write_stuck_clock in auto)
  then show ?thesis by (auto simp: bus_done_def read_stuck_def write_stuck_def)
qed

lemma bus_run_add: "bus_run ins (k + n) b = bus_run (\<lambda>i. ins (k + i)) n (bus_run ins k b)"
  by (induction n) simp_all

lemma hangs_after:
  assumes "read_stuck (bus_run ins k b) \<or> write_stuck (bus_run ins k b)"
    and "\<And>n. n < k \<Longrightarrow> \<not> bus_done (bus_run ins n b)"
  shows "\<not> bus_done (bus_run ins n b)"
proof (cases "n < k")
  case False
  then obtain m where "n = k + m" using le_iff_add by (auto simp: not_less)
  with stuck_forever [OF assms(1)] show ?thesis by (simp add: bus_run_add)
qed (use assms(2) in simp)

text \<open>\<open>commanded wr a d ins b\<close>: the bus is idle and the core issues this access at the first clock.\<close>

definition commanded :: "bool \<Rightarrow> u32 \<Rightarrow> u32 \<Rightarrow> (nat \<Rightarrow> bus_in) \<Rightarrow> bus \<Rightarrow> bool" where
  "commanded wr a d ins b \<longleftrightarrow> bus_idle b \<and> bus_cmd (ins 0) = Some (wr, a, d)"

lemma read_hangs:
  assumes "commanded False a d ins b" and "decode a = Some i" and "i = Rtos_regs \<or> i = Posix_regs"
  shows "\<not> bus_done (bus_run ins n b)"
proof (rule hangs_after [where k = 2])
  let ?b1 = "bus_clock (ins 0) b"
  note c = command_taken [where x = "ins 0" and wr = False and a = a and d = d and b = b]
  have c: "m_state (bus_master ?b1) = M_RD_ADDR" "addr_reg (bus_master ?b1) = a"
    "x_state (bus_xbar ?b1) = X_IDLE" "idle_slave ?b1 i"
    using assms(1) c by (simp_all add: commanded_def)
  have "\<not> arready (bus_up (ins 1) ?b1 i)"
    using c(4) assms(3) by (auto simp: rtos_axi_up_def posix_axi_up_def)
  with c assms(2) have "read_stuck (bus_clock (ins 1) ?b1)"
    by (simp add: read_stuck_def master_step_def xbar_step_def xbar_in_def Let_def master_read)
  then show "read_stuck (bus_run ins 2 b) \<or> write_stuck (bus_run ins 2 b)"
    by (simp add: numeral_2_eq_2)
  fix n :: nat assume "n < 2"
  then consider "n = 0" | "n = 1" by linarith
  then show "\<not> bus_done (bus_run ins n b)"
    using assms(1) c(1) by cases (simp_all add: bus_done_def commanded_def bus_idle_def)
qed

section \<open>Phases of an access\<close>

definition only :: "slave \<Rightarrow> bus \<Rightarrow> bool" where
  "only i b \<longleftrightarrow> (\<forall>j. j \<noteq> i \<longrightarrow> idle_slave b j)"

definition reading :: "slave \<Rightarrow> bus \<Rightarrow> bool" where
  "reading i b \<longleftrightarrow> m_state (bus_master b) = M_RD_DATA \<and> x_state (bus_xbar b) = X_READ
     \<and> active_slave (bus_xbar b) = i \<and> only i b"

definition addressing :: "slave \<Rightarrow> bus \<Rightarrow> bool" where
  "addressing i b \<longleftrightarrow> m_state (bus_master b) = M_WR_ADDR \<and> \<not> aw_done (bus_master b) \<and> \<not> w_done (bus_master b)
     \<and> x_state (bus_xbar b) = X_WRITE_AW \<and> \<not> aw_accepted (bus_xbar b) \<and> active_slave (bus_xbar b) = i \<and> only i b"

definition sending :: "slave \<Rightarrow> bus \<Rightarrow> bool" where
  "sending i b \<longleftrightarrow> m_state (bus_master b) = M_WR_DATA \<and> x_state (bus_xbar b) = X_WRITE_W
     \<and> active_slave (bus_xbar b) = i \<and> only i b"

definition answering :: "slave \<Rightarrow> bus \<Rightarrow> bool" where
  "answering i b \<longleftrightarrow> m_state (bus_master b) = M_WR_RESP \<and> x_state (bus_xbar b) = X_WRITE_B
     \<and> active_slave (bus_xbar b) = i \<and> only i b"

definition ended :: "slave \<Rightarrow> bus \<Rightarrow> bool" where
  "ended i b \<longleftrightarrow> bus_done b \<and> x_state (bus_xbar b) = X_IDLE \<and> only i b"

lemmas phase_defs = reading_def addressing_def sending_def answering_def ended_def

lemma only_clock:
  assumes "only i b"
    and "x_state (bus_xbar b) = X_IDLE \<and> m_state (bus_master b) = M_RD_ADDR \<longrightarrow> decode (addr_reg (bus_master b)) = Some i"
    and "x_state (bus_xbar b) \<in> {X_WRITE_AW, X_WRITE_W} \<longrightarrow> active_slave (bus_xbar b) = i"
  shows "only i (bus_clock x b)"
  using idle_others [of i b _ x] assms by (simp add: only_def)

lemmas bus_step_defs = master_step_def xbar_step_def xbar_in_def Let_def master_read xbar_out_def

lemma read_starts:
  assumes "m_state (bus_master b) = M_RD_ADDR" "x_state (bus_xbar b) = X_IDLE" "\<And>j. idle_slave b j"
    and "decode (addr_reg (bus_master b)) = Some i" and "arready (bus_up x b i)"
  shows "reading i (bus_clock x b) \<and> addr_reg (bus_master (bus_clock x b)) = addr_reg (bus_master b)"
  using assms only_clock [of i b x] by (simp add: reading_def bus_step_defs only_def [of i b])

lemma read_goes:
  assumes "reading i b"
  shows "\<not> rvalid (bus_up x b i) \<Longrightarrow> reading i (bus_clock x b)"
    and "rvalid (bus_up x b i) \<Longrightarrow> ended i (bus_clock x b) \<and> rdata_reg (bus_master (bus_clock x b)) = axi_rdata (bus_up x b i)"
    and "rready (bus_down b i)"
  using assms only_clock [of i b x] by (simp_all add: reading_def ended_def bus_done_def bus_step_defs down_simps)

lemma write_starts:
  assumes "m_state (bus_master b) = M_WR_ADDR" "\<not> aw_done (bus_master b)" "\<not> w_done (bus_master b)"
    and "x_state (bus_xbar b) = X_IDLE" "\<And>j. idle_slave b j" and "decode (addr_reg (bus_master b)) = Some i"
  shows "addressing i (bus_clock x b) \<and> idle_slave (bus_clock x b) i"
proof -
  have "idle_slave (bus_clock x b) j" for j
    by (rule idle_slave_stays) (use assms in \<open>simp_all add: down_simps\<close>)
  with assms show ?thesis by (simp add: addressing_def bus_step_defs only_def)
qed

lemma address_goes:
  assumes "addressing i b"
  shows "\<not> awready (bus_up x b i) \<Longrightarrow> addressing i (bus_clock x b)"
    and "awready (bus_up x b i) \<Longrightarrow> sending i (bus_clock x b)"
    and "awvalid (bus_down b i) \<and> \<not> wvalid (bus_down b i) \<and> \<not> arvalid (bus_down b i) \<and> \<not> bready (bus_down b i)"
  using assms only_clock [of i b x] by (simp_all add: addressing_def sending_def bus_step_defs down_simps)

lemma data_goes:
  assumes "sending i b"
  shows "\<not> wready (bus_up x b i) \<Longrightarrow> sending i (bus_clock x b)"
    and "wready (bus_up x b i) \<Longrightarrow> answering i (bus_clock x b)"
    and "wvalid (bus_down b i) \<and> \<not> awvalid (bus_down b i) \<and> \<not> arvalid (bus_down b i) \<and> \<not> bready (bus_down b i)"
  using assms only_clock [of i b x] by (simp_all add: sending_def answering_def bus_step_defs down_simps)

lemma answer_goes:
  assumes "answering i b"
  shows "\<not> bvalid (bus_up x b i) \<Longrightarrow> answering i (bus_clock x b)"
    and "bvalid (bus_up x b i) \<Longrightarrow> ended i (bus_clock x b)"
    and "bready (bus_down b i) \<and> \<not> awvalid (bus_down b i) \<and> \<not> arvalid (bus_down b i) \<and> \<not> wvalid (bus_down b i)"
  using assms only_clock [of i b x] by (simp_all add: answering_def ended_def bus_done_def bus_step_defs down_simps)

lemma ended_idle:
  assumes "ended i b" and "idle_slave b i"
  shows "bus_idle (bus_clock x b)"
proof -
  have "idle_slave (bus_clock x b) j" for j
    by (rule idle_slave_stays) (use assms in \<open>cases "j = i"; auto simp: ended_def only_def bus_done_def down_simps\<close>)+
  with assms(1) show ?thesis by (simp add: bus_idle_def ended_def bus_done_def bus_step_defs)
qed

lemma write_hangs:
  assumes "commanded True a d ins b" and "decode a = Some Hyperram"
  shows "\<not> bus_done (bus_run ins n b)"
proof (rule hangs_after [where k = 3])
  let ?b1 = "bus_clock (ins 0) b" and ?b2 = "bus_clock (ins 1) (bus_clock (ins 0) b)"
  have "bus_idle b" "bus_cmd (ins 0) = Some (True, a, d)" using assms(1) by (simp_all add: commanded_def)
  note c = command_taken [OF this]
  have w: "addressing Hyperram ?b2 \<and> idle_slave ?b2 Hyperram"
    by (rule write_starts) (use c assms(2) in simp_all)
  then have idle: "h_state (bus_hyper ?b2) = H_IDLE" by simp
  note g = address_goes [OF w [THEN conjunct1]]
  have "sending Hyperram (bus_clock (ins 2) ?b2)"
    by (rule g(2)) (use g(3) idle in \<open>simp add: hyper_up_def del: slave_clock\<close>)
  moreover have "h_state (bus_hyper (bus_clock (ins 2) ?b2)) = H_IDLE"
    using g(3) idle by (subst slave_clock) (simp add: hyper_step_def Let_def del: slave_clock)
  ultimately have "write_stuck (bus_clock (ins 2) ?b2)" by (simp add: write_stuck_def sending_def del: slave_clock)
  then show "read_stuck (bus_run ins 3 b) \<or> write_stuck (bus_run ins 3 b)"
    by (simp add: numeral_3_eq_3 numeral_2_eq_2 del: slave_clock)
  fix n :: nat assume "n < 3"
  then consider "n = 0" | "n = 1" | "n = 2" by linarith
  then show "\<not> bus_done (bus_run ins n b)"
    using assms(1) c(1) w
    by cases (simp_all add: bus_done_def commanded_def bus_idle_def addressing_def numeral_2_eq_2 del: slave_clock)
qed

section \<open>Loads and stores that end\<close>

text \<open>
  \<open>ends ins n b\<close>: the access is done after \<open>n\<close> clocks, for the first time, and after one more the bus
  is idle.
\<close>

definition ends :: "(nat \<Rightarrow> bus_in) \<Rightarrow> nat \<Rightarrow> bus \<Rightarrow> bool" where
  "ends ins n b \<longleftrightarrow> (\<forall>j < n. \<not> bus_done (bus_run ins j b)) \<and> bus_done (bus_run ins n b)
     \<and> bus_idle (bus_run ins (Suc n) b)"

lemma endsI:
  "\<forall>j < n. \<not> bus_done (bus_run ins j b) \<Longrightarrow> ended i (bus_run ins n b) \<Longrightarrow> idle_slave (bus_run ins n b) i \<Longrightarrow> ends ins n b"
  using ended_idle [of i "bus_run ins n b"] by (simp add: ends_def ended_def del: slave_clock)

lemma ends_once: "ends ins n b \<Longrightarrow> ends ins m b \<Longrightarrow> n = m"
  unfolding ends_def by (metis nat_neq_iff)

lemma busy:
  "reading i b \<Longrightarrow> \<not> bus_done b" "addressing i b \<Longrightarrow> \<not> bus_done b" "sending i b \<Longrightarrow> \<not> bus_done b"
  "answering i b \<Longrightarrow> \<not> bus_done b"
  by (simp_all add: phase_defs bus_done_def)

lemma all_below:
  "(\<forall>j < 3. P j) \<longleftrightarrow> P 0 \<and> P 1 \<and> P 2" "(\<forall>j < 4. P j) \<longleftrightarrow> P 0 \<and> P 1 \<and> P 2 \<and> P 3"
  "(\<forall>j < 5. P j) \<longleftrightarrow> P 0 \<and> P 1 \<and> P 2 \<and> P 3 \<and> P 4"
  "(\<forall>j < 6. P j) \<longleftrightarrow> P 0 \<and> P 1 \<and> P 2 \<and> P 3 \<and> P 4 \<and> P 5"
  "(\<forall>j < 7. P j) \<longleftrightarrow> P 0 \<and> P 1 \<and> P 2 \<and> P 3 \<and> P 4 \<and> P 5 \<and> P 6" for P :: "nat \<Rightarrow> bool"
  by (auto simp: eval_nat_numeral All_less_Suc)

lemma commandedD:
  assumes "commanded wr a d ins b"
  shows "m_state (bus_master (bus_run ins 1 b)) = (if wr then M_WR_ADDR else M_RD_ADDR)"
    and "addr_reg (bus_master (bus_run ins 1 b)) = a" "wr \<Longrightarrow> wdata_reg (bus_master (bus_run ins 1 b)) = d"
    and "\<not> aw_done (bus_master (bus_run ins 1 b))" "\<not> w_done (bus_master (bus_run ins 1 b))"
    and "x_state (bus_xbar (bus_run ins 1 b)) = X_IDLE" "idle_slave (bus_run ins 1 b) i"
  using command_taken [of b "ins 0" wr a d] assms by (simp_all add: commanded_def del: slave_clock)

lemma commanded_busy:
  assumes "commanded wr a d ins b"
  shows "\<not> bus_done (bus_run ins 0 b)" "\<not> bus_done (bus_run ins 1 b)"
  using assms commandedD(1) [OF assms]
  by (simp_all add: bus_done_def commanded_def bus_idle_def del: slave_clock split: if_split_asm)

lemma run_clock: "bus_run ins (numeral k) b = bus_clock (ins (pred_numeral k)) (bus_run ins (pred_numeral k) b)"
  by (simp only: numeral_eq_Suc bus_run.simps)

text \<open>The master keeps its command.\<close>

lemma master_keeps:
  "m_state m \<noteq> M_IDLE \<Longrightarrow> addr_reg (master_step c u m) = addr_reg m \<and> wdata_reg (master_step c u m) = wdata_reg m"
  by (cases "m_state m") (simp_all add: master_step_def Let_def)

lemma run_keeps:
  assumes "m_state (bus_master (bus_run ins n b)) \<noteq> M_IDLE"
  shows "addr_reg (bus_master (bus_run ins (Suc n) b)) = addr_reg (bus_master (bus_run ins n b))"
    and "wdata_reg (bus_master (bus_run ins (Suc n) b)) = wdata_reg (bus_master (bus_run ins n b))"
  using assms by (simp_all add: master_keeps)

lemma write_command:
  assumes "commanded True a d ins b" and "m_state (bus_master (bus_run ins 2 b)) \<noteq> M_IDLE"
  shows "addr_reg (bus_master (bus_run ins 2 b)) = a" "wdata_reg (bus_master (bus_run ins 2 b)) = d"
    and "addr_reg (bus_master (bus_run ins 3 b)) = a" "wdata_reg (bus_master (bus_run ins 3 b)) = d"
  using commandedD(1-3) [OF assms(1)] run_keeps [of ins 1 b] run_keeps [of ins 2 b] assms(2)
  by (simp_all add: eval_nat_numeral del: bus_run.simps slave_clock)

lemma read_selects:
  assumes "commanded False a d ins b" and "decode a = Some i" and "i \<noteq> Rtos_regs" "i \<noteq> Posix_regs"
  shows "reading i (bus_run ins 2 b)"
    and "arvalid (bus_down (bus_run ins 1 b) i)" "\<not> awvalid (bus_down (bus_run ins 1 b) i)"
    and "axi_addr (bus_down (bus_run ins 1 b) i) = a"
proof -
  note c = commandedD [OF assms(1)]
  have "arready (bus_up (ins 1) (bus_run ins 1 b) i)"
    using c(1,2,6) c(7) [of i] assms(2-4)
    by (cases i) (simp_all add: ram_up_def hyper_up_def apb_up_def down_simps del: bus_run.simps)
  from read_starts [OF _ c(6,7) _ this] c(1,2) assms(2)
  show "reading i (bus_run ins 2 b)" by (simp add: run_clock del: slave_clock bus_run.simps)
  show "arvalid (bus_down (bus_run ins 1 b) i)" "\<not> awvalid (bus_down (bus_run ins 1 b) i)"
    "axi_addr (bus_down (bus_run ins 1 b) i) = a"
    using c(1,2,6) assms(2) by (simp_all add: down_simps del: bus_run.simps)
qed

lemma write_selects:
  assumes "commanded True a d ins b" and "decode a = Some i"
  shows "addressing i (bus_run ins 2 b)" and "idle_slave (bus_run ins 2 b) i"
  using write_starts [OF _ commandedD(4-6,7) [OF assms(1)]] commandedD(1,2) [OF assms(1)] assms(2)
  by (simp_all add: run_clock del: slave_clock bus_run.simps)

text \<open>No slave at that address: zero is read, a store is dropped.\<close>

lemma all_idle_stays:
  assumes "\<And>i. idle_slave b i" and "x_state (bus_xbar b) \<noteq> X_WRITE_AW" "x_state (bus_xbar b) \<noteq> X_WRITE_W"
    and "decode (addr_reg (bus_master b)) = None \<or> m_state (bus_master b) \<noteq> M_RD_ADDR"
  shows "idle_slave (bus_clock x b) i"
  by (rule idle_slave_stays) (use assms in \<open>auto simp: down_simps\<close>)

lemma no_slave_read:
  assumes "commanded False a d ins b" and "decode a = None"
  shows "ends ins 3 b" and "rdata_reg (bus_master (bus_run ins 3 b)) = 0"
proof -
  note c = commandedD [OF assms(1)]
  have 2: "m_state (bus_master (bus_run ins 2 b)) = M_RD_DATA" "x_state (bus_xbar (bus_run ins 2 b)) = X_DECERR_R"
    using c(1,2,6) assms(2) by (simp_all add: run_clock bus_step_defs del: bus_run.simps)
  have idle2: "idle_slave (bus_run ins 2 b) i" for i
    unfolding run_clock by (rule all_idle_stays) (use c assms(2) in \<open>simp_all del: bus_run.simps\<close>)
  have 3: "m_state (bus_master (bus_run ins 3 b)) = M_DONE" "x_state (bus_xbar (bus_run ins 3 b)) = X_IDLE"
    "rdata_reg (bus_master (bus_run ins 3 b)) = 0"
    using 2 by (simp_all add: run_clock [of _ "num.Bit1 _"] bus_step_defs del: bus_run.simps)
  then show "rdata_reg (bus_master (bus_run ins 3 b)) = 0" by simp
  have idle3: "idle_slave (bus_run ins 3 b) i" for i
    unfolding run_clock [of _ "num.Bit1 _"] by (rule all_idle_stays) (use 2 idle2 in \<open>simp_all del: bus_run.simps\<close>)
  have "\<forall>j < 3. \<not> bus_done (bus_run ins j b)"
    unfolding all_below using commanded_busy [OF assms(1)] 2 by (simp add: bus_done_def del: bus_run.simps)
  with idle3 3 show "ends ins 3 b"
    by (intro endsI [of _ _ _ Dmem]) (simp_all add: ended_def bus_done_def only_def del: bus_run.simps idle_slave.simps)
qed

lemma no_slave_write:
  assumes "commanded True a d ins b" and "decode a = None"
  shows "ends ins 4 b"
proof -
  note c = commandedD [OF assms(1)]
  have 2: "m_state (bus_master (bus_run ins 2 b)) = M_WR_DATA" "x_state (bus_xbar (bus_run ins 2 b)) = X_DECERR_B"
    using c(1,2,4-6) assms(2) by (simp_all add: run_clock bus_step_defs del: bus_run.simps)
  have idle2: "idle_slave (bus_run ins 2 b) i" for i
    unfolding run_clock by (rule all_idle_stays) (use c assms(2) in \<open>simp_all del: bus_run.simps\<close>)
  have 3: "m_state (bus_master (bus_run ins 3 b)) = M_WR_RESP" "x_state (bus_xbar (bus_run ins 3 b)) = X_DECERR_B"
    using 2 by (simp_all add: run_clock [of _ "num.Bit1 _"] bus_step_defs del: bus_run.simps)
  have idle3: "idle_slave (bus_run ins 3 b) i" for i
    unfolding run_clock [of _ "num.Bit1 _"] by (rule all_idle_stays) (use 2 idle2 in \<open>simp_all del: bus_run.simps\<close>)
  have 4: "m_state (bus_master (bus_run ins 4 b)) = M_DONE" "x_state (bus_xbar (bus_run ins 4 b)) = X_IDLE"
    using 3 by (simp_all add: run_clock [of _ "num.Bit0 _"] bus_step_defs del: bus_run.simps)
  have idle4: "idle_slave (bus_run ins 4 b) i" for i
    unfolding run_clock [of _ "num.Bit0 _"] by (rule all_idle_stays) (use 3 idle3 in \<open>simp_all del: bus_run.simps\<close>)
  have "\<forall>j < 4. \<not> bus_done (bus_run ins j b)"
    unfolding all_below using commanded_busy [OF assms(1)] 2 3 by (simp add: bus_done_def del: bus_run.simps)
  with idle4 4 show "ends ins 4 b"
    by (intro endsI [of _ _ _ Dmem]) (simp_all add: ended_def bus_done_def only_def del: bus_run.simps idle_slave.simps)
qed

text \<open>The memories, with their one clock of latency; \<open>ram_of\<close> is the bridge in question.\<close>

definition ram_of :: "slave \<Rightarrow> bus \<Rightarrow> ram_bridge" where
  "ram_of i b = (if i = Dmem then bus_dmem b else bus_imem b)"

definition dout_of :: "slave \<Rightarrow> bus_in \<Rightarrow> u32" where
  "dout_of i x = (if i = Dmem then dmem_dout x else imem_dout x)"

lemma ram_simps:
  assumes "i = Dmem \<or> i = Imem"
  shows "bus_up x b i = ram_up (bus_down b i) (dout_of i x) (ram_of i b)"
    and "ram_of i (bus_clock x b) = ram_step (bus_down b i) (ram_of i b)"
    and "idle_slave b i \<longleftrightarrow> ram_state (ram_of i b) = RAM_IDLE"
  using assms by (auto simp: ram_of_def dout_of_def)

lemma ram_read:
  assumes "commanded False a d ins b" and "decode a = Some i" and i: "i = Dmem \<or> i = Imem"
  shows "ends ins 4 b" and "ram_of i (bus_run ins 2 b) = \<lparr>ram_state = RAM_READ_WAIT, ram_addr = a\<rparr>"
    and "rdata_reg (bus_master (bus_run ins 4 b)) = dout_of i (ins 3)"
proof -
  note r = ram_simps [OF i]
  have n: "i \<noteq> Rtos_regs" "i \<noteq> Posix_regs" using i by auto
  note sel = read_selects [OF assms(1,2) n]
  have "ram_state (ram_of i (bus_run ins 1 b)) = RAM_IDLE"
    using commandedD(7) [OF assms(1), where i = i] r(3) [of "bus_run ins 1 b"] by simp
  with sel show 2: "ram_of i (bus_run ins 2 b) = \<lparr>ram_state = RAM_READ_WAIT, ram_addr = a\<rparr>"
    by (simp add: run_clock r ram_step_def del: bus_run.simps)
  have "\<not> rvalid (bus_up (ins 2) (bus_run ins 2 b) i)" by (simp add: r ram_up_def 2 del: bus_run.simps)
  from read_goes(1) [OF sel(1) this] have 3: "reading i (bus_run ins 3 b)"
    by (simp add: run_clock [of _ "num.Bit1 _"] del: bus_run.simps)
  have st3: "ram_state (ram_of i (bus_run ins 3 b)) = RAM_READ_DATA"
    by (simp add: run_clock [of _ "num.Bit1 _"] r ram_step_def 2 del: bus_run.simps)
  have "rvalid (bus_up (ins 3) (bus_run ins 3 b) i)" by (simp add: r ram_up_def st3 del: bus_run.simps)
  from read_goes(2) [OF 3 this] read_goes(3) [OF 3]
  have 4: "ended i (bus_run ins 4 b)" "rdata_reg (bus_master (bus_run ins 4 b)) = dout_of i (ins 3)"
    by (simp_all add: run_clock [of _ "num.Bit0 _"] r ram_up_def del: bus_run.simps)
  then show "rdata_reg (bus_master (bus_run ins 4 b)) = dout_of i (ins 3)" by simp
  have "idle_slave (bus_run ins 4 b) i"
    using read_goes(3) [OF 3] by (simp add: run_clock [of _ "num.Bit0 _"] r ram_step_def st3 del: bus_run.simps)
  moreover have "\<forall>j < 4. \<not> bus_done (bus_run ins j b)"
    unfolding all_below using commanded_busy [OF assms(1)] busy [of i] sel(1) 3 by blast
  ultimately show "ends ins 4 b" using 4(1) by (intro endsI)
qed

lemma ram_write:
  assumes "commanded True a d ins b" and "decode a = Some i" and i: "i = Dmem \<or> i = Imem"
  shows "ends ins 5 b" and "ram_write (bus_down (bus_run ins 3 b) i) (ram_of i (bus_run ins 3 b)) = Some (a, d)"
proof -
  note r = ram_simps [OF i]
  note sel = write_selects [OF assms(1,2)]
  note c = commandedD [OF assms(1)]
  have 2: "ram_state (ram_of i (bus_run ins 2 b)) = RAM_IDLE" using sel(2) r(3) by simp
  have "awready (bus_up (ins 2) (bus_run ins 2 b) i)"
    using address_goes(3) [OF sel(1)] by (simp add: r ram_up_def 2 del: bus_run.simps)
  from address_goes(2) [OF sel(1) this] have 3: "sending i (bus_run ins 3 b)"
    by (simp add: run_clock [of _ "num.Bit1 _"] del: bus_run.simps)
  have st3: "ram_of i (bus_run ins 3 b) = \<lparr>ram_state = RAM_WRITE_DATA, ram_addr = axi_addr (bus_down (bus_run ins 2 b) i)\<rparr>"
    using address_goes(3) [OF sel(1)]
    by (simp add: run_clock [of _ "num.Bit1 _"] r ram_step_def 2 del: bus_run.simps)
  have "wready (bus_up (ins 3) (bus_run ins 3 b) i)" by (simp add: r ram_up_def st3 del: bus_run.simps)
  from data_goes(2) [OF 3 this] have 4: "answering i (bus_run ins 4 b)"
    by (simp add: run_clock [of _ "num.Bit0 _"] del: bus_run.simps)
  have st4: "ram_state (ram_of i (bus_run ins 4 b)) = RAM_WRITE_RESP"
    using data_goes(3) [OF 3] by (simp add: run_clock [of _ "num.Bit0 _"] r ram_step_def st3 del: bus_run.simps)
  have "bvalid (bus_up (ins 4) (bus_run ins 4 b) i)" by (simp add: r ram_up_def st4 del: bus_run.simps)
  from answer_goes(2) [OF 4 this] have "ended i (bus_run ins 5 b)"
    by (simp add: run_clock [of _ "num.Bit1 _"] del: bus_run.simps)
  moreover have "idle_slave (bus_run ins 5 b) i"
    using answer_goes(3) [OF 4] by (simp add: run_clock [of _ "num.Bit1 _"] r ram_step_def st4 del: bus_run.simps)
  moreover have "\<forall>j < 5. \<not> bus_done (bus_run ins j b)"
    unfolding all_below using commanded_busy [OF assms(1)] busy [of i] sel(1) 3 4 by blast
  ultimately show "ends ins 5 b" by (intro endsI)
  show "ram_write (bus_down (bus_run ins 3 b) i) (ram_of i (bus_run ins 3 b)) = Some (a, d)"
    using data_goes(3) [OF 3] write_command [OF assms(1)] sel(1)
    by (simp add: ram_write_def st3 addressing_def down_simps(6,7) del: bus_run.simps)
qed

text \<open>
  The APB bridge: one transfer on the APB, of a setup clock and an access clock, when the device is ready
  at once, as the devices of this system are. \<open>apb_at\<close> is the request at a clock.
\<close>

definition apb_at :: "(nat \<Rightarrow> bus_in) \<Rightarrow> bus \<Rightarrow> nat \<Rightarrow> apb_req" where
  "apb_at ins b n = apb_request (bus_apb (bus_run ins n b))"

lemma apb_at_idle: "b_state (bus_apb (bus_run ins n b)) \<notin> {B_SETUP, B_ACCESS} \<Longrightarrow> \<not> apb_psel (apb_at ins b n)"
  by (simp add: apb_at_def apb_request_def)

lemma apb_read_access:
  assumes "commanded False a d ins b" and "decode a = Some Apb_bridge"
  shows "reading Apb_bridge (bus_run ins 3 b)"
    and "b_state (bus_apb (bus_run ins 3 b)) = B_ACCESS" "\<not> txn_is_write (bus_apb (bus_run ins 3 b))"
    and "\<forall>n \<in> {0, 1}. \<not> apb_psel (apb_at ins b n)"
    and "\<exists>v. apb_at ins b 2 = \<lparr>apb_psel = True, apb_penable = False, apb_pwrite = False, apb_paddr = a, apb_pwdata = v\<rparr>"
    and "\<exists>v. apb_at ins b 3 = \<lparr>apb_psel = True, apb_penable = True, apb_pwrite = False, apb_paddr = a, apb_pwdata = v\<rparr>"
proof -
  have ne: "Apb_bridge \<noteq> Rtos_regs" "Apb_bridge \<noteq> Posix_regs" by simp_all
  note sel = read_selects [OF assms(1,2) ne]
  have 0: "b_state (bus_apb b) = B_IDLE"
    using assms(1) by (auto simp: commanded_def bus_idle_def dest: spec [of _ Apb_bridge])
  have 1: "b_state (bus_apb (bus_run ins 1 b)) = B_IDLE"
    using commandedD(7) [OF assms(1), where i = Apb_bridge] by simp
  from sel(2-4) have 2: "b_state (bus_apb (bus_run ins 2 b)) = B_SETUP" "txn_addr (bus_apb (bus_run ins 2 b)) = a"
    "\<not> txn_is_write (bus_apb (bus_run ins 2 b))"
    using 1 by (simp_all add: run_clock apb_bridge_step_def del: bus_run.simps)
  have "\<not> rvalid (bus_up (ins 2) (bus_run ins 2 b) Apb_bridge)" by (simp add: apb_up_def 2 del: bus_run.simps)
  from read_goes(1) [OF sel(1) this] have r3: "reading Apb_bridge (bus_run ins 3 b)"
    by (simp add: run_clock [of _ "num.Bit1 _"] del: bus_run.simps)
  have 3: "b_state (bus_apb (bus_run ins 3 b)) = B_ACCESS" "txn_addr (bus_apb (bus_run ins 3 b)) = a"
    "\<not> txn_is_write (bus_apb (bus_run ins 3 b))"
    using 2 by (simp_all add: run_clock [of _ "num.Bit1 _"] apb_bridge_step_def del: bus_run.simps)
  show "reading Apb_bridge (bus_run ins 3 b)" by (rule r3)
  show "b_state (bus_apb (bus_run ins 3 b)) = B_ACCESS" "\<not> txn_is_write (bus_apb (bus_run ins 3 b))"
    using 3 by blast+
  show "\<forall>n \<in> {0, 1}. \<not> apb_psel (apb_at ins b n)"
    using 0 1 by (auto intro!: apb_at_idle simp del: bus_run.simps(2))
  show "\<exists>v. apb_at ins b 2 = \<lparr>apb_psel = True, apb_penable = False, apb_pwrite = False, apb_paddr = a, apb_pwdata = v\<rparr>"
    "\<exists>v. apb_at ins b 3 = \<lparr>apb_psel = True, apb_penable = True, apb_pwrite = False, apb_paddr = a, apb_pwdata = v\<rparr>"
    using 2 3 by (simp_all add: apb_at_def apb_request_def del: bus_run.simps)
qed

lemma apb_read:
  assumes "commanded False a d ins b" and "decode a = Some Apb_bridge" and ready: "bus_pready (ins 3)"
  shows "ends ins 5 b" and "rdata_reg (bus_master (bus_run ins 5 b)) = bus_prdata (ins 3)"
    and "\<not> apb_psel (apb_at ins b 4)"
proof -
  note 3 = apb_read_access(2,3) [OF assms(1,2)]
  have ne: "Apb_bridge \<noteq> Rtos_regs" "Apb_bridge \<noteq> Posix_regs" by simp_all
  note sel = read_selects [OF assms(1,2) ne]
  have "\<not> rvalid (bus_up (ins 3) (bus_run ins 3 b) Apb_bridge)" by (simp add: apb_up_def 3 del: bus_run.simps)
  from read_goes(1) [OF apb_read_access(1) [OF assms(1,2)] this] have r4: "reading Apb_bridge (bus_run ins 4 b)"
    by (simp add: run_clock [of _ "num.Bit0 _"] del: bus_run.simps)
  have 4: "b_state (bus_apb (bus_run ins 4 b)) = B_RD_RESP" "txn_rdata (bus_apb (bus_run ins 4 b)) = bus_prdata (ins 3)"
    using 3 ready by (simp_all add: run_clock [of _ "num.Bit0 _"] apb_bridge_step_def del: bus_run.simps)
  have "rvalid (bus_up (ins 4) (bus_run ins 4 b) Apb_bridge)" by (simp add: apb_up_def 4 del: bus_run.simps)
  from read_goes(2) [OF r4 this]
  have r5: "ended Apb_bridge (bus_run ins 5 b)" "rdata_reg (bus_master (bus_run ins 5 b)) = bus_prdata (ins 3)"
    using 4 by (simp_all add: run_clock [of _ "num.Bit1 _"] apb_up_def del: bus_run.simps)
  have 5: "b_state (bus_apb (bus_run ins 5 b)) = B_IDLE"
    using 4 read_goes(3) [OF r4] by (simp add: run_clock [of _ "num.Bit1 _"] apb_bridge_step_def del: bus_run.simps)
  have "\<forall>j < 5. \<not> bus_done (bus_run ins j b)"
    unfolding all_below
    using commanded_busy [OF assms(1)] busy [of Apb_bridge] sel(1) apb_read_access(1) [OF assms(1,2)] r4 by blast
  then show "ends ins 5 b" by (rule endsI [OF _ r5(1)]) (simp add: 5 del: bus_run.simps)
  show "rdata_reg (bus_master (bus_run ins 5 b)) = bus_prdata (ins 3)" by (rule r5(2))
  show "\<not> apb_psel (apb_at ins b 4)" by (rule apb_at_idle) (simp add: 4 del: bus_run.simps)
qed

lemma apb_write_access:
  assumes "commanded True a d ins b" and "decode a = Some Apb_bridge"
  shows "answering Apb_bridge (bus_run ins 5 b)"
    and "sending Apb_bridge (bus_run ins 3 b)" "answering Apb_bridge (bus_run ins 4 b)"
    and "b_state (bus_apb (bus_run ins 5 b)) = B_ACCESS" "txn_is_write (bus_apb (bus_run ins 5 b))"
    and "\<forall>n \<in> {0, 1, 2, 3}. \<not> apb_psel (apb_at ins b n)"
    and "apb_at ins b 4 = \<lparr>apb_psel = True, apb_penable = False, apb_pwrite = True, apb_paddr = a, apb_pwdata = d\<rparr>"
    and "apb_at ins b 5 = \<lparr>apb_psel = True, apb_penable = True, apb_pwrite = True, apb_paddr = a, apb_pwdata = d\<rparr>"
proof -
  note sel = write_selects [OF assms(1,2)]
  note cmd = write_command [OF assms(1)]
  have 0: "b_state (bus_apb b) = B_IDLE"
    using assms(1) by (auto simp: commanded_def bus_idle_def dest: spec [of _ Apb_bridge])
  have 1: "b_state (bus_apb (bus_run ins 1 b)) = B_IDLE"
    using commandedD(7) [OF assms(1), where i = Apb_bridge] by simp
  have 2: "b_state (bus_apb (bus_run ins 2 b)) = B_IDLE" using sel(2) by simp
  note g2 = address_goes [OF sel(1)]
  have "awready (bus_up (ins 2) (bus_run ins 2 b) Apb_bridge)" using g2(3) by (simp add: apb_up_def 2 del: bus_run.simps)
  from g2(2) [OF this] have s3: "sending Apb_bridge (bus_run ins 3 b)"
    by (simp add: run_clock [of _ "num.Bit1 _"] del: bus_run.simps)
  have 3: "b_state (bus_apb (bus_run ins 3 b)) = B_WR_WAIT" "txn_addr (bus_apb (bus_run ins 3 b)) = a"
    "txn_is_write (bus_apb (bus_run ins 3 b))"
    using g2(3) 2 cmd(1) sel(1)
    by (simp_all add: run_clock [of _ "num.Bit1 _"] apb_bridge_step_def down_simps(6) addressing_def del: bus_run.simps)
  note g3 = data_goes [OF s3]
  have "wready (bus_up (ins 3) (bus_run ins 3 b) Apb_bridge)" by (simp add: apb_up_def 3 del: bus_run.simps)
  from g3(2) [OF this] have s4: "answering Apb_bridge (bus_run ins 4 b)"
    by (simp add: run_clock [of _ "num.Bit0 _"] del: bus_run.simps)
  have 4: "b_state (bus_apb (bus_run ins 4 b)) = B_SETUP" "txn_addr (bus_apb (bus_run ins 4 b)) = a"
    "txn_is_write (bus_apb (bus_run ins 4 b))" "txn_wdata (bus_apb (bus_run ins 4 b)) = d"
    using g3(3) 3 cmd(4) sel(1)
    by (simp_all add: run_clock [of _ "num.Bit0 _"] apb_bridge_step_def down_simps(7) addressing_def del: bus_run.simps)
  have "\<not> bvalid (bus_up (ins 4) (bus_run ins 4 b) Apb_bridge)" by (simp add: apb_up_def 4 del: bus_run.simps)
  from answer_goes(1) [OF s4 this] have s5: "answering Apb_bridge (bus_run ins 5 b)"
    by (simp add: run_clock [of _ "num.Bit1 _"] del: bus_run.simps)
  have 5: "b_state (bus_apb (bus_run ins 5 b)) = B_ACCESS" "txn_addr (bus_apb (bus_run ins 5 b)) = a"
    "txn_is_write (bus_apb (bus_run ins 5 b))" "txn_wdata (bus_apb (bus_run ins 5 b)) = d"
    using 4 by (simp_all add: run_clock [of _ "num.Bit1 _"] apb_bridge_step_def del: bus_run.simps)
  show "answering Apb_bridge (bus_run ins 5 b)" "sending Apb_bridge (bus_run ins 3 b)"
    "answering Apb_bridge (bus_run ins 4 b)" by (rule s5 s3 s4)+
  show "b_state (bus_apb (bus_run ins 5 b)) = B_ACCESS" "txn_is_write (bus_apb (bus_run ins 5 b))"
    using 5 by blast+
  show "\<forall>n \<in> {0, 1, 2, 3}. \<not> apb_psel (apb_at ins b n)"
    using 0 1 2 3(1) by (auto intro!: apb_at_idle simp del: bus_run.simps(2))
  show "apb_at ins b 4 = \<lparr>apb_psel = True, apb_penable = False, apb_pwrite = True, apb_paddr = a, apb_pwdata = d\<rparr>"
    "apb_at ins b 5 = \<lparr>apb_psel = True, apb_penable = True, apb_pwrite = True, apb_paddr = a, apb_pwdata = d\<rparr>"
    using 4 5 by (simp_all add: apb_at_def apb_request_def del: bus_run.simps)
qed

lemma apb_write:
  assumes "commanded True a d ins b" and "decode a = Some Apb_bridge" and ready: "bus_pready (ins 5)"
  shows "ends ins 7 b" and "\<not> apb_psel (apb_at ins b 6)"
proof -
  note 5 = apb_write_access(4,5) [OF assms(1,2)]
  have "\<not> bvalid (bus_up (ins 5) (bus_run ins 5 b) Apb_bridge)" by (simp add: apb_up_def 5 del: bus_run.simps)
  from answer_goes(1) [OF apb_write_access(1) [OF assms(1,2)] this] have s6: "answering Apb_bridge (bus_run ins 6 b)"
    by (simp add: run_clock [of _ "num.Bit0 _"] del: bus_run.simps)
  have 6: "b_state (bus_apb (bus_run ins 6 b)) = B_WR_RESP"
    using 5 ready by (simp add: run_clock [of _ "num.Bit0 _"] apb_bridge_step_def del: bus_run.simps)
  have "bvalid (bus_up (ins 6) (bus_run ins 6 b) Apb_bridge)" by (simp add: apb_up_def 6 del: bus_run.simps)
  from answer_goes(2) [OF s6 this] have e: "ended Apb_bridge (bus_run ins 7 b)"
    by (simp add: run_clock [of _ "num.Bit1 _"] del: bus_run.simps)
  have 7: "b_state (bus_apb (bus_run ins 7 b)) = B_IDLE"
    using 6 answer_goes(3) [OF s6] by (simp add: run_clock [of _ "num.Bit1 _"] apb_bridge_step_def del: bus_run.simps)
  have "\<forall>j < 7. \<not> bus_done (bus_run ins j b)"
    unfolding all_below
    using commanded_busy [OF assms(1)] busy [of Apb_bridge] write_selects(1) [OF assms(1,2)]
      apb_write_access(1-3) [OF assms(1,2)] s6 by blast
  then show "ends ins 7 b" by (rule endsI [OF _ e]) (simp add: 7 del: bus_run.simps)
  show "\<not> apb_psel (apb_at ins b 6)" by (rule apb_at_idle) (simp add: 6 del: bus_run.simps)
qed

text \<open>Stores to the registers of the RTOS and of the POSIX layer.\<close>

lemma rtos_write:
  assumes "commanded True a d ins b" and "decode a = Some Rtos_regs"
  shows "ends ins 7 b"
    and "rtos_axi_write (bus_down (bus_run ins 5 b) Rtos_regs) (bus_rtos (bus_run ins 5 b)) = Some (a AND 0xFF, d)"
proof -
  note sel = write_selects [OF assms(1,2)]
  note cmd = write_command [OF assms(1)]
  let ?r = "\<lambda>n. bus_rtos (bus_run ins n b)"
  define quiet where "quiet = (\<lambda>n. \<not> axi_ar_ready_r (?r n) \<and> \<not> axi_r_valid_r (?r n))"
  have 2: "idle_slave (bus_run ins 2 b) Rtos_regs" "quiet 2" using sel(2) by (simp_all add: quiet_def)
  note g2 = address_goes [OF sel(1)]
  have "\<not> awready (bus_up (ins 2) (bus_run ins 2 b) Rtos_regs)" using 2 by (simp add: rtos_axi_up_def del: bus_run.simps)
  from g2(1) [OF this] have s3: "addressing Rtos_regs (bus_run ins 3 b)"
    by (simp add: run_clock [of _ "num.Bit1 _"] del: bus_run.simps)
  have 3: "quiet 3" "axi_aw_ready_r (?r 3)" "axi_aw_done (?r 3)" "\<not> axi_w_ready_r (?r 3)" "\<not> axi_w_done (?r 3)"
    "\<not> axi_b_valid_r (?r 3)" "axi_aw_addr_r (?r 3) = a"
    using g2(3) 2 cmd(1) sel(1)
    by (simp_all add: quiet_def run_clock [of _ "num.Bit1 _"] rtos_axi_step_def Let_def down_simps(6) addressing_def del: bus_run.simps)
  note g3 = address_goes [OF s3]
  have "awready (bus_up (ins 3) (bus_run ins 3 b) Rtos_regs)" by (simp add: rtos_axi_up_def 3 del: bus_run.simps)
  from g3(2) [OF this] have s4: "sending Rtos_regs (bus_run ins 4 b)"
    by (simp add: run_clock [of _ "num.Bit0 _"] del: bus_run.simps)
  have 4: "quiet 4" "\<not> axi_aw_ready_r (?r 4)" "axi_aw_done (?r 4)" "\<not> axi_w_ready_r (?r 4)" "\<not> axi_w_done (?r 4)"
    "\<not> axi_b_valid_r (?r 4)" "axi_aw_addr_r (?r 4) = a"
    using g3(3) 3
    by (simp_all add: quiet_def run_clock [of _ "num.Bit0 _"] rtos_axi_step_def Let_def del: bus_run.simps)
  note g4 = data_goes [OF s4]
  have "\<not> wready (bus_up (ins 4) (bus_run ins 4 b) Rtos_regs)" by (simp add: rtos_axi_up_def 4 del: bus_run.simps)
  from g4(1) [OF this] have s5: "sending Rtos_regs (bus_run ins 5 b)"
    by (simp add: run_clock [of _ "num.Bit1 _"] del: bus_run.simps)
  have 5: "quiet 5" "\<not> axi_aw_ready_r (?r 5)" "axi_aw_done (?r 5)" "axi_w_ready_r (?r 5)" "axi_w_done (?r 5)"
    "\<not> axi_b_valid_r (?r 5)" "axi_aw_addr_r (?r 5) = a"
    using g4(3) 4
    by (simp_all add: quiet_def run_clock [of _ "num.Bit1 _"] rtos_axi_step_def Let_def del: bus_run.simps)
  note g5 = data_goes [OF s5]
  have "wready (bus_up (ins 5) (bus_run ins 5 b) Rtos_regs)" by (simp add: rtos_axi_up_def 5 del: bus_run.simps)
  from g5(2) [OF this] have s6: "answering Rtos_regs (bus_run ins 6 b)"
    by (simp add: run_clock [of _ "num.Bit0 _"] del: bus_run.simps)
  have 6: "quiet 6" "\<not> axi_aw_ready_r (?r 6)" "\<not> axi_w_ready_r (?r 6)" "axi_b_valid_r (?r 6)"
    using g5(3) 5
    by (simp_all add: quiet_def run_clock [of _ "num.Bit0 _"] rtos_axi_step_def Let_def del: bus_run.simps)
  have "bvalid (bus_up (ins 6) (bus_run ins 6 b) Rtos_regs)" by (simp add: rtos_axi_up_def 6 del: bus_run.simps)
  from answer_goes(2) [OF s6 this] have e: "ended Rtos_regs (bus_run ins 7 b)"
    by (simp add: run_clock [of _ "num.Bit1 _"] del: bus_run.simps)
  have "idle_slave (bus_run ins 7 b) Rtos_regs"
    using 6 answer_goes(3) [OF s6]
    by (simp add: quiet_def run_clock [of _ "num.Bit1 _"] rtos_axi_step_def Let_def del: bus_run.simps)
  moreover have "\<forall>j < 7. \<not> bus_done (bus_run ins j b)"
    unfolding all_below using commanded_busy [OF assms(1)] busy [of Rtos_regs] sel(1) s3 s4 s5 s6 by blast
  ultimately show "ends ins 7 b" using e by (intro endsI)
  have "wdata_reg (bus_master (bus_run ins 5 b)) = d"
    using cmd(4) sel(1) s3 s4 run_keeps(2) [of ins 3 b] run_keeps(2) [of ins 4 b]
    by (simp add: addressing_def sending_def eval_nat_numeral del: bus_run.simps)
  then show "rtos_axi_write (bus_down (bus_run ins 5 b) Rtos_regs) (bus_rtos (bus_run ins 5 b)) = Some (a AND 0xFF, d)"
    by (simp add: rtos_axi_write_def 5 down_simps(7) del: bus_run.simps)
qed

lemma posix_write:
  assumes "commanded True a d ins b" and "decode a = Some Posix_regs"
  shows "ends ins 6 b"
proof -
  note sel = write_selects [OF assms(1,2)]
  let ?p = "\<lambda>n. bus_posix (bus_run ins n b)"
  define quiet where "quiet = (\<lambda>n. \<not> axi_ar_done_r (?p n) \<and> \<not> s_axi_arready (?p n) \<and> \<not> s_axi_rvalid (?p n))"
  have 2: "idle_slave (bus_run ins 2 b) Posix_regs" "quiet 2" using sel(2) by (simp_all add: quiet_def)
  note g2 = address_goes [OF sel(1)]
  have "awready (bus_up (ins 2) (bus_run ins 2 b) Posix_regs)" using 2 by (simp add: posix_axi_up_def del: bus_run.simps)
  from g2(2) [OF this] have s3: "sending Posix_regs (bus_run ins 3 b)"
    by (simp add: run_clock [of _ "num.Bit1 _"] del: bus_run.simps)
  have 3: "quiet 3" "axi_aw_done_r (?p 3)" "\<not> axi_w_done_r (?p 3)" "\<not> s_axi_bvalid (?p 3)"
    using g2(3) 2
    by (simp_all add: quiet_def run_clock [of _ "num.Bit1 _"] posix_axi_step_def Let_def del: bus_run.simps)
  note g3 = data_goes [OF s3]
  have "wready (bus_up (ins 3) (bus_run ins 3 b) Posix_regs)" by (simp add: posix_axi_up_def 3 del: bus_run.simps)
  from g3(2) [OF this] have s4: "answering Posix_regs (bus_run ins 4 b)"
    by (simp add: run_clock [of _ "num.Bit0 _"] del: bus_run.simps)
  have 4: "quiet 4" "axi_aw_done_r (?p 4)" "axi_w_done_r (?p 4)" "\<not> s_axi_bvalid (?p 4)"
    using g3(3) 3
    by (simp_all add: quiet_def run_clock [of _ "num.Bit0 _"] posix_axi_step_def Let_def del: bus_run.simps)
  note g4 = answer_goes [OF s4]
  have "\<not> bvalid (bus_up (ins 4) (bus_run ins 4 b) Posix_regs)" by (simp add: posix_axi_up_def 4 del: bus_run.simps)
  from g4(1) [OF this] have s5: "answering Posix_regs (bus_run ins 5 b)"
    by (simp add: run_clock [of _ "num.Bit1 _"] del: bus_run.simps)
  have 5: "quiet 5" "s_axi_bvalid (?p 5)"
    using g4(3) 4
    by (simp_all add: quiet_def run_clock [of _ "num.Bit1 _"] posix_axi_step_def Let_def del: bus_run.simps)
  have "bvalid (bus_up (ins 5) (bus_run ins 5 b) Posix_regs)" by (simp add: posix_axi_up_def 5 del: bus_run.simps)
  from answer_goes(2) [OF s5 this] have e: "ended Posix_regs (bus_run ins 6 b)"
    by (simp add: run_clock [of _ "num.Bit0 _"] del: bus_run.simps)
  have "idle_slave (bus_run ins 6 b) Posix_regs"
    using 5 answer_goes(3) [OF s5]
    by (simp add: quiet_def run_clock [of _ "num.Bit0 _"] posix_axi_step_def Let_def del: bus_run.simps)
  moreover have "\<forall>j < 6. \<not> bus_done (bus_run ins j b)"
    unfolding all_below using commanded_busy [OF assms(1)] busy [of Posix_regs] sel(1) s3 s4 s5 by blast
  ultimately show "ends ins 6 b" using e by (intro endsI)
qed

text \<open>
  A load from the HyperRAM: the controller gets from one state to the next in a bounded time,
  \<open>hyper_left\<close>, whatever the memory says about its latency.
\<close>

definition hyper_ok :: "hyperram \<Rightarrow> bool" where
  "hyper_ok h \<longleftrightarrow> h_is_read h \<and> h_state h \<noteq> H_IDLE
     \<and> (h_state h = H_CMD \<longrightarrow> cmd_cnt h \<le> 5 \<and> lat_cnt h = 0 \<and> data_cnt h = 0)
     \<and> (h_state h = H_LATENCY \<longrightarrow> data_cnt h = 0
         \<and> (lat_cnt h = 0 \<or> (lat_total h = 6 \<or> lat_total h = 12) \<and> lat_cnt h < lat_total h))
     \<and> (h_state h = H_DATA \<longrightarrow> data_cnt h \<le> 3)"

definition hyper_left :: "hyperram \<Rightarrow> nat" where
  "hyper_left h = (case h_state h of
       H_CMD \<Rightarrow> 30 + (5 - unat (cmd_cnt h))
     | H_LATENCY \<Rightarrow> if lat_cnt h = 0 then 29 else 10 + (12 - unat (lat_cnt h))
     | H_DATA \<Rightarrow> 1 + (3 - unat (data_cnt h))
     | _ \<Rightarrow> 0)"

lemma small_Suc:
  "c < 5 \<Longrightarrow> unat (c + 1) = Suc (unat c)" for c :: "4 word"
  by (simp add: unat_word_ariths word_less_nat_alt)

lemma byte_Suc:
  "c < 12 \<Longrightarrow> unat (c + 1) = Suc (unat c)" for c :: "8 word"
  by (simp add: unat_word_ariths word_less_nat_alt)

lemma unat_byte_u32: "unat (ucast c :: u32) = unat c" for c :: "8 word"
proof -
  have "unat c < 2 ^ LENGTH(8)" by (rule unsigned_less)
  then show ?thesis by (simp add: unsigned_ucast_eq take_bit_eq_mod)
qed

lemma hyper_progress:
  assumes "hyper_ok h" and "h_state h \<noteq> H_DONE"
  shows "hyper_ok (hyper_step d rwds dq h) \<and> hyper_left (hyper_step d rwds dq h) < hyper_left h"
proof (cases "h_state h")
  case H_IDLE
  with assms show ?thesis by (simp add: hyper_ok_def)
next
  case H_CMD
  then have c: "cmd_cnt h \<le> 5" "lat_cnt h = 0" "data_cnt h = 0" "h_is_read h" using assms by (simp_all add: hyper_ok_def)
  show ?thesis
  proof (cases "cmd_cnt h = 5")
    case True
    with H_CMD c show ?thesis by (simp add: hyper_step_def hyper_ok_def hyper_left_def)
  next
    case False
    with c have lt: "cmd_cnt h < 5" by simp
    then have "cmd_cnt h + 1 \<le> 5" "unat (cmd_cnt h) < 5" using small_Suc [OF lt] by (simp_all add: word_le_nat_alt word_less_nat_alt)
    with H_CMD c lt False small_Suc [OF lt] show ?thesis by (simp add: hyper_step_def hyper_ok_def hyper_left_def)
  qed
next
  case H_LATENCY
  then have c: "lat_cnt h = 0 \<or> (lat_total h = 6 \<or> lat_total h = 12) \<and> lat_cnt h < lat_total h" "data_cnt h = 0" "h_is_read h"
    using assms by (simp_all add: hyper_ok_def)
  show ?thesis
  proof (cases "ucast (lat_cnt h) \<ge> (ucast (lat_total h) :: u32) - 1")
    case True
    with H_LATENCY c show ?thesis by (simp add: hyper_step_def hyper_ok_def hyper_left_def)
  next
    case wait: False
    show ?thesis
    proof (cases "lat_cnt h = 0")
      case True
      with H_LATENCY c wait show ?thesis
        by (simp add: hyper_step_def hyper_ok_def hyper_left_def HYPER_LATENCY_def)
    next
      case False
      then have t: "lat_total h = 6 \<or> lat_total h = 12" using c(1) by simp
      have lt: "unat (lat_cnt h) < unat (lat_total h) - 1"
        using wait t by (auto simp: word_le_nat_alt unat_byte_u32 not_le)
      have l12: "lat_cnt h < 12" using lt t by (auto simp: word_less_nat_alt)
      have "lat_cnt h + 1 < lat_total h" "lat_cnt h + 1 \<noteq> 0"
        using lt t byte_Suc [OF l12] by (auto simp: word_less_nat_alt word_unat_eq_iff)
      with H_LATENCY c wait False t lt byte_Suc [OF l12] show ?thesis
        by (auto simp: hyper_step_def hyper_ok_def hyper_left_def)
    qed
  qed
next
  case H_DATA
  then have c: "data_cnt h \<le> 3" "h_is_read h" using assms by (simp_all add: hyper_ok_def)
  show ?thesis
  proof (cases "data_cnt h \<ge> 3")
    case True
    with H_DATA c show ?thesis by (simp add: hyper_step_def hyper_ok_def hyper_left_def)
  next
    case False
    then have lt: "data_cnt h < 3" by simp
    then have "data_cnt h < 5" by (simp add: word_less_nat_alt)
    note s = small_Suc [OF this]
    have "data_cnt h + 1 \<le> 3" "unat (data_cnt h) < 3" using lt s by (simp_all add: word_le_nat_alt word_less_nat_alt)
    with H_DATA c False s show ?thesis by (simp add: hyper_step_def hyper_ok_def hyper_left_def)
  qed
next
  case H_DONE
  with assms show ?thesis by simp
qed

text \<open>The word it collects: the bytes the memory shows at the last \<open>c\<close> clocks before \<open>k\<close>, the lowest first.\<close>

definition hyper_word :: "(nat \<Rightarrow> bus_in) \<Rightarrow> nat \<Rightarrow> nat \<Rightarrow> u32" where
  "hyper_word ins k c = foldl (\<lambda>w j. set_byte j (hyper_dq (ins (k - c + j))) w) 0 [0..<c]"

definition hyper_data :: "(nat \<Rightarrow> bus_in) \<Rightarrow> nat \<Rightarrow> hyperram \<Rightarrow> bool" where
  "hyper_data ins k h \<longleftrightarrow> (h_state h = H_CMD \<or> h_state h = H_LATENCY \<longrightarrow> h_rd_data h = 0)
     \<and> (h_state h = H_DATA \<longrightarrow> unat (data_cnt h) \<le> k \<and> h_rd_data h = hyper_word ins k (unat (data_cnt h)))
     \<and> (h_state h = H_DONE \<longrightarrow> 4 \<le> k \<and> h_rd_data h = hyper_word ins k 4)"

lemma hyper_word_Suc:
  "c \<le> k \<Longrightarrow> hyper_word ins (Suc k) (Suc c) = set_byte c (hyper_dq (ins k)) (hyper_word ins k c)"
  by (simp add: hyper_word_def)

lemma hyper_collects:
  assumes "hyper_ok h" and "hyper_data ins k h" and "h_state h \<noteq> H_DONE"
  shows "hyper_data ins (Suc k) (hyper_step d rwds (hyper_dq (ins k)) h)"
proof (cases "h_state h")
  case H_CMD
  then show ?thesis using assms(2) by (simp add: hyper_data_def hyper_step_def)
next
  case H_LATENCY
  then show ?thesis using assms(1,2) by (simp add: hyper_ok_def hyper_data_def hyper_step_def hyper_word_def)
next
  case H_DATA
  define c where "c = unat (data_cnt h)"
  have h: "data_cnt h \<le> 3" "h_is_read h" "c \<le> k" "h_rd_data h = hyper_word ins k c"
    using H_DATA assms(1,2) by (simp_all add: hyper_ok_def hyper_data_def c_def)
  have c3: "c \<le> 3" "c mod 4 = c" and last: "data_cnt h \<ge> 3 \<longleftrightarrow> c = 3"
    using h(1) by (auto simp: word_le_nat_alt c_def)
  have "unat (data_cnt h + 1) = Suc c" using c3(1) by (simp add: unat_word_ariths c_def)
  moreover have "h_rd_data (hyper_step d rwds (hyper_dq (ins k)) h) = hyper_word ins (Suc k) (Suc c)"
    "h_state (hyper_step d rwds (hyper_dq (ins k)) h) = (if c = 3 then H_DONE else H_DATA)"
    "data_cnt (hyper_step d rwds (hyper_dq (ins k)) h) = data_cnt h + 1"
    using H_DATA h(2,4) c3(2) by (simp_all add: hyper_step_def last hyper_word_Suc [OF h(3)] c_def [symmetric])
  ultimately show ?thesis using h(3) by (simp add: hyper_data_def)
qed (use assms in \<open>simp_all add: hyper_ok_def\<close>)

lemma hyper_waits:
  assumes "reading Hyperram (bus_run ins k b)" and "hyper_ok (bus_hyper (bus_run ins k b))"
    and "hyper_data ins k (bus_hyper (bus_run ins k b))" and "\<forall>j < k. \<not> bus_done (bus_run ins j b)"
  shows "\<exists>n \<ge> k. n \<le> k + hyper_left (bus_hyper (bus_run ins k b)) + 1 \<and> ends ins n b
    \<and> rdata_reg (bus_master (bus_run ins n b)) = hyper_word ins (n - 1) 4"
  using assms
proof (induction "hyper_left (bus_hyper (bus_run ins k b))" arbitrary: k rule: less_induct)
  case less
  note g = read_goes [OF less.prems(1)]
  let ?h = "bus_hyper (bus_run ins k b)"
  have all: "\<forall>j < Suc k. \<not> bus_done (bus_run ins j b)"
    using less.prems(4) busy(1) [OF less.prems(1)] by (auto simp: less_Suc_eq simp del: bus_run.simps)
  show ?case
  proof (cases "h_state ?h = H_DONE")
    case True
    then have "rvalid (bus_up (ins k) (bus_run ins k b) Hyperram)"
      using less.prems(2) by (simp add: hyper_up_def hyper_ok_def)
    from g(2) [OF this] have "ended Hyperram (bus_run ins (Suc k) b)"
      "rdata_reg (bus_master (bus_run ins (Suc k) b)) = h_rd_data ?h" by (simp_all add: hyper_up_def)
    moreover have "idle_slave (bus_run ins (Suc k) b) Hyperram"
      using True g(3) less.prems(2) by (simp add: hyper_step_def hyper_ok_def)
    moreover have "h_rd_data ?h = hyper_word ins k 4" using True less.prems(3) by (simp add: hyper_data_def)
    ultimately show ?thesis using endsI [OF all, of Hyperram] by (intro exI [of _ "Suc k"]) (simp del: bus_run.simps)
  next
    case False
    then have "\<not> rvalid (bus_up (ins k) (bus_run ins k b) Hyperram)" by (simp add: hyper_up_def)
    from g(1) [OF this] have r: "reading Hyperram (bus_run ins (Suc k) b)" by simp
    have "hyper_ok (bus_hyper (bus_run ins (Suc k) b))"
      and "hyper_left (bus_hyper (bus_run ins (Suc k) b)) < hyper_left ?h"
      using hyper_progress [OF less.prems(2) False] by simp_all
    note h = this
    have "hyper_data ins (Suc k) (bus_hyper (bus_run ins (Suc k) b))"
      using hyper_collects [OF less.prems(2,3) False] by simp
    from less.hyps [OF h(2) r h(1) this all] obtain n where
      "Suc k \<le> n" "n \<le> Suc k + hyper_left (bus_hyper (bus_run ins (Suc k) b)) + 1" "ends ins n b"
      "rdata_reg (bus_master (bus_run ins n b)) = hyper_word ins (n - 1) 4" by blast
    with h(2) show ?thesis by (intro exI [of _ n]) (simp del: bus_run.simps)
  qed
qed

lemma hyper_read:
  assumes "commanded False a d ins b" and "decode a = Some Hyperram"
  shows "\<exists>n \<le> 38. ends ins n b \<and> rdata_reg (bus_master (bus_run ins n b)) = hyper_word ins (n - 1) 4"
proof -
  have ne: "Hyperram \<noteq> Rtos_regs" "Hyperram \<noteq> Posix_regs" by simp_all
  note sel = read_selects [OF assms ne]
  have "h_state (bus_hyper (bus_run ins 1 b)) = H_IDLE"
    using commandedD(7) [OF assms(1), where i = Hyperram] by simp
  with sel(2,3) have h: "hyper_ok (bus_hyper (bus_run ins 2 b))" "hyper_left (bus_hyper (bus_run ins 2 b)) = 35"
    "hyper_data ins 2 (bus_hyper (bus_run ins 2 b))"
    by (simp_all add: run_clock hyper_step_def Let_def hyper_ok_def hyper_left_def hyper_data_def del: bus_run.simps)
  have "\<forall>j < 2. \<not> bus_done (bus_run ins j b)"
    using commanded_busy [OF assms(1)] by (auto simp: less_Suc_eq numeral_2_eq_2 simp del: bus_run.simps)
  from hyper_waits [OF sel(1) h(1,3) this] show ?thesis using h(2) by auto
qed

section \<open>Which accesses end\<close>

definition bus_answers :: "u32 \<Rightarrow> bool" where
  "bus_answers a \<longleftrightarrow> \<not> rtos_page a \<and> \<not> posix_page a"

definition bus_accepts :: "u32 \<Rightarrow> bool" where
  "bus_accepts a \<longleftrightarrow> \<not> hyperram_page a"

lemma page_slaves:
  "rtos_page a \<Longrightarrow> decode a = Some Rtos_regs" "posix_page a \<Longrightarrow> decode a = Some Posix_regs"
  "hyperram_page a \<Longrightarrow> decode a = Some Hyperram"
  "uart_page a \<or> gpio_page a \<or> clint_page a \<or> plic_page a \<Longrightarrow> decode a = Some Apb_bridge"
  by (auto simp: decode_def rtos_page_def posix_page_def hyperram_page_def uart_page_def gpio_page_def
      clint_page_def plic_page_def dmem_page_def in_page_def hw_defs word_le_nat_alt)

lemma decoded_page:
  "decode a = Some Rtos_regs \<Longrightarrow> rtos_page a" "decode a = Some Posix_regs \<Longrightarrow> posix_page a"
  "decode a = Some Hyperram \<Longrightarrow> hyperram_page a"
  by (auto simp: decode_def split: if_split_asm)

definition access_ends :: "bool \<Rightarrow> u32 \<Rightarrow> bool" where
  "access_ends wr a \<longleftrightarrow> (if wr then bus_accepts a else bus_answers a)"

lemma bus_access_hangs:
  assumes "commanded wr a d ins b" and "\<not> access_ends wr a"
  shows "\<not> bus_done (bus_run ins n b)"
proof (cases wr)
  case True
  then show ?thesis
    using assms page_slaves(3) [of a] write_hangs [of a d ins b] by (simp add: access_ends_def bus_accepts_def)
next
  case False
  then show ?thesis
    using assms page_slaves(1,2) [of a] read_hangs [of a d ins b] by (auto simp: access_ends_def bus_answers_def)
qed

lemma bus_access_ends:
  assumes "commanded wr a d ins b" and "access_ends wr a"
    and ready: "decode a = Some Apb_bridge \<Longrightarrow> bus_pready (ins (if wr then 5 else 3))"
  shows "\<exists>n \<le> 38. ends ins n b"
proof (cases wr)
  case True
  then have c: "commanded True a d ins b" and h: "\<not> hyperram_page a" and r: "decode a = Some Apb_bridge \<Longrightarrow> bus_pready (ins 5)"
    using assms by (simp_all add: access_ends_def bus_accepts_def)
  have "ends ins 4 b \<or> ends ins 5 b \<or> ends ins 6 b \<or> ends ins 7 b"
  proof (cases "decode a")
    case None
    then show ?thesis using no_slave_write [OF c] by blast
  next
    case (Some i)
    then show ?thesis
      using ram_write(1) [OF c Some] apb_write(1) [OF c _ r] rtos_write(1) [OF c] posix_write [OF c]
        decoded_page [of a] h
      by (cases i) auto
  qed
  then show ?thesis by (elim disjE) (rule exI, erule conjI [rotated], simp)+
next
  case False
  then have c: "commanded False a d ins b" and h: "\<not> rtos_page a" "\<not> posix_page a"
    and r: "decode a = Some Apb_bridge \<Longrightarrow> bus_pready (ins 3)"
    using assms by (simp_all add: access_ends_def bus_answers_def)
  have "ends ins 3 b \<or> ends ins 4 b \<or> ends ins 5 b \<or> (\<exists>n \<le> 38. ends ins n b)"
  proof (cases "decode a")
    case None
    then show ?thesis using no_slave_read(1) [OF c] by blast
  next
    case (Some i)
    then show ?thesis
      using ram_read(1) [OF c Some] apb_read(1) [OF c _ r] hyper_read [OF c] decoded_page [of a] h
      by (cases i) auto
  qed
  then show ?thesis by (elim disjE) ((rule exI, erule conjI [rotated], simp)+, assumption)
qed

text \<open>Only an access to the APB uses the APB.\<close>

definition apb_free :: "u32 \<Rightarrow> bus \<Rightarrow> bool" where
  "apb_free a b \<longleftrightarrow> b_state (bus_apb b) = B_IDLE \<and> m_state (bus_master b) \<noteq> M_IDLE \<and> addr_reg (bus_master b) = a
     \<and> (x_state (bus_xbar b) \<in> {X_READ, X_WRITE_AW, X_WRITE_W, X_WRITE_B} \<longrightarrow> active_slave (bus_xbar b) \<noteq> Apb_bridge)"

lemma apb_free_clock:
  assumes "apb_free a b" and "decode a \<noteq> Some Apb_bridge" and "\<not> bus_done b"
  shows "apb_free a (bus_clock x b)"
proof -
  note f = assms(1) [unfolded apb_free_def]
  have "b_state (bus_apb (bus_clock x b)) = B_IDLE"
    using f assms(2) by (auto simp: apb_bridge_step_def down_simps)
  moreover have "m_state (bus_master (bus_clock x b)) \<noteq> M_IDLE"
    using f assms(3) by (cases "m_state (bus_master b)") (simp_all add: master_step_def Let_def bus_done_def)
  moreover have "addr_reg (bus_master (bus_clock x b)) = a" using f by (simp add: master_keeps)
  moreover have "active_slave (bus_xbar (bus_clock x b)) \<noteq> Apb_bridge"
    if "x_state (bus_xbar (bus_clock x b)) \<in> {X_READ, X_WRITE_AW, X_WRITE_W, X_WRITE_B}"
    using that f assms(2)
    by (cases "x_state (bus_xbar b)")
      (auto simp: xbar_step_def Let_def master_read xbar_out_def split: if_split_asm option.split_asm)
  ultimately show ?thesis by (simp add: apb_free_def del: slave_clock)
qed

lemma apb_unused:
  assumes c: "commanded wr a d ins b" and "decode a \<noteq> Some Apb_bridge"
    and "\<forall>j < k. \<not> bus_done (bus_run ins j b)" and "j \<le> k"
  shows "\<not> apb_psel (apb_at ins b j)"
proof (cases j)
  case 0
  have "idle_slave b Apb_bridge" using c unfolding commanded_def bus_idle_def by blast
  with 0 show ?thesis by (intro apb_at_idle) simp
next
  case (Suc m)
  have "apb_free a (bus_run ins (Suc i) b)" if "i < k" for i
    using that
  proof (induction i)
    case 0
    have "idle_slave (bus_run ins 1 b) Apb_bridge" by (rule commandedD(7) [OF c])
    then show ?case using commandedD(1,2,6) [OF c] by (simp add: apb_free_def del: slave_clock split: if_split_asm)
  next
    case (Suc i)
    then have "apb_free a (bus_run ins (Suc i) b)" "\<not> bus_done (bus_run ins (Suc i) b)"
      using assms(3) by (simp_all del: bus_run.simps)
    from apb_free_clock [OF this(1) assms(2) this(2)] show ?case by simp
  qed
  from this [of m] Suc assms(4) show ?thesis by (intro apb_at_idle) (simp add: apb_free_def del: bus_run.simps)
qed

end
