(* ===== verification/Soc_Clock.thy ===== *)
theory Soc_Clock
  imports Hw_Rtos Gpio_Apb Clint Axi_Access
begin

text \<open>
  The part of the SoC below the C program (rtl/top/vsync_top.sv): the UART, the GPIO, the CLINT, the
  POSIX layer with its peripheral bridge and the hardware RTOS on one clock, and the accesses of the
  core as sequences of clocks. What the model leaves open is in the record \<open>env\<close>: when the line
  delivers a byte, the level of the pins, what the core and the AXI bus tell the RTOS, the latency of
  an access in the pipeline and the AXI interconnect, what the memories and the PLIC answer to a load,
  and the registers a stub does not set.
\<close>

section \<open>The peripheral bridge of vsync\_top\<close>

datatype periph_bridge_state_t = PERIPH_IDLE | PERIPH_SETUP | PERIPH_ACCESS | PERIPH_DONE

record bridge =
  periph_state :: periph_bridge_state_t
  periph_addr_r :: u32
  periph_wdata_r :: u32
  periph_is_write_r :: bool

definition bridge_reset :: bridge where
  "bridge_reset = \<lparr>periph_state = PERIPH_IDLE, periph_addr_r = 0, periph_wdata_r = 0, periph_is_write_r = False\<rparr>"

definition periph_apb :: "bridge \<Rightarrow> apb_req" where
  "periph_apb b = \<lparr>
     apb_psel = (periph_state b = PERIPH_SETUP \<or> periph_state b = PERIPH_ACCESS),
     apb_penable = (periph_state b = PERIPH_ACCESS),
     apb_pwrite = (periph_is_write_r b \<and> (periph_state b = PERIPH_SETUP \<or> periph_state b = PERIPH_ACCESS)),
     apb_paddr = periph_addr_r b,
     apb_pwdata = periph_wdata_r b\<rparr>"

definition bridge_step :: "(bool \<times> u32 \<times> u32) option \<Rightarrow> bool \<Rightarrow> bridge \<Rightarrow> bridge" where
  "bridge_step access pready b = (case periph_state b of
       PERIPH_IDLE \<Rightarrow> (case access of
           None \<Rightarrow> b
         | Some (wr, a, d) \<Rightarrow> \<lparr>periph_state = PERIPH_SETUP, periph_addr_r = a, periph_wdata_r = d,
             periph_is_write_r = wr\<rparr>)
     | PERIPH_SETUP \<Rightarrow> b\<lparr>periph_state := PERIPH_ACCESS\<rparr>
     | PERIPH_ACCESS \<Rightarrow> if pready then b\<lparr>periph_state := PERIPH_DONE\<rparr> else b
     | PERIPH_DONE \<Rightarrow> b\<lparr>periph_state := PERIPH_IDLE\<rparr>)"

section \<open>Address decoding\<close>

definition select :: "(u32 \<Rightarrow> bool) \<Rightarrow> apb_req \<Rightarrow> apb_req" where
  "select page q = q\<lparr>apb_psel := (apb_psel q \<and> page (apb_paddr q))\<rparr>"

text \<open>The bridge has priority over the core.\<close>

definition apb_mux :: "bridge \<Rightarrow> apb_req \<Rightarrow> apb_req" where
  "apb_mux b q = (if apb_psel (periph_apb b) then periph_apb b else q)"

section \<open>The state and one clock\<close>

record soc =
  now :: nat
  soc_uart :: uart
  soc_gpio :: gpio
  soc_clint :: clint
  soc_posix :: posix
  soc_bridge :: bridge
  soc_rtos :: hw_rtos
  timer_irq_prev :: bool
  keyboard :: "byte list" \<comment> \<open>the bytes the user has still to type\<close>

definition soc_reset :: "byte list \<Rightarrow> soc" where
  "soc_reset ks = \<lparr>now = 0, soc_uart = uart_reset, soc_gpio = gpio_reset, soc_clint = clint_reset,
     soc_posix = posix_reset, soc_bridge = bridge_reset, soc_rtos = rtos_reset, timer_irq_prev = False,
     keyboard = ks\<rparr>"

record env =
  key_at :: "nat \<Rightarrow> bool"
  pins_at :: "nat \<Rightarrow> pins"
  to_rtos :: "nat \<Rightarrow> rtos_in" \<comment> \<open>from the core and the AXI bus; the timer is in the model\<close>
  delay_at :: "nat \<Rightarrow> 16 word"
  other_read :: "nat \<Rightarrow> u32 \<Rightarrow> u32"
  spare_ram :: "u32 \<Rightarrow> bool" \<comment> \<open>where the two memories hold nothing of the program\<close>
  unset_reg :: "nat \<Rightarrow> nat \<Rightarrow> u32"

text \<open>
  The byte the line completes at this clock. The user types a byte only while the receive FIFO has
  room for it (the UART would drop it).
\<close>

definition rx_byte :: "env \<Rightarrow> soc \<Rightarrow> byte option" where
  "rx_byte E w =
     (if key_at E (now w) \<and> ctrl_rx_en (soc_uart w) \<and> \<not> fifo_full (rx_ring (soc_uart w)) \<and> keyboard w \<noteq> []
      then Some (hd (keyboard w)) else None)"

definition apb_prdata :: "soc \<Rightarrow> apb_req \<Rightarrow> u32" where
  "apb_prdata w q =
     (if apb_psel (select uart_page q) then uart_prdata q (soc_uart w)
      else if apb_psel (select gpio_page q) then gpio_prdata q (soc_gpio w)
      else if apb_psel (select clint_page q) then clint_prdata q (soc_clint w)
      else 0)"

definition periph_pready :: "apb_req \<Rightarrow> bool" where
  "periph_pready q \<longleftrightarrow>
     (if apb_psel (select uart_page q) \<or> apb_psel (select gpio_page q) \<or> apb_psel (select clint_page q)
      then uart_pready q else True)"

definition periph_in :: "soc \<Rightarrow> periph_port" where
  "periph_in w = \<lparr>periph_rdata = apb_prdata w (periph_apb (soc_bridge w)),
     periph_ready = (periph_state (soc_bridge w) = PERIPH_DONE)\<rparr>"

text \<open>The timer ticks for the RTOS when the interrupt of the CLINT rises.\<close>

definition rtos_inputs :: "env \<Rightarrow> soc \<Rightarrow> rtos_in" where
  "rtos_inputs E w = (to_rtos E (now w))\<lparr>timer_tick := timer_irq (soc_clint w) \<and> \<not> timer_irq_prev w\<rparr>"

definition soc_clock :: "env \<Rightarrow> apb_req \<Rightarrow> ecall_port \<Rightarrow> soc \<Rightarrow> soc" where
  "soc_clock E q c w =
     (let m = apb_mux (soc_bridge w) q in
      \<lparr>now = now w + 1,
       soc_uart = uart_step (select uart_page m) (rx_byte E w) (soc_uart w),
       soc_gpio = gpio_step (select gpio_page m) (pins_at E (now w)) (soc_gpio w),
       soc_clint = clint_step (select clint_page m) (soc_clint w),
       soc_posix = posix_step c (rtos_port_of (soc_rtos w)) (periph_in w) (soc_posix w),
       soc_bridge = bridge_step (periph_out (soc_posix w)) (periph_pready (periph_apb (soc_bridge w)))
         (soc_bridge w),
       soc_rtos = rtos_clock (rtos_inputs E w) (rtos_out (soc_posix w)) (soc_rtos w),
       timer_irq_prev = timer_irq (soc_clint w),
       keyboard = (if rx_byte E w = None then keyboard w else tl (keyboard w))\<rparr>)"

section \<open>Accesses of the core\<close>

definition ecall_none :: ecall_port where
  "ecall_none = \<lparr>ecall_req = False, syscall_num = 0, syscall_arg0 = 0, syscall_arg1 = 0, syscall_arg2 = 0\<rparr>"

definition idle :: "env \<Rightarrow> nat \<Rightarrow> soc \<Rightarrow> soc" where
  "idle E n w = (soc_clock E apb_none ecall_none ^^ n) w"

definition latency :: "env \<Rightarrow> soc \<Rightarrow> soc" where
  "latency E w = idle E (unat (delay_at E (now w))) w"

text \<open>The two phases of an APB transfer of rtl/bus/axi4_apb_bridge.sv.\<close>

definition cpu_apb :: "bool \<Rightarrow> bool \<Rightarrow> u32 \<Rightarrow> u32 \<Rightarrow> apb_req" where
  "cpu_apb enable wr a d = \<lparr>apb_psel = True, apb_penable = enable, apb_pwrite = wr, apb_paddr = a, apb_pwdata = d\<rparr>"

definition on_apb :: "u32 \<Rightarrow> bool" where
  "on_apb a \<longleftrightarrow> uart_page a \<or> gpio_page a \<or> clint_page a"

text \<open>
  The state in which a transfer is in its access phase. A load from an address without a slave gets the
  zero of the interconnect; one from a memory or the PLIC gets what \<open>other_read\<close> says.
\<close>

definition selected :: "env \<Rightarrow> bool \<Rightarrow> u32 \<Rightarrow> u32 \<Rightarrow> soc \<Rightarrow> soc" where
  "selected E wr a d w = soc_clock E (cpu_apb False wr a d) ecall_none (latency E w)"

definition accessed :: "env \<Rightarrow> bool \<Rightarrow> u32 \<Rightarrow> u32 \<Rightarrow> soc \<Rightarrow> soc" where
  "accessed E wr a d w = latency E (soc_clock E (cpu_apb True wr a d) ecall_none (selected E wr a d w))"

definition cpu_load :: "env \<Rightarrow> u32 \<Rightarrow> soc \<Rightarrow> u32 \<times> soc" where
  "cpu_load E a w =
     (if on_apb a then
        (let w1 = selected E False a 0 w
         in (apb_prdata w1 (apb_mux (soc_bridge w1) (cpu_apb True False a 0)), accessed E False a 0 w))
      else (let w1 = latency E w
        in (if decode a = None then 0 else other_read E (now w1) a, latency E w1)))"

definition cpu_store :: "env \<Rightarrow> u32 \<Rightarrow> u32 \<Rightarrow> soc \<Rightarrow> soc" where
  "cpu_store E a v w = (if on_apb a then accessed E True a v w else latency E (latency E w))"

text \<open>
  An \<open>ecall\<close> (rtl/core/rv32im_core.sv): five clocks to fetch \<open>a7, a0, a1, a2\<close>, the request until the
  layer is done, one clock to write \<open>a0\<close> back.
\<close>

definition ecall_for :: "env \<Rightarrow> u32 \<Rightarrow> u32 list \<Rightarrow> soc \<Rightarrow> ecall_port" where
  "ecall_for E num args w =
     (let reg = (\<lambda>i. if i < length args then args ! i else unset_reg E (now w) i)
      in \<lparr>ecall_req = True, syscall_num = ucast num, syscall_arg0 = reg 0, syscall_arg1 = reg 1,
          syscall_arg2 = reg 2\<rparr>)"

partial_function (option) syscall_wait :: "env \<Rightarrow> ecall_port \<Rightarrow> soc \<Rightarrow> (u32 \<times> soc) option" where
  "syscall_wait E c w =
     (if syscall_done (soc_posix w) then Some (result_r (soc_posix w), soc_clock E apb_none c w)
      else syscall_wait E c (soc_clock E apb_none c w))"

definition soc_syscall :: "env \<Rightarrow> u32 \<Rightarrow> u32 list \<Rightarrow> soc \<Rightarrow> (u32 \<times> soc) option" where
  "soc_syscall E num args w =
     do { (r, w') \<leftarrow> syscall_wait E (ecall_for E num args w) (idle E 5 (latency E w));
          Some (r, latency E (idle E 1 w')) }"

text \<open>Which loads and stores the bus ends is the subject of \<open>Axi_Access\<close>.\<close>

definition soc_platform :: "env \<Rightarrow> soc platform" where
  "soc_platform E = \<lparr>load_ends = (\<lambda>a w. bus_answers a), load32 = cpu_load E,
     store_ends = (\<lambda>a w. bus_accepts a), store32 = cpu_store E, syscall = soc_syscall E,
     csr_clear = (\<lambda>csr bits w. latency E w)\<rparr>"

section \<open>Clocks and requests\<close>

definition idle_ctl :: "soc \<Rightarrow> bool" where
  "idle_ctl w \<longleftrightarrow> state_r (soc_posix w) = S_IDLE \<and> periph_state (soc_bridge w) = PERIPH_IDLE"

definition same_fds :: "soc \<Rightarrow> soc \<Rightarrow> bool" where
  "same_fds w w' \<longleftrightarrow> fd_valid (soc_posix w') = fd_valid (soc_posix w)
     \<and> fd_type_r (soc_posix w') = fd_type_r (soc_posix w)
     \<and> fd_base_addr (soc_posix w') = fd_base_addr (soc_posix w)
     \<and> fd_flags (soc_posix w') = fd_flags (soc_posix w)"

text \<open>The bytes the UART has received or will receive, and that the program has not read.\<close>

definition pending :: "soc \<Rightarrow> byte list" where
  "pending w = fifo_items (rx_ring (soc_uart w)) @ keyboard w"

text \<open>
  \<open>undisturbed w w'\<close>: seen from the program, the UART did nothing but transmit and receive, and the
  outputs of the GPIO kept their levels and directions.
\<close>

definition undisturbed :: "soc \<Rightarrow> soc \<Rightarrow> bool" where
  "undisturbed w w' \<longleftrightarrow> uart_wf (soc_uart w')
     \<and> ctrl_tx_en (soc_uart w') = ctrl_tx_en (soc_uart w)
     \<and> ctrl_rx_en (soc_uart w') = ctrl_rx_en (soc_uart w)
     \<and> accepted (soc_uart w') = accepted (soc_uart w) \<and> pending w' = pending w
     \<and> (\<not> fifo_full (tx_ring (soc_uart w)) \<longrightarrow> \<not> fifo_full (tx_ring (soc_uart w')))
     \<and> (fifo_items (rx_ring (soc_uart w)) \<noteq> [] \<longrightarrow> fifo_items (rx_ring (soc_uart w')) \<noteq> [])
     \<and> gpio_out_r (soc_gpio w') = gpio_out_r (soc_gpio w)
     \<and> gpio_dir_r (soc_gpio w') = gpio_dir_r (soc_gpio w)"

lemma undisturbed_refl: "uart_wf (soc_uart w) \<Longrightarrow> undisturbed w w"
  by (simp add: undisturbed_def)

lemma undisturbed_trans: "undisturbed w w' \<Longrightarrow> undisturbed w' w'' \<Longrightarrow> undisturbed w w''"
  by (simp add: undisturbed_def)

text \<open>The requests that reach the UART and the GPIO at a clock.\<close>

definition uart_req :: "soc \<Rightarrow> apb_req \<Rightarrow> apb_req" where
  "uart_req w q = select uart_page (apb_mux (soc_bridge w) q)"

definition gpio_req :: "soc \<Rightarrow> apb_req \<Rightarrow> apb_req" where
  "gpio_req w q = select gpio_page (apb_mux (soc_bridge w) q)"

lemma soc_gpio_clock [simp]:
  "soc_gpio (soc_clock E q c w) = gpio_step (gpio_req w q) (pins_at E (now w)) (soc_gpio w)"
  by (simp add: soc_clock_def Let_def gpio_req_def)

lemma soc_uart_clock [simp]:
  "soc_uart (soc_clock E q c w) = uart_step (uart_req w q) (rx_byte E w) (soc_uart w)"
  by (simp add: soc_clock_def Let_def uart_req_def)

lemma soc_posix_clock [simp]:
  "soc_posix (soc_clock E q c w) = posix_step c (rtos_port_of (soc_rtos w)) (periph_in w) (soc_posix w)"
  by (simp add: soc_clock_def Let_def)

lemma soc_rtos_clock [simp]:
  "soc_rtos (soc_clock E q c w) = rtos_clock (rtos_inputs E w) (rtos_out (soc_posix w)) (soc_rtos w)"
  by (simp add: soc_clock_def Let_def)

lemma soc_bridge_clock [simp]:
  "soc_bridge (soc_clock E q c w) = bridge_step (periph_out (soc_posix w))
     (periph_pready (periph_apb (soc_bridge w))) (soc_bridge w)"
  by (simp add: soc_clock_def Let_def)

lemma now_clock [simp]: "now (soc_clock E q c w) = Suc (now w)"
  by (simp add: soc_clock_def Let_def)

lemma pending_clock:
  assumes "uart_wf (soc_uart w)"
  shows "pending (soc_clock E q c w)
    = (if rx_fifo_pop (uart_req w q) then tl (fifo_items (rx_ring (soc_uart w))) @ keyboard w else pending w)"
proof -
  have wf: "fifo_wf (rx_ring (soc_uart w))" using assms by (simp add: uart_wf_def)
  have "length (fifo_items (rx_ring (soc_uart w))) < FIFO_DEPTH" if "\<not> fifo_full (rx_ring (soc_uart w))"
    using that ring.full_iff [OF wf] ring.items_bound [OF wf] by simp
  then show ?thesis
    by (auto simp: pending_def rx_items_step [OF assms] rx_byte_def soc_clock_def Let_def uart_req_def [symmetric])
qed

lemma clock_undisturbed:
  assumes "uart_wf (soc_uart w)" and "\<not> apb_write_en (uart_req w q)" and "\<not> rx_fifo_pop (uart_req w q)"
    and "\<not> apb_write_en (gpio_req w q)"
  shows "undisturbed w (soc_clock E q c w)"
proof -
  have np: "\<not> tx_fifo_push (uart_req w q)" using assms(2) by (simp add: tx_fifo_push_def)
  then have "accepted (soc_uart (soc_clock E q c w)) = accepted (soc_uart w)"
    using accepted_step [OF assms(1), of "uart_req w q" "rx_byte E w"] by simp
  with assms np show ?thesis
    by (simp add: undisturbed_def uart_wf_step rx_items_step pending_clock tx_room_step uart_step_quiet
        gpio_step_quiet)
qed

lemma select_simps [simp]:
  "apb_write_en (select page q) \<longleftrightarrow> apb_write_en q \<and> page (apb_paddr q)"
  "apb_read_en (select page q) \<longleftrightarrow> apb_read_en q \<and> page (apb_paddr q)"
  "reg_offset (select page q) = reg_offset q" "clint_offset (select page q) = clint_offset q"
  "apb_pwdata (select page q) = apb_pwdata q" "apb_paddr (select page q) = apb_paddr q"
  "apb_psel (select page q) \<longleftrightarrow> apb_psel q \<and> page (apb_paddr q)"
  by (auto simp: select_def apb_write_en_def apb_read_en_def reg_offset_def clint_offset_def)

lemma mux_simps [simp]:
  "periph_state b = PERIPH_IDLE \<Longrightarrow> apb_mux b q = q"
  "periph_state b = PERIPH_DONE \<Longrightarrow> apb_mux b q = q"
  "periph_state b = PERIPH_SETUP \<Longrightarrow> apb_mux b q = periph_apb b"
  "periph_state b = PERIPH_ACCESS \<Longrightarrow> apb_mux b q = periph_apb b"
  by (simp_all add: apb_mux_def periph_apb_def)

lemma cpu_apb_simps [simp]:
  "apb_write_en (cpu_apb en wr a d) \<longleftrightarrow> en \<and> wr" "apb_read_en (cpu_apb en wr a d) \<longleftrightarrow> en \<and> \<not> wr"
  "apb_paddr (cpu_apb en wr a d) = a" "apb_pwdata (cpu_apb en wr a d) = d" "apb_psel (cpu_apb en wr a d)"
  by (auto simp: cpu_apb_def apb_write_en_def apb_read_en_def)

lemma ecall_none_simps [simp]: "\<not> ecall_req ecall_none"
  by (simp add: ecall_none_def)

section \<open>Clocks of an idle system\<close>

lemma idle_ctl_clock:
  assumes "idle_ctl w" and "\<not> ecall_req c"
  shows "idle_ctl (soc_clock E q c w)" and "same_fds w (soc_clock E q c w)"
    and "uart_req w q = select uart_page q" and "gpio_req w q = select gpio_page q"
  using assms posix_step_fds [of "soc_posix w"]
  by (auto simp: idle_ctl_def same_fds_def state_next_def bridge_step_def periph_out_def Let_def uart_req_def
      gpio_req_def)

text \<open>\<open>passes E w w'\<close>: from \<open>w\<close> to \<open>w'\<close> by clocks in which the core at most reads registers.\<close>

inductive passes :: "env \<Rightarrow> soc \<Rightarrow> soc \<Rightarrow> bool" for E w where
  stay: "passes E w w"
| clock: "passes E w w' \<Longrightarrow> \<not> apb_write_en q \<Longrightarrow> \<not> (rx_fifo_pop q \<and> uart_page (apb_paddr q))
    \<Longrightarrow> passes E w (soc_clock E q ecall_none w')"

inductive_simps passes_simp: "passes E w w'"

lemma passes_trans: "passes E w' w'' \<Longrightarrow> passes E w w' \<Longrightarrow> passes E w w''"
  by (induction rule: passes.induct) (auto intro: passes.intros)

lemma passes_idle: "passes E w (idle E n w)"
  by (induction n) (auto simp: idle_def rx_fifo_pop_def intro: passes.intros)

lemma passes_latency: "passes E w (latency E w)"
  by (simp add: latency_def passes_idle)

lemma passes_selected: "passes E w (selected E wr a d w)"
  unfolding selected_def
  by (rule passes.clock [OF passes_latency]) (simp_all add: rx_fifo_pop_def)

lemma select_pop: "rx_fifo_pop (select page q) \<longleftrightarrow> rx_fifo_pop q \<and> page (apb_paddr q)"
  by (auto simp: rx_fifo_pop_def)

lemma passes_idle_ctl:
  assumes "passes E w w'" and "idle_ctl w" and "uart_wf (soc_uart w)"
  shows "idle_ctl w' \<and> same_fds w w' \<and> undisturbed w w' \<and> uart_wf (soc_uart w')"
  using assms
proof (induction rule: passes.induct)
  case stay
  then show ?case by (simp add: same_fds_def undisturbed_refl)
next
  case (clock w' q)
  let ?w = "soc_clock E q ecall_none w'"
  have w': "idle_ctl w'" "same_fds w w'" "undisturbed w w'" "uart_wf (soc_uart w')" using clock by auto
  note c = idle_ctl_clock [OF w'(1) ecall_none_simps, where q = q]
  have u: "undisturbed w' ?w"
    using clock.hyps(2,3) w'(4) by (intro clock_undisturbed) (auto simp: c(3,4) select_pop)
  have "same_fds w ?w" using c(2) w'(2) by (simp add: same_fds_def)
  with c(1) u undisturbed_trans [OF w'(3) u] show ?case by (simp add: undisturbed_def)
qed

lemma passes_now: "passes E w w' \<Longrightarrow> now w \<le> now w'"
  by (induction rule: passes.induct) auto

text \<open>The timer counts the clocks.\<close>

lemma passes_time:
  assumes "passes E w w'" and "idle_ctl w"
  shows "idle_ctl w' \<and> mtime_r (soc_clint w') = after_clocks (now w' - now w) (mtime_r (soc_clint w))"
  using assms
proof (induction rule: passes.induct)
  case (clock w' q)
  have w': "idle_ctl w'" using clock by simp
  have "now (soc_clock E q ecall_none w') - now w = (now w' - now w) + 1"
    using passes_now [OF clock.hyps(1)] by simp
  moreover have "soc_clint (soc_clock E q ecall_none w') = clint_step (select clint_page q) (soc_clint w')"
    using w' by (simp add: soc_clock_def Let_def idle_ctl_def)
  ultimately show ?case
    using clock idle_ctl_clock [OF w' ecall_none_simps, where q = q]
    by (simp add: mtime_step after_clocks_def)
qed simp

end
