(* ===== verification/Soc_Calls.thy ===== *)
theory Soc_Calls
  imports Soc_Clock
begin

text \<open>
  System calls on the SoC, clock by clock: how the request of the core goes through the POSIX layer
  and, for a call on an open descriptor, through the peripheral bridge to the device.
\<close>

section \<open>The steps every call takes\<close>

abbreviation tick :: "env \<Rightarrow> ecall_port \<Rightarrow> soc \<Rightarrow> soc" where
  "tick E c w \<equiv> soc_clock E apb_none c w"

text \<open>The layer with the arguments of the request.\<close>

definition with_args :: "ecall_port \<Rightarrow> posix \<Rightarrow> posix" where
  "with_args c p = p\<lparr>state_r := S_FILE_OP, latched_syscall_num := syscall_num c,
     latched_arg0 := syscall_arg0 c, latched_arg1 := syscall_arg1 c, latched_arg2 := syscall_arg2 c\<rparr>"

lemma with_args_simps [simp]:
  "state_r (with_args c p) = S_FILE_OP" "latched_syscall_num (with_args c p) = syscall_num c"
  "latched_arg0 (with_args c p) = syscall_arg0 c" "latched_arg1 (with_args c p) = syscall_arg1 c"
  "latched_arg2 (with_args c p) = syscall_arg2 c" "fd_valid (with_args c p) = fd_valid p"
  "fd_type_r (with_args c p) = fd_type_r p" "fd_base_addr (with_args c p) = fd_base_addr p"
  "fd_flags (with_args c p) = fd_flags p"
  by (simp_all add: with_args_def)

lemma periph_apb_simps [simp]:
  "apb_write_en (periph_apb b) \<longleftrightarrow> periph_state b = PERIPH_ACCESS \<and> periph_is_write_r b"
  "apb_read_en (periph_apb b) \<longleftrightarrow> periph_state b = PERIPH_ACCESS \<and> \<not> periph_is_write_r b"
  "apb_paddr (periph_apb b) = periph_addr_r b" "apb_pwdata (periph_apb b) = periph_wdata_r b"
  by (auto simp: periph_apb_def apb_write_en_def apb_read_en_def)

lemma uart_req_quiet:
  "\<not> apb_write_en (uart_req w apb_none) \<and> \<not> rx_fifo_pop (uart_req w apb_none)
    \<and> \<not> apb_write_en (gpio_req w apb_none)"
  if "periph_state (soc_bridge w) \<noteq> PERIPH_ACCESS" for w
  using that
  by (cases "periph_state (soc_bridge w)")
    (auto simp: uart_req_def gpio_req_def rx_fifo_pop_def)

lemma tick_undisturbed:
  assumes "uart_wf (soc_uart w)" and "periph_state (soc_bridge w) \<noteq> PERIPH_ACCESS"
  shows "undisturbed w (tick E c w)"
  using uart_req_quiet [OF assms(2)] by (intro clock_undisturbed assms(1)) simp_all

lemma same_fds_trans: "same_fds w w' \<Longrightarrow> same_fds w' w'' \<Longrightarrow> same_fds w w''"
  by (simp add: same_fds_def)

lemma undisturbed_wf: "undisturbed w w' \<Longrightarrow> uart_wf (soc_uart w')"
  by (simp add: undisturbed_def)

lemma call_waits: "state_r (soc_posix w) \<noteq> S_COMPLETE \<Longrightarrow> syscall_wait E c w = syscall_wait E c (tick E c w)"
  by (subst syscall_wait.simps) (simp add: syscall_done_def)

text \<open>The two clocks that latch and decode the request.\<close>

definition op_state :: "posix_state_t \<Rightarrow> ecall_port \<Rightarrow> soc \<Rightarrow> soc \<Rightarrow> bool" where
  "op_state S c w w' \<longleftrightarrow> state_r (soc_posix w') = S \<and> periph_state (soc_bridge w') = PERIPH_IDLE
     \<and> latched_syscall_num (soc_posix w') = syscall_num c \<and> latched_arg0 (soc_posix w') = syscall_arg0 c
     \<and> latched_arg1 (soc_posix w') = syscall_arg1 c \<and> latched_arg2 (soc_posix w') = syscall_arg2 c
     \<and> same_fds w w' \<and> undisturbed w w'"

lemma call_start:
  assumes w: "idle_ctl w" "uart_wf (soc_uart w)" and c: "ecall_req c" "decode_state (with_args c (soc_posix w)) = S"
  shows "syscall_wait E c w = syscall_wait E c (tick E c (tick E c w))"
    and "op_state S c w (tick E c (tick E c w))"
proof -
  let ?p = "soc_posix w" and ?w1 = "tick E c w"
  have idle: "state_r ?p = S_IDLE" "periph_state (soc_bridge w) = PERIPH_IDLE"
    using w(1) by (simp_all add: idle_ctl_def)
  have l1: "state_r (soc_posix ?w1) = S_DECODE" "latched_syscall_num (soc_posix ?w1) = syscall_num c"
    "latched_arg0 (soc_posix ?w1) = syscall_arg0 c" "latched_arg1 (soc_posix ?w1) = syscall_arg1 c"
    "latched_arg2 (soc_posix ?w1) = syscall_arg2 c" "periph_state (soc_bridge ?w1) = PERIPH_IDLE"
    using idle c(1)
    by (simp_all add: state_next_def Let_def posix_step_latch bridge_step_def periph_out_def)
  have s1: "same_fds w ?w1" using idle by (simp add: same_fds_def posix_step_fds)
  have u1: "undisturbed w ?w1" using idle w(2) by (simp add: tick_undisturbed)
  have "decode_state (soc_posix ?w1) = S"
    using c(2) l1(2) by (simp add: decode_state_def syscall_category_def del: soc_posix_clock)
  then have l2: "state_r (soc_posix (tick E c ?w1)) = S"
    "periph_state (soc_bridge (tick E c ?w1)) = PERIPH_IDLE"
    using l1 by (simp_all add: soc_posix_clock [of E apb_none c ?w1] soc_bridge_clock [of E apb_none c ?w1]
        state_next_def bridge_step_def periph_out_def Let_def del: soc_posix_clock soc_bridge_clock)
  have l3: "latched_syscall_num (soc_posix (tick E c ?w1)) = syscall_num c"
    "latched_arg0 (soc_posix (tick E c ?w1)) = syscall_arg0 c"
    "latched_arg1 (soc_posix (tick E c ?w1)) = syscall_arg1 c"
    "latched_arg2 (soc_posix (tick E c ?w1)) = syscall_arg2 c"
    using l1 by (simp_all add: soc_posix_clock [of E apb_none c ?w1] posix_step_latched del: soc_posix_clock)
  have s2: "same_fds ?w1 (tick E c ?w1)"
    using l1 by (simp add: same_fds_def soc_posix_clock [of E apb_none c ?w1] posix_step_fds del: soc_posix_clock)
  have u2: "undisturbed ?w1 (tick E c ?w1)"
    using l1 by (intro tick_undisturbed undisturbed_wf [OF u1]) (simp del: soc_bridge_clock)
  show "op_state S c w (tick E c ?w1)"
    using l2 l3 same_fds_trans [OF s1 s2] undisturbed_trans [OF u1 u2] by (simp add: op_state_def)
  show "syscall_wait E c w = syscall_wait E c (tick E c ?w1)"
    using call_waits [of w E c] call_waits [of ?w1 E c] idle l1(1) by simp
qed

text \<open>The last clock of every call.\<close>

lemma call_end:
  assumes "state_r (soc_posix w) = S_COMPLETE" and "periph_state (soc_bridge w) = PERIPH_IDLE"
    and "uart_wf (soc_uart w)"
  shows "syscall_wait E c w = Some (result_r (soc_posix w), tick E c w)"
    and "idle_ctl (tick E c w)" "same_fds w (tick E c w)" "undisturbed w (tick E c w)"
proof -
  show "syscall_wait E c w = Some (result_r (soc_posix w), tick E c w)"
    by (subst syscall_wait.simps) (simp add: syscall_done_def assms(1))
  show "idle_ctl (tick E c w)" "same_fds w (tick E c w)" "undisturbed w (tick E c w)"
    using assms
    by (simp_all add: idle_ctl_def same_fds_def posix_step_fds tick_undisturbed state_next_def Let_def
        bridge_step_def periph_out_def)
qed

section \<open>Calls that the layer answers by itself\<close>

text \<open>What a file operation sees is the layer as it was, with the arguments of the request.\<close>

lemma file_agree:
  assumes "op_state S_FILE_OP c w v"
  shows "file_result (soc_posix v) = file_result (with_args c (soc_posix w))"
    and "fd_open (soc_posix v) = fd_open (with_args c (soc_posix w))"
    and "fd_index (soc_posix v) = fd_index (with_args c (soc_posix w))"
    and "syscall_subop (soc_posix v) = unat (syscall_num c) mod 16"
    and "free_fd_idx (soc_posix v) = free_fd_idx (with_args c (soc_posix w))"
    and "device_type (soc_posix v) = device_type (with_args c (soc_posix w))"
  using assms
  by (simp_all add: op_state_def same_fds_def file_result_def fd_open_def fd_index_def
      free_fd_idx_def device_type_def syscall_subop_def Let_def)

text \<open>The descriptor table after the call.\<close>

definition fds_after :: "ecall_port \<Rightarrow> soc \<Rightarrow> soc \<Rightarrow> bool" where
  "fds_after c w w' \<longleftrightarrow> (let q = with_args c (soc_posix w); q' = fd_update q q in
     fd_valid (soc_posix w') = fd_valid q' \<and> fd_type_r (soc_posix w') = fd_type_r q'
     \<and> fd_base_addr (soc_posix w') = fd_base_addr q' \<and> fd_flags (soc_posix w') = fd_flags q')"

lemma fds_after_step:
  assumes "op_state S_FILE_OP c w v"
  shows "fds_after c w (tick E c v)"
  using assms
  by (simp add: fds_after_def Let_def posix_step_def fd_update_def file_agree [OF assms])
    (auto simp: op_state_def same_fds_def syscall_subop_def)

lemma fds_after_same: "fds_after c w w' \<Longrightarrow> same_fds w' w'' \<Longrightarrow> fds_after c w w''"
  by (simp add: fds_after_def same_fds_def Let_def)

lemma call_internal:
  assumes v: "op_state S_FILE_OP c w v" and op: "unat (syscall_num c) mod 16 \<notin> {2, 3, 4} \<or> \<not> fd_open (with_args c (soc_posix w))"
  shows "\<exists>w'. syscall_wait E c v = Some (file_result (with_args c (soc_posix w)), w')
    \<and> idle_ctl w' \<and> undisturbed w w' \<and> fds_after c w w'"
proof -
  let ?v = "tick E c v"
  have st: "state_r (soc_posix v) = S_FILE_OP" "periph_state (soc_bridge v) = PERIPH_IDLE" "undisturbed w v"
    using v by (simp_all add: op_state_def)
  have none: "periph_out (soc_posix v) = None"
    using op st by (auto simp: periph_out_def Let_def file_agree [OF v])
  have fin: "state_r (soc_posix ?v) = S_COMPLETE" "periph_state (soc_bridge ?v) = PERIPH_IDLE"
    "result_r (soc_posix ?v) = file_result (with_args c (soc_posix w))"
    using op st none by (auto simp: state_next_def result_next_def Let_def bridge_step_def file_agree [OF v])
  have u: "undisturbed w ?v"
    using st by (intro undisturbed_trans [OF st(3)] tick_undisturbed undisturbed_wf [OF st(3)]) simp
  note e = call_end [OF fin(1,2) undisturbed_wf [OF u], of E c]
  have "syscall_wait E c v = syscall_wait E c ?v" using st by (intro call_waits) simp
  with e fin(3) undisturbed_trans [OF u e(4)] fds_after_same [OF fds_after_step [OF v] e(3)]
  show ?thesis by auto
qed

section \<open>Calls that go to a device\<close>

text \<open>The bridge in the middle of a transfer the layer waits for.\<close>

definition transfer :: "periph_bridge_state_t \<Rightarrow> bool \<Rightarrow> u32 \<Rightarrow> u32 \<Rightarrow> soc \<Rightarrow> bool" where
  "transfer st wr a d w \<longleftrightarrow> state_r (soc_posix w) = S_PERIPH_WAIT \<and> periph_state (soc_bridge w) = st
     \<and> periph_addr_r (soc_bridge w) = a \<and> periph_wdata_r (soc_bridge w) = d
     \<and> periph_is_write_r (soc_bridge w) = wr"

lemma transfer_tick:
  shows "transfer PERIPH_SETUP wr a d w \<Longrightarrow> transfer PERIPH_ACCESS wr a d (tick E c w)"
    and "transfer PERIPH_ACCESS wr a d w \<Longrightarrow> transfer PERIPH_DONE wr a d (tick E c w)"
    and "transfer st wr a d w \<Longrightarrow> same_fds w (tick E c w)"
    and "transfer st wr a d w \<Longrightarrow> syscall_wait E c w = syscall_wait E c (tick E c w)"
proof -
  show "transfer PERIPH_SETUP wr a d w \<Longrightarrow> transfer PERIPH_ACCESS wr a d (tick E c w)"
    by (simp add: transfer_def state_next_def bridge_step_def periph_in_def Let_def)
  show "transfer PERIPH_ACCESS wr a d w \<Longrightarrow> transfer PERIPH_DONE wr a d (tick E c w)"
    by (auto simp: transfer_def state_next_def bridge_step_def periph_in_def Let_def periph_pready_def
        uart_pready_def) (simp_all add: periph_apb_def)
  show "transfer st wr a d w \<Longrightarrow> same_fds w (tick E c w)"
    by (simp add: transfer_def same_fds_def posix_step_fds)
  show "transfer st wr a d w \<Longrightarrow> syscall_wait E c w = syscall_wait E c (tick E c w)"
    by (rule call_waits) (simp add: transfer_def)
qed

text \<open>When the transfer is done the bus is released, and the layer reads zero.\<close>

lemma transfer_done:
  assumes "transfer PERIPH_DONE wr a d w"
  shows "state_r (soc_posix (tick E c w)) = S_COMPLETE" "periph_state (soc_bridge (tick E c w)) = PERIPH_IDLE"
    "result_r (soc_posix (tick E c w)) = 0"
  using assms
  by (simp_all add: transfer_def state_next_def result_next_def bridge_step_def periph_in_def Let_def
      apb_prdata_def periph_apb_def)

text \<open>The layer asks for a transfer exactly when it goes on to wait for it.\<close>

lemma periph_out_wait: "periph_out p \<noteq> None \<longleftrightarrow> state_r p \<noteq> S_PERIPH_WAIT \<and> state_next c k d p = S_PERIPH_WAIT"
proof (cases "state_r p")
  case S_DECODE
  then show ?thesis by (simp add: periph_out_def state_next_def Let_def decode_state_def)
next
  case S_FILE_OP
  then show ?thesis by (auto simp: periph_out_def state_next_def Let_def)
next
  case S_TIMER_OP
  then show ?thesis by (auto simp: periph_out_def state_next_def Let_def)
qed (simp_all add: periph_out_def state_next_def Let_def)

lemma call_transfer:
  assumes v: "op_state S c w v" and out: "periph_out (soc_posix v) = Some (wr, a, d)"
    and fds: "S \<noteq> S_FILE_OP \<or> unat (syscall_num c) mod 16 > 1"
  shows "\<exists>w2 w'. undisturbed w w2 \<and> transfer PERIPH_ACCESS wr a d w2 \<and> undisturbed (tick E c w2) w'
    \<and> syscall_wait E c v = Some (0, w') \<and> idle_ctl w' \<and> same_fds w w'"
proof -
  let ?v1 = "tick E c v" let ?v2 = "tick E c ?v1" let ?v3 = "tick E c ?v2" let ?v4 = "tick E c ?v3"
  have st: "state_r (soc_posix v) = S" "periph_state (soc_bridge v) = PERIPH_IDLE" "undisturbed w v" "same_fds w v"
    using v by (simp_all add: op_state_def)
  have t1: "transfer PERIPH_SETUP wr a d ?v1"
    using st out periph_out_wait [of "soc_posix v"] by (simp add: transfer_def bridge_step_def)
  note t2 = transfer_tick(1) [OF t1, of E c] and t3 = transfer_tick(2) [OF transfer_tick(1) [OF t1], of E c E c]
  note fin = transfer_done [OF t3, of E c]
  have u1: "undisturbed v ?v1" using st by (intro tick_undisturbed undisturbed_wf [OF st(3)]) simp
  have u2: "undisturbed ?v1 ?v2"
    using t1 by (intro tick_undisturbed undisturbed_wf [OF u1]) (simp del: soc_bridge_clock add: transfer_def)
  note u02 = undisturbed_trans [OF undisturbed_trans [OF st(3) u1] u2]
  have wf3: "uart_wf (soc_uart ?v3)"
    using undisturbed_wf [OF u2] soc_uart_clock [of E apb_none c ?v2] uart_wf_step
    by (simp del: soc_uart_clock)
  have u4: "undisturbed ?v3 ?v4"
    using t3 by (intro tick_undisturbed wf3) (simp del: soc_bridge_clock add: transfer_def)
  note e = call_end [OF fin(1,2) undisturbed_wf [OF u4], of E c]
  have "same_fds v ?v1"
    using fds st v by (auto simp: same_fds_def posix_step_fds op_state_def syscall_subop_def)
  then have "same_fds w ?v4"
    using st(4) transfer_tick(3) [OF t1, of E c] transfer_tick(3) [OF t2, of E c] transfer_tick(3) [OF t3, of E c]
    by (meson same_fds_trans)
  with e(3) have "same_fds w (tick E c ?v4)" by (meson same_fds_trans)
  moreover have "state_r (soc_posix v) \<noteq> S_COMPLETE" using out by (auto simp: periph_out_def)
  then have "syscall_wait E c v = syscall_wait E c ?v4"
    using transfer_tick(4) [OF t1, of E c] transfer_tick(4) [OF t2, of E c] transfer_tick(4) [OF t3, of E c]
      call_waits [of v E c] by simp
  ultimately show ?thesis using e fin(3) undisturbed_trans [OF u4 e(4)] t2 u02 by metis
qed

text \<open>The access phase of a write to the transmit register: the byte is accepted.\<close>

definition delivered :: "byte \<Rightarrow> soc \<Rightarrow> soc \<Rightarrow> bool" where
  "delivered b w w' \<longleftrightarrow> uart_wf (soc_uart w') \<and> accepted (soc_uart w') = accepted (soc_uart w) @ [b]
     \<and> pending w' = pending w \<and> ctrl_tx_en (soc_uart w') = ctrl_tx_en (soc_uart w)
     \<and> ctrl_rx_en (soc_uart w') = ctrl_rx_en (soc_uart w)"

lemma delivered_trans:
  "undisturbed w w' \<Longrightarrow> delivered b w' w'' \<Longrightarrow> delivered b w w''"
  "delivered b w w' \<Longrightarrow> undisturbed w' w'' \<Longrightarrow> delivered b w w''"
  by (simp_all add: delivered_def undisturbed_def)

lemma transfer_request:
  assumes "transfer PERIPH_ACCESS wr a d w"
  shows "apb_write_en (uart_req w apb_none) \<longleftrightarrow> wr \<and> uart_page a"
    "apb_read_en (uart_req w apb_none) \<longleftrightarrow> \<not> wr \<and> uart_page a"
    "reg_offset (uart_req w apb_none) = a AND 0xFF" "apb_pwdata (uart_req w apb_none) = d"
    "apb_write_en (gpio_req w apb_none) \<longleftrightarrow> wr \<and> gpio_page a"
    "reg_offset (gpio_req w apb_none) = a AND 0xFF" "apb_pwdata (gpio_req w apb_none) = d"
  using assms by (simp_all add: transfer_def uart_req_def gpio_req_def reg_offset_def)

lemma uart_base_page: "uart_page UART_BASE" "uart_page (UART_BASE + 4)"
  by (simp_all add: uart_page_def in_page_def hw_defs)

lemma transfer_uart_write:
  assumes w: "transfer PERIPH_ACCESS True UART_BASE d w" and wf: "uart_wf (soc_uart w)"
    and room: "\<not> fifo_full (tx_ring (soc_uart w))"
  shows "delivered (ucast d) w (tick E c w)"
proof -
  note q = transfer_request [OF w]
  have push: "tx_fifo_push (uart_req w apb_none)" "\<not> rx_fifo_pop (uart_req w apb_none)"
    using q by (simp_all add: tx_fifo_push_def rx_fifo_pop_def uart_base_page) (simp add: hw_defs)
  have "accepted (soc_uart (tick E c w)) = accepted (soc_uart w) @ [ucast d]"
    using accepted_step [OF wf, of "uart_req w apb_none"] room push q by simp
  moreover have "ctrl_tx_en (soc_uart (tick E c w)) = ctrl_tx_en (soc_uart w)"
    "ctrl_rx_en (soc_uart (tick E c w)) = ctrl_rx_en (soc_uart w)"
    using q by (simp_all add: uart_step_def Let_def hw_defs)
  ultimately show ?thesis using wf push by (simp add: delivered_def uart_wf_step pending_clock [OF wf])
qed

text \<open>The access phase of a read of the receive register: its byte is taken.\<close>

lemma transfer_uart_read:
  assumes w: "transfer PERIPH_ACCESS False (UART_BASE + 4) d w" and wf: "uart_wf (soc_uart w)"
  shows "uart_wf (soc_uart (tick E c w))" "accepted (soc_uart (tick E c w)) = accepted (soc_uart w)"
    "pending (tick E c w) = tl (fifo_items (rx_ring (soc_uart w))) @ keyboard w"
    "ctrl_tx_en (soc_uart (tick E c w)) = ctrl_tx_en (soc_uart w)"
    "ctrl_rx_en (soc_uart (tick E c w)) = ctrl_rx_en (soc_uart w)"
proof -
  note q = transfer_request [OF w]
  have nw: "\<not> apb_write_en (uart_req w apb_none)" using q by simp
  then have np: "\<not> tx_fifo_push (uart_req w apb_none)" by (simp add: tx_fifo_push_def)
  have "rx_fifo_pop (uart_req w apb_none)"
    using q by (simp add: rx_fifo_pop_def uart_base_page) (simp add: hw_defs)
  then show "pending (tick E c w) = tl (fifo_items (rx_ring (soc_uart w))) @ keyboard w"
    by (simp add: pending_clock [OF wf])
  show "accepted (soc_uart (tick E c w)) = accepted (soc_uart w)"
    using accepted_step [OF wf, of "uart_req w apb_none" "rx_byte E w"] np by simp
  show "uart_wf (soc_uart (tick E c w))" "ctrl_tx_en (soc_uart (tick E c w)) = ctrl_tx_en (soc_uart w)"
    "ctrl_rx_en (soc_uart (tick E c w)) = ctrl_rx_en (soc_uart w)"
    using wf nw by (simp_all add: uart_wf_step uart_step_quiet)
qed

text \<open>A transfer to another device leaves the two alone.\<close>

lemma transfer_elsewhere:
  assumes w: "transfer PERIPH_ACCESS wr a d w" and wf: "uart_wf (soc_uart w)" and a: "\<not> uart_page a" "\<not> gpio_page a"
  shows "undisturbed w (tick E c w)"
  using transfer_request [OF w] a by (intro clock_undisturbed wf) (simp_all add: rx_fifo_pop_def)

lemma call_write:
  assumes v: "op_state S_FILE_OP c w v" and op: "unat (syscall_num c) mod 16 = 3"
    and fd: "fd_open (with_args c (soc_posix w))"
      "fd_base_addr (soc_posix w) ! fd_index (with_args c (soc_posix w)) = UART_BASE"
    and room: "\<not> fifo_full (tx_ring (soc_uart w))"
  shows "\<exists>w'. syscall_wait E c v = Some (0, w') \<and> idle_ctl w' \<and> same_fds w w'
    \<and> delivered (ucast (syscall_arg1 c)) w w'"
proof -
  have out: "periph_out (soc_posix v) = Some (True, UART_BASE, syscall_arg1 c)"
    using op fd v by (simp add: periph_out_def Let_def file_agree [OF v] same_fds_def op_state_def)
  obtain w2 w' where w2: "undisturbed w w2" "transfer PERIPH_ACCESS True UART_BASE (syscall_arg1 c) w2"
    "undisturbed (tick E c w2) w'" "syscall_wait E c v = Some (0, w')" "idle_ctl w'" "same_fds w w'"
    using call_transfer [OF v out, of E] op by auto
  have "delivered (ucast (syscall_arg1 c)) w2 (tick E c w2)"
    using w2(1) room by (intro transfer_uart_write w2(2) undisturbed_wf [OF w2(1)]) (simp add: undisturbed_def)
  with w2 show ?thesis using delivered_trans by blast
qed

section \<open>The calls as the program sees them\<close>

lemma ecall_for_simps [simp]:
  "ecall_req (ecall_for E num args w)" "syscall_num (ecall_for E num args w) = ucast num"
  "syscall_arg0 (ecall_for E num args w) = (if 0 < length args then args ! 0 else unset_reg E (now w) 0)"
  "syscall_arg1 (ecall_for E num args w) = (if 1 < length args then args ! 1 else unset_reg E (now w) 1)"
  "syscall_arg2 (ecall_for E num args w) = (if 2 < length args then args ! 2 else unset_reg E (now w) 2)"
  by (simp_all add: ecall_for_def Let_def)

text \<open>The state in which the operation of a system call is decoded.\<close>

definition call_state :: "u32 \<Rightarrow> posix_state_t" where
  "call_state num = decode_state (posix_reset\<lparr>latched_syscall_num := ucast num\<rparr>)"

definition file_call :: "u32 \<Rightarrow> bool" where
  "file_call num \<longleftrightarrow> call_state num = S_FILE_OP"

lemma decode_call: "syscall_num c = ucast num \<Longrightarrow> decode_state (with_args c p) = call_state num"
  by (simp add: call_state_def decode_state_def syscall_category_def)

lemma idle_passes:
  assumes "idle_ctl w" and "uart_wf (soc_uart w)"
  shows "idle_ctl (idle E n w)" "same_fds w (idle E n w)" "undisturbed w (idle E n w)"
    "idle_ctl (latency E w)" "same_fds w (latency E w)" "undisturbed w (latency E w)"
  using passes_idle_ctl [OF passes_idle assms] passes_idle_ctl [OF passes_latency assms] by auto

lemma syscall_to_op:
  assumes w: "idle_ctl w" "uart_wf (soc_uart w)"
  shows "\<exists>w0 v. same_fds w w0 \<and> undisturbed w w0 \<and> op_state (call_state num) (ecall_for E num args w) w0 v
    \<and> soc_syscall E num args w = do { (r, w') \<leftarrow> syscall_wait E (ecall_for E num args w) v;
          Some (r, latency E (idle E 1 w')) }"
proof -
  let ?c = "ecall_for E num args w" and ?w1 = "latency E w" and ?w0 = "idle E 5 (latency E w)"
  note l = idle_passes(4-6) [OF w, of E]
  note i = idle_passes(1-3) [OF l(1) undisturbed_wf [OF l(3)], of E 5]
  have "same_fds w ?w0" "undisturbed w ?w0"
    using same_fds_trans [OF l(2) i(2)] undisturbed_trans [OF l(3) i(3)] by simp_all
  moreover have "decode_state (with_args ?c (soc_posix ?w0)) = call_state num" by (rule decode_call) simp
  note c = call_start [OF i(1) undisturbed_wf [OF i(3)] ecall_for_simps(1) this, of E]
  ultimately show ?thesis unfolding soc_syscall_def
    by (intro exI [of _ ?w0] exI [of _ "tick E ?c (tick E ?c ?w0)"]) (simp add: c)
qed

lemma after_call:
  assumes "idle_ctl w" and "uart_wf (soc_uart w)"
  shows "idle_ctl (latency E (idle E n w))" "same_fds w (latency E (idle E n w))"
    "undisturbed w (latency E (idle E n w))"
proof -
  note i = idle_passes(1-3) [OF assms, of E n]
  note l = idle_passes(4-6) [OF i(1) undisturbed_wf [OF i(3)], of E]
  show "idle_ctl (latency E (idle E n w))" "same_fds w (latency E (idle E n w))"
    "undisturbed w (latency E (idle E n w))"
    using l(1) same_fds_trans [OF i(2) l(2)] undisturbed_trans [OF i(3) l(3)] by simp_all
qed

lemma with_args_fds: "same_fds w w0 \<Longrightarrow> fd_open (with_args c (soc_posix w0)) = fd_open (with_args c (soc_posix w))
    \<and> file_result (with_args c (soc_posix w0)) = file_result (with_args c (soc_posix w))
    \<and> fd_index (with_args c (soc_posix w0)) = fd_index (with_args c (soc_posix w))
    \<and> (fds_after c w0 w' = fds_after c w w')"
  by (simp add: same_fds_def file_result_def fd_open_def fd_index_def free_fd_idx_def device_type_def
      syscall_subop_def Let_def fds_after_def fd_update_def)

theorem internal_call:
  assumes w: "idle_ctl w" "uart_wf (soc_uart w)" and num: "file_call num"
    and c: "c = ecall_for E num args w"
    and op: "unat (ucast num :: byte) mod 16 \<notin> {2, 3, 4} \<or> \<not> fd_open (with_args c (soc_posix w))"
  shows "\<exists>w'. soc_syscall E num args w = Some (file_result (with_args c (soc_posix w)), w')
    \<and> idle_ctl w' \<and> undisturbed w w' \<and> fds_after c w w'"
proof -
  obtain w0 v where w0: "same_fds w w0" "undisturbed w w0" "op_state S_FILE_OP c w0 v"
    and s: "soc_syscall E num args w = do { (r, w') \<leftarrow> syscall_wait E c v; Some (r, latency E (idle E 1 w')) }"
    using syscall_to_op [OF w, of num] num c unfolding file_call_def by metis
  note eq = with_args_fds [OF w0(1), of c]
  have "unat (syscall_num c) mod 16 \<notin> {2, 3, 4} \<or> \<not> fd_open (with_args c (soc_posix w0))"
    using op eq by (simp add: c)
  from call_internal [OF w0(3) this, of E] obtain w' where
    w': "syscall_wait E c v = Some (file_result (with_args c (soc_posix w0)), w')" "idle_ctl w'"
      "undisturbed w0 w'" "fds_after c w0 w'" by blast
  note a = after_call [OF w'(2) undisturbed_wf [OF w'(3)], of E 1]
  have "undisturbed w (latency E (idle E 1 w'))"
    using undisturbed_trans [OF undisturbed_trans [OF w0(2) w'(3)] a(3)] .
  moreover have "fds_after c w (latency E (idle E 1 w'))"
    using fds_after_same [OF w'(4) a(2)] eq by blast
  ultimately show ?thesis using s w'(1) a(1) eq by simp
qed

theorem write_call:
  assumes w: "idle_ctl w" "uart_wf (soc_uart w)" and fd: "unat fd < 16" "fd_valid (soc_posix w) ! unat fd"
      "fd_base_addr (soc_posix w) ! unat fd = UART_BASE"
    and room: "\<not> fifo_full (tx_ring (soc_uart w))"
  shows "\<exists>w'. soc_syscall E SYS_WRITE [fd, d, n] w = Some (0, w')
    \<and> idle_ctl w' \<and> same_fds w w' \<and> delivered (ucast d) w w'"
proof -
  let ?c = "ecall_for E SYS_WRITE [fd, d, n] w"
  have num: "file_call SYS_WRITE"
    by (simp add: file_call_def call_state_def decode_state_def syscall_category_def SYS_WRITE_def)
  obtain w0 v where w0: "same_fds w w0" "undisturbed w w0" "op_state S_FILE_OP ?c w0 v"
    and s: "soc_syscall E SYS_WRITE [fd, d, n] w
      = do { (r, w') \<leftarrow> syscall_wait E ?c v; Some (r, latency E (idle E 1 w')) }"
    using syscall_to_op [OF w, of SYS_WRITE E "[fd, d, n]"] num unfolding file_call_def by auto
  have "unat (syscall_num ?c) mod 16 = 3" by (simp add: SYS_WRITE_def)
  moreover have "fd_open (with_args ?c (soc_posix w0))"
    "fd_base_addr (soc_posix w0) ! fd_index (with_args ?c (soc_posix w0)) = UART_BASE"
    using fd w0(1) by (simp_all add: fd_open_def fd_index_def MAX_FD_def same_fds_def)
  moreover have "\<not> fifo_full (tx_ring (soc_uart w0))" using room w0(2) by (simp add: undisturbed_def)
  ultimately obtain w' where w': "syscall_wait E ?c v = Some (0, w')" "idle_ctl w'" "same_fds w0 w'"
    "delivered (ucast (syscall_arg1 ?c)) w0 w'"
    using call_write [OF w0(3), of E] by blast
  have "uart_wf (soc_uart w')" using w'(4) by (simp add: delivered_def)
  note a = after_call [OF w'(2) this, of E 1]
  show ?thesis
    using s w'(1) a(1) same_fds_trans [OF same_fds_trans [OF w0(1) w'(3)] a(2)]
      delivered_trans(2) [OF delivered_trans(1) [OF w0(2) w'(4)] a(3)] by simp
qed

text \<open>
  A \<open>read\<close> from a descriptor on the UART takes the next received byte, and returns 0: the data the
  bus delivers are gone when the layer looks.
\<close>

theorem read_call:
  assumes w: "idle_ctl w" "uart_wf (soc_uart w)" and fd: "unat fd < 16" "fd_valid (soc_posix w) ! unat fd"
      "fd_base_addr (soc_posix w) ! unat fd = UART_BASE" "fd_type_r (soc_posix w) ! unat fd = FD_TYPE_UART"
    and key: "fifo_items (rx_ring (soc_uart w)) \<noteq> []"
  shows "\<exists>w'. soc_syscall E SYS_READ [fd, buf, n] w = Some (0, w') \<and> idle_ctl w' \<and> uart_wf (soc_uart w')
    \<and> pending w' = tl (pending w) \<and> accepted (soc_uart w') = accepted (soc_uart w)"
proof -
  let ?c = "ecall_for E SYS_READ [fd, buf, n] w"
  have num: "call_state SYS_READ = S_FILE_OP"
    by (simp add: call_state_def decode_state_def syscall_category_def posix_defs)
  have op: "unat (syscall_num ?c) mod 16 = 2" by (simp add: posix_defs)
  obtain w0 v where w0: "same_fds w w0" "undisturbed w w0" "op_state S_FILE_OP ?c w0 v"
    and s: "soc_syscall E SYS_READ [fd, buf, n] w
      = do { (r, w') \<leftarrow> syscall_wait E ?c v; Some (r, latency E (idle E 1 w')) }"
    using syscall_to_op [OF w, of SYS_READ E "[fd, buf, n]"] num by auto
  have v: "same_fds w v" "undisturbed w0 v"
    using w0(3) same_fds_trans [OF w0(1)] by (simp_all add: op_state_def)
  have "fd_open (soc_posix v)" "fd_index (soc_posix v) = unat fd"
    using fd v(1) w0(3) by (simp_all add: op_state_def fd_open_def fd_index_def MAX_FD_def same_fds_def)
  then have out: "periph_out (soc_posix v) = Some (False, UART_BASE + 4, 0)"
    using fd v(1) w0(3) op by (simp add: op_state_def periph_out_def Let_def same_fds_def syscall_subop_def)
  obtain w2 w' where w2: "undisturbed w0 w2" "transfer PERIPH_ACCESS False (UART_BASE + 4) 0 w2"
    "undisturbed (tick E ?c w2) w'" "syscall_wait E ?c v = Some (0, w')" "idle_ctl w'" "same_fds w0 w'"
    using call_transfer [OF w0(3) out, of E] op by auto
  note u = undisturbed_trans [OF w0(2) w2(1)]
  note r = transfer_uart_read [OF w2(2) undisturbed_wf [OF w2(1)], of E ?c]
  have "fifo_items (rx_ring (soc_uart w2)) \<noteq> []" using u key by (simp add: undisturbed_def)
  moreover have "fifo_items (rx_ring (soc_uart w2)) @ keyboard w2 = pending w"
    using u by (simp add: undisturbed_def pending_def [of w2])
  ultimately have p: "pending (tick E ?c w2) = tl (pending w)"
    using r(3) by (metis tl_append2)
  note a = after_call [OF w2(5) undisturbed_wf [OF w2(3)], of E 1]
  note f = undisturbed_trans [OF w2(3) a(3)]
  show ?thesis
    using s w2(4) a(1) f p r(2) u by (simp add: undisturbed_def)
qed

text \<open>
  The clock calls read \<open>mtime\<close>, and return 0 for the same reason. Nothing waits, whatever the time
  asked for.
\<close>

lemma timer_page:
  "\<not> uart_page ADDR_MTIME_LO \<and> \<not> gpio_page ADDR_MTIME_LO"
  "\<not> uart_page ADDR_MTIME_HI \<and> \<not> gpio_page ADDR_MTIME_HI"
  "n < 16 \<Longrightarrow> \<not> uart_page (CLINT_BASE + of_nat (16 * n)) \<and> \<not> gpio_page (CLINT_BASE + of_nat (16 * n))"
proof -
  show "\<not> uart_page ADDR_MTIME_LO \<and> \<not> gpio_page ADDR_MTIME_LO"
    "\<not> uart_page ADDR_MTIME_HI \<and> \<not> gpio_page ADDR_MTIME_HI"
    by (simp_all add: uart_page_def gpio_page_def in_page_def hw_defs ADDR_MTIME_LO_def ADDR_MTIME_HI_def)
  assume "n < 16"
  then have "unat (of_nat (16 * n) :: u32) = 16 * n" by (intro unat_of_nat_small) simp
  with \<open>n < 16\<close> have "unat (CLINT_BASE + of_nat (16 * n)) = unat CLINT_BASE + 16 * n"
    by (simp add: unat_word_ariths hw_defs)
  with \<open>n < 16\<close> show "\<not> uart_page (CLINT_BASE + of_nat (16 * n)) \<and> \<not> gpio_page (CLINT_BASE + of_nat (16 * n))"
    by (simp add: uart_page_def gpio_page_def in_page_def hw_defs word_le_nat_alt)
qed

theorem timer_call:
  assumes w: "idle_ctl w" "uart_wf (soc_uart w)" and num: "call_state num = S_TIMER_OP"
  shows "\<exists>w'. soc_syscall E num args w = Some (0, w') \<and> idle_ctl w' \<and> same_fds w w' \<and> undisturbed w w'"
proof -
  let ?c = "ecall_for E num args w"
  obtain w0 v where w0: "same_fds w w0" "undisturbed w w0" "op_state S_TIMER_OP ?c w0 v"
    and s: "soc_syscall E num args w = do { (r, w') \<leftarrow> syscall_wait E ?c v; Some (r, latency E (idle E 1 w')) }"
    using syscall_to_op [OF w, of num E args] num by auto
  obtain wr a d where out: "periph_out (soc_posix v) = Some (wr, a, d)" and a: "\<not> uart_page a" "\<not> gpio_page a"
  proof -
    have "syscall_subop (soc_posix v) < 16" by (simp add: syscall_subop_def)
    then have "\<exists>wr a d. periph_out (soc_posix v) = Some (wr, a, d) \<and> \<not> uart_page a \<and> \<not> gpio_page a"
      using w0(3) timer_page by (auto simp: op_state_def periph_out_def Let_def)
    with that show ?thesis by blast
  qed
  obtain w2 w' where w2: "undisturbed w0 w2" "transfer PERIPH_ACCESS wr a d w2"
    "undisturbed (tick E ?c w2) w'" "syscall_wait E ?c v = Some (0, w')" "idle_ctl w'" "same_fds w0 w'"
    using call_transfer [OF w0(3) out, of E] by auto
  have u: "undisturbed w0 w'"
    using undisturbed_trans [OF undisturbed_trans [OF w2(1) transfer_elsewhere [OF w2(2) undisturbed_wf [OF w2(1)] a]] w2(3)] .
  note b = after_call [OF w2(5) undisturbed_wf [OF u], of E 1]
  show ?thesis
    using s w2(4) b(1) same_fds_trans [OF same_fds_trans [OF w0(1) w2(6)] b(2)]
      undisturbed_trans [OF undisturbed_trans [OF w0(2) u] b(3)] by simp
qed

section \<open>The layer and the bridge in step\<close>

text \<open>
  The bridge is busy exactly while the layer waits for it. From a state that satisfies this every
  call that does not wait for the RTOS ends, within seven clocks.
\<close>

definition lockstep :: "soc \<Rightarrow> bool" where
  "lockstep w \<longleftrightarrow> (state_r (soc_posix w) = S_PERIPH_WAIT \<longleftrightarrow> periph_state (soc_bridge w) \<noteq> PERIPH_IDLE)"

lemma periph_apb_ready: "periph_state b = PERIPH_ACCESS \<Longrightarrow> periph_pready (periph_apb b)"
  by (simp add: periph_pready_def uart_pready_def) (simp add: periph_apb_def)

lemma lockstep_clock:
  assumes "lockstep w"
  shows "lockstep (soc_clock E q c w)"
proof (cases "state_r (soc_posix w) = S_PERIPH_WAIT")
  case True
  then show ?thesis
    using assms periph_apb_ready
    by (cases "periph_state (soc_bridge w)")
      (auto simp: lockstep_def state_next_def Let_def bridge_step_def periph_in_def)
next
  case False
  then have idle: "periph_state (soc_bridge w) = PERIPH_IDLE" using assms by (simp add: lockstep_def)
  note out = periph_out_wait [of "soc_posix w" c "rtos_port_of (soc_rtos w)" "periph_in w"]
  show ?thesis
    using False out
    by (cases "periph_out (soc_posix w)") (auto simp: lockstep_def bridge_step_def idle)
qed

text \<open>How many clocks are left to the state \<open>S_COMPLETE\<close> at most.\<close>

fun wait_left :: "periph_bridge_state_t \<Rightarrow> nat" where
  "wait_left PERIPH_IDLE = 0"
| "wait_left PERIPH_SETUP = 3"
| "wait_left PERIPH_ACCESS = 2"
| "wait_left PERIPH_DONE = 1"

definition call_left :: "soc \<Rightarrow> nat" where
  "call_left w = (case state_r (soc_posix w) of
       S_IDLE \<Rightarrow> 6 | S_DECODE \<Rightarrow> 5 | S_PERIPH_WAIT \<Rightarrow> wait_left (periph_state (soc_bridge w))
     | S_WAIT_RTOS \<Rightarrow> 7 | S_COMPLETE \<Rightarrow> 0 | _ \<Rightarrow> 4)"

lemma call_left_tick:
  assumes "lockstep w" and "ecall_req c" and "state_r (soc_posix w) \<noteq> S_COMPLETE"
    and "state_r (soc_posix (tick E c w)) \<noteq> S_WAIT_RTOS"
    and "state_r (soc_posix w) \<noteq> S_WAIT_RTOS"
  shows "call_left (tick E c w) < call_left w"
proof (cases "state_r (soc_posix w) = S_PERIPH_WAIT")
  case True
  then show ?thesis
    using assms(1) periph_apb_ready
    by (cases "periph_state (soc_bridge w)")
      (auto simp: lockstep_def call_left_def state_next_def Let_def bridge_step_def periph_in_def)
next
  case False
  then have "periph_state (soc_bridge w) = PERIPH_IDLE" using assms(1) by (simp add: lockstep_def)
  then have "wait_left (periph_state (soc_bridge (tick E c w))) \<le> 3"
    by (simp add: bridge_step_def split: option.splits)
  with False assms(2-5) show ?thesis
    by (cases "state_r (soc_posix w)")
      (auto simp: call_left_def state_next_def decode_state_def Let_def simp del: soc_bridge_clock
        split: if_split_asm)
qed

text \<open>The operations the layer hands to the RTOS, and waits for.\<close>

definition waits_for_rtos :: "posix_state_t \<Rightarrow> nat \<Rightarrow> bool" where
  "waits_for_rtos S n \<longleftrightarrow> (S = S_THREAD_OP \<and> n \<in> {0, 2, 6, 7}) \<or> (S = S_MUTEX_OP \<and> n < 5)
     \<or> (S = S_SEM_OP \<and> n < 7) \<or> (S = S_MSGQ_OP \<and> n < 6)"

definition needs_rtos :: "u32 \<Rightarrow> bool" where
  "needs_rtos num \<longleftrightarrow> waits_for_rtos (call_state num) (unat (ucast num :: byte) mod 16)"

lemma next_wait_rtos:
  assumes "state_r p \<notin> {S_IDLE, S_DECODE, S_WAIT_RTOS}"
  shows "state_next c k d p = S_WAIT_RTOS \<longleftrightarrow> waits_for_rtos (state_r p) (syscall_subop p)"
  using assms by (cases "state_r p") (auto simp: state_next_def waits_for_rtos_def Let_def)

lemma next_not_idle:
  assumes "state_r p \<notin> {S_IDLE, S_DECODE, S_WAIT_RTOS, S_COMPLETE}" "\<not> waits_for_rtos (state_r p) (syscall_subop p)"
  shows "state_next c k d p \<in> {S_PERIPH_WAIT, S_COMPLETE}"
  using assms by (cases "state_r p") (auto simp: state_next_def waits_for_rtos_def Let_def)

lemma wait_returns:
  assumes "lockstep w" and "ecall_req c" and "state_r (soc_posix w) \<notin> {S_IDLE, S_DECODE, S_WAIT_RTOS}"
    and "\<not> waits_for_rtos (state_r (soc_posix w)) (syscall_subop (soc_posix w))"
  shows "syscall_wait E c w \<noteq> None"
  using assms
proof (induction "call_left w" arbitrary: w rule: less_induct)
  case less
  show ?case
  proof (cases "state_r (soc_posix w) = S_COMPLETE")
    case True
    then show ?thesis by (subst syscall_wait.simps) (simp add: syscall_done_def)
  next
    case False
    let ?w = "tick E c w"
    have st: "state_r (soc_posix ?w) \<in> {S_PERIPH_WAIT, S_COMPLETE}"
      using next_not_idle [of "soc_posix w" c] less.prems False by simp
    then have "call_left ?w < call_left w"
      using less.prems False by (intro call_left_tick) auto
    moreover have "\<not> waits_for_rtos (state_r (soc_posix ?w)) (syscall_subop (soc_posix ?w))"
      using st by (auto simp: waits_for_rtos_def)
    ultimately have "syscall_wait E c ?w \<noteq> None"
      using less.hyps lockstep_clock [OF less.prems(1)] less.prems(2) st by auto
    then show ?thesis using call_waits [OF False] by simp
  qed
qed

lemma call_state_cases: "call_state num \<notin> {S_IDLE, S_DECODE, S_WAIT_RTOS, S_PERIPH_WAIT}"
  by (simp add: call_state_def decode_state_def Let_def)

theorem call_returns:
  assumes w: "idle_ctl w" "uart_wf (soc_uart w)" and "\<not> needs_rtos num"
  shows "\<exists>r w'. soc_syscall E num args w = Some (r, w')"
proof -
  let ?c = "ecall_for E num args w"
  obtain w0 v where v: "op_state (call_state num) ?c w0 v"
    and s: "soc_syscall E num args w = do { (r, w') \<leftarrow> syscall_wait E ?c v; Some (r, latency E (idle E 1 w')) }"
    using syscall_to_op [OF w, of num E args] by auto
  have "lockstep v" using v call_state_cases [of num] by (auto simp: op_state_def lockstep_def)
  moreover have "\<not> waits_for_rtos (state_r (soc_posix v)) (syscall_subop (soc_posix v))"
    using v assms(3) by (simp add: op_state_def needs_rtos_def syscall_subop_def)
  moreover have "state_r (soc_posix v) \<notin> {S_IDLE, S_DECODE, S_WAIT_RTOS}"
    using v call_state_cases [of num] by (auto simp: op_state_def)
  ultimately have "syscall_wait E ?c v \<noteq> None" by (intro wait_returns) simp_all
  with s show ?thesis by auto
qed

end
