(* ===== verification/Num_Conv.thy ===== *)
theory Num_Conv
  imports VSync_Prelude
begin

text \<open>
  The number conversions of sw/examples/shell.c: \<open>hex_to_uint32\<close>, \<open>dec_to_uint32\<close>,
  \<open>uint32_to_hex\<close>, \<open>uint32_to_dec\<close> and the 64-by-32 bit division \<open>div64by32\<close>. The parsers
  walk a C string (a byte list with a NUL); the printers fill the static buffers \<open>hex_buf\<close>
  and \<open>dec_buf\<close>. Specifications: the value of a digit string over \<open>nat\<close>, and the round trips
  between printing and parsing.
\<close>

text \<open>
  The result of a parser that returns 0 and stores \<open>*out\<close>, or returns -1 and leaves \<open>*out\<close>
  alone.
\<close>

datatype parse_result = Parse_error | Parsed u32

section \<open>Parsing hexadecimal\<close>

definition hex_nibble :: "byte \<Rightarrow> u32 option" where
  "hex_nibble c =
     (if 48 \<le> c \<and> c \<le> 57 then Some (ucast (c - 48))
      else if 97 \<le> c \<and> c \<le> 102 then Some (ucast (c - 97 + 10))
      else if 65 \<le> c \<and> c \<le> 70 then Some (ucast (c - 65 + 10))
      else None)"

fun hex_loop :: "byte list \<Rightarrow> u32 \<Rightarrow> nat \<Rightarrow> parse_result option" where
  "hex_loop [] val digits = None"
| "hex_loop (c # s) val digits =
     (if c = 0 then Some (if digits = 0 then Parse_error else Parsed val)
      else case hex_nibble c of
        None \<Rightarrow> Some Parse_error
      | Some nib \<Rightarrow>
          (let val' = push_bit 4 val OR nib; digits' = digits + 1
           in if digits' > 8 then Some Parse_error else hex_loop s val' digits'))"

definition skip_hex_prefix :: "byte list \<Rightarrow> byte list option" where
  "skip_hex_prefix s =
     (case s of [] \<Rightarrow> None
      | c0 # t \<Rightarrow>
          if c0 = 48 then
            (case t of [] \<Rightarrow> None
             | c1 # u \<Rightarrow> if c1 = 120 \<or> c1 = 88 then Some u else Some s)
          else Some s)"

definition hex_to_uint32 :: "byte list \<Rightarrow> parse_result option" where
  "hex_to_uint32 s = do { s' \<leftarrow> skip_hex_prefix s; hex_loop s' 0 0 }"

section \<open>Parsing decimal\<close>

fun dec_loop :: "byte list \<Rightarrow> u32 \<Rightarrow> nat \<Rightarrow> parse_result option" where
  "dec_loop [] val digits = None"
| "dec_loop (c # s) val digits =
     (if c = 0 then Some (if digits = 0 then Parse_error else Parsed val)
      else if c < 48 \<or> c > 57 then Some Parse_error
      else
        (let prev = val; val' = val * 10 + ucast (c - 48)
         in if val' < prev then Some Parse_error else dec_loop s val' (digits + 1)))"

definition dec_to_uint32 :: "byte list \<Rightarrow> parse_result option" where
  "dec_to_uint32 s = dec_loop s 0 0"

section \<open>Printing\<close>

definition hextab :: "byte list" where
  "hextab = lit (ascii ''0123456789ABCDEF'')"

text \<open>The loop \<open>for (i = 7; i >= 0; i--)\<close>; the first argument is \<open>i + 1\<close>.\<close>

fun hex_fill :: "nat \<Rightarrow> u32 \<Rightarrow> byte list \<Rightarrow> byte list" where
  "hex_fill 0 val buf = buf"
| "hex_fill (Suc i) val buf =
     hex_fill i (drop_bit 4 val) (buf[i := hextab ! unat (val AND 15)])"

definition uint32_to_hex :: "u32 \<Rightarrow> byte list \<Rightarrow> byte list" where
  "uint32_to_hex val hex_buf = (hex_fill 8 val hex_buf)[8 := 0]"

text \<open>
  The loop \<open>while (val > 0)\<close> with its pre-decremented index: a store at index \<open>-1\<close> would be
  out of bounds. The result is the index of the first character and the buffer.
\<close>

fun dec_fill :: "nat \<Rightarrow> u32 \<Rightarrow> byte list \<Rightarrow> (nat \<times> byte list) option" where
  "dec_fill 0 val buf = (if val > 0 then None else Some (0, buf))"
| "dec_fill (Suc i) val buf =
     (if val > 0 then dec_fill i (val div 10) (buf[i := 48 + ucast (val mod 10)])
      else Some (Suc i, buf))"

definition uint32_to_dec :: "u32 \<Rightarrow> byte list \<Rightarrow> (nat \<times> byte list) option" where
  "uint32_to_dec val dec_buf =
     (let buf = dec_buf[10 := 0]
      in if val = 0 then Some (9, buf[9 := 48]) else dec_fill 10 val buf)"

section \<open>Division of a 64-bit value by a 32-bit one\<close>

text \<open>
  One of the two loops \<open>for (i = 31; i >= 0; i--)\<close>; the first argument is \<open>i + 1\<close>, the result
  the remainder and the quotient word.
\<close>

fun div_bits :: "nat \<Rightarrow> u32 \<Rightarrow> u32 \<Rightarrow> u32 \<Rightarrow> u32 \<Rightarrow> u32 \<times> u32" where
  "div_bits 0 w divisor rem q = (rem, q)"
| "div_bits (Suc i) w divisor rem q =
     (let rem' = push_bit 1 rem OR (drop_bit i w AND 1)
      in if divisor \<le> rem' then div_bits i w divisor (rem' - divisor) (q OR push_bit i 1)
         else div_bits i w divisor rem' q)"

text \<open>Result: the quotient (its low word) and the remainder stored through the pointer.\<close>

definition div64by32 :: "u32 \<Rightarrow> u32 \<Rightarrow> u32 \<Rightarrow> u32 \<times> u32" where
  "div64by32 hi lo divisor =
     (let (rem, q_hi) = div_bits 32 hi divisor 0 0;
          (rem', q_lo) = div_bits 32 lo divisor rem 0
      in (q_lo, rem'))"

section \<open>Correctness of hexadecimal parsing\<close>

text \<open>Specification: the digit value, the value of a digit string, the accepted strings.\<close>

definition hex_val :: "byte \<Rightarrow> nat" where
  "hex_val c = (case hex_nibble c of None \<Rightarrow> 0 | Some v \<Rightarrow> unat v)"

definition is_hex :: "byte \<Rightarrow> bool" where
  "is_hex c \<longleftrightarrow> c \<in> {48..57} \<union> {97..102} \<union> {65..70}"

definition digits_value :: "nat \<Rightarrow> nat list \<Rightarrow> nat" where
  "digits_value base ds = foldl (\<lambda>v d. base * v + d) 0 ds"

fun strip_0x :: "byte list \<Rightarrow> byte list" where
  "strip_0x (c0 # c1 # s) = (if c0 = 48 \<and> (c1 = 120 \<or> c1 = 88) then s else c0 # c1 # s)"
| "strip_0x s = s"

definition parse_hex_spec :: "byte list \<Rightarrow> parse_result" where
  "parse_hex_spec bs =
     (let ds = strip_0x bs
      in if ds \<noteq> [] \<and> length ds \<le> 8 \<and> (\<forall>d \<in> set ds. is_hex d)
         then Parsed (of_nat (digits_value 16 (map hex_val ds))) else Parse_error)"

lemma hex_nibble_None: "hex_nibble c = None \<longleftrightarrow> \<not> is_hex c"
  by (auto simp: hex_nibble_def is_hex_def)

lemma hex_nibble_bound: "hex_nibble c = Some v \<Longrightarrow> unat v < 16"
  by (auto simp: hex_nibble_def split: if_splits) unat_arith+

lemma hex_val_bound: "hex_val c < 16"
  by (auto simp: hex_val_def hex_nibble_bound split: option.splits)

lemma digits_value_snoc: "digits_value b (ds @ [d]) = b * digits_value b ds + d"
  by (simp add: digits_value_def)

lemma digits_value_Nil [simp]: "digits_value b [] = 0"
  by (simp add: digits_value_def)

lemma digits_value_bound:
  assumes "\<forall>d \<in> set ds. d < b"
  shows "digits_value b ds < b ^ length ds \<or> (ds = [] \<and> digits_value b ds = 0)"
  using assms
proof (induction ds rule: rev_induct)
  case (snoc d ds)
  then have "digits_value b ds < b ^ length ds" and "d < b"
    by auto
  then have "b * (digits_value b ds + 1) \<le> b * b ^ length ds"
    by (intro mult_le_mono2) simp
  then show ?case using \<open>d < b\<close> by (simp add: digits_value_snoc algebra_simps)
qed simp

lemma shift_or_nibble:
  assumes "unat nib < 16" and "v < 2 ^ 28"
  shows "push_bit 4 (of_nat v :: u32) OR nib = of_nat (16 * v + unat nib)"
proof -
  have "push_bit 4 (of_nat v :: u32) OR nib = push_bit 4 (of_nat v) + nib"
    using assms(1) by (simp add: or_shift_small)
  then show ?thesis by (simp add: push_bit_eq_mult algebra_simps)
qed

lemma hex_step_bound:
  fixes v d :: nat
  assumes "v < 16 ^ n" and "n \<le> 7" and "d < 16"
  shows "v < 2 ^ 28" and "16 * v + d < 16 ^ Suc n"
proof -
  have "(16::nat) ^ n \<le> 16 ^ 7"
    using assms(2) by (rule power_increasing) simp
  with assms(1) show "v < 2 ^ 28" by simp
  show "16 * v + d < 16 ^ Suc n"
    using assms(1,3) by simp
qed

lemma hex_loop_correct:
  assumes "0 \<notin> set ds" and "v < 16 ^ n" and "n \<le> 8"
  shows "hex_loop (ds @ 0 # rest) (of_nat v) n =
    Some (if (\<forall>d \<in> set ds. is_hex d) \<and> n + length ds \<le> 8 \<and> 0 < n + length ds
          then Parsed (of_nat (foldl (\<lambda>v d. 16 * v + d) v (map hex_val ds)))
          else Parse_error)"
  using assms
proof (induction ds arbitrary: v n)
  case (Cons d ds)
  show ?case
  proof (cases "hex_nibble d")
    case None
    with Cons.prems hex_nibble_None [of d] show ?thesis by auto
  next
    case (Some nib)
    then have hex: "is_hex d" and val: "hex_val d = unat nib" and nib: "unat nib < 16"
      using hex_nibble_None [of d] by (auto simp: hex_val_def hex_nibble_bound)
    show ?thesis
    proof (cases "n \<le> 7")
      case True
      note b = hex_step_bound [OF Cons.prems(2) True nib]
      show ?thesis
        using Cons.prems Cons.IH [OF _ b(2)] True
        by (simp add: Some hex val shift_or_nibble [OF nib b(1)])
    next
      case False
      with Cons.prems show ?thesis by (simp add: Some)
    qed
  qed
qed simp

lemma skip_hex_prefix_eq:
  assumes "0 \<notin> set bs"
  shows "skip_hex_prefix (bs @ 0 # rest) = Some (strip_0x bs @ 0 # rest)"
  using assms
  by (cases bs rule: strip_0x.cases) (auto simp: skip_hex_prefix_def)

lemma set_strip_0x: "set (strip_0x bs) \<subseteq> set bs"
  by (cases bs rule: strip_0x.cases) auto

lemma hex_to_uint32_eq:
  assumes "c_string s = Some bs"
  shows "hex_to_uint32 s = Some (parse_hex_spec bs)"
proof -
  obtain rest where s: "s = bs @ 0 # rest" and nz: "0 \<notin> set bs"
    using assms by (rule c_string_SomeE)
  have "0 \<notin> set (strip_0x bs)"
    using nz set_strip_0x by blast
  from hex_loop_correct [OF this, of 0 0 rest] show ?thesis
    by (simp add: hex_to_uint32_def s skip_hex_prefix_eq [OF nz] parse_hex_spec_def Let_def
        digits_value_def conj_commute conj_left_commute)
qed

section \<open>Correctness of decimal parsing\<close>

definition is_dec :: "byte \<Rightarrow> bool" where
  "is_dec c \<longleftrightarrow> 48 \<le> c \<and> c \<le> 57"

definition dec_val :: "byte \<Rightarrow> nat" where
  "dec_val c = unat (c - 48)"

definition parse_dec_spec :: "byte list \<Rightarrow> parse_result" where
  "parse_dec_spec bs =
     (if bs \<noteq> [] \<and> (\<forall>d \<in> set bs. is_dec d) then Parsed (of_nat (digits_value 10 (map dec_val bs)))
      else Parse_error)"

lemma dec_step_value: "(of_nat v :: u32) * 10 + ucast (d - 48) = of_nat (10 * v + dec_val d)"
proof -
  have "ucast (d - 48) = (of_nat (dec_val d) :: u32)"
    by (simp add: word_unat_eq_iff dec_val_def unat_of_nat)
  then show ?thesis by simp
qed

lemma dec_step_no_wrap:
  assumes "10 * v + dec_val d < 2 ^ 32"
  shows "\<not> (of_nat (10 * v + dec_val d) :: u32) < of_nat v"
proof -
  have "v < 2 ^ 32" using assms by simp
  then show ?thesis
    using assms by (simp add: word_less_nat_alt unat_of_nat del: of_nat_add of_nat_mult)
qed

lemma foldl_dec_mono: "v \<le> foldl (\<lambda>v d. 10 * v + d) v (ds :: nat list)"
proof (induction ds arbitrary: v)
  case (Cons d ds)
  from Cons.IH [of "10 * v + d"] show ?case by simp
qed simp

lemma dec_loop_correct:
  assumes "0 \<notin> set ds" and "\<forall>d \<in> set ds. is_dec d"
    and "foldl (\<lambda>v d. 10 * v + d) v (map dec_val ds) < 2 ^ 32"
  shows "dec_loop (ds @ 0 # rest) (of_nat v) n =
    Some (if n + length ds = 0 then Parse_error
          else Parsed (of_nat (foldl (\<lambda>v d. 10 * v + d) v (map dec_val ds))))"
  using assms
proof (induction ds arbitrary: v n)
  case (Cons d ds)
  have "10 * v + dec_val d < 2 ^ 32"
    using Cons.prems(3) foldl_dec_mono [of "10 * v + dec_val d" "map dec_val ds"] by simp
  note w = dec_step_value dec_step_no_wrap [OF this]
  have "\<not> d < 48" and "\<not> 57 < d"
    using Cons.prems(2) by (auto simp: is_dec_def)
  then show ?case
    using Cons.prems Cons.IH [of "10 * v + dec_val d" "Suc n"]
    by (simp add: w del: of_nat_add of_nat_mult)
qed simp

lemma dec_loop_invalid:
  assumes "0 \<notin> set ds" and "\<exists>d \<in> set ds. \<not> is_dec d"
  shows "dec_loop (ds @ 0 # rest) v n = Some Parse_error"
  using assms
  by (induction ds arbitrary: v n) (auto simp: is_dec_def Let_def not_le)

text \<open>A value that is accepted is right modulo \<open>2 ^ 32\<close>: the overflow check may miss a wrap.\<close>

lemma dec_loop_modulo:
  assumes "dec_loop (ds @ 0 # rest) (of_nat v) n = Some (Parsed x)" and "0 \<notin> set ds"
  shows "(\<forall>d \<in> set ds. is_dec d) \<and> x = of_nat (foldl (\<lambda>v d. 10 * v + d) v (map dec_val ds))
    \<and> 0 < n + length ds"
  using assms
proof (induction ds arbitrary: v n)
  case Nil
  then show ?case by (simp split: if_split_asm)
next
  case (Cons d ds)
  then show ?case
    using Cons.IH [of "10 * v + dec_val d" "n + 1"] dec_step_value [of v d]
    by (auto simp: is_dec_def Let_def not_less simp del: of_nat_add of_nat_mult split: if_split_asm)
qed

lemma dec_to_uint32_modulo:
  assumes "c_string s = Some bs" and "dec_to_uint32 s = Some (Parsed x)"
  shows "bs \<noteq> [] \<and> (\<forall>d \<in> set bs. is_dec d) \<and> x = of_nat (digits_value 10 (map dec_val bs))"
proof -
  obtain rest where "s = bs @ 0 # rest" "0 \<notin> set bs" using c_string_SomeE [OF assms(1)] .
  with assms(2) dec_loop_modulo [of bs rest 0 0 x] show ?thesis
    by (auto simp: dec_to_uint32_def digits_value_def)
qed

lemma dec_to_uint32_eq:
  assumes "c_string s = Some bs" and "digits_value 10 (map dec_val bs) < 2 ^ 32"
  shows "dec_to_uint32 s = Some (parse_dec_spec bs)"
proof -
  obtain rest where s: "s = bs @ 0 # rest" and nz: "0 \<notin> set bs"
    using assms(1) by (rule c_string_SomeE)
  show ?thesis
  proof (cases "\<forall>d \<in> set bs. is_dec d")
    case True
    from dec_loop_correct [OF nz True, of 0 rest 0] assms(2) True show ?thesis
      by (simp add: dec_to_uint32_def s parse_dec_spec_def digits_value_def)
  next
    case False
    then show ?thesis
      by (auto simp: dec_to_uint32_def s parse_dec_spec_def dec_loop_invalid [OF nz])
  qed
qed

section \<open>Correctness of the printers\<close>

text \<open>Specification: the \<open>k\<close> low hexadecimal digits and the decimal digits of a number.\<close>

fun hex_digits :: "nat \<Rightarrow> nat \<Rightarrow> nat list" where
  "hex_digits 0 n = []"
| "hex_digits (Suc k) n = hex_digits k (n div 16) @ [n mod 16]"

fun dec_digits :: "nat \<Rightarrow> nat list" where
  "dec_digits n = (if n = 0 then [] else dec_digits (n div 10) @ [n mod 10])"

declare dec_digits.simps [simp del]

definition hex_text :: "u32 \<Rightarrow> byte list" where
  "hex_text val = map (\<lambda>d. hextab ! d) (hex_digits 8 (unat val))"

definition dec_text :: "u32 \<Rightarrow> byte list" where
  "dec_text val =
     (if val = 0 then [48] else map (\<lambda>d. 48 + of_nat d) (dec_digits (unat val)))"

lemma length_hex_digits [simp]: "length (hex_digits k n) = k"
  by (induction k arbitrary: n) auto

lemma hex_digits_bound: "d \<in> set (hex_digits k n) \<Longrightarrow> d < 16"
  by (induction k arbitrary: n) auto

lemma hex_digits_value: "digits_value 16 (hex_digits k n) = n mod 16 ^ k"
  by (induction k arbitrary: n) (auto simp: digits_value_snoc mod_mult2_eq)

lemma hex_digits_nth: "j < k \<Longrightarrow> hex_digits k n ! j = n div 16 ^ (k - Suc j) mod 16"
proof (induction k arbitrary: n)
  case (Suc k)
  show ?case
  proof (cases "j = k")
    case False
    then have "j < k" using Suc.prems by simp
    moreover have "Suc (k - Suc j) = k - j" using \<open>j < k\<close> by simp
    ultimately show ?thesis
      using Suc.IH [of "n div 16"] by (simp add: nth_append div_mult2_eq [symmetric] power_Suc [symmetric] del: power_Suc)
  qed (simp add: nth_append)
qed simp

lemma hex_fill_eq:
  "k \<le> length buf \<Longrightarrow>
   hex_fill k val buf = map (\<lambda>d. hextab ! d) (hex_digits k (unat val)) @ drop k buf"
proof (induction k arbitrary: val buf)
  case (Suc k)
  have "drop k (buf[k := x]) = x # drop (Suc k) buf" for x
    using Suc.prems by (simp add: Cons_nth_drop_Suc [symmetric] drop_update_cancel)
  then show ?case
    using Suc by (simp add: unat_mask_4 drop_bit_eq_div unat_div)
qed simp

lemma uint32_to_hex_eq:
  "length buf = 9 \<Longrightarrow> uint32_to_hex val buf = hex_text val @ [0]"
proof -
  assume len: "length buf = 9"
  then have "length (drop 8 buf) = Suc 0" by simp
  then obtain x where "drop 8 buf = [x]"
    by (auto simp only: length_Suc_conv length_0_conv)
  with len show ?thesis
    by (simp add: uint32_to_hex_def hex_fill_eq hex_text_def list_update_append)
qed

lemma hextab_bytes:
  "hextab = [48,49,50,51,52,53,54,55,56,57,65,66,67,68,69,70,0]"
  by (simp add: hextab_def ascii_def lit_def)

lemma hextab_digit:
  assumes "d < 16"
  shows "hex_val (hextab ! d) = d \<and> is_hex (hextab ! d) \<and> hextab ! d \<noteq> 0"
proof -
  have "\<forall>d \<in> {..<16}. hex_val (hextab ! d) = d \<and> is_hex (hextab ! d) \<and> hextab ! d \<noteq> 0"
    by (simp add: hextab_bytes hex_val_def hex_nibble_def is_hex_def lessThan_nat_numeral
        lessThan_Suc)
  with assms show ?thesis by blast
qed

lemma hex_text_hex: "d \<in> set (hex_text val) \<Longrightarrow> is_hex d \<and> d \<noteq> 0"
  by (auto simp: hex_text_def dest: hex_digits_bound hextab_digit)

lemma strip_0x_hex: "\<forall>d \<in> set bs. is_hex d \<Longrightarrow> strip_0x bs = bs"
  by (cases bs rule: strip_0x.cases) (auto simp: is_hex_def)

lemma hex_text_value: "parse_hex_spec (hex_text val) = Parsed val"
proof -
  have "map hex_val (hex_text val) = hex_digits 8 (unat val)"
    by (auto simp: hex_text_def o_def intro!: map_idI dest: hex_digits_bound hextab_digit)
  moreover have "unat val < 16 ^ 8"
    using unsigned_less [of val] by simp
  moreover have "hex_text val \<noteq> [] \<and> length (hex_text val) = 8"
    by (auto simp: hex_text_def simp flip: length_0_conv)
  ultimately show ?thesis
    by (simp add: parse_hex_spec_def strip_0x_hex hex_text_hex hex_digits_value)
qed

lemma dec_digits_0 [simp]: "dec_digits 0 = []"
  by (simp add: dec_digits.simps)

lemma dec_digits_pos: "0 < n \<Longrightarrow> dec_digits n = dec_digits (n div 10) @ [n mod 10]"
  by (subst dec_digits.simps) simp

lemma dec_digits_bound: "d \<in> set (dec_digits n) \<Longrightarrow> d < 10"
proof (induction n rule: dec_digits.induct)
  case (1 n)
  then show ?case by (cases "n = 0") (auto simp: dec_digits_pos)
qed

lemma dec_digits_value: "digits_value 10 (dec_digits n) = n"
proof (induction n rule: dec_digits.induct)
  case (1 n)
  then show ?case by (cases "n = 0") (simp_all add: dec_digits_pos digits_value_snoc)
qed

lemma length_dec_digits: "n < 10 ^ k \<Longrightarrow> length (dec_digits n) \<le> k"
proof (induction k arbitrary: n)
  case (Suc k)
  show ?case
  proof (cases "n = 0")
    case False
    have "n div 10 < 10 ^ k"
      using Suc.prems by (simp add: less_mult_imp_div_less mult.commute)
    with Suc.IH False show ?thesis by (simp add: dec_digits_pos)
  qed simp
qed simp

lemma dec_digit_byte:
  assumes "d < 10"
  shows "is_dec (48 + of_nat d) \<and> dec_val (48 + of_nat d) = d \<and> (48 + of_nat d :: byte) \<noteq> 0"
proof -
  have "\<forall>d \<in> {..<10}. is_dec (48 + of_nat d) \<and> dec_val (48 + of_nat d) = d
      \<and> (48 + of_nat d :: byte) \<noteq> 0"
    by (simp add: is_dec_def dec_val_def lessThan_nat_numeral lessThan_Suc)
  with assms show ?thesis by blast
qed

lemma dec_char_mod: "48 + ucast (val mod 10 :: u32) = (48 + of_nat (unat val mod 10) :: byte)"
proof -
  have "ucast (val mod 10) = (of_nat (unat (val mod 10)) :: byte)"
    by (rule of_nat_unat [symmetric])
  also have "unat (val mod 10) = unat val mod 10"
    by (simp only: unat_mod) simp
  finally show ?thesis by simp
qed

lemma dec_fill_eq:
  assumes "unat val < 10 ^ k" and "k \<le> length buf"
  shows "dec_fill k val buf =
    Some (k - length (dec_digits (unat val)),
          take (k - length (dec_digits (unat val))) buf
            @ map (\<lambda>d. 48 + of_nat d) (dec_digits (unat val)) @ drop k buf)"
  using assms
proof (induction k arbitrary: val buf)
  case (Suc k)
  show ?case
  proof (cases "val = 0")
    case False
    then have pos: "0 < unat val" by (simp add: unat_gt_0)
    have small: "unat val div 10 < 10 ^ k"
      using Suc.prems(1) by (simp add: less_mult_imp_div_less mult.commute)
    have "drop k (buf[k := x]) = x # drop (Suc k) buf" for x
      using Suc.prems by (simp add: Cons_nth_drop_Suc [symmetric] drop_update_cancel)
    with Suc small pos False length_dec_digits [OF small] show ?thesis
      by (simp add: dec_digits_pos unat_div dec_char_mod word_neq_0_conv)
  qed simp
qed (simp add: word_less_nat_alt)

lemma dec_digits_Nil_iff: "dec_digits n = [] \<longleftrightarrow> n = 0"
  by (subst dec_digits.simps) simp

lemma length_dec_text: "length (dec_text val) \<le> 10 \<and> dec_text val \<noteq> []"
  using length_dec_digits [OF u32_decimal_bound, of val]
  by (auto simp: dec_text_def dec_digits_Nil_iff unat_eq_0)

lemma uint32_to_dec_eq:
  assumes "length buf = 11"
  shows "\<exists>i buf'. uint32_to_dec val buf = Some (i, buf') \<and> length buf' = 11
    \<and> drop i buf' = dec_text val @ [0]"
proof (cases "val = 0")
  case True
  have "drop 9 (buf[10 := 0, 9 := 48]) = [48, 0]"
    using assms by (simp add: list_eq_iff_nth_eq nth_Cons split: nat.split)
  with True assms show ?thesis
    by (auto simp: uint32_to_dec_def dec_text_def)
next
  case False
  let ?ds = "dec_digits (unat val)"
  note small = u32_decimal_bound [of val]
  have "drop 10 (buf[10 := 0]) = [0]"
    using assms by (simp add: list_eq_iff_nth_eq)
  then have "dec_fill 10 val (buf[10 := 0]) =
      Some (10 - length ?ds, take (10 - length ?ds) (buf[10 := 0]) @ dec_text val @ [0])"
    using assms False by (simp add: dec_fill_eq [OF small] dec_text_def)
  moreover have "length ?ds \<le> 10" and "length (dec_text val) = length ?ds"
    using length_dec_digits [OF small] False by (simp_all add: dec_text_def)
  ultimately show ?thesis
    using assms False by (simp add: uint32_to_dec_def Let_def)
qed

lemma dec_text_dec: "d \<in> set (dec_text val) \<Longrightarrow> is_dec d \<and> d \<noteq> 0"
  using dec_digit_byte [of 0]
  by (auto simp: dec_text_def dest: dec_digits_bound dec_digit_byte split: if_splits)

text \<open>No leading zero.\<close>

lemma dec_digits_leading: "0 < n \<Longrightarrow> hd (dec_digits n) \<noteq> 0"
proof (induction n rule: dec_digits.induct)
  case (1 n)
  note d = dec_digits_pos [OF "1.prems"]
  show ?case
  proof (cases "n div 10 = 0")
    case True
    then show ?thesis using "1.prems" by (simp add: d)
  next
    case False
    then have "dec_digits (n div 10) \<noteq> []" by (simp only: dec_digits_Nil_iff not_False_eq_True)
    with "1.IH" "1.prems" False show ?thesis unfolding d by simp
  qed
qed

lemma dec_text_leading: "hd (dec_text val) = 48 \<Longrightarrow> dec_text val = [48]"
proof (cases "val = 0")
  case False
  then have pos: "0 < unat val" by (simp add: unat_gt_0)
  then have ne: "dec_digits (unat val) \<noteq> []" by (simp add: dec_digits_Nil_iff)
  then have "hd (dec_digits (unat val)) < 10" by (intro dec_digits_bound [of _ "unat val"]) simp
  with dec_digit_byte [of "hd (dec_digits (unat val))"] dec_digits_leading [OF pos]
  have "dec_val (48 + of_nat (hd (dec_digits (unat val)))) \<noteq> 0" by simp
  moreover have "dec_val 48 = 0" by (simp add: dec_val_def)
  ultimately have "48 + of_nat (hd (dec_digits (unat val))) \<noteq> (48 :: byte)" by metis
  moreover assume "hd (dec_text val) = 48"
  ultimately show ?thesis using False ne by (simp add: dec_text_def list.map_sel)
qed (simp add: dec_text_def)

lemma dec_text_digits: "digits_value 10 (map dec_val (dec_text val)) = unat val"
proof (cases "val = 0")
  case True
  then show ?thesis
    using dec_digit_byte [of 0] by (simp add: dec_text_def digits_value_def)
next
  case False
  have "map dec_val (dec_text val) = dec_digits (unat val)"
    using False by (auto simp: dec_text_def o_def intro!: map_idI dest: dec_digits_bound dec_digit_byte)
  then show ?thesis by (simp add: dec_digits_value)
qed

lemma dec_text_value: "parse_dec_spec (dec_text val) = Parsed val"
  using length_dec_text [of val] by (simp add: parse_dec_spec_def dec_text_digits dec_text_dec)

section \<open>Correctness of the division\<close>

lemma shift_in_bit:
  assumes "unat rem < 2 ^ 31"
  shows "unat (push_bit 1 rem OR (drop_bit i w AND 1) :: u32) = 2 * unat rem + of_bool (bit w i)"
proof -
  have b: "drop_bit i w AND 1 = (of_bool (bit w i) :: u32)"
    by (simp add: and_one_eq bit_iff_odd_drop_bit odd_iff_mod_2_eq_one mod2_eq_if)
  have "push_bit 1 rem OR (of_bool (bit w i) :: u32) = push_bit 1 rem + of_bool (bit w i)"
    by (rule or_shift_small) simp
  also have "\<dots> = of_nat (2 * unat rem + of_bool (bit w i))"
    by (simp add: push_bit_eq_mult)
  finally have eq: "push_bit 1 rem OR (drop_bit i w AND 1)
      = (of_nat (2 * unat rem + of_bool (bit w i)) :: u32)"
    by (simp only: b)
  have "2 * unat rem + of_bool (bit w i) < 2 ^ LENGTH(32)"
    using assms by (simp add: of_bool_def)
  then show ?thesis
    unfolding eq by (rule unat_of_nat_small)
qed

lemma unat_take_bit_Suc:
  "unat (take_bit (Suc i) w :: u32) = of_bool (bit w i) * 2 ^ i + unat (take_bit i w)"
  by (simp add: unsigned_take_bit_eq take_bit_Suc_from_most bit_unsigned_iff
      possible_bit_def bit_imp_le_length)

lemma or_fresh_bit:
  assumes "take_bit (Suc i) q = (0 :: u32)"
  shows "q OR push_bit i 1 = q + 2 ^ i" and "take_bit i (q OR push_bit i 1) = 0"
proof -
  have nb: "\<not> bit q j" if "j \<le> i" for j
    using assms that by (metis bit_0_eq bit_take_bit_iff bot_apply bot_bool_def less_Suc_eq_le)
  have "q OR push_bit i 1 = q + push_bit i 1"
    by (rule disjunctive_add [symmetric]) (auto simp: bit_exp_iff nb)
  then show "q OR push_bit i 1 = q + 2 ^ i" by (simp add: push_bit_eq_mult)
  show "take_bit i (q OR push_bit i 1) = 0"
    by (rule bit_word_eqI) (auto simp: bit_take_bit_iff bit_or_iff bit_exp_iff nb)
qed

text \<open>
  One loop divides \<open>rem * 2 ^ n + w\<close> (with the \<open>n\<close> low bits of \<open>w\<close>): the remainder, and the
  quotient added into \<open>q\<close>, whose \<open>n\<close> low bits are still clear.
\<close>

lemma div_bits_correct:
  assumes "0 < unat d" and "unat d \<le> 2 ^ 31" and "unat rem < unat d" and "take_bit n q = 0"
  shows "div_bits n w d rem q =
    (of_nat ((unat rem * 2 ^ n + unat (take_bit n w)) mod unat d),
     q + of_nat ((unat rem * 2 ^ n + unat (take_bit n w)) div unat d))"
  using assms
proof (induction n arbitrary: rem q)
  case 0
  then show ?case by simp
next
  case (Suc i)
  define R where "R = push_bit 1 rem OR (drop_bit i w AND 1)"
  define W where "W = unat (take_bit i w)"
  have step: "div_bits (Suc i) w d rem q =
      (if d \<le> R then div_bits i w d (R - d) (q OR push_bit i 1) else div_bits i w d R q)"
    by (simp add: R_def Let_def)
  have uR: "unat R = 2 * unat rem + of_bool (bit w i)"
    unfolding R_def using Suc.prems by (intro shift_in_bit) simp
  have total: "unat rem * 2 ^ Suc i + unat (take_bit (Suc i) w) = unat R * 2 ^ i + W"
    by (simp add: uR W_def unat_take_bit_Suc algebra_simps)
  have low: "take_bit i q = 0"
    using Suc.prems(4) by (metis take_bit_of_0 take_bit_take_bit min.absorb1 le_SucI order_refl)
  have "bit w i \<or> \<not> bit w i" by simp
  then have R_less: "unat R < 2 * unat d"
    using Suc.prems(3) by (auto simp: uR)
  show ?case
  proof (cases "d \<le> R")
    case True
    then have le: "unat d \<le> unat R" by (simp add: word_le_nat_alt)
    have uRd: "unat (R - d) = unat R - unat d"
      using True by (rule unat_sub)
    have split: "unat R * 2 ^ i + W = (unat R - unat d) * 2 ^ i + W + 2 ^ i * unat d"
    proof -
      obtain k where "unat R = unat d + k"
        using le by (auto simp: le_iff_add)
      then show ?thesis by (simp add: algebra_simps)
    qed
    have "div_bits i w d (R - d) (q OR push_bit i 1) =
        (of_nat (((unat R - unat d) * 2 ^ i + W) mod unat d),
         q + 2 ^ i + of_nat (((unat R - unat d) * 2 ^ i + W) div unat d))"
    proof -
      have "unat (R - d) < unat d"
        using R_less le by (simp add: uRd)
      from Suc.IH [OF Suc.prems(1,2) this or_fresh_bit(2) [OF Suc.prems(4)]] show ?thesis
        by (simp only: uRd or_fresh_bit(1) [OF Suc.prems(4)] W_def)
    qed
    moreover have "(unat R * 2 ^ i + W) div unat d = 2 ^ i + ((unat R - unat d) * 2 ^ i + W) div unat d"
      unfolding split using Suc.prems(1) by simp
    moreover have "(unat R * 2 ^ i + W) mod unat d = ((unat R - unat d) * 2 ^ i + W) mod unat d"
      unfolding split by simp
    ultimately show ?thesis
      using True unfolding total step by (simp add: add.assoc)
  next
    case False
    then have "unat R < unat d" by (simp add: word_le_nat_alt)
    with Suc.IH [OF Suc.prems(1,2) _ low, of R] False show ?thesis
      unfolding total step by (simp add: W_def)
  qed
qed

lemma div64by32_eq:
  assumes "0 < unat d" and "unat d \<le> 2 ^ 31"
  shows "div64by32 hi lo d =
    (of_nat ((unat hi * 2 ^ 32 + unat lo) div unat d),
     of_nat ((unat hi * 2 ^ 32 + unat lo) mod unat d))"
proof -
  let ?r = "unat hi mod unat d"
  have r: "?r < unat d" and full: "take_bit 32 w = w" for w :: u32
    using assms(1) by (simp_all add: take_bit_word_eq_self)
  then have ur: "unat (of_nat ?r :: u32) = ?r"
    using assms(2) by (simp add: unat_of_nat)
  obtain q_hi where high: "div_bits 32 hi d 0 0 = (of_nat ?r, q_hi)"
    using div_bits_correct [of d 0 32 0 hi] assms by (simp add: full)
  have low: "div_bits 32 lo d (of_nat ?r) 0 =
      (of_nat ((?r * 2 ^ 32 + unat lo) mod unat d), of_nat ((?r * 2 ^ 32 + unat lo) div unat d))"
    using div_bits_correct [of d "of_nat ?r" 32 0 lo] assms r by (simp add: full ur)
  have hi: "unat hi = ?r + unat hi div unat d * unat d"
    by simp
  have "unat hi * 2 ^ 32 + unat lo = (?r + unat hi div unat d * unat d) * 2 ^ 32 + unat lo"
    by (simp only: hi [symmetric])
  then have split: "unat hi * 2 ^ 32 + unat lo
      = ?r * 2 ^ 32 + unat lo + (unat hi div unat d * 2 ^ 32) * unat d"
    by (simp only: algebra_simps)
  have "(unat hi * 2 ^ 32 + unat lo) mod unat d = (?r * 2 ^ 32 + unat lo) mod unat d"
    unfolding split by simp
  moreover have "(unat hi * 2 ^ 32 + unat lo) div unat d
      = (?r * 2 ^ 32 + unat lo) div unat d + unat hi div unat d * 2 ^ 32"
    unfolding split using assms(1) by simp
  moreover have "(of_nat (unat hi div unat d * 2 ^ 32) :: u32) = 0"
    by (simp add: word_of_nat_eq_0_iff del: of_nat_mult)
  ultimately show ?thesis
    by (simp only: div64by32_def high low case_prod_conv Let_def of_nat_add add_0 add.right_neutral)
qed

text \<open>Beyond \<open>2 ^ 31\<close> the shift of the remainder loses its top bit: the bound on the divisor is needed.\<close>

lemma div_bits_numeral: "div_bits (numeral k) w divisor rem q =
   (let i = pred_numeral k; rem' = push_bit 1 rem OR (drop_bit i w AND 1)
    in if divisor \<le> rem' then div_bits i w divisor (rem' - divisor) (q OR push_bit i 1)
       else div_bits i w divisor rem' q)"
  by (simp add: numeral_eq_Suc Let_def)

lemma div64by32_large_divisor:
  "div64by32 0xC0000000 0 0xF0000000 = (0x0, 0x0)
   \<and> 0xC0000000 * 2 ^ 32 div 0xF0000000 = (0xCCCCCCCC :: nat)"
  by (simp add: div64by32_def div_bits_numeral)

section \<open>Reading and printing\<close>

lemma dec_to_uint32_exact:
  assumes "c_string s = Some bs"
    and "(\<forall>d \<in> set bs. is_dec d) \<longrightarrow> digits_value 10 (map dec_val bs) < 2 ^ 32"
  shows "dec_to_uint32 s = Some (if bs \<noteq> [] \<and> (\<forall>d \<in> set bs. is_dec d)
    then Parsed (of_nat (digits_value 10 (map dec_val bs))) else Parse_error)"
proof (cases "\<forall>d \<in> set bs. is_dec d")
  case True
  with dec_to_uint32_eq [OF assms(1)] assms(2) show ?thesis by (simp add: parse_dec_spec_def)
next
  case False
  obtain rest where "s = bs @ 0 # rest" "0 \<notin> set bs" using c_string_SomeE [OF assms(1)] .
  with False dec_loop_invalid [of bs rest 0 0] show ?thesis by (auto simp: dec_to_uint32_def)
qed

lemma hex_prints_back:
  assumes "length buf = 9"
  shows "\<exists>ds. uint32_to_hex v buf = ds @ [0] \<and> length ds = 8
    \<and> (\<forall>j < 8. ds ! j = hextab ! (unat v div 16 ^ (7 - j) mod 16))
    \<and> hex_to_uint32 (uint32_to_hex v buf) = Some (Parsed v)"
proof -
  have nz: "0 \<notin> set (hex_text v)" using hex_text_hex by blast
  have "hex_to_uint32 (hex_text v @ [0]) = Some (parse_hex_spec (hex_text v))"
    by (rule hex_to_uint32_eq) (use nz in \<open>simp add: c_string_append [of _ "[]"]\<close>)
  then show ?thesis
    by (intro exI [of _ "hex_text v"]) (simp add: uint32_to_hex_eq [OF assms] hex_text_value,
      simp add: hex_text_def hex_digits_nth)
qed

lemma dec_prints_back:
  assumes "length buf = 11"
  shows "\<exists>i buf' ds. uint32_to_dec v buf = Some (i, buf') \<and> length buf' = 11 \<and> drop i buf' = ds @ [0]
    \<and> ds \<noteq> [] \<and> (\<forall>d \<in> set ds. is_dec d) \<and> (hd ds = 48 \<longrightarrow> ds = [48])
    \<and> dec_to_uint32 (drop i buf') = Some (Parsed v)"
proof -
  obtain i buf' where p: "uint32_to_dec v buf = Some (i, buf')" "length buf' = 11"
    "drop i buf' = dec_text v @ [0]" using uint32_to_dec_eq [OF assms, of v] by blast
  have nz: "0 \<notin> set (dec_text v)" using dec_text_dec by blast
  then have "dec_to_uint32 (dec_text v @ [0]) = Some (parse_dec_spec (dec_text v))"
    using u32_bound [of v] by (intro dec_to_uint32_eq) (simp_all add: dec_text_digits)
  then show ?thesis using p dec_text_dec length_dec_text dec_text_leading by (auto simp: dec_text_value)
qed

end
