(* ===== verification/Str_Util.thy ===== *)
theory Str_Util
  imports VSync_Prelude "HOL-Library.List_Lexorder"
begin

text \<open>
  The string and memory utilities: \<open>shell_strlen\<close>, \<open>shell_strcmp\<close> and \<open>shell_memset\<close> of
  sw/examples/shell.c, \<open>strlen_simple\<close> of sw/examples/multitask.c, and the \<open>memcpy\<close> and
  \<open>memset\<close> that sw/lib/vsync_posix.c supplies to the compiler. Strings are pointers into arrays
  (byte lists), the two memory routines work on a flat byte memory, so that overlapping arguments
  are part of the model.
\<close>

section \<open>Strings\<close>

text \<open>The loop \<open>while (s[len] != '\0') len++\<close>; the first argument is the rest of the array.\<close>

fun strlen_loop :: "byte list \<Rightarrow> nat \<Rightarrow> nat option" where
  "strlen_loop [] len = None"
| "strlen_loop (c # s) len = (if c \<noteq> 0 then strlen_loop s (len + 1) else Some len)"

definition shell_strlen :: "byte list \<Rightarrow> nat option" where
  "shell_strlen s = strlen_loop s 0"

definition strlen_simple :: "byte list \<Rightarrow> nat option" where
  "strlen_simple s = strlen_loop s 0"

fun shell_strcmp :: "byte list \<Rightarrow> byte list \<Rightarrow> int option" where
  "shell_strcmp (a # as) (b # bs) =
     (if a \<noteq> 0 \<and> a = b then shell_strcmp as bs else Some (uint a - uint b))"
| "shell_strcmp _ _ = None"

text \<open>The loop \<open>for (i = 0; i < n; i++) p[i] = c\<close>; a store past the array is out of bounds.\<close>

function shell_memset_loop :: "byte list \<Rightarrow> byte \<Rightarrow> nat \<Rightarrow> nat \<Rightarrow> byte list option" where
  "shell_memset_loop p c n i =
     (if i < n then
        (if i < length p then shell_memset_loop (p[i := c]) c n (i + 1) else None)
      else Some p)"
  by pat_completeness auto
termination by (relation "measure (\<lambda>(p, c, n, i). n - i)") auto

declare shell_memset_loop.simps [simp del]

definition shell_memset :: "byte list \<Rightarrow> int \<Rightarrow> nat \<Rightarrow> byte list option" where
  "shell_memset dst c n = shell_memset_loop dst (of_int c) n 0"

lemma strlen_loop_eq: "c_string s = Some bs \<Longrightarrow> strlen_loop s len = Some (len + length bs)"
  by (induction s arbitrary: bs len) (auto split: if_splits)

lemma shell_strlen_eq: "c_string s = Some bs \<Longrightarrow> shell_strlen s = Some (length bs)"
  by (simp add: shell_strlen_def strlen_loop_eq)

lemma strlen_simple_eq: "c_string s = Some bs \<Longrightarrow> strlen_simple s = Some (length bs)"
  by (simp add: strlen_simple_def strlen_loop_eq)

lemma shell_strcmp_eq:
  assumes "c_string s = Some x" and "c_string t = Some y"
  shows "\<exists>r. shell_strcmp s t = Some r \<and> (r = 0 \<longleftrightarrow> x = y) \<and> (r < 0 \<longleftrightarrow> x < y)"
  using assms
proof (induction s t arbitrary: x y rule: shell_strcmp.induct)
  case (1 a as b bs)
  show ?case
  proof (cases "a \<noteq> 0 \<and> a = b")
    case True
    with "1.prems" obtain x' y' where "x = a # x'" "y = a # y'"
      "c_string as = Some x'" "c_string bs = Some y'"
      by auto
    with "1.IH" True show ?thesis by fastforce
  next
    case False
    have "0 < uint a \<longleftrightarrow> uint a \<noteq> 0" and "0 < uint b \<longleftrightarrow> uint b \<noteq> 0"
      by (simp_all only: less_le uint_ge_0 simp_thms eq_commute)
    with False "1.prems" show ?thesis
      by (auto simp: word_less_def word_uint_eq_iff split: if_splits)
  qed
qed auto

lemma shell_strcmp_zero:
  assumes "c_string s = Some x" and "c_string t = Some y"
  shows "shell_strcmp s t = Some 0 \<longleftrightarrow> x = y"
  using shell_strcmp_eq [OF assms] by fastforce

lemma shell_memset_loop_eq:
  assumes "i \<le> n" and "n \<le> length p"
  shows "shell_memset_loop p c n i = Some (take i p @ replicate (n - i) c @ drop n p)"
  using assms
proof (induction p c n i rule: shell_memset_loop.induct)
  case (1 p c n i)
  show ?case
  proof (cases "i < n")
    case True
    then have "n - i = Suc (n - Suc i)" by simp
    with True "1.prems" "1.IH" show ?thesis
      by (simp add: shell_memset_loop.simps [of p c n i] take_Suc_conv_app_nth
          take_update_cancel)
  next
    case False
    with "1.prems" have "i = n" by simp
    with "1.prems" show ?thesis by (simp add: shell_memset_loop.simps [of p c n n])
  qed
qed

lemma shell_memset_eq:
  "n \<le> length p \<Longrightarrow> shell_memset p c n = Some (replicate n (of_int c) @ drop n p)"
  by (simp add: shell_memset_def shell_memset_loop_eq)

section \<open>Memory\<close>

type_synonym mem = "u32 \<Rightarrow> byte"

text \<open>\<open>while (n--) *d++ = *s++\<close> and \<open>while (n--) *p++ = c\<close>.\<close>

fun memcpy_loop :: "nat \<Rightarrow> u32 \<Rightarrow> u32 \<Rightarrow> mem \<Rightarrow> mem" where
  "memcpy_loop 0 d s m = m"
| "memcpy_loop (Suc n) d s m = memcpy_loop n (d + 1) (s + 1) (m(d := m s))"

definition memcpy :: "u32 \<Rightarrow> u32 \<Rightarrow> u32 \<Rightarrow> mem \<Rightarrow> u32 \<times> mem" where
  "memcpy dest src n m = (dest, memcpy_loop (unat n) dest src m)"

fun memset_loop :: "nat \<Rightarrow> u32 \<Rightarrow> byte \<Rightarrow> mem \<Rightarrow> mem" where
  "memset_loop 0 p c m = m"
| "memset_loop (Suc n) p c m = memset_loop n (p + 1) c (m(p := c))"

definition memset :: "u32 \<Rightarrow> u32 \<Rightarrow> u32 \<Rightarrow> mem \<Rightarrow> u32 \<times> mem" where
  "memset s c n m = (s, memset_loop (unat n) s (ucast c) m)"

text \<open>
  \<open>in_range p n a\<close>: the address \<open>a\<close> is one of the \<open>n\<close> addresses from \<open>p\<close> on, counted with
  the wrap-around of pointer increments.
\<close>

definition in_range :: "u32 \<Rightarrow> nat \<Rightarrow> u32 \<Rightarrow> bool" where
  "in_range p n a \<longleftrightarrow> unat (a - p) < n"

lemma unat_minus_Suc:
  assumes "a \<noteq> (p :: u32)"
  shows "unat (a - p) = Suc (unat (a - (p + 1)))"
proof -
  have "a - p \<noteq> 0" using assms by simp
  then have "0 < unat (a - p)" and "unat (a - p - 1) = unat (a - p) - 1"
    using unat_minus_one [of "a - p"] unat_gt_0 [of "a - p"] by blast+
  moreover have e: "a - (p + 1) = a - p - 1" by (simp add: algebra_simps)
  ultimately show ?thesis unfolding e by arith
qed

lemma in_range_Suc:
  assumes "n < 2 ^ 32"
  shows "in_range p (Suc n) a \<longleftrightarrow> a = p \<or> (in_range (p + 1) n a \<and> a \<noteq> p)"
  by (cases "a = p") (simp_all add: in_range_def unat_minus_Suc)

lemma not_in_range_before:
  assumes "n < 2 ^ 32"
  shows "\<not> in_range (p + 1) n p"
proof -
  have "unat (p - (p + 1)) = 4294967295"
    by (simp add: unsigned_minus_1_eq_mask mask_eq_exp_minus_1)
  with assms show ?thesis by (simp add: in_range_def)
qed

lemma memset_loop_eq:
  assumes "n < 2 ^ 32"
  shows "memset_loop n p c m a = (if in_range p n a then c else m a)"
  using assms
proof (induction n arbitrary: p m)
  case 0
  then show ?case by (simp add: in_range_def)
next
  case (Suc n)
  then show ?case by (auto simp: in_range_Suc)
qed

text \<open>
  The copy goes upwards, so it is correct when the destination starts before the source or the
  regions do not overlap: no source byte is overwritten before it is read.
\<close>

lemma memcpy_loop_eq:
  assumes "n < 2 ^ 32" and "\<And>i. i < n \<Longrightarrow> \<not> in_range d i (s + of_nat i)"
  shows "memcpy_loop n d s m a = (if in_range d n a then m (s + (a - d)) else m a)"
  using assms
proof (induction n arbitrary: d s m)
  case 0
  then show ?case by (simp add: in_range_def)
next
  case (Suc n)
  have fresh: "\<not> in_range (d + 1) i (s + 1 + of_nat i)" and ne: "s + 1 + of_nat i \<noteq> d"
    if "i < n" for i
  proof -
    have "\<not> in_range d (Suc i) (s + of_nat (Suc i))"
      using Suc.prems(2) [of "Suc i"] that by simp
    then have "s + of_nat (Suc i) \<noteq> d \<and> \<not> in_range (d + 1) i (s + of_nat (Suc i))"
      using in_range_Suc [of i d "s + of_nat (Suc i)"] Suc.prems(1) that by auto
    then show "\<not> in_range (d + 1) i (s + 1 + of_nat i)" and "s + 1 + of_nat i \<noteq> d"
      by (simp_all add: algebra_simps)
  qed
  have IH: "memcpy_loop n (d + 1) (s + 1) (m(d := m s)) a
      = (if in_range (d + 1) n a then (m(d := m s)) (s + 1 + (a - (d + 1))) else (m(d := m s)) a)"
    using Suc.prems(1) fresh by (intro Suc.IH) auto
  show ?case
  proof (cases "a = d")
    case True
    with IH Suc.prems(1) show ?thesis
      by (simp add: not_in_range_before in_range_Suc)
  next
    case False
    have "s + 1 + (a - (d + 1)) \<noteq> d" if "in_range (d + 1) n a"
      using ne [of "unat (a - (d + 1))"] that by (simp add: in_range_def)
    with IH False Suc.prems(1) show ?thesis
      by (auto simp: in_range_Suc algebra_simps)
  qed
qed

end
