(* ===== verification/Shell_IO.thy ===== *)
theory Shell_IO
  imports Posix_Lib Num_Conv Str_Util
begin

text \<open>
  The UART input and output of sw/examples/shell.c: \<open>shell_getchar\<close> to \<open>shell_put_dec\<close>, on the
  state of the shell program: the machine, and the static variables of the file. The spin loops
  are partial functions; \<open>None\<close> is a loop or an access that never ends, or one out of bounds.
\<close>

section \<open>The state of the shell\<close>

text \<open>
  \<open>argv\<close> holds offsets into \<open>cmd_buf\<close>. \<open>cmd_buf\<close> and \<open>line_buf\<close> are the static arrays of \<open>main\<close>
  and of \<open>cmd_load\<close>.
\<close>

record 'w shell = "'w machine" +
  uart_fd :: u32
  hex_buf :: "byte list"
  dec_buf :: "byte list"
  argc :: nat
  argv :: "nat list"
  cmd_buf :: "byte list"
  line_buf :: "byte list"

section \<open>Characters\<close>

definition shell_getchar :: "'w platform \<Rightarrow> 'w shell \<Rightarrow> (int \<times> 'w shell) option" where
  "shell_getchar P s =
     do { (v, s) \<leftarrow> REG32_load P UART_STATUS_ADDR s;
          if v AND UART_ST_RX_EMPTY \<noteq> 0 then Some (-1, s)
          else do { (d, s) \<leftarrow> REG32_load P UART_RX_DATA_ADDR s; Some (uint (d AND 0xFF), s) } }"

partial_function (option) shell_getchar_blocking ::
  "'w platform \<Rightarrow> 'w shell \<Rightarrow> (int \<times> 'w shell) option" where
  "shell_getchar_blocking P s =
     do { (c, s') \<leftarrow> shell_getchar P s;
          if c < 0 then shell_getchar_blocking P s' else Some (c, s') }"

text \<open>The two polling loops \<open>while (status & TX_FULL)\<close> and \<open>while (!(status & TX_EMPTY))\<close>.\<close>

partial_function (option) wait_tx_room :: "'w platform \<Rightarrow> 'w shell \<Rightarrow> 'w shell option" where
  "wait_tx_room P s =
     do { (v, s') \<leftarrow> REG32_load P UART_STATUS_ADDR s;
          if v AND UART_ST_TX_FULL \<noteq> 0 then wait_tx_room P s' else Some s' }"

partial_function (option) wait_tx_empty :: "'w platform \<Rightarrow> 'w shell \<Rightarrow> 'w shell option" where
  "wait_tx_empty P s =
     do { (v, s') \<leftarrow> REG32_load P UART_STATUS_ADDR s;
          if \<not> v AND UART_ST_TX_EMPTY \<noteq> 0 then wait_tx_empty P s' else Some s' }"

definition shell_putchar :: "'w platform \<Rightarrow> byte \<Rightarrow> 'w shell \<Rightarrow> 'w shell option" where
  "shell_putchar P c s =
     do { s \<leftarrow> wait_tx_room P s;
          (_, s) \<leftarrow> posix_write P (uart_fd s) [c] 1 s;
          Some s }"

section \<open>Strings and numbers\<close>

fun shell_puts :: "'w platform \<Rightarrow> byte list \<Rightarrow> 'w shell \<Rightarrow> 'w shell option" where
  "shell_puts P [] s = None"
| "shell_puts P (c # cs) s =
     (if c \<noteq> 0 then do { s \<leftarrow> shell_putchar P c s; shell_puts P cs s } else Some s)"

definition shell_newline :: "'w platform \<Rightarrow> 'w shell \<Rightarrow> 'w shell option" where
  "shell_newline P s = shell_puts P (lit CRLF) s"

definition shell_put_hex :: "'w platform \<Rightarrow> u32 \<Rightarrow> 'w shell \<Rightarrow> 'w shell option" where
  "shell_put_hex P val s =
     do { s \<leftarrow> shell_puts P (lit (ascii ''0x'')) s;
          let s = s\<lparr>hex_buf := uint32_to_hex val (hex_buf s)\<rparr>;
          shell_puts P (hex_buf s) s }"

definition shell_put_dec :: "'w platform \<Rightarrow> u32 \<Rightarrow> 'w shell \<Rightarrow> 'w shell option" where
  "shell_put_dec P val s =
     do { (i, buf) \<leftarrow> uint32_to_dec val (dec_buf s);
          shell_puts P (drop i buf) (s\<lparr>dec_buf := buf\<rparr>) }"

end
