(* ===== verification/Console.thy ===== *)
theory Console
  imports Shell_IO
begin

text \<open>
  The interface between the shell and the machine: what the shell relies on to print a byte and
  to read one, as the locales \<open>output_port\<close> and \<open>terminal\<close>, and what the input and output
  functions of the shell guarantee under it. The theory \<open>Soc\<close> interprets both locales on the
  model of the hardware.
\<close>

section \<open>Polling\<close>

definition status_load :: "'w platform \<Rightarrow> 'w \<Rightarrow> u32 \<times> 'w" where
  "status_load P w = load32 P UART_STATUS_ADDR w"

text \<open>\<open>comes P c w\<close>: polling the status from \<open>w\<close> on finds a value with \<open>c\<close> after finitely many reads.\<close>

definition comes :: "'w platform \<Rightarrow> (u32 \<Rightarrow> bool) \<Rightarrow> 'w \<Rightarrow> bool" where
  "comes P c w \<longleftrightarrow> (\<exists>n. c (fst (status_load P (((\<lambda>w. snd (status_load P w)) ^^ n) w))))"

lemma comes_induct [consumes 1, case_names found poll]:
  assumes "comes P c w"
    and found: "\<And>w. c (fst (status_load P w)) \<Longrightarrow> Q w"
    and poll: "\<And>w. \<not> c (fst (status_load P w)) \<Longrightarrow> Q (snd (status_load P w)) \<Longrightarrow> Q w"
  shows "Q w"
proof -
  obtain n where "c (fst (status_load P (((\<lambda>w. snd (status_load P w)) ^^ n) w)))"
    using assms(1) by (auto simp: comes_def)
  then show ?thesis
  proof (induction n arbitrary: w)
    case 0
    then show ?case by (simp add: found)
  next
    case (Suc n)
    then show ?case
      by (cases "c (fst (status_load P w))") (auto intro: found poll simp: funpow_Suc_right simp del: funpow.simps)
  qed
qed

lemma comes_now: "c (fst (status_load P w)) \<Longrightarrow> comes P c w"
  unfolding comes_def by (rule exI [of _ 0]) simp

lemma comes_later: "comes P c (snd (status_load P w)) \<Longrightarrow> comes P c w"
  unfolding comes_def
  by (elim exE) (rule_tac x = "Suc n" in exI, simp add: funpow_Suc_right del: funpow.simps)

section \<open>What the shell relies on\<close>

text \<open>
  \<open>good fd w\<close>: the descriptor \<open>fd\<close> is open on the UART and the UART is usable; \<open>sent w\<close>: the bytes
  the UART has accepted so far; \<open>room w\<close>: it can accept another one; \<open>harmless a\<close>: a store to the
  address \<open>a\<close> ends and does not change the UART; \<open>answers a\<close>: a load from the address \<open>a\<close> ends.
\<close>

locale output_port =
  fixes P :: "'w platform"
    and good :: "u32 \<Rightarrow> 'w \<Rightarrow> bool"
    and sent :: "'w \<Rightarrow> byte list"
    and room :: "'w \<Rightarrow> bool"
    and harmless :: "u32 \<Rightarrow> bool"
    and answers :: "u32 \<Rightarrow> bool"
  assumes load_answered: "good fd w \<Longrightarrow> answers a \<Longrightarrow> load_ends P a w"
    and store_answered: "good fd w \<Longrightarrow> harmless a \<Longrightarrow> store_ends P a w"
    and status_answers: "answers UART_STATUS_ADDR"
    and load_keeps: "good fd w \<Longrightarrow> load32 P a w = (v, w') \<Longrightarrow> good fd w' \<and> sent w' = sent w"
    and store_keeps: "good fd w \<Longrightarrow> harmless a \<Longrightarrow>
      good fd (store32 P a v w) \<and> sent (store32 P a v w) = sent w"
    and csr_keeps: "good fd w \<Longrightarrow>
      good fd (csr_clear P csr bits w) \<and> sent (csr_clear P csr bits w) = sent w"
    and status_room: "good fd w \<Longrightarrow> load32 P UART_STATUS_ADDR w = (v, w') \<Longrightarrow>
      v AND UART_ST_TX_FULL = 0 \<Longrightarrow> room w'"
    and write_room: "good fd w \<Longrightarrow> room w \<Longrightarrow>
      \<exists>r w'. syscall P SYS_WRITE [fd, ucast (b :: byte), 1] w = Some (r, w') \<and> 0 \<le> sint r
        \<and> good fd w' \<and> sent w' = sent w @ [b]"
    and room_comes: "good fd w \<Longrightarrow> comes P (\<lambda>v. v AND UART_ST_TX_FULL = 0) w"
    and empty_comes: "good fd w \<Longrightarrow> comes P (\<lambda>v. v AND UART_ST_TX_EMPTY \<noteq> 0) w"

text \<open>
  \<open>typed w cs\<close>: the bytes the UART will deliver to the program from \<open>w\<close> on begin with \<open>cs\<close>. Only a
  read of the receive register takes one of them.
\<close>

locale terminal = output_port P good sent room harmless answers
  for P :: "'w platform"
    and good :: "u32 \<Rightarrow> 'w \<Rightarrow> bool"
    and sent :: "'w \<Rightarrow> byte list"
    and room :: "'w \<Rightarrow> bool"
    and harmless :: "u32 \<Rightarrow> bool"
    and answers :: "u32 \<Rightarrow> bool" +
  fixes typed :: "'w \<Rightarrow> byte list \<Rightarrow> bool"
  assumes rx_answers: "answers UART_RX_DATA_ADDR"
    and typed_load: "good fd w \<Longrightarrow> typed w cs \<Longrightarrow> a \<noteq> UART_RX_DATA_ADDR \<Longrightarrow>
      load32 P a w = (v, w') \<Longrightarrow> typed w' cs"
    and typed_store: "good fd w \<Longrightarrow> typed w cs \<Longrightarrow> harmless a \<Longrightarrow> typed (store32 P a v w) cs"
    and typed_csr: "good fd w \<Longrightarrow> typed w cs \<Longrightarrow> typed (csr_clear P csr bits w) cs"
    and typed_write: "good fd w \<Longrightarrow> typed w cs \<Longrightarrow> room w \<Longrightarrow>
      syscall P SYS_WRITE [fd, ucast (b :: byte), 1] w = Some (r, w') \<Longrightarrow> typed w' cs"
    and key_comes: "good fd w \<Longrightarrow> typed w (c # cs) \<Longrightarrow> comes P (\<lambda>v. v AND UART_ST_RX_EMPTY = 0) w"
    and key_read: "good fd w \<Longrightarrow> typed w (c # cs) \<Longrightarrow>
      load32 P UART_STATUS_ADDR w = (v, w') \<Longrightarrow> v AND UART_ST_RX_EMPTY = 0 \<Longrightarrow>
      load32 P UART_RX_DATA_ADDR w' = (d, w'') \<Longrightarrow> d AND 0xFF = ucast c \<and> typed w'' cs"

section \<open>Progress of the shell\<close>

text \<open>
  The scratch buffers have their declared sizes; \<open>kept s s'\<close>: the program variables other than the
  scratch buffers are the same. An observation is quiet when it does not take a typed byte except
  by reading a key.
\<close>

definition sized :: "'w shell \<Rightarrow> bool" where
  "sized s \<longleftrightarrow> length (hex_buf s) = 9 \<and> length (dec_buf s) = 11"

definition kept :: "'w shell \<Rightarrow> 'w shell \<Rightarrow> bool" where
  "kept s s' \<longleftrightarrow> uart_fd s' = uart_fd s \<and> argc s' = argc s \<and> argv s' = argv s
     \<and> cmd_buf s' = cmd_buf s \<and> line_buf s' = line_buf s"

fun quiet :: "obs \<Rightarrow> bool" where
  "quiet (Act (Load a v)) \<longleftrightarrow> a \<noteq> UART_RX_DATA_ADDR"
| "quiet _ \<longleftrightarrow> True"

lemma quiet_Text [simp]: "list_all quiet (map Text bs)"
  by (induction bs) simp_all

text \<open>\<open>said s0 os s\<close>: the program has come from \<open>s0\<close> to \<open>s\<close>, and \<open>os\<close> is what it has done.\<close>

definition ready :: "(u32 \<Rightarrow> 'w \<Rightarrow> bool) \<Rightarrow> 'w shell \<Rightarrow> bool" where
  "ready good s \<longleftrightarrow> good (uart_fd s) (hw s) \<and> sized s"

definition said :: "(u32 \<Rightarrow> 'w \<Rightarrow> bool) \<Rightarrow> ('w \<Rightarrow> byte list) \<Rightarrow> ('w \<Rightarrow> byte list \<Rightarrow> bool) \<Rightarrow>
    'w shell \<Rightarrow> obs list \<Rightarrow> 'w shell \<Rightarrow> bool" where
  "said good sent typed s0 os s \<longleftrightarrow> ready good s \<and> kept s0 s
     \<and> (\<exists>tr. trace s = trace s0 @ tr \<and> displays (uart_fd s) os tr)
     \<and> sent (hw s) = sent (hw s0) @ texts os
     \<and> (\<forall>cs. list_all quiet os \<longrightarrow> typed (hw s0) (keys os @ cs) \<longrightarrow> typed (hw s) cs)"

lemma kept_refl [simp]: "kept s s"
  by (simp add: kept_def)

lemma kept_trans: "kept s s' \<Longrightarrow> kept s' s'' \<Longrightarrow> kept s s''"
  by (simp add: kept_def)

lemma said_refl: "ready good s \<Longrightarrow> said good sent typed s [] s"
  by (auto simp: said_def intro: exI [of _ "[]"])

lemma said_trans:
  assumes "said good sent typed s0 os s" and "said good sent typed s os' s'"
  shows "said good sent typed s0 (os @ os') s'"
proof -
  have fd: "uart_fd s' = uart_fd s" using assms(2) by (simp add: said_def kept_def)
  obtain tr tr' where "trace s = trace s0 @ tr" "displays (uart_fd s) os tr"
    and "trace s' = trace s @ tr'" "displays (uart_fd s') os' tr'"
    using assms by (auto simp: said_def)
  then have "trace s' = trace s0 @ (tr @ tr')" and "displays (uart_fd s') (os @ os') (tr @ tr')"
    using fd by (auto intro: displays_append)
  with assms show ?thesis
    unfolding said_def by (auto intro: kept_trans)
qed

lemma said_eq: "said good sent typed s0 os s \<Longrightarrow> os = os' \<Longrightarrow> said good sent typed s0 os' s"
  by simp

lemma said_ready: "said good sent typed s0 os s \<Longrightarrow> ready good s"
  by (simp add: said_def)

lemma said_kept: "said good sent typed s0 os s \<Longrightarrow> kept s0 s"
  by (simp add: said_def)

text \<open>One observation: how a single step of the machine extends what has been said.\<close>

lemma said_one:
  assumes "ready good s'" and "kept s s'" and "trace s' = trace s @ tr"
    and "expands (uart_fd s') ob tr" and "sent (hw s') = sent (hw s) @ text_of ob"
    and "\<And>cs. quiet ob \<Longrightarrow> typed (hw s) (keys_of ob @ cs) \<Longrightarrow> typed (hw s') cs"
  shows "said good sent typed s [ob] s'"
  using assms unfolding said_def by (auto intro: displays_single)

text \<open>A store into a scratch buffer says nothing.\<close>

lemma said_scratch:
  assumes "said good sent typed s0 os s"
  shows "length b = 9 \<Longrightarrow> said good sent typed s0 os (s\<lparr>hex_buf := b\<rparr>)"
    and "length b = 11 \<Longrightarrow> said good sent typed s0 os (s\<lparr>dec_buf := b\<rparr>)"
  using assms by (auto simp: said_def ready_def sized_def kept_def)

text \<open>The buffers of the command line are not the console's concern: they can be exchanged on both sides.\<close>

lemma said_line_buf:
  "said good sent typed s0 os s \<Longrightarrow> said good sent typed (s0\<lparr>line_buf := b\<rparr>) os (s\<lparr>line_buf := b\<rparr>)"
  by (auto simp: said_def ready_def sized_def kept_def)

definition with_buffers :: "'w shell \<Rightarrow> 'w shell \<Rightarrow> 'w shell" where
  "with_buffers t s = s\<lparr>argc := argc t, argv := argv t, cmd_buf := cmd_buf t, line_buf := line_buf t\<rparr>"

lemma with_buffers_simps [simp]:
  "hw (with_buffers t s) = hw s" "trace (with_buffers t s) = trace s"
  "uart_fd (with_buffers t s) = uart_fd s" "hex_buf (with_buffers t s) = hex_buf s"
  "dec_buf (with_buffers t s) = dec_buf s" "argc (with_buffers t s) = argc t"
  "argv (with_buffers t s) = argv t" "cmd_buf (with_buffers t s) = cmd_buf t"
  "line_buf (with_buffers t s) = line_buf t"
  "with_buffers t (with_buffers u s) = with_buffers t s" "with_buffers s s = s"
  by (simp_all add: with_buffers_def)

lemma said_buffers:
  "said good sent typed s0 os s \<Longrightarrow> said good sent typed (with_buffers t s0) os (with_buffers t s)"
  by (auto simp: said_def ready_def sized_def kept_def)

lemma said_with_buffers: "said good sent typed s0 os s \<Longrightarrow> with_buffers s s0 = s0"
  by (simp add: said_def kept_def with_buffers_def)

text \<open>
  \<open>reached s0 os s\<close>: as \<open>said\<close>, for a stretch of the program that may also have changed the command
  line and its arguments.
\<close>

definition reached :: "(u32 \<Rightarrow> 'w \<Rightarrow> bool) \<Rightarrow> ('w \<Rightarrow> byte list) \<Rightarrow> ('w \<Rightarrow> byte list \<Rightarrow> bool) \<Rightarrow>
    'w shell \<Rightarrow> obs list \<Rightarrow> 'w shell \<Rightarrow> bool" where
  "reached good sent typed s0 os s \<longleftrightarrow> said good sent typed (with_buffers s s0) os s"

lemma reachedI: "said good sent typed (with_buffers t s0) os s \<Longrightarrow> reached good sent typed s0 os s"
  using said_with_buffers [of good sent typed "with_buffers t s0" os s] by (simp add: reached_def)

lemma reached_said: "said good sent typed s0 os s \<Longrightarrow> reached good sent typed s0 os s"
  by (simp add: reached_def said_with_buffers)

lemma reached_trans:
  assumes "reached good sent typed s0 os s" and "reached good sent typed s os' s'"
  shows "reached good sent typed s0 (os @ os') s'"
  using said_trans [OF said_buffers [OF assms(1) [unfolded reached_def], of s']] assms(2)
  by (simp add: reached_def)

section \<open>Characters\<close>

text \<open>
  \<open>polled s vs s'\<close>: the program has read the status register, with the values \<open>vs\<close>, and done
  nothing else.
\<close>

definition polled :: "'w shell \<Rightarrow> u32 list \<Rightarrow> 'w shell \<Rightarrow> bool" where
  "polled s vs s' \<longleftrightarrow> s' = s\<lparr>hw := hw s', trace := trace s @ polls vs\<rparr>"

text \<open>The state after a load that ends.\<close>

definition after_load :: "'w platform \<Rightarrow> u32 \<Rightarrow> 'w shell \<Rightarrow> 'w shell" where
  "after_load P a s = s\<lparr>hw := snd (load32 P a (hw s)), trace := trace s @ [Load a (fst (load32 P a (hw s)))]\<rparr>"

lemma REG32_load_ends:
  "load_ends P a (hw s) \<Longrightarrow> REG32_load P a s = Some (fst (load32 P a (hw s)), after_load P a s)"
  by (simp add: REG32_load_def after_load_def case_prod_beta)

lemma REG32_hangs:
  "\<not> load_ends P a (hw s) \<Longrightarrow> REG32_load P a s = None"
  "\<not> store_ends P a (hw s) \<Longrightarrow> REG32_store P a v s = None"
  by (simp_all add: REG32_load_def REG32_store_def)

lemma hw_after_load [simp]: "hw (after_load P a s) = snd (load32 P a (hw s))"
  by (simp add: after_load_def)

lemma polled_Cons:
  assumes "polled (after_load P UART_STATUS_ADDR s) vs s'"
  shows "polled s (fst (status_load P (hw s)) # vs) s'"
  using assms by (simp add: polled_def after_load_def status_load_def)

lemma polled_one:
  "polled s [fst (status_load P (hw s))] (after_load P UART_STATUS_ADDR s)"
  by (simp add: polled_def after_load_def status_load_def)

lemma polled_ready: "polled s vs s' \<Longrightarrow> good (uart_fd s) (hw s') \<Longrightarrow> sized s \<Longrightarrow> ready good s'"
  by (cases s') (auto simp: polled_def ready_def sized_def)

context terminal begin

abbreviation so_far :: "'w shell \<Rightarrow> obs list \<Rightarrow> 'w shell \<Rightarrow> bool" where
  "so_far \<equiv> said good sent typed"

definition steady :: "u32 \<Rightarrow> 'w \<Rightarrow> 'w \<Rightarrow> bool" where
  "steady fd w w' \<longleftrightarrow> good fd w' \<and> sent w' = sent w \<and> (\<forall>cs. typed w cs \<longrightarrow> typed w' cs)"

lemma steady_trans: "steady fd w w' \<Longrightarrow> steady fd w' w'' \<Longrightarrow> steady fd w w''"
  by (simp add: steady_def)

lemma steady_load: "good fd w \<Longrightarrow> a \<noteq> UART_RX_DATA_ADDR \<Longrightarrow> steady fd w (snd (load32 P a w))"
  using load_keeps [of fd w a] typed_load [of fd w _ a]
  by (cases "load32 P a w") (auto simp: steady_def)

lemma steady_status: "good fd w \<Longrightarrow> steady fd w (snd (status_load P w))"
  unfolding status_load_def by (rule steady_load) (simp_all add: hw_defs)

text \<open>
  A loop \<open>W\<close> that polls the status register until \<open>c\<close> holds and then goes on as \<open>K\<close>, for each of
  the three polling loops of the shell.
\<close>

lemma status_ends: "good fd (hw s) \<Longrightarrow>
    REG32_load P UART_STATUS_ADDR s = Some (fst (status_load P (hw s)), after_load P UART_STATUS_ADDR s)"
  using load_answered [OF _ status_answers] by (simp add: REG32_load_ends status_load_def)

lemma spin_ends:
  assumes unfold: "\<And>s. W s = Option.bind (REG32_load P UART_STATUS_ADDR s)
      (\<lambda>(v, s'). if c v then K s' else W s')"
    and "comes P c w" and "hw s = w" and "good fd w"
  shows "\<exists>vs v s1 s2. W s = K s2 \<and> polled s vs s1 \<and> polled s (vs @ [v]) s2
    \<and> (\<forall>x \<in> set vs. \<not> c x) \<and> c v \<and> steady fd w (hw s2) \<and> steady fd w (hw s1)
    \<and> status_load P (hw s1) = (v, hw s2)"
  using assms(2,3,4)
proof (induction arbitrary: s rule: comes_induct)
  case (found w)
  let ?s = "after_load P UART_STATUS_ADDR s"
  have "W s = K ?s"
    using found status_ends [of fd s] by (subst unfold) simp
  moreover have "steady fd w (hw ?s)"
    using steady_status [OF found(3)] found(2) by (simp add: status_load_def)
  moreover have "steady fd w w" and "polled s [] s"
    using found(3) by (simp_all add: steady_def polled_def)
  ultimately show ?case
    using polled_one [of s P] found(1,2)
    by (intro exI [of _ "[]"] exI [of _ "fst (status_load P w)"] exI [of _ s] exI [of _ ?s])
      (auto simp: status_load_def prod_eq_iff)
next
  case (poll w)
  let ?s = "after_load P UART_STATUS_ADDR s" and ?w = "snd (status_load P w)"
  have w: "hw ?s = ?w" using poll(3) by (simp add: status_load_def)
  have st: "steady fd w ?w" by (rule steady_status [OF poll(4)])
  then have "good fd ?w" by (simp add: steady_def)
  then obtain vs v s1 s2 where ih: "W ?s = K s2" "polled ?s vs s1" "polled ?s (vs @ [v]) s2"
    "\<forall>x \<in> set vs. \<not> c x" "c v" "steady fd ?w (hw s2)" "steady fd ?w (hw s1)"
    "status_load P (hw s1) = (v, hw s2)"
    using poll(2) [OF w] by blast
  have "W s = W ?s"
    using poll(1,3,4) status_ends [of fd s] by (subst unfold) simp
  then show ?case
    using ih poll(1,3) st polled_Cons [of P s]
    by (intro exI [of _ "fst (status_load P w) # vs"] exI [of _ v] exI [of _ s1] exI [of _ s2])
      (auto intro: steady_trans)
qed

lemma room_of_poll:
  assumes "good fd w" and "status_load P w = (v, w')" and "v AND UART_ST_TX_FULL = 0"
  shows "room w'"
  using status_room assms by (simp add: status_load_def)

lemma wait_unfold:
  "wait_tx_room P s = Option.bind (REG32_load P UART_STATUS_ADDR s)
     (\<lambda>(v, s'). if v AND UART_ST_TX_FULL = 0 then Some s' else wait_tx_room P s')"
  "wait_tx_empty P s = Option.bind (REG32_load P UART_STATUS_ADDR s)
     (\<lambda>(v, s'). if v AND UART_ST_TX_EMPTY \<noteq> 0 then Some s' else wait_tx_empty P s')"
  by (subst wait_tx_room.simps wait_tx_empty.simps, rule arg_cong [where f = "Option.bind _"], auto)+

lemma wait_tx_room_ends:
  assumes "ready good s"
  shows "\<exists>vs v s'. wait_tx_room P s = Some s' \<and> polled s (vs @ [v]) s'
    \<and> (\<forall>x \<in> set vs. x AND UART_ST_TX_FULL \<noteq> 0) \<and> v AND UART_ST_TX_FULL = 0
    \<and> steady (uart_fd s) (hw s) (hw s') \<and> room (hw s')"
proof -
  have g: "good (uart_fd s) (hw s)" using assms by (simp add: ready_def)
  have "\<exists>vs v s1 s2. wait_tx_room P s = Some s2 \<and> polled s vs s1 \<and> polled s (vs @ [v]) s2
    \<and> (\<forall>x \<in> set vs. \<not> x AND UART_ST_TX_FULL = 0) \<and> v AND UART_ST_TX_FULL = 0
    \<and> steady (uart_fd s) (hw s) (hw s2) \<and> steady (uart_fd s) (hw s) (hw s1)
    \<and> status_load P (hw s1) = (v, hw s2)"
    by (rule spin_ends [OF wait_unfold(1) room_comes [OF g] refl g])
  then show ?thesis using room_of_poll unfolding steady_def by blast
qed

lemma syscall3_write:
  fixes b :: byte
  assumes "good (uart_fd s) (hw s)" and "room (hw s)"
  shows "\<exists>r w. syscall3 P SYS_WRITE (uart_fd s) (ucast b) 1 s
      = Some (r, s\<lparr>hw := w, trace := trace s @ [Ecall SYS_WRITE [uart_fd s, ucast b, 1] r]\<rparr>)
    \<and> 0 \<le> sint r \<and> good (uart_fd s) w \<and> sent w = sent (hw s) @ [b]
    \<and> (\<forall>cs. typed (hw s) cs \<longrightarrow> typed w cs)"
  using write_room [OF assms, of b] typed_write [OF assms(1) _ assms(2), of _ b]
  by (fastforce simp: syscall3_def ecall_def)

theorem putchar_said:
  assumes "ready good s"
  shows "returns (so_far s [Text b]) (shell_putchar P b s)"
proof -
  obtain vs v s1 where w: "wait_tx_room P s = Some s1" and p: "polled s (vs @ [v]) s1"
    and full: "\<forall>x \<in> set vs. x AND UART_ST_TX_FULL \<noteq> 0" "v AND UART_ST_TX_FULL = 0"
    and st: "steady (uart_fd s) (hw s) (hw s1)" and rm: "room (hw s1)"
    using wait_tx_room_ends [OF assms] by blast
  have fd: "uart_fd s1 = uart_fd s" using p by (cases s1) (simp add: polled_def)
  obtain r w' where call: "syscall3 P SYS_WRITE (uart_fd s1) (ucast b) 1 s1
      = Some (r, s1\<lparr>hw := w', trace := trace s1 @ [Ecall SYS_WRITE [uart_fd s1, ucast b, 1] r]\<rparr>)"
    and w': "0 \<le> sint r" "good (uart_fd s1) w'" "sent w' = sent (hw s1) @ [b]"
      "\<forall>cs. typed (hw s1) cs \<longrightarrow> typed w' cs"
    using syscall3_write [of s1 b] st rm fd by (auto simp: steady_def)
  let ?s = "s1\<lparr>hw := w', trace := trace s1 @ [Ecall SYS_WRITE [uart_fd s1, ucast b, 1] r]\<rparr>"
  have "shell_putchar P b s = Some ?s"
    by (simp add: shell_putchar_def w posix_write_byte call)
  moreover have "so_far s [Text b] ?s"
  proof (rule said_one)
    show "ready good ?s" and "kept s ?s"
      using assms p w' by (cases s1; simp add: ready_def sized_def polled_def kept_def)+
    show "trace ?s = trace s @ (polls (vs @ [v]) @ [Ecall SYS_WRITE [uart_fd s1, ucast b, 1] r])"
      using p by (cases s1) (simp add: polled_def)
    show "expands (uart_fd ?s) (Text b) (polls (vs @ [v]) @ [Ecall SYS_WRITE [uart_fd s1, ucast b, 1] r])"
      using full w'(1) by fastforce
  qed (use st w' in \<open>auto simp: steady_def\<close>)
  ultimately show ?thesis by simp
qed

lemma getchar_unfold:
  "shell_getchar_blocking P s = Option.bind (REG32_load P UART_STATUS_ADDR s)
     (\<lambda>(v, s'). if v AND UART_ST_RX_EMPTY = 0
       then Option.bind (REG32_load P UART_RX_DATA_ADDR s') (\<lambda>(d, s''). Some (uint (d AND 0xFF), s''))
       else shell_getchar_blocking P s')"
  by (subst shell_getchar_blocking.simps)
    (simp add: shell_getchar_def not_less [THEN iffD2] split: Option.bind_split)

theorem getchar_said:
  assumes "ready good s" and "typed (hw s) (c # cs)"
  shows "returns (\<lambda>(k, s'). k = uint c \<and> so_far s [Key c] s') (shell_getchar_blocking P s)"
proof -
  have g: "good (uart_fd s) (hw s)" using assms by (simp add: ready_def)
  obtain vs v s1 s2 where
    k: "shell_getchar_blocking P s = Option.bind (REG32_load P UART_RX_DATA_ADDR s2)
          (\<lambda>(d, s''). Some (uint (d AND 0xFF), s''))"
    and "polled s vs s1" and p: "polled s (vs @ [v]) s2"
    and v: "\<forall>x \<in> set vs. \<not> x AND UART_ST_RX_EMPTY = 0" "v AND UART_ST_RX_EMPTY = 0"
    and st: "steady (uart_fd s) (hw s) (hw s2)" "steady (uart_fd s) (hw s) (hw s1)"
    and last: "status_load P (hw s1) = (v, hw s2)"
    using spin_ends [where W = "shell_getchar_blocking P", OF getchar_unfold key_comes [OF g assms(2)] refl g]
    by blast
  obtain d w where rx: "load32 P UART_RX_DATA_ADDR (hw s2) = (d, w)" by (cases "load32 P UART_RX_DATA_ADDR (hw s2)")
  have rd: "d AND 0xFF = ucast c \<and> (typed (hw s1) (c # cs') \<longrightarrow> typed w cs')"
    if "typed (hw s1) (c # cs')" for cs'
    using key_read [OF _ that _ v(2) rx] last st(2) by (auto simp: steady_def status_load_def)
  have c: "d AND 0xFF = ucast c" using rd [of cs] st(2) assms(2) by (simp add: steady_def)
  let ?s = "s2\<lparr>hw := w, trace := trace s2 @ [Load UART_RX_DATA_ADDR d]\<rparr>"
  have "load_ends P UART_RX_DATA_ADDR (hw s2)"
    using load_answered [OF _ rx_answers, of "uart_fd s"] st(1) by (simp add: steady_def)
  then have "shell_getchar_blocking P s = Some (uint c, ?s)"
    using c by (simp add: k REG32_load_def rx)
  moreover have "so_far s [Key c] ?s"
  proof (rule said_one)
    have gw: "good (uart_fd s) w \<and> sent w = sent (hw s2)"
      using load_keeps [OF _ rx, of "uart_fd s"] st(1) by (simp add: steady_def)
    show "ready good ?s" and "kept s ?s"
      using assms p gw by (cases s2; simp add: ready_def sized_def polled_def kept_def)+
    show "trace ?s = trace s @ (polls (vs @ [v]) @ [Load UART_RX_DATA_ADDR d])"
      using p by (cases s2) (simp add: polled_def)
    show "expands (uart_fd ?s) (Key c) (polls (vs @ [v]) @ [Load UART_RX_DATA_ADDR d])"
      using v c by fastforce
    show "sent (hw ?s) = sent (hw s) @ text_of (Key c)"
      using gw st(1) by (simp add: steady_def)
    show "\<And>cs'. typed (hw s) (keys_of (Key c) @ cs') \<Longrightarrow> typed (hw ?s) cs'"
      using rd st(2) by (simp add: steady_def)
  qed
  ultimately show ?thesis by simp
qed

theorem wait_tx_empty_said:
  assumes "ready good s"
  shows "returns (so_far s [Drained]) (wait_tx_empty P s)"
proof -
  have g: "good (uart_fd s) (hw s)" using assms by (simp add: ready_def)
  have "\<exists>vs v s1 s2. wait_tx_empty P s = Some s2 \<and> polled s vs s1 \<and> polled s (vs @ [v]) s2
    \<and> (\<forall>x \<in> set vs. \<not> x AND UART_ST_TX_EMPTY \<noteq> 0) \<and> v AND UART_ST_TX_EMPTY \<noteq> 0
    \<and> steady (uart_fd s) (hw s) (hw s2) \<and> steady (uart_fd s) (hw s) (hw s1)
    \<and> status_load P (hw s1) = (v, hw s2)"
    by (rule spin_ends [OF wait_unfold(2) empty_comes [OF g] refl g])
  then obtain vs v s2 where w: "wait_tx_empty P s = Some s2" and p: "polled s (vs @ [v]) s2"
    and v: "\<forall>x \<in> set vs. x AND UART_ST_TX_EMPTY = 0" "v AND UART_ST_TX_EMPTY \<noteq> 0"
    and st: "steady (uart_fd s) (hw s) (hw s2)"
    by blast
  have "so_far s [Drained] s2"
  proof (rule said_one)
    show "ready good s2" and "kept s s2"
      using assms p st by (cases s2; simp add: ready_def sized_def polled_def kept_def steady_def)+
    show "trace s2 = trace s @ polls (vs @ [v])"
      using p by (cases s2) (simp add: polled_def)
    show "expands (uart_fd s2) Drained (polls (vs @ [v]))"
      using v by fastforce
  qed (use st in \<open>auto simp: steady_def\<close>)
  with w show ?thesis by simp
qed

section \<open>Steps of a command\<close>

text \<open>
  A command is a sequence of the steps below. Each rule takes the program over one step and adds
  what the step does to what has been said; \<open>said_end\<close> closes the sequence.
\<close>

lemma said_step:
  assumes "so_far s0 os s" and "\<And>s. ready good s \<Longrightarrow> returns (so_far s os1) (m s)"
    and "\<And>s'. so_far s0 (os @ os1) s' \<Longrightarrow> returns Q (f s')"
  shows "returns Q (Option.bind (m s) f)"
  by (rule returns_bindI [OF assms(2) [OF said_ready [OF assms(1)]]])
    (rule assms(3), rule said_trans [OF assms(1)])

lemma said_end: "so_far s0 os s \<Longrightarrow> os = os' \<Longrightarrow> returns (so_far s0 os') (Some s)"
  by simp

lemma returns_tail: "returns Q (Option.bind m Some) \<Longrightarrow> returns Q m"
  by (cases m) simp_all

lemma puts_said:
  assumes "ready good s" and "c_string p = Some bs"
  shows "returns (so_far s (map Text bs)) (shell_puts P p s)"
  using assms
proof (induction p arbitrary: s bs)
  case (Cons c cs)
  show ?case
  proof (cases "c = 0")
    case True
    with Cons.prems show ?thesis by (simp add: said_refl)
  next
    case False
    with Cons.prems obtain bs' where bs: "bs = c # bs'" "c_string cs = Some bs'" by auto
    have "returns (so_far s (map Text bs))
        (Option.bind (shell_putchar P c s) (\<lambda>s. Option.bind (shell_puts P cs s) Some))"
    proof (rule said_step [where m = "shell_putchar P c", OF said_refl [OF Cons.prems(1)]])
      show "\<And>s. ready good s \<Longrightarrow> returns (so_far s [Text c]) (shell_putchar P c s)"
        by (rule putchar_said)
      fix s' assume s': "so_far s ([] @ [Text c]) s'"
      show "returns (so_far s (map Text bs)) (Option.bind (shell_puts P cs s') Some)"
        by (rule said_step [where m = "shell_puts P cs", OF s' Cons.IH [OF _ bs(2)]])
          (simp_all add: bs(1))
    qed
    with False show ?thesis by simp
  qed
qed simp

lemma newline_said: "ready good s \<Longrightarrow> returns (so_far s (map Text CRLF)) (shell_newline P s)"
  unfolding shell_newline_def by (rule puts_said) (simp_all add: literal_simps)

lemma puts_step:
  assumes "so_far s0 os s" and "c_string p = Some bs"
    and "\<And>s'. so_far s0 (os @ map Text bs) s' \<Longrightarrow> returns Q (f s')"
  shows "returns Q (Option.bind (shell_puts P p s) f)"
  by (rule said_step [where m = "shell_puts P p", OF assms(1) _ assms(3)]) (rule puts_said [OF _ assms(2)])

lemma putchar_step:
  assumes "so_far s0 os s" and "\<And>s'. so_far s0 (os @ [Text b]) s' \<Longrightarrow> returns Q (f s')"
  shows "returns Q (Option.bind (shell_putchar P b s) f)"
  by (rule said_step [where m = "shell_putchar P b", OF assms(1) putchar_said assms(2)])

lemma newline_step:
  assumes "so_far s0 os s" and "\<And>s'. so_far s0 (os @ map Text CRLF) s' \<Longrightarrow> returns Q (f s')"
  shows "returns Q (Option.bind (shell_newline P s) f)"
  by (rule said_step [where m = "shell_newline P", OF assms(1) newline_said assms(2)])

lemma put_hex_said:
  assumes "ready good s"
  shows "returns (so_far s (map Text (ascii ''0x'' @ hex_text v))) (shell_put_hex P v s)"
  unfolding shell_put_hex_def Let_def
proof (rule puts_step [OF said_refl [OF assms]])
  show "c_string (lit (ascii ''0x'')) = Some (ascii ''0x'')" by (simp add: literal_simps)
  fix s' assume s': "so_far s ([] @ map Text (ascii ''0x'')) s'"
  then have "length (hex_buf s') = 9" by (simp add: said_def ready_def sized_def)
  then have buf: "uint32_to_hex v (hex_buf s') = hex_text v @ [0]" by (rule uint32_to_hex_eq)
  have nz: "0 \<notin> set (hex_text v)" using hex_text_hex by blast
  have len: "length (uint32_to_hex v (hex_buf s')) = 9"
    by (simp add: buf hex_text_def)
  have "returns (so_far s (map Text (ascii ''0x'' @ hex_text v)))
      (Option.bind (shell_puts P (uint32_to_hex v (hex_buf s')) (s'\<lparr>hex_buf := uint32_to_hex v (hex_buf s')\<rparr>)) Some)"
    by (rule puts_step [OF said_scratch(1) [OF s' len]])
      (simp_all add: buf nz)
  then show "returns (so_far s (map Text (ascii ''0x'' @ hex_text v)))
      (shell_puts P (hex_buf (s'\<lparr>hex_buf := uint32_to_hex v (hex_buf s')\<rparr>))
        (s'\<lparr>hex_buf := uint32_to_hex v (hex_buf s')\<rparr>))"
    by simp
qed

lemma put_dec_said:
  assumes "ready good s"
  shows "returns (so_far s (map Text (dec_text v))) (shell_put_dec P v s)"
proof -
  have "length (dec_buf s) = 11" using assms by (simp add: ready_def sized_def)
  from uint32_to_dec_eq [OF this, of v] obtain i buf where
    b: "uint32_to_dec v (dec_buf s) = Some (i, buf)" "length buf = 11" "drop i buf = dec_text v @ [0]"
    by blast
  have "0 \<notin> set (dec_text v)" using dec_text_dec by blast
  then have "returns (so_far s (map Text (dec_text v)))
      (Option.bind (shell_puts P (drop i buf) (s\<lparr>dec_buf := buf\<rparr>)) Some)"
    by (intro puts_step [OF said_scratch(2) [OF said_refl [OF assms] b(2)]]) (simp_all add: b)
  then show ?thesis by (simp add: shell_put_dec_def b)
qed

lemma put_hex_step:
  assumes "so_far s0 os s"
    and "\<And>s'. so_far s0 (os @ map Text (ascii ''0x'' @ hex_text v)) s' \<Longrightarrow> returns Q (f s')"
  shows "returns Q (Option.bind (shell_put_hex P v s) f)"
  by (rule said_step [where m = "shell_put_hex P v", OF assms(1) put_hex_said assms(2)])

lemma put_dec_step:
  assumes "so_far s0 os s"
    and "\<And>s'. so_far s0 (os @ map Text (dec_text v)) s' \<Longrightarrow> returns Q (f s')"
  shows "returns Q (Option.bind (shell_put_dec P v s) f)"
  by (rule said_step [where m = "shell_put_dec P v", OF assms(1) put_dec_said assms(2)])

text \<open>Accesses to the machine.\<close>

lemma after_load_said:
  assumes "ready good s"
  shows "so_far s [Act (Load a (fst (load32 P a (hw s))))] (after_load P a s)"
proof -
  obtain v w where l: "load32 P a (hw s) = (v, w)" by (cases "load32 P a (hw s)")
  have g: "good (uart_fd s) (hw s)" "sized s" using assms by (simp_all add: ready_def)
  have "so_far s [Act (Load a v)] (s\<lparr>hw := w, trace := trace s @ [Load a v]\<rparr>)"
    using g load_keeps [OF g(1) l] typed_load [OF g(1) _ _ l]
    by (intro said_one) (auto simp: ready_def sized_def kept_def)
  then show ?thesis by (simp add: after_load_def l)
qed

lemma ready_load: "ready good s \<Longrightarrow> answers a \<Longrightarrow> load_ends P a (hw s)"
  using load_answered [of "uart_fd s"] by (simp add: ready_def)

lemma load_step:
  assumes s: "so_far s0 os s" and a: "answers a"
    and f: "\<And>v s'. so_far s0 (os @ [Act (Load a v)]) s' \<Longrightarrow> returns Q (f v s')"
  shows "returns Q (Option.bind (REG32_load P a s) (\<lambda>(v, s'). f v s'))"
  using f [OF said_trans [OF s after_load_said [OF said_ready [OF s]]]] ready_load [OF said_ready [OF s] a]
  by (simp add: REG32_load_ends)

lemma store_said:
  assumes "ready good s" and "harmless a"
  shows "returns (so_far s [Act (Store a v)]) (REG32_store P a v s)"
proof -
  have g: "good (uart_fd s) (hw s)" "sized s" using assms by (simp_all add: ready_def)
  have "so_far s [Act (Store a v)] (s\<lparr>hw := store32 P a v (hw s), trace := trace s @ [Store a v]\<rparr>)"
    using g store_keeps [OF g(1) assms(2)] typed_store [OF g(1) _ assms(2)]
    by (intro said_one) (auto simp: ready_def sized_def kept_def)
  then show ?thesis using store_answered [OF g(1) assms(2)] by (simp add: REG32_store_def)
qed

lemma store_step:
  assumes "so_far s0 os s" and "harmless a"
    and "\<And>s'. so_far s0 (os @ [Act (Store a v)]) s' \<Longrightarrow> returns Q (f s')"
  shows "returns Q (Option.bind (REG32_store P a v s) f)"
  by (rule said_step [where m = "REG32_store P a v", OF assms(1) store_said [OF _ assms(2)] assms(3)])

lemma csr_step:
  assumes s: "so_far s0 os s"
    and f: "\<And>s'. so_far s0 (os @ [Act (Csr_clear csr bits)]) s' \<Longrightarrow> returns Q (f s')"
  shows "returns Q (Let (csrci P csr bits s) f)"
proof -
  have g: "good (uart_fd s) (hw s)" "sized s" using s by (simp_all add: said_def ready_def)
  have "so_far s [Act (Csr_clear csr bits)] (csrci P csr bits s)"
    using g csr_keeps [OF g(1)] typed_csr [OF g(1)]
    by (intro said_one) (auto simp: csrci_def ready_def sized_def kept_def)
  from f [OF said_trans [OF s this]] show ?thesis by (simp add: Let_def)
qed

lemma jump_said:
  assumes s: "so_far s0 os s"
  shows "so_far s0 (os @ [Act (Jump a)]) (jump a s)"
proof -
  have "so_far s [Act (Jump a)] (jump a s)"
    using s by (intro said_one) (auto simp: jump_def said_def ready_def sized_def kept_def)
  from said_trans [OF s this] show ?thesis .
qed

lemma let_step: "returns Q (f x) \<Longrightarrow> returns Q (Let x f)"
  by simp

lemma puts_end:
  assumes "so_far s0 os s" and "c_string p = Some bs"
    and "\<And>s'. so_far s0 (os @ map Text bs) s' \<Longrightarrow> Q s'"
  shows "returns Q (shell_puts P p s)"
  by (rule returns_tail, rule puts_step [OF assms(1,2)]) (simp add: assms(3))

lemma puts_only:
  assumes "ready good s" and "0 \<notin> set bs" and "so_far s (map Text bs) \<le> Q"
  shows "returns Q (shell_puts P (lit bs) s)"
  by (rule puts_end [OF said_refl [OF assms(1)] c_string_lit [OF assms(2)]])
    (use assms(3) in auto)

lemma newline_end:
  assumes "so_far s0 os s" and "\<And>s'. so_far s0 (os @ map Text CRLF) s' \<Longrightarrow> Q s'"
  shows "returns Q (shell_newline P s)"
  by (rule returns_tail, rule newline_step [OF assms(1)]) (simp add: assms(2))

text \<open>An access that the machine never ends, whatever its state, and the steps before it.\<close>

definition never_loads :: "u32 \<Rightarrow> bool" where
  "never_loads a \<longleftrightarrow> (\<forall>fd w. good fd w \<longrightarrow> \<not> load_ends P a w)"

definition never_stores :: "u32 \<Rightarrow> bool" where
  "never_stores a \<longleftrightarrow> (\<forall>fd w. good fd w \<longrightarrow> \<not> store_ends P a w)"

lemma access_hangs:
  assumes "so_far s0 os s"
  shows "never_loads a \<Longrightarrow> Option.bind (REG32_load P a s) g = None"
    and "never_stores a \<Longrightarrow> Option.bind (REG32_store P a v s) f = None"
  using said_ready [OF assms] by (auto simp: ready_def never_loads_def never_stores_def REG32_hangs)

lemma hang_step:
  assumes "so_far s0 os s" and "\<And>s. ready good s \<Longrightarrow> returns (so_far s os1) (m s)"
    and "\<And>s'. so_far s0 (os @ os1) s' \<Longrightarrow> f s' = None"
  shows "Option.bind (m s) f = None"
  using assms(2) [OF said_ready [OF assms(1)]] assms(3) said_trans [OF assms(1)] by (auto elim!: returnsE)

lemma puts_hang:
  assumes "so_far s0 os s" and "c_string p = Some bs"
    and "\<And>s'. so_far s0 (os @ map Text bs) s' \<Longrightarrow> f s' = None"
  shows "Option.bind (shell_puts P p s) f = None"
  by (rule hang_step [where m = "shell_puts P p", OF assms(1) _ assms(3)]) (rule puts_said [OF _ assms(2)])

lemma newline_hang:
  assumes "so_far s0 os s" and "\<And>s'. so_far s0 (os @ map Text CRLF) s' \<Longrightarrow> f s' = None"
  shows "Option.bind (shell_newline P s) f = None"
  by (rule hang_step [where m = "shell_newline P", OF assms(1) newline_said assms(2)])

lemma put_hex_hang:
  assumes "so_far s0 os s"
    and "\<And>s'. so_far s0 (os @ map Text (ascii ''0x'' @ hex_text v)) s' \<Longrightarrow> f s' = None"
  shows "Option.bind (shell_put_hex P v s) f = None"
  by (rule hang_step [where m = "shell_put_hex P v", OF assms(1) put_hex_said assms(2)])

lemma load_hang:
  assumes s: "so_far s0 os s" and a: "answers a"
    and f: "\<And>v s'. so_far s0 (os @ [Act (Load a v)]) s' \<Longrightarrow> f v s' = None"
  shows "Option.bind (REG32_load P a s) (\<lambda>(v, s'). f v s') = None"
  using f [OF said_trans [OF s after_load_said [OF said_ready [OF s]]]] ready_load [OF said_ready [OF s] a]
  by (simp add: REG32_load_ends)

lemma store_hang:
  assumes s: "so_far s0 os s" and h: "harmless a"
    and f: "\<And>s'. so_far s0 (os @ [Act (Store a v)]) s' \<Longrightarrow> f s' = None"
  shows "Option.bind (REG32_store P a v s) f = None"
  by (rule hang_step [where m = "REG32_store P a v", OF s store_said [OF _ h] f])

lemmas hang_steps = newline_hang put_hex_hang load_hang

lemmas steps = load_step csr_step putchar_step newline_step put_hex_step put_dec_step
lemmas text_steps = puts_step puts_end

end

end
