(* ===== verification/Line_Editor.thy ===== *)
theory Line_Editor
  imports Console
begin

text \<open>
  The line editor \<open>shell_readline\<close> of sw/examples/shell.c, a specification of what it makes of the
  keys typed, and the proof that it meets it on every terminal.
\<close>

section \<open>The code\<close>

text \<open>
  \<open>pos\<close> is never negative (the code decrements it only when it is positive). The buffer is passed
  as its contents, and the result is the return value and the buffer.
\<close>

partial_function (option) readline_loop ::
  "'w platform \<Rightarrow> int \<Rightarrow> byte list \<Rightarrow> nat \<Rightarrow> 'w shell \<Rightarrow> (int \<times> byte list \<times> 'w shell) option" where
  "readline_loop P sz buf pos s =
     do {
       (c, s) \<leftarrow> shell_getchar_blocking P s;
       if c = 13 \<or> c = 10 then
         do { s \<leftarrow> shell_newline P s; buf \<leftarrow> put_at buf pos 0; Some (int pos, buf, s) }
       else if c = 0x03 then
         do { s \<leftarrow> shell_puts P (lit (ascii ''^C'')) s;
              s \<leftarrow> shell_newline P s;
              buf \<leftarrow> put_at buf 0 0;
              Some (-1, buf, s) }
       else if c = 0x08 \<or> c = 0x7F then
         if pos > 0 then
           do { buf \<leftarrow> put_at buf (pos - 1) 0;
                s \<leftarrow> shell_puts P (lit [8, 32, 8]) s;
                readline_loop P sz buf (pos - 1) s }
         else readline_loop P sz buf pos s
       else if c < 0x20 \<or> c > 0x7E then readline_loop P sz buf pos s
       else if int pos < sz - 1 then
         do { buf \<leftarrow> put_at buf pos (of_int c);
              s \<leftarrow> shell_putchar P (of_int c) s;
              readline_loop P sz buf (pos + 1) s }
       else readline_loop P sz buf pos s
     }"

definition shell_readline ::
  "'w platform \<Rightarrow> byte list \<Rightarrow> int \<Rightarrow> 'w shell \<Rightarrow> (int \<times> byte list \<times> 'w shell) option" where
  "shell_readline P buf sz s =
     do { buf \<leftarrow> shell_memset buf 0 (nat sz); readline_loop P sz buf 0 s }"

section \<open>Specification\<close>

text \<open>
  \<open>edit n line keys\<close>: what happens when the keys are typed after \<open>line\<close>, at most \<open>n\<close> characters
  being kept: the observations, the line entered (\<open>None\<close> for a cancelled one) and the keys that
  are left for the next call. \<open>None\<close>: the keys do not end the line.
\<close>

type_synonym edited = "obs list \<times> byte list option \<times> byte list"

definition after ::
  "obs list \<Rightarrow> (obs list \<times> 'r \<times> byte list) option \<Rightarrow> (obs list \<times> 'r \<times> byte list) option" where
  "after os r = map_option (\<lambda>(os', res, rest). (os @ os', res, rest)) r"

fun edit :: "nat \<Rightarrow> byte list \<Rightarrow> byte list \<Rightarrow> edited option" where
  "edit n line [] = None"
| "edit n line (c # cs) =
     (if c = 13 \<or> c = 10 then Some (Key c # map Text CRLF, Some line, cs)
      else if c = 3 then Some (Key c # map Text (ascii ''^C'' @ CRLF), None, cs)
      else if c = 8 \<or> c = 127 then
        (if line \<noteq> [] then after (Key c # map Text [8, 32, 8]) (edit n (butlast line) cs)
         else after [Key c] (edit n line cs))
      else if c < 32 \<or> c > 126 then after [Key c] (edit n line cs)
      else if length line < n then after [Key c, Text c] (edit n (line @ [c]) cs)
      else after [Key c] (edit n line cs))"

definition printable :: "byte \<Rightarrow> bool" where
  "printable c \<longleftrightarrow> 32 \<le> c \<and> c \<le> 126"

lemma printable_simps [simp]: "printable c \<Longrightarrow> c \<noteq> 0 \<and> c \<noteq> 13 \<and> c \<noteq> 10 \<and> c \<noteq> 3 \<and> c \<noteq> 8 \<and> c \<noteq> 127"
  by (auto simp: printable_def)

lemma after_Some: "after os r = Some (os', res, rest) \<longleftrightarrow>
    (\<exists>os''. r = Some (os'', res, rest) \<and> os' = os @ os'')"
  by (auto simp: after_def)

text \<open>One key: it ends the line, or leaves a line and what the rest of the keys do to it.\<close>

definition next_line :: "nat \<Rightarrow> byte list \<Rightarrow> byte \<Rightarrow> byte list \<Rightarrow> bool" where
  "next_line n line c line' \<longleftrightarrow> line' = line \<or> line' = butlast line
     \<or> (line' = line @ [c] \<and> printable c \<and> length line < n)"

lemma edit_key:
  assumes "edit n line (c # cs) = Some (os, res, rest)"
  obtains (enter) "os = Key c # map Text CRLF" and "res = Some line" and "rest = cs"
  | (cancel) bs where "os = Key c # map Text bs" and "res = None" and "rest = cs"
  | (go_on) bs os' line' where "os = Key c # map Text bs @ os'" and "next_line n line c line'"
      and "edit n line' cs = Some (os', res, rest)"
proof -
  consider "c = 13 \<or> c = 10" | "c = 3" | "c = 8 \<or> c = 127"
    | "\<not> (c = 13 \<or> c = 10)" "c \<noteq> 3" "\<not> (c = 8 \<or> c = 127)" by blast
  then show thesis
  proof cases
    case 1
    with assms show ?thesis by (intro enter) auto
  next
    case 2
    with assms show ?thesis by (intro cancel [of "ascii ''^C'' @ CRLF"]) auto
  next
    case 3
    then have "\<not> (c = 13 \<or> c = 10)" "c \<noteq> 3" by auto
    with 3 assms consider os' where "os = Key c # map Text [8, 32, 8] @ os'"
        "edit n (butlast line) cs = Some (os', res, rest)"
      | os' where "os = Key c # map Text [] @ os'" "edit n line cs = Some (os', res, rest)"
      by (cases "line = []") (auto simp: after_Some)
    then show ?thesis
    proof cases
      case (1 os')
      then show ?thesis by (intro go_on [OF 1(1) _ 1(2)]) (simp_all add: next_line_def)
    next
      case (2 os')
      then show ?thesis by (intro go_on [OF 2(1) _ 2(2)]) (simp_all add: next_line_def)
    qed
  next
    case 4
    with assms consider os' where "os = Key c # map Text [c] @ os'" "printable c"
        "length line < n" "edit n (line @ [c]) cs = Some (os', res, rest)"
      | os' where "os = Key c # map Text [] @ os'" "edit n line cs = Some (os', res, rest)"
      by (auto simp: after_Some printable_def not_less split: if_split_asm)
    then show ?thesis
    proof cases
      case (1 os')
      then show ?thesis by (intro go_on [OF 1(1) _ 1(4)]) (simp_all add: next_line_def)
    next
      case (2 os')
      then show ?thesis by (intro go_on [OF 2(1) _ 2(2)]) (simp_all add: next_line_def)
    qed
  qed
qed

lemma next_line_printable:
  "next_line n line c line' \<Longrightarrow> list_all printable line \<and> length line \<le> n \<Longrightarrow>
   list_all printable line' \<and> length line' \<le> n"
  by (auto simp: next_line_def list_all_iff dest: in_set_butlastD)

text \<open>The line entered is printable and fits.\<close>

lemma edit_line:
  assumes "edit n line ks = Some (os, Some res, rest)"
    and "list_all printable line \<and> length line \<le> n"
  shows "list_all printable res \<and> length res \<le> n"
  using assms
proof (induction ks arbitrary: os line)
  case (Cons c cs)
  from Cons.prems(1) show ?case
    by (cases rule: edit_key)
      (use Cons in \<open>auto dest: next_line_printable\<close>)
qed simp

text \<open>The keys the editor took are what it was given, up to the rest.\<close>

lemma edit_keys:
  assumes "edit n line ks = Some (os, res, rest)"
  shows "ks = keys os @ rest \<and> list_all quiet os"
  using assms
proof (induction ks arbitrary: os line)
  case (Cons c cs)
  from Cons.prems show ?case
    by (cases rule: edit_key) (use Cons.IH in \<open>auto simp: list_all_iff\<close>)
qed simp

lemma edit_shorter:
  assumes "edit n line ks = Some (os, res, rest)"
  shows "length rest < length ks"
proof (cases ks)
  case (Cons c cs)
  with assms have "edit n line (c # cs) = Some (os, res, rest)" by (simp only:)
  then have "keys os \<noteq> []" by (cases rule: edit_key) simp_all
  then show ?thesis using edit_keys [OF assms] by simp
qed (use assms in simp)

text \<open>Typing a line that fits and the return key enters it and echoes it.\<close>

lemma edit_typed:
  assumes "list_all printable cs" and "length line + length cs \<le> n" and "e = 13 \<or> e = 10"
  shows "\<exists>os. edit n line (cs @ e # rest) = Some (os, Some (line @ cs), rest)
    \<and> texts os = cs @ CRLF"
  using assms(1,2)
proof (induction cs arbitrary: line)
  case Nil
  with assms(3) show ?case by auto
next
  case (Cons c cs)
  then obtain os where "edit n (line @ [c]) (cs @ e # rest) = Some (os, Some (line @ c # cs), rest)"
    and "texts os = cs @ CRLF"
    using Cons.IH [of "line @ [c]"] by auto
  with Cons.prems show ?case
    by (auto simp: after_def printable_def not_less)
qed

section \<open>Correctness\<close>

text \<open>\<open>entered n res len buf\<close>: the return value and the buffer report the result \<open>res\<close>.\<close>

definition entered :: "nat \<Rightarrow> byte list option \<Rightarrow> int \<Rightarrow> byte list \<Rightarrow> bool" where
  "entered n res len buf \<longleftrightarrow>
     (case res of
        Some line \<Rightarrow> len = int (length line) \<and> buf = line @ replicate (Suc n - length line) 0
      | None \<Rightarrow> len = -1 \<and> length buf = Suc n \<and> buf ! 0 = 0)"

lemma key_compare:
  fixes c :: byte
  shows "uint c = 13 \<longleftrightarrow> c = 13" "uint c = 10 \<longleftrightarrow> c = 10" "uint c = 3 \<longleftrightarrow> c = 3"
    "uint c = 8 \<longleftrightarrow> c = 8" "uint c = 127 \<longleftrightarrow> c = 127" "uint c < 32 \<longleftrightarrow> c < 32"
    "126 < uint c \<longleftrightarrow> 126 < c"
  by (simp_all add: word_uint_eq_iff word_less_def)

text \<open>The stores the loop makes into a buffer that holds a line and is zero behind it.\<close>

lemma line_buffer_end:
  assumes "length line \<le> n"
  shows "put_at (line @ replicate (Suc n - length line) 0) (length line) (0 :: byte)
    = Some (line @ replicate (Suc n - length line) 0)"
  using assms by (simp add: put_at_def list_update_append Suc_diff_le)

lemma line_buffer_erase:
  assumes "length line \<le> n" and "line \<noteq> []"
  shows "put_at (line @ replicate (Suc n - length line) 0) (length line - 1) (0 :: byte)
    = Some (butlast line @ replicate (Suc n - length (butlast line)) 0)"
proof -
  obtain l b where line: "line = l @ [b]" using assms(2) by (cases line rule: rev_cases) auto
  have "Suc n - length l = Suc (Suc n - length line)" using assms(1) line by simp
  then show ?thesis by (simp add: put_at_def line list_update_append)
qed

lemma line_buffer_store:
  assumes "length line < n"
  shows "put_at (line @ replicate (Suc n - length line) 0) (length line) (c :: byte)
    = Some ((line @ [c]) @ replicate (Suc n - length (line @ [c])) 0)"
proof -
  have "Suc n - length line = Suc (Suc n - length (line @ [c]))" using assms by simp
  then show ?thesis by (simp add: put_at_def list_update_append)
qed

context terminal begin

lemma typed_after:
  assumes "so_far s (Key c # map Text bs) s'" and "typed (hw s) (c # cs)"
  shows "typed (hw s') cs"
  using assms by (simp add: said_def list_all_iff)

lemma readline_loop_said:
  assumes "edit n line ks = Some (os, res, rest)" and "length line \<le> n"
    and "ready good s" and "typed (hw s) ks"
  shows "returns (\<lambda>(len, buf, s'). so_far s os s' \<and> entered n res len buf)
    (readline_loop P (int n + 1) (line @ replicate (Suc n - length line) 0) (length line) s)"
  using assms
proof (induction ks arbitrary: line s os)
  case (Cons c cs)
  let ?buf = "\<lambda>line. line @ replicate (Suc n - length line) (0 :: byte)"
  let ?Q = "\<lambda>(len, buf, s'). so_far s os s' \<and> entered n res len buf"
  obtain s1 where key: "shell_getchar_blocking P s = Some (uint c, s1)" and s1: "so_far s [Key c] s1"
    using getchar_said [OF Cons.prems(3,4)] by (auto elim: returnsE)
  have go_on: "returns ?Q (readline_loop P (int n + 1) (?buf line') (length line') s')"
    if "so_far s (Key c # map Text bs) s'" and "edit n line' cs = Some (os', res, rest)"
      and "length line' \<le> n" and "os = Key c # map Text bs @ os'" for line' os' bs s'
    using Cons.IH [OF that(2,3) said_ready [OF that(1)] typed_after [OF that(1) Cons.prems(4)]]
      said_trans [OF that(1)] that(4)
    by (fastforce elim!: returns_mono)
  have skip: "returns ?Q (readline_loop P (int n + 1) (?buf line) (length line) s1)"
    if "after [Key c] (edit n line cs) = Some (os, res, rest)"
    using that go_on [where bs = "[]"] s1 Cons.prems(2) by (auto simp: after_Some)
  consider "c = 13 \<or> c = 10" | "c = 3"
    | "\<not> (c = 13 \<or> c = 10)" "c \<noteq> 3" "c = 8 \<or> c = 127" "line = []"
    | "\<not> (c = 13 \<or> c = 10)" "c \<noteq> 3" "c = 8 \<or> c = 127" "line \<noteq> []"
    | "\<not> (c = 13 \<or> c = 10)" "c \<noteq> 3" "\<not> (c = 8 \<or> c = 127)" "c < 32 \<or> c > 126"
    | "\<not> (c = 13 \<or> c = 10)" "c \<noteq> 3" "\<not> (c = 8 \<or> c = 127)" "\<not> (c < 32 \<or> c > 126)" "length line < n"
    | "\<not> (c = 13 \<or> c = 10)" "c \<noteq> 3" "\<not> (c = 8 \<or> c = 127)" "\<not> (c < 32 \<or> c > 126)" "\<not> length line < n"
    by blast
  then show ?case
  proof cases
    case 1
    have "returns ?Q (Option.bind (shell_newline P s1) (\<lambda>s. Some (int (length line), ?buf line, s)))"
      by (rule newline_step [OF s1]) (use 1 Cons.prems in \<open>auto simp: entered_def\<close>)
    with 1 show ?thesis
      by (subst readline_loop.simps) (simp add: key key_compare line_buffer_end Cons.prems)
  next
    case 2
    have "returns ?Q (Option.bind (shell_puts P (lit (ascii ''^C'')) s1) (\<lambda>s.
        Option.bind (shell_newline P s) (\<lambda>s. Some (- 1, (?buf line)[0 := 0], s))))"
      by (rule puts_step [OF s1], simp add: literal_simps, rule newline_step, assumption)
        (use 2 Cons.prems in \<open>auto simp: entered_def\<close>)
    with 2 show ?thesis
      by (subst readline_loop.simps) (simp add: key key_compare put_at_def)
  next
    case 3
    then have "returns ?Q (readline_loop P (int n + 1) (?buf line) (length line) s1)"
      using Cons.prems(1) by (intro skip) auto
    with 3 show ?thesis
      by (subst readline_loop.simps) (simp add: key key_compare)
  next
    case 4
    then obtain os' where os': "edit n (butlast line) cs = Some (os', res, rest)"
      "os = Key c # map Text [8, 32, 8] @ os'"
      using Cons.prems(1) by (auto simp: after_Some)
    have "returns ?Q (Option.bind (shell_puts P (lit [8, 32, 8]) s1)
        (readline_loop P (int n + 1) (?buf (butlast line)) (length (butlast line))))"
    proof (rule puts_step [OF s1, where bs = "[8, 32, 8]"])
      fix s' assume "so_far s ([Key c] @ map Text [8, 32, 8]) s'"
      then show "returns ?Q (readline_loop P (int n + 1) (?buf (butlast line)) (length (butlast line)) s')"
        by (intro go_on [OF _ os'(1) _ os'(2)]) (use Cons.prems(2) in simp_all)
    qed simp
    with 4 show ?thesis
      by (subst readline_loop.simps)
        (simp add: key key_compare line_buffer_erase [OF Cons.prems(2), unfolded One_nat_def])
  next
    case 5
    then have "returns ?Q (readline_loop P (int n + 1) (?buf line) (length line) s1)"
      using Cons.prems(1) by (intro skip) auto
    with 5 show ?thesis
      by (subst readline_loop.simps) (simp add: key key_compare)
  next
    case 6
    then obtain os' where os': "edit n (line @ [c]) cs = Some (os', res, rest)"
      "os = Key c # map Text [c] @ os'"
      using Cons.prems(1) by (auto simp: after_Some)
    have "returns ?Q (Option.bind (shell_putchar P c s1)
        (readline_loop P (int n + 1) (?buf (line @ [c])) (length (line @ [c]))))"
    proof (rule putchar_step [OF s1])
      fix s' assume "so_far s ([Key c] @ [Text c]) s'"
      then show "returns ?Q (readline_loop P (int n + 1) (?buf (line @ [c])) (length (line @ [c])) s')"
        by (intro go_on [OF _ os'(1) _ os'(2)]) (use 6 in simp_all)
    qed
    with 6 show ?thesis
      by (subst readline_loop.simps) (simp add: key key_compare line_buffer_store)
  next
    case 7
    then have "returns ?Q (readline_loop P (int n + 1) (?buf line) (length line) s1)"
      using Cons.prems(1) by (intro skip) auto
    with 7 Cons.prems(2) show ?thesis
      by (subst readline_loop.simps) (simp add: key key_compare)
  qed
qed simp

lemma readline_said:
  assumes "edit n [] ks = Some (os, res, rest)" and "length buf = Suc n"
    and "ready good s" and "typed (hw s) ks"
  shows "returns (\<lambda>(len, buf, s'). so_far s os s' \<and> typed (hw s') rest \<and> entered n res len buf)
    (shell_readline P buf (int n + 1) s)"
proof -
  have "nat (int n + 1) = Suc n" by simp
  then have "shell_memset buf 0 (nat (int n + 1)) = Some (replicate (Suc n) 0)"
    using assms(2) shell_memset_eq [of "Suc n" buf 0] by simp
  then have rl: "shell_readline P buf (int n + 1) s = readline_loop P (int n + 1) (replicate (Suc n) 0) 0 s"
    by (simp add: shell_readline_def)
  have "typed (hw s') rest" if "so_far s os s'" for s'
    using that edit_keys [OF assms(1)] assms(4) by (simp add: said_def)
  then show ?thesis
    using readline_loop_said [OF assms(1) _ assms(3,4)]
    by (auto simp: rl elim!: returns_mono)
qed

end

end
