(* ===== verification/Arg_Parser.thy ===== *)
theory Arg_Parser
  imports VSync_Prelude
begin

text \<open>
  The command line tokenizer \<open>parse_args\<close> of sw/examples/shell.c. It works in place: the spaces
  that end a token become NULs, and \<open>argv\<close> receives pointers into the buffer. A pointer into
  the buffer is modelled by its offset, so that the string \<open>argv[i]\<close> denotes after the call is
  read from the buffer the call leaves behind.
\<close>

definition MAX_ARGS :: nat where
  "MAX_ARGS = 4"

text \<open>\<open>while (*p == ' ') p++\<close> and \<open>while (*p && *p != ' ') p++\<close>, from the offset \<open>p\<close>.\<close>

function skip_spaces :: "byte list \<Rightarrow> nat \<Rightarrow> nat option" where
  "skip_spaces buf p =
     (if p < length buf then (if buf ! p = 32 then skip_spaces buf (p + 1) else Some p) else None)"
  by pat_completeness auto
termination by (relation "measure (\<lambda>(buf, p). length buf - p)") auto

function skip_token :: "byte list \<Rightarrow> nat \<Rightarrow> nat option" where
  "skip_token buf p =
     (if p < length buf then
        (if buf ! p \<noteq> 0 \<and> buf ! p \<noteq> 32 then skip_token buf (p + 1) else Some p)
      else None)"
  by pat_completeness auto
termination by (relation "measure (\<lambda>(buf, p). length buf - p)") auto

declare skip_spaces.simps [simp del] skip_token.simps [simp del]

text \<open>
  The outer loop. A store \<open>argv[argc++] = p\<close> past the array (of \<open>MAX_ARGS + 1\<close> pointers) would
  be out of bounds. Result: the buffer, \<open>argc\<close> and \<open>argv\<close>.
\<close>

function parse_args_loop ::
  "byte list \<Rightarrow> nat \<Rightarrow> nat \<Rightarrow> nat list \<Rightarrow> (byte list \<times> nat \<times> nat list) option" where
  "parse_args_loop buf p argc argv =
     (if \<not> p < length buf then None
      else if buf ! p \<noteq> 0 \<and> argc \<le> MAX_ARGS then
        do {
          p \<leftarrow> skip_spaces buf p;
          if buf ! p = 0 then Some (buf, argc, argv)
          else if \<not> argc < length argv then None
          else do {
            let argv = argv[argc := p];
            let argc = argc + 1;
            p \<leftarrow> skip_token buf p;
            if buf ! p \<noteq> 0
            then parse_args_loop (buf[p := 0]) (p + 1) argc argv
            else parse_args_loop buf p argc argv
          }
        }
      else Some (buf, argc, argv))"
  by pat_completeness auto
termination
  by (relation "measure (\<lambda>(buf, p, argc, argv). Suc MAX_ARGS - argc)") auto

declare parse_args_loop.simps [simp del]

definition parse_args :: "byte list \<Rightarrow> nat list \<Rightarrow> (byte list \<times> nat \<times> nat list) option" where
  "parse_args buf argv = parse_args_loop buf 0 0 argv"

section \<open>Specification\<close>

text \<open>The space-separated words of a line.\<close>

function words_of :: "byte list \<Rightarrow> byte list list" where
  "words_of bs =
     (case dropWhile (\<lambda>c. c = 32) bs of
        [] \<Rightarrow> []
      | c # cs \<Rightarrow> takeWhile (\<lambda>c. c \<noteq> 32) (c # cs) # words_of (dropWhile (\<lambda>c. c \<noteq> 32) (c # cs)))"
  by pat_completeness auto
termination
proof (relation "measure length")
  fix bs c cs
  assume "dropWhile (\<lambda>c. c = 32) bs = c # cs"
  then have "bs = takeWhile (\<lambda>c. c = 32) bs @ c # cs" and "c \<noteq> 32"
    by (simp_all add: dropWhile_eq_Cons_conv)
  then have "length cs < length bs"
    by (metis length_append length_Cons less_add_Suc2 add_Suc_right)
  moreover have "length (dropWhile (\<lambda>c. c \<noteq> 32) cs) \<le> length cs"
    by (rule length_dropWhile_le)
  ultimately show "(dropWhile (\<lambda>c. c \<noteq> 32) (c # cs), bs) \<in> measure length"
    using \<open>c \<noteq> 32\<close> by simp
qed simp

declare words_of.simps [simp del]

text \<open>The string \<open>argv[i]\<close> points to.\<close>

definition arg_string :: "byte list \<Rightarrow> nat list \<Rightarrow> nat \<Rightarrow> byte list option" where
  "arg_string buf argv i = c_string (drop (argv ! i) buf)"

section \<open>Correctness\<close>

lemma skip_spaces_eq:
  assumes "drop p buf = replicate n 32 @ c # rest" and "c \<noteq> 32"
  shows "skip_spaces buf p = Some (p + n)"
  using assms
proof (induction n arbitrary: p)
  case 0
  then show ?case using drop_ConsD [of p buf c rest] by (subst skip_spaces.simps) simp
next
  case (Suc n)
  then have "drop p buf = 32 # replicate n 32 @ c # rest" by simp
  from drop_ConsD [OF this] Suc show ?case
    by (subst skip_spaces.simps) simp
qed

lemma skip_token_eq:
  assumes "drop p buf = w @ c # rest" and "c = 0 \<or> c = 32" and "0 \<notin> set w" and "32 \<notin> set w"
  shows "skip_token buf p = Some (p + length w)"
  using assms
proof (induction w arbitrary: p)
  case Nil
  then show ?case using drop_ConsD [of p buf c rest] by (subst skip_token.simps) auto
next
  case (Cons b w)
  then have "drop p buf = b # w @ c # rest" by simp
  from drop_ConsD [OF this] Cons show ?case
    by (subst skip_token.simps) simp
qed

lemma split_while:
  obtains ys zs where "xs = ys @ zs" and "\<forall>x \<in> set ys. P x" and "zs = [] \<or> \<not> P (hd zs)"
  using that [of "takeWhile P xs" "dropWhile P xs"] hd_dropWhile [of P xs]
  by (auto dest: set_takeWhileD)

text \<open>A line is blank, or its first word is followed by nothing or by a space.\<close>

lemma line_cases:
  obtains (blank) n where "bs = replicate n (32 :: byte)"
  | (last) n w where "bs = replicate n 32 @ w" and "w \<noteq> []" and "32 \<notin> set w"
  | (more) n w bs' where "bs = replicate n 32 @ w @ 32 # bs'" and "w \<noteq> []" and "32 \<notin> set w"
proof -
  obtain n tl where bs: "bs = replicate n 32 @ tl" and tl: "tl = [] \<or> hd tl \<noteq> 32"
    using split_while [of bs "\<lambda>c. c = 32"] replicate_length_same by metis
  obtain w r where wr: "tl = w @ r" and w: "\<forall>c \<in> set w. c \<noteq> 32" and r: "r = [] \<or> hd r = 32"
    using split_while [of tl "\<lambda>c. c \<noteq> 32"] by blast
  have w': "32 \<notin> set w" using w by blast
  show thesis
  proof (cases "tl = []")
    case True
    then show ?thesis using blank bs by simp
  next
    case False
    then have "w \<noteq> []" using tl wr r by (cases w) auto
    then show ?thesis
      using last [of n w] more [of n w "List.tl r"] bs wr w' r by (cases r) auto
  qed
qed

lemma dropWhile_spaces: "dropWhile (\<lambda>c. c = (32::byte)) (replicate n 32 @ bs) = dropWhile (\<lambda>c. c = 32) bs"
  by (induction n) auto

lemma words_of_space [simp]: "words_of (replicate n 32 @ bs) = words_of bs"
  by (simp add: words_of.simps [of "replicate n 32 @ bs"] words_of.simps [of bs] dropWhile_spaces)

lemma words_of_Nil [simp]: "words_of [] = []"
  by (simp add: words_of.simps)

lemma words_of_blank [simp]: "words_of (replicate n 32) = []"
  using words_of_space [of n "[]"] by simp

lemma words_of_Cons_space [simp]: "words_of (32 # bs) = words_of bs"
  using words_of_space [of 1 bs] by simp

lemma words_of_last:
  assumes "w \<noteq> []" and "32 \<notin> set w"
  shows "words_of w = [w]"
proof -
  obtain c cs where w: "w = c # cs" using assms(1) by (cases w) auto
  have "dropWhile (\<lambda>c. c \<noteq> 32) w = []" and "takeWhile (\<lambda>c. c \<noteq> 32) w = w"
    using assms(2) by (auto simp: takeWhile_eq_all_conv)
  with assms(2) show ?thesis
    by (simp add: words_of.simps [of w]) (simp add: w dropWhile_eq_Nil_conv [THEN iffD2])
qed

lemma words_of_more:
  assumes "w \<noteq> []" and "32 \<notin> set w"
  shows "words_of (w @ 32 # bs) = w # words_of bs"
proof -
  obtain c cs where w: "w = c # cs" using assms(1) by (cases w) auto
  have "dropWhile (\<lambda>c. c \<noteq> 32) (w @ 32 # bs) = 32 # bs"
    and "takeWhile (\<lambda>c. c \<noteq> 32) (w @ 32 # bs) = w"
    using assms(2) by (auto simp: dropWhile_append takeWhile_append takeWhile_eq_all_conv)
  with assms(2) show ?thesis
    by (simp add: words_of.simps [of "w @ 32 # bs"]) (simp add: w)
qed

text \<open>One round of the outer loop, in each of the shapes the rest of the line can have.\<close>

lemma loop_stop:
  assumes "body = [] \<or> MAX_ARGS < argc"
  shows "parse_args_loop (front @ body @ 0 # rest) (length front) argc argv
    = Some (front @ body @ 0 # rest, argc, argv)"
  using assms by (subst parse_args_loop.simps) auto

lemma loop_blank:
  shows "parse_args_loop (front @ replicate n 32 @ 0 # rest) (length front) argc argv
    = Some (front @ replicate n 32 @ 0 # rest, argc, argv)"
proof -
  have "skip_spaces (front @ replicate n 32 @ 0 # rest) (length front) = Some (length front + n)"
    by (rule skip_spaces_eq [of _ _ _ 0 rest]) simp_all
  moreover have "(front @ replicate n 32 @ 0 # rest) ! (length front + n) = 0"
    by (simp add: nth_append)
  ultimately show ?thesis by (subst parse_args_loop.simps) simp
qed

lemma loop_word:
  assumes "w \<noteq> []" and "32 \<notin> set w" and "0 \<notin> set w" and "e = 0 \<or> e = 32"
    and "argc \<le> MAX_ARGS" and "argc < length argv"
    and buf_def: "buf = front @ replicate n 32 @ w @ e # rest"
  shows "parse_args_loop buf (length front) argc argv =
    (if e = 32
     then parse_args_loop ((front @ replicate n 32 @ w @ [0]) @ rest)
            (length (front @ replicate n 32 @ w @ [0])) (Suc argc) (argv[argc := length front + n])
     else parse_args_loop buf (length front + n + length w) (Suc argc) (argv[argc := length front + n]))"
proof -
  let ?p = "length front" and ?q = "length front + n + length w"
  obtain c cs where w: "w = c # cs" and c: "c \<noteq> 32" "c \<noteq> 0"
    using assms(1,2,3) by (cases w) auto
  have start: "buf ! ?p \<noteq> 0"
    using c by (cases n) (simp_all add: buf_def w)
  have sp: "skip_spaces buf ?p = Some (?p + n)"
    by (rule skip_spaces_eq [of _ _ _ c "cs @ e # rest"]) (simp_all add: buf_def w c)
  have tok: "skip_token buf (?p + n) = Some ?q"
    by (rule skip_token_eq [of _ _ _ e rest]) (use assms in \<open>simp_all add: buf_def\<close>)
  have at: "buf ! (?p + n) = c" "buf ! ?q = e" "?p < length buf"
    by (simp_all add: buf_def w nth_append)
  have upd: "buf[?q := 0] = (front @ replicate n 32 @ w @ [0]) @ rest"
    by (simp add: buf_def list_update_append)
  show ?thesis
    using start sp tok at c assms(4-6) upd
    by (subst parse_args_loop.simps) (auto simp: add.assoc)
qed

text \<open>
  What the loop leaves when it is started at the offset \<open>length front\<close> of a line \<open>body\<close>: it has
  stored pointers to as many words as fit, has left the bytes in front of the offset alone, and
  the stored pointers denote the words.
\<close>

definition args_stored ::
  "byte list \<Rightarrow> byte list \<Rightarrow> nat \<Rightarrow> nat \<Rightarrow> nat list \<Rightarrow> byte list \<times> nat \<times> nat list \<Rightarrow> bool" where
  "args_stored front body len argc argv r \<longleftrightarrow>
     (let (buf', argc', argv') = r; ws = take (Suc MAX_ARGS - argc) (words_of body)
      in argc' = argc + length ws \<and> length buf' = len \<and> take (length front) buf' = front
         \<and> length argv' = length argv \<and> (\<forall>i < argc. argv' ! i = argv ! i)
         \<and> (\<forall>j < length ws. argv' ! (argc + j) < length buf'
              \<and> arg_string buf' argv' (argc + j) = Some (ws ! j)))"

lemma args_stored_none:
  assumes "words_of body = [] \<or> MAX_ARGS < argc" and "length buf = len"
    and "take (length front) buf = front"
  shows "args_stored front body len argc argv (buf, argc, argv)"
  using assms by (auto simp: args_stored_def)

lemma args_stored_last:
  assumes "words_of body = [w]" and "argc \<le> MAX_ARGS" and "argc < length argv"
    and "length buf = len" and "take (length front) buf = front"
    and "c_string (drop a buf) = Some w" and "a < len"
  shows "args_stored front body len argc argv (buf, Suc argc, argv[argc := a])"
  using assms by (auto simp: args_stored_def arg_string_def Suc_diff_le)

lemma args_stored_more:
  assumes "words_of body = w # words_of body'" and "argc \<le> MAX_ARGS" and "argc < length argv"
    and "0 \<notin> set w"
    and rec: "args_stored (front @ sp @ w @ [0]) body' len (Suc argc)
          (argv[argc := length (front @ sp)]) r"
  shows "args_stored front body len argc argv r"
proof -
  obtain buf' argc' argv' where r: "r = (buf', argc', argv')" by (cases r)
  let ?front = "front @ sp @ w @ [0]" and ?a = "length (front @ sp)"
  have pre: "take (length ?front) buf' = ?front" and a: "argv' ! argc = ?a"
    using rec assms(3) by (auto simp: r args_stored_def Let_def)
  have buf: "buf' = ?front @ drop (length ?front) buf'"
    using pre by (metis append_take_drop_id)
  have "drop ?a buf' = w @ 0 # drop (length ?front) buf'"
    by (subst buf) simp
  then have hd: "arg_string buf' argv' argc = Some w"
    using assms(4) a by (simp add: arg_string_def)
  have front: "take (length front) buf' = front"
    by (subst buf) simp
  have len: "?a < length buf'" by (subst buf) simp
  have k: "Suc MAX_ARGS - argc = Suc (Suc MAX_ARGS - Suc argc)"
    using assms(2) by simp
  have old: "\<forall>i < argc. argv' ! i = argv ! i"
    using rec by (auto simp: r args_stored_def Let_def)
  show ?thesis
    using rec old hd front a len
    by (auto simp: r args_stored_def Let_def k assms(1) All_less_Suc2 simp del: length_take diff_Suc_Suc)
qed

lemma parse_args_loop_correct:
  assumes "0 \<notin> set body" and "length argv = Suc MAX_ARGS" and "argc \<le> Suc MAX_ARGS"
    and "len = length (front @ body @ 0 # rest)"
  shows "returns (args_stored front body len argc argv)
    (parse_args_loop (front @ body @ 0 # rest) (length front) argc argv)"
  using assms
proof (induction "length body" arbitrary: body front argc argv rule: less_induct)
  case less
  show ?case
  proof (cases "MAX_ARGS < argc")
    case True
    with less.prems show ?thesis by (simp add: loop_stop args_stored_none)
  next
    case False
    show ?thesis
    proof (cases rule: line_cases [of body])
      case (blank n)
      with less.prems show ?thesis by (simp add: loop_blank args_stored_none)
    next
      case (last n w)
      have stop: "parse_args_loop (front @ body @ 0 # rest) (length (front @ body)) a v
          = Some (front @ body @ 0 # rest, a, v)" for a v
        using loop_stop [of "[]" a "front @ body" rest v] by simp
      have "c_string (drop (length front + n) (front @ body @ 0 # rest)) = Some w"
        using last less.prems(1) by simp
      then have "args_stored front body len argc argv
          (front @ body @ 0 # rest, Suc argc, argv[argc := length front + n])"
        using last less.prems False by (intro args_stored_last) (simp_all add: words_of_last)
      moreover have "parse_args_loop (front @ body @ 0 # rest) (length front) argc argv
          = Some (front @ body @ 0 # rest, Suc argc, argv[argc := length front + n])"
        using loop_word [of w 0 argc argv _ front n rest] last less.prems False stop
        by (simp add: add.assoc)
      ultimately show ?thesis by simp
    next
      case (more n w body')
      have "returns (args_stored (front @ replicate n 32 @ w @ [0]) body' len (Suc argc)
              (argv[argc := length (front @ replicate n 32)]))
          (parse_args_loop ((front @ replicate n 32 @ w @ [0]) @ body' @ 0 # rest)
            (length (front @ replicate n 32 @ w @ [0])) (Suc argc)
            (argv[argc := length (front @ replicate n 32)]))"
        using less.prems False by (intro less.hyps) (simp_all add: more)
      then have "returns (args_stored front body len argc argv)
          (parse_args_loop ((front @ replicate n 32 @ w @ [0]) @ body' @ 0 # rest)
            (length (front @ replicate n 32 @ w @ [0])) (Suc argc)
            (argv[argc := length (front @ replicate n 32)]))"
        by (rule returns_mono)
          (rule args_stored_more [of body w body' argc argv front "replicate n 32"],
            use more less.prems False in \<open>simp_all add: words_of_more\<close>)
      with loop_word [of w 32 argc argv _ front n "body' @ 0 # rest"] more less.prems False
      show ?thesis by (simp add: add.assoc)
    qed
  qed
qed

text \<open>The whole call, on a buffer that holds a line.\<close>

lemma parse_args_correct:
  assumes "c_string buf = Some line" and "length argv = Suc MAX_ARGS"
  shows "\<exists>buf' argc argv'. parse_args buf argv = Some (buf', argc, argv')
    \<and> argc = length (take (Suc MAX_ARGS) (words_of line))
    \<and> length buf' = length buf \<and> length argv' = Suc MAX_ARGS
    \<and> (\<forall>j < argc. argv' ! j < length buf \<and> arg_string buf' argv' j = Some (words_of line ! j))"
proof -
  obtain rest where buf: "buf = line @ 0 # rest" and nz: "0 \<notin> set line"
    using assms(1) by (rule c_string_SomeE)
  have "returns (args_stored [] line (length buf) 0 argv) (parse_args_loop buf 0 0 argv)"
    using parse_args_loop_correct [of line argv 0 "length buf" "[]" rest] nz assms(2)
    by (simp add: buf)
  then show ?thesis
    using assms(2) by (auto simp: parse_args_def args_stored_def Let_def elim!: returnsE)
qed

end
