(* ===== verification/Memory_Commands.thy ===== *)
theory Memory_Commands
  imports Line_Editor Arg_Parser
begin

text \<open>
  The commands of sw/examples/shell.c that work on memory: \<open>peek\<close>, \<open>poke\<close>, \<open>load\<close> and \<open>go\<close>, each with a
  specification of what it does for the words of its command line, errors included, and the proof
  that it does it on every terminal.
\<close>

section \<open>The code\<close>

definition CMD_BUF_SIZE :: int where
  "CMD_BUF_SIZE = 80"

definition PEEK_MAX_WORDS :: u32 where
  "PEEK_MAX_WORDS = 16"

text \<open>The string \<open>argv[i]\<close>: a pointer into the command line buffer.\<close>

definition arg :: "'w shell \<Rightarrow> nat \<Rightarrow> byte list" where
  "arg s i = drop (argv s ! i) (cmd_buf s)"

function peek_loop :: "'w platform \<Rightarrow> u32 \<Rightarrow> u32 \<Rightarrow> u32 \<Rightarrow> 'w shell \<Rightarrow> 'w shell option" where
  "peek_loop P addr count i s =
     (if i < count then
        do { let a = addr + i * 4;
             (val, s) \<leftarrow> REG32_load P a s;
             s \<leftarrow> shell_put_hex P a s;
             s \<leftarrow> shell_puts P (lit (ascii '': '')) s;
             s \<leftarrow> shell_put_hex P val s;
             s \<leftarrow> shell_newline P s;
             peek_loop P addr count (i + 1) s }
      else Some s)"
  by pat_completeness auto
termination
proof (relation "measure (\<lambda>(P, addr, count, i, s). unat count - unat i)", goal_cases)
  case (2 P addr count i s)
  then show ?case using unat_less_Suc_word [of i count] by (simp add: word_less_nat_alt)
qed simp

declare peek_loop.simps [simp del]

text \<open>The second argument of \<open>peek\<close>: decimal, then hexadecimal; one word when it is absent.\<close>

definition peek_count :: "'w shell \<Rightarrow> parse_result option" where
  "peek_count s =
     (if argc s \<ge> 3 then
        do { r \<leftarrow> dec_to_uint32 (arg s 2);
             case r of Parsed n \<Rightarrow> Some (Parsed n) | Parse_error \<Rightarrow> hex_to_uint32 (arg s 2) }
      else Some (Parsed 1))"

definition cmd_peek :: "'w platform \<Rightarrow> 'w shell \<Rightarrow> 'w shell option" where
  "cmd_peek P s =
     (if argc s < 2 then shell_puts P (lit (ascii ''Usage: peek <addr> [count]'' @ CRLF)) s
      else do {
        r \<leftarrow> hex_to_uint32 (arg s 1);
        case r of
          Parse_error \<Rightarrow> shell_puts P (lit (ascii ''Error: invalid address'' @ CRLF)) s
        | Parsed addr \<Rightarrow> do {
            let addr = addr AND NOT 3;
            c \<leftarrow> peek_count s;
            case c of
              Parse_error \<Rightarrow> shell_puts P (lit (ascii ''Error: invalid count'' @ CRLF)) s
            | Parsed count \<Rightarrow> do {
                let count = (if count = 0 then 1 else count);
                let count = (if count > PEEK_MAX_WORDS then PEEK_MAX_WORDS else count);
                peek_loop P addr count 0 s } } })"

definition cmd_poke :: "'w platform \<Rightarrow> 'w shell \<Rightarrow> 'w shell option" where
  "cmd_poke P s =
     (if argc s < 3 then shell_puts P (lit (ascii ''Usage: poke <addr> <value>'' @ CRLF)) s
      else do {
        r1 \<leftarrow> hex_to_uint32 (arg s 1);
        case r1 of
          Parse_error \<Rightarrow> shell_puts P (lit (ascii ''Error: invalid address'' @ CRLF)) s
        | Parsed addr \<Rightarrow> do {
            r2 \<leftarrow> hex_to_uint32 (arg s 2);
            case r2 of
              Parse_error \<Rightarrow> shell_puts P (lit (ascii ''Error: invalid value'' @ CRLF)) s
            | Parsed val \<Rightarrow> do {
                let addr = addr AND NOT 3;
                s \<leftarrow> REG32_store P addr val s;
                s \<leftarrow> shell_put_hex P addr s;
                s \<leftarrow> shell_puts P (lit (ascii '' <- '')) s;
                s \<leftarrow> shell_put_hex P val s;
                s \<leftarrow> shell_puts P (lit (ascii '' (readback: '')) s;
                (v, s) \<leftarrow> REG32_load P addr s;
                s \<leftarrow> shell_put_hex P v s;
                s \<leftarrow> shell_puts P (lit (ascii '')'')) s;
                shell_newline P s } } })"

text \<open>
  The loop of \<open>cmd_load\<close>. Its result is \<open>None\<close> for a load the user aborted, and otherwise the
  final \<open>cur_addr\<close> and \<open>count\<close>.
\<close>

partial_function (option) load_loop ::
  "'w platform \<Rightarrow> u32 \<Rightarrow> u32 \<Rightarrow> 'w shell \<Rightarrow> ((u32 \<times> u32) option \<times> 'w shell) option" where
  "load_loop P cur_addr count s =
     do {
       (len, buf, s) \<leftarrow> shell_readline P (line_buf s) CMD_BUF_SIZE s;
       let s = s\<lparr>line_buf := buf\<rparr>;
       if len < 0 then
         do { s \<leftarrow> shell_puts P (lit (ascii ''Aborted.'' @ CRLF)) s; Some (None, s) }
       else if len = 0 \<or> line_buf s ! 0 = 46 then Some (Some (cur_addr, count), s)
       else if line_buf s ! 0 = 35 \<or> line_buf s ! 0 = 64 then load_loop P cur_addr count s
       else do {
         r \<leftarrow> hex_to_uint32 (line_buf s);
         case r of
           Parse_error \<Rightarrow>
             do { s \<leftarrow> shell_puts P (lit (ascii ''Error: invalid hex '' @ [39])) s;
                  s \<leftarrow> shell_puts P (line_buf s) s;
                  s \<leftarrow> shell_puts P (lit ([39] @ CRLF)) s;
                  load_loop P cur_addr count s }
         | Parsed val \<Rightarrow>
             do { s \<leftarrow> REG32_store P cur_addr val s;
                  load_loop P (cur_addr + 4) (count + 1) s } } }"

text \<open>The optional address of \<open>load\<close> and \<open>go\<close>.\<close>

definition addr_arg :: "'w shell \<Rightarrow> parse_result option" where
  "addr_arg s = (if argc s \<ge> 2 then hex_to_uint32 (arg s 1) else Some (Parsed IMEM_BASE))"

definition cmd_load :: "'w platform \<Rightarrow> 'w shell \<Rightarrow> 'w shell option" where
  "cmd_load P s =
     do {
       r \<leftarrow> addr_arg s;
       case r of
         Parse_error \<Rightarrow> shell_puts P (lit (ascii ''Error: invalid address'' @ CRLF)) s
       | Parsed addr \<Rightarrow> do {
           let addr = addr AND NOT 3;
           s \<leftarrow> shell_puts P (lit (ascii ''Loading to '')) s;
           s \<leftarrow> shell_put_hex P addr s;
           s \<leftarrow> shell_puts P (lit (ascii '' ... (empty line or '' @ [39, 46, 39] @ ascii '' to end)'' @ CRLF)) s;
           (done, s) \<leftarrow> load_loop P addr 0 s;
           case done of
             None \<Rightarrow> Some s
           | Some (cur_addr, count) \<Rightarrow> do {
               s \<leftarrow> shell_puts P (lit (ascii ''Loaded '')) s;
               s \<leftarrow> shell_put_dec P count s;
               s \<leftarrow> shell_puts P (lit (ascii '' words ('')) s;
               s \<leftarrow> shell_put_dec P (count * 4) s;
               s \<leftarrow> shell_puts P (lit (ascii '' bytes) to '')) s;
               s \<leftarrow> shell_put_hex P addr s;
               s \<leftarrow> shell_puts P (lit (ascii '' - '')) s;
               s \<leftarrow> shell_put_hex P (cur_addr - 4) s;
               shell_newline P s } } }"

text \<open>
  \<open>go\<close> leaves the shell: its outcome is \<open>Left_for a\<close> when control has passed to the code at \<open>a\<close>, and
  \<open>Back\<close> when it has returned to the shell.
\<close>

datatype outcome = Back | Left_for u32

definition CSR_MSTATUS :: u32 where
  "CSR_MSTATUS = 0x300"

definition cmd_go :: "'w platform \<Rightarrow> 'w shell \<Rightarrow> (outcome \<times> 'w shell) option" where
  "cmd_go P s =
     do {
       r \<leftarrow> addr_arg s;
       case r of
         Parse_error \<Rightarrow>
           do { s \<leftarrow> shell_puts P (lit (ascii ''Error: invalid address'' @ CRLF)) s; Some (Back, s) }
       | Parsed addr \<Rightarrow> do {
           s \<leftarrow> shell_puts P (lit (ascii ''Jumping to '')) s;
           s \<leftarrow> shell_put_hex P addr s;
           s \<leftarrow> shell_puts P (lit (ascii '' ...'' @ CRLF)) s;
           s \<leftarrow> wait_tx_empty P s;
           let s = csrci P CSR_MSTATUS 0x8 s;
           let s = jump addr s;
           Some (Left_for addr, s) } }"

section \<open>Specifications\<close>

text \<open>\<open>args_are s ws\<close>: the arguments of the shell are the words \<open>ws\<close>.\<close>

definition args_are :: "'w shell \<Rightarrow> byte list list \<Rightarrow> bool" where
  "args_are s ws \<longleftrightarrow> argc s = length ws \<and> (\<forall>i < length ws. c_string (arg s i) = Some (ws ! i))"

text \<open>The value the decimal parser gives, for a string of any length.\<close>

definition dec_of :: "byte list \<Rightarrow> parse_result" where
  "dec_of bs = (case dec_to_uint32 (lit bs) of Some r \<Rightarrow> r | None \<Rightarrow> Parse_error)"

definition hex0x :: "u32 \<Rightarrow> byte list" where
  "hex0x v = ascii ''0x'' @ hex_text v"

fun peek_obs :: "u32 \<Rightarrow> u32 list \<Rightarrow> obs list" where
  "peek_obs a [] = []"
| "peek_obs a (v # vs) =
     Act (Load a v) # map Text (hex0x a @ ascii '': '' @ hex0x v @ CRLF) @ peek_obs (a + 4) vs"

definition clamp_count :: "u32 \<Rightarrow> nat" where
  "clamp_count n = min 16 (max 1 (unat n))"

definition words_to_peek :: "byte list list \<Rightarrow> nat option" where
  "words_to_peek ws =
     (if length ws < 3 then Some 1
      else case dec_of (ws ! 2) of
        Parsed n \<Rightarrow> Some (clamp_count n)
      | Parse_error \<Rightarrow> (case parse_hex_spec (ws ! 2) of
          Parsed n \<Rightarrow> Some (clamp_count n) | Parse_error \<Rightarrow> None))"

definition peek_does :: "byte list list \<Rightarrow> obs list \<Rightarrow> bool" where
  "peek_does ws os \<longleftrightarrow>
     (if length ws < 2 then os = map Text (ascii ''Usage: peek <addr> [count]'' @ CRLF)
      else case parse_hex_spec (ws ! 1) of
        Parse_error \<Rightarrow> os = map Text (ascii ''Error: invalid address'' @ CRLF)
      | Parsed a \<Rightarrow> (case words_to_peek ws of
          None \<Rightarrow> os = map Text (ascii ''Error: invalid count'' @ CRLF)
        | Some n \<Rightarrow> \<exists>vs. length vs = n \<and> os = peek_obs (a AND NOT 3) vs))"

definition poke_does :: "byte list list \<Rightarrow> obs list \<Rightarrow> bool" where
  "poke_does ws os \<longleftrightarrow>
     (if length ws < 3 then os = map Text (ascii ''Usage: poke <addr> <value>'' @ CRLF)
      else case parse_hex_spec (ws ! 1) of
        Parse_error \<Rightarrow> os = map Text (ascii ''Error: invalid address'' @ CRLF)
      | Parsed a \<Rightarrow> (case parse_hex_spec (ws ! 2) of
          Parse_error \<Rightarrow> os = map Text (ascii ''Error: invalid value'' @ CRLF)
        | Parsed v \<Rightarrow> \<exists>v'. os = Act (Store (a AND NOT 3) v)
            # map Text (hex0x (a AND NOT 3) @ ascii '' <- '' @ hex0x v @ ascii '' (readback: '')
            @ Act (Load (a AND NOT 3) v') # map Text (hex0x v' @ ascii '')'' @ CRLF)))"

definition addr_of :: "byte list list \<Rightarrow> parse_result" where
  "addr_of ws = (if length ws < 2 then Parsed IMEM_BASE else parse_hex_spec (ws ! 1))"

definition go_does :: "byte list list \<Rightarrow> obs list \<Rightarrow> outcome \<Rightarrow> bool" where
  "go_does ws os out \<longleftrightarrow>
     (case addr_of ws of
        Parse_error \<Rightarrow> os = map Text (ascii ''Error: invalid address'' @ CRLF) \<and> out = Back
      | Parsed a \<Rightarrow>
          os = map Text (ascii ''Jumping to '' @ hex0x a @ ascii '' ...'' @ CRLF)
            @ [Drained, Act (Csr_clear CSR_MSTATUS 8), Act (Jump a)] \<and> out = Left_for a)"

text \<open>
  \<open>load_keys a n ks\<close>: what the loop of \<open>load\<close> makes of the keys \<open>ks\<close> when the next word goes to the
  address \<open>a\<close> and \<open>n\<close> words are stored: the observations, the final address and count (\<open>None\<close> for an
  aborted load) and the keys left. \<open>None\<close>: the keys do not end the load.
\<close>

function load_keys :: "u32 \<Rightarrow> u32 \<Rightarrow> byte list \<Rightarrow> (obs list \<times> (u32 \<times> u32) option \<times> byte list) option" where
  "load_keys a n ks =
     (case edit 79 [] ks of
        None \<Rightarrow> None
      | Some (os, None, rest) \<Rightarrow> Some (os @ map Text (ascii ''Aborted.'' @ CRLF), None, rest)
      | Some (os, Some line, rest) \<Rightarrow>
          if line = [] \<or> hd line = 46 then Some (os, Some (a, n), rest)
          else if hd line = 35 \<or> hd line = 64 then after os (load_keys a n rest)
          else (case parse_hex_spec line of
              Parse_error \<Rightarrow>
                after (os @ map Text (ascii ''Error: invalid hex '' @ [39] @ line @ [39] @ CRLF))
                  (load_keys a n rest)
            | Parsed v \<Rightarrow> after (os @ [Act (Store a v)]) (load_keys (a + 4) (n + 1) rest)))"
  by pat_completeness auto
termination
  by (relation "measure (\<lambda>(a, n, ks). length ks)") (auto dest: edit_shorter)

declare load_keys.simps [simp del]

definition loading_text :: "u32 \<Rightarrow> byte list" where
  "loading_text a = ascii ''Loading to '' @ hex0x a @ ascii '' ... (empty line or ''
     @ [39, 46, 39] @ ascii '' to end)'' @ CRLF"

definition loaded_text :: "u32 \<Rightarrow> u32 \<Rightarrow> u32 \<Rightarrow> byte list" where
  "loaded_text a end n = ascii ''Loaded '' @ dec_text n @ ascii '' words ('' @ dec_text (n * 4)
     @ ascii '' bytes) to '' @ hex0x a @ ascii '' - '' @ hex0x (end - 4) @ CRLF"

definition load_does :: "byte list list \<Rightarrow> byte list \<Rightarrow> obs list \<Rightarrow> byte list \<Rightarrow> bool" where
  "load_does ws ks os rest \<longleftrightarrow>
     (case addr_of ws of
        Parse_error \<Rightarrow> os = map Text (ascii ''Error: invalid address'' @ CRLF) \<and> rest = ks
      | Parsed a \<Rightarrow> (\<exists>os' res. load_keys (a AND NOT 3) 0 ks = Some (os', res, rest)
          \<and> os = map Text (loading_text (a AND NOT 3)) @ os' @ (case res of
              None \<Rightarrow> []
            | Some (end, n) \<Rightarrow> map Text (loaded_text (a AND NOT 3) end n))))"

section \<open>Correctness\<close>

text \<open>
  The accesses among some observations: the stores go to addresses in \<open>h\<close>, the loads come from addresses
  in \<open>r\<close>.
\<close>

fun access_ok :: "(u32 \<Rightarrow> bool) \<Rightarrow> (u32 \<Rightarrow> bool) \<Rightarrow> obs \<Rightarrow> bool" where
  "access_ok h r (Act (Store a v)) \<longleftrightarrow> h a"
| "access_ok h r (Act (Load a v)) \<longleftrightarrow> r a"
| "access_ok h r _ \<longleftrightarrow> True"

abbreviation accesses_ok :: "(u32 \<Rightarrow> bool) \<Rightarrow> (u32 \<Rightarrow> bool) \<Rightarrow> obs list \<Rightarrow> bool" where
  "accesses_ok h r \<equiv> list_all (access_ok h r)"

lemma accesses_ok_mono:
  assumes "accesses_ok h r os" and "\<And>a. h a \<Longrightarrow> h' a"
  shows "accesses_ok h' r os"
  using assms(1)
proof (rule list.pred_mono_strong)
  show "access_ok h' r ob" if "access_ok h r ob" for ob
    using that assms(2) by (cases "(h, r, ob)" rule: access_ok.cases) auto
qed

lemma accesses_ok_Text [simp]: "accesses_ok h r (map Text bs)"
  by (induction bs) simp_all

text \<open>The addresses that \<open>peek\<close> loads from.\<close>

fun words_from :: "u32 \<Rightarrow> nat \<Rightarrow> u32 list" where
  "words_from a 0 = []"
| "words_from a (Suc n) = a # words_from (a + 4) n"

definition peek_addrs :: "byte list list \<Rightarrow> u32 list" where
  "peek_addrs ws =
     (if length ws < 2 then []
      else case parse_hex_spec (ws ! 1) of
        Parse_error \<Rightarrow> []
      | Parsed a \<Rightarrow> (case words_to_peek ws of None \<Rightarrow> [] | Some n \<Rightarrow> words_from (a AND NOT 3) n))"

lemma peek_obs_ok [simp]: "accesses_ok h r (peek_obs a vs) \<longleftrightarrow> list_all r (words_from a (length vs))"
  by (induction vs arbitrary: a) (simp_all del: map_append)

lemma peek_does_ok:
  assumes "\<And>os. peek_does ws os \<Longrightarrow> accesses_ok h r os"
  shows "list_all r (peek_addrs ws)"
proof (cases "length ws < 2 \<or> parse_hex_spec (ws ! 1) = Parse_error \<or> words_to_peek ws = None")
  case False
  then obtain a n where "parse_hex_spec (ws ! 1) = Parsed a" "words_to_peek ws = Some n"
    by (cases "parse_hex_spec (ws ! 1)") auto
  with False have "peek_does ws (peek_obs (a AND NOT 3) (replicate n 0))"
    by (auto simp: peek_does_def intro!: exI [of _ "replicate n 0"])
  from assms [OF this] \<open>parse_hex_spec (ws ! 1) = Parsed a\<close> \<open>words_to_peek ws = Some n\<close> False show ?thesis
    by (simp add: peek_addrs_def)
qed (auto simp: peek_addrs_def split: parse_result.splits option.splits)

lemma dec_loop_prefix:
  "0 \<notin> set bs \<Longrightarrow> dec_loop (bs @ 0 # rest) v n = dec_loop (lit bs) v n \<and> dec_loop (lit bs) v n \<noteq> None"
  by (induction bs arbitrary: v n) (auto simp: lit_def Let_def)

lemma dec_to_uint32_total:
  assumes "c_string s = Some bs"
  shows "dec_to_uint32 s = Some (dec_of bs)"
  using assms dec_loop_prefix [of bs _ 0 0]
  by (fastforce simp: dec_of_def dec_to_uint32_def split: option.splits elim!: c_string_SomeE)

lemma kept_arg: "kept s s' \<Longrightarrow> arg s' i = arg s i \<and> argc s' = argc s"
  by (simp add: kept_def arg_def)

lemma args_are_hex: "args_are s ws \<Longrightarrow> i < length ws \<Longrightarrow> hex_to_uint32 (arg s i) = Some (parse_hex_spec (ws ! i))"
  by (simp add: args_are_def hex_to_uint32_eq)

lemma args_are_dec: "args_are s ws \<Longrightarrow> i < length ws \<Longrightarrow> dec_to_uint32 (arg s i) = Some (dec_of (ws ! i))"
  by (simp add: args_are_def dec_to_uint32_total)

lemma args_are_argc: "args_are s ws \<Longrightarrow> argc s = length ws"
  by (simp add: args_are_def)

lemma addr_arg_eq: "args_are s ws \<Longrightarrow> addr_arg s = Some (addr_of ws)"
  by (simp add: addr_arg_def addr_of_def args_are_argc args_are_hex)

lemma clamp_count_eq:
  "unat (let c = (if n = 0 then 1 else n) in if c > PEEK_MAX_WORDS then PEEK_MAX_WORDS else c) = clamp_count n"
proof (cases "n = 0")
  case True
  then show ?thesis by (simp add: clamp_count_def PEEK_MAX_WORDS_def)
next
  case False
  then have "0 < unat n" by (simp add: unat_gt_0)
  with False show ?thesis by (auto simp: clamp_count_def PEEK_MAX_WORDS_def word_less_nat_alt)
qed

lemma peek_count_eq:
  assumes "args_are s ws"
  shows "\<exists>r. peek_count s = Some r \<and> words_to_peek ws =
    (case r of Parsed n \<Rightarrow> Some (clamp_count n) | Parse_error \<Rightarrow> None)"
  using assms
  by (auto simp: peek_count_def words_to_peek_def args_are_argc args_are_dec args_are_hex
      clamp_count_def split: parse_result.splits)

context terminal begin

lemma peek_loop_said:
  assumes "so_far s0 os s" and "list_all answers (words_from (addr + i * 4) (unat count - unat i))"
  shows "returns (\<lambda>s'. \<exists>vs. length vs = unat count - unat i \<and> so_far s0 (os @ peek_obs (addr + i * 4) vs) s')
    (peek_loop P addr count i s)"
  using assms
proof (induction "unat count - unat i" arbitrary: i s os)
  case 0
  then show ?case
    by (subst peek_loop.simps) (simp add: word_less_nat_alt)
next
  case (Suc k)
  then have lt: "i < count" by (simp add: word_less_nat_alt)
  then have k: "k = unat count - unat (i + 1)"
    using Suc(2) unat_less_Suc_word [OF lt] by (simp add: word_less_nat_alt)
  have a: "addr + (i + 1) * 4 = addr + i * 4 + 4" by (simp add: algebra_simps)
  have ans: "answers (addr + i * 4)" "list_all answers (words_from (addr + (i + 1) * 4) (unat count - unat (i + 1)))"
    using Suc.prems(2) by (simp_all add: Suc(2) [symmetric] k [symmetric] a [unfolded add.assoc] add.assoc)
  have rec: "returns (\<lambda>s'. \<exists>vs. length vs = unat count - unat i \<and> so_far s0 (os @ peek_obs (addr + i * 4) vs) s')
      (peek_loop P addr count (i + 1) s')"
    if "so_far s0 (os @ Act (Load (addr + i * 4) v) # map Text (hex0x (addr + i * 4) @ ascii '': '' @ hex0x v @ CRLF)) s'"
    for v s'
    using Suc(1) [OF k that ans(2)]
  proof (rule returns_mono)
    fix s'' assume "\<exists>vs. length vs = unat count - unat (i + 1) \<and> so_far s0 ((os @ Act (Load (addr + i * 4) v)
        # map Text (hex0x (addr + i * 4) @ ascii '': '' @ hex0x v @ CRLF)) @ peek_obs (addr + (i + 1) * 4) vs) s''"
    then obtain vs where "length vs = k" and "so_far s0 (os @ peek_obs (addr + i * 4) (v # vs)) s''"
      unfolding k a by auto
    then show "\<exists>vs. length vs = unat count - unat i \<and> so_far s0 (os @ peek_obs (addr + i * 4) vs) s''"
      by (metis Suc(2) length_Cons)
  qed
  show ?case
    by (subst peek_loop.simps, subst if_P [OF lt], rule let_step)
      (rule steps text_steps Suc.prems(1) ans(1) | assumption | simp add: literal_simps
        | rule rec, erule said_eq, simp add: hex0x_def)+
qed

theorem peek_said:
  assumes s: "ready good s" and ws: "args_are s ws" and ans: "list_all answers (peek_addrs ws)"
  shows "returns (\<lambda>s'. \<exists>os. peek_does ws os \<and> so_far s os s') (cmd_peek P s)"
proof (cases "length ws < 2")
  case True
  then show ?thesis
    by (subst cmd_peek_def) (simp add: args_are_argc [OF ws],
      rule puts_only [OF s], auto simp: literal_simps peek_does_def)
next
  case False
  obtain r where r: "peek_count s = Some r"
    "words_to_peek ws = (case r of Parsed n \<Rightarrow> Some (clamp_count n) | Parse_error \<Rightarrow> None)"
    using peek_count_eq [OF ws] by blast
  note args = False args_are_argc [OF ws] args_are_hex [OF ws] r
  show ?thesis
  proof (cases "parse_hex_spec (ws ! 1)")
    case Parse_error
    with args show ?thesis
      by (subst cmd_peek_def) (simp, rule puts_only [OF s], auto simp: literal_simps peek_does_def)
  next
    case a: (Parsed a)
    show ?thesis
    proof (cases r)
      case Parse_error
      with args a show ?thesis
        by (subst cmd_peek_def) (simp, rule puts_only [OF s], auto simp: literal_simps peek_does_def)
    next
      case (Parsed n)
      define c where "c = (let c = (if n = 0 then 1 else n) in if c > PEEK_MAX_WORDS then PEEK_MAX_WORDS else c)"
      have c: "unat c = clamp_count n" unfolding c_def by (rule clamp_count_eq)
      have does: "\<exists>os. peek_does ws os \<and> so_far s os s'"
        if "\<exists>vs. length vs = unat c - unat (0 :: u32) \<and> so_far s ([] @ peek_obs ((a AND NOT 3) + 0 * 4) vs) s'" for s'
        using that args Parsed a by (auto simp: c peek_does_def)
      have "list_all answers (words_from ((a AND NOT 3) + 0 * 4) (unat c - unat (0 :: u32)))"
        using ans args Parsed a by (simp add: peek_addrs_def c)
      then have "returns (\<lambda>s'. \<exists>os. peek_does ws os \<and> so_far s os s') (peek_loop P (a AND NOT 3) c 0 s)"
        by (rule returns_mono [OF peek_loop_said [OF said_refl [OF s]] does])
      with args Parsed a show ?thesis
        by (subst cmd_peek_def) (simp add: Let_def c_def)
    qed
  qed
qed

theorem poke_said:
  assumes s: "ready good s" and ws: "args_are s ws"
    and safe: "\<And>os. poke_does ws os \<Longrightarrow> accesses_ok harmless answers os"
  shows "returns (\<lambda>s'. \<exists>os. poke_does ws os \<and> so_far s os s') (cmd_poke P s)"
proof (cases "length ws < 3")
  case True
  then show ?thesis
    by (subst cmd_poke_def) (simp add: args_are_argc [OF ws],
      rule puts_only [OF s], auto simp: literal_simps poke_does_def)
next
  case False
  note args = False args_are_argc [OF ws] args_are_hex [OF ws]
  show ?thesis
  proof (cases "parse_hex_spec (ws ! 1)")
    case Parse_error
    with args show ?thesis
      by (subst cmd_poke_def) (simp, rule puts_only [OF s], auto simp: literal_simps poke_does_def)
  next
    case (Parsed a)
    note a = Parsed
    show ?thesis
    proof (cases "parse_hex_spec (ws ! 2)")
      case Parse_error
      with args Parsed show ?thesis
        by (subst cmd_poke_def) (simp, rule puts_only [OF s], auto simp: literal_simps poke_does_def)
    next
      case (Parsed v)
      let ?a = "a AND NOT 3"
      have "poke_does ws (Act (Store ?a v) # map Text (hex0x ?a @ ascii '' <- '' @ hex0x v @ ascii '' (readback: '')
            @ Act (Load ?a 0) # map Text (hex0x 0 @ ascii '')'' @ CRLF))"
        using args a Parsed by (auto simp: poke_does_def)
      then have h: "harmless ?a" and ans: "answers ?a" using safe by fastforce+
      have does: "\<exists>os. poke_does ws os \<and> so_far s os s'"
        if "so_far s (Act (Store ?a v) # map Text (hex0x ?a @ ascii '' <- '' @ hex0x v @ ascii '' (readback: '')
            @ Act (Load ?a v') # map Text (hex0x v' @ ascii '')'' @ CRLF)) s'" for v' s'
        using that args a Parsed by (auto simp: poke_does_def)
      have "cmd_poke P s = (do {
          s \<leftarrow> REG32_store P ?a v s;
          s \<leftarrow> shell_put_hex P ?a s;
          s \<leftarrow> shell_puts P (lit (ascii '' <- '')) s;
          s \<leftarrow> shell_put_hex P v s;
          s \<leftarrow> shell_puts P (lit (ascii '' (readback: '')) s;
          (v, s) \<leftarrow> REG32_load P ?a s;
          s \<leftarrow> shell_put_hex P v s;
          s \<leftarrow> shell_puts P (lit (ascii '')'')) s;
          shell_newline P s })"
        using args a Parsed by (simp add: cmd_poke_def Let_def)
      then show ?thesis
        by (elim ssubst)
          (rule store_step [OF said_refl [OF s] h] ans steps text_steps newline_end | assumption
            | simp add: literal_simps | rule does, erule said_eq, simp add: hex0x_def)+
    qed
  qed
qed

text \<open>A word that is never answered: the command does not return.\<close>

lemma peek_loop_hangs:
  assumes "so_far s0 os s"
    and "list_all (\<lambda>a. answers a \<or> never_loads a) (words_from (addr + i * 4) (unat count - unat i))"
    and "\<not> list_all answers (words_from (addr + i * 4) (unat count - unat i))"
  shows "peek_loop P addr count i s = None"
  using assms
proof (induction "unat count - unat i" arbitrary: i s os)
  case (Suc k)
  then have lt: "i < count" by (simp add: word_less_nat_alt)
  then have k: "k = unat count - unat (i + 1)"
    using Suc(2) unat_less_Suc_word [OF lt] by (simp add: word_less_nat_alt)
  have a: "addr + (i + 1) * 4 = addr + i * 4 + 4" by (simp add: algebra_simps)
  show ?case
  proof (cases "answers (addr + i * 4)")
    case True
    have rest: "list_all (\<lambda>a. answers a \<or> never_loads a) (words_from (addr + (i + 1) * 4) (unat count - unat (i + 1)))"
      "\<not> list_all answers (words_from (addr + (i + 1) * 4) (unat count - unat (i + 1)))"
      using Suc.prems(2,3) True
      by (simp_all add: Suc(2) [symmetric] k [symmetric] a [unfolded add.assoc] add.assoc)
    show ?thesis
      by (subst peek_loop.simps, subst if_P [OF lt], unfold Let_def)
        (rule hang_steps puts_hang Suc.prems(1) True | assumption | simp add: literal_simps; fail
          | erule Suc(1) [OF k _ rest])+
  next
    case False
    then have "never_loads (addr + i * 4)" using Suc.prems(2) by (simp add: Suc(2) [symmetric])
    from access_hangs(1) [OF Suc.prems(1) this] lt show ?thesis by (subst peek_loop.simps) (simp add: Let_def)
  qed
qed simp

theorem peek_hangs:
  assumes s: "ready good s" and ws: "args_are s ws"
    and never: "list_all (\<lambda>a. answers a \<or> never_loads a) (peek_addrs ws)" "\<not> list_all answers (peek_addrs ws)"
  shows "cmd_peek P s = None"
proof -
  have n: "peek_addrs ws \<noteq> []" using never(2) by auto
  then obtain a m where a: "parse_hex_spec (ws ! 1) = Parsed a" "words_to_peek ws = Some m" "\<not> length ws < 2"
    by (auto simp: peek_addrs_def split: if_splits parse_result.splits option.splits)
  obtain p where p: "peek_count s = Some p"
    "words_to_peek ws = (case p of Parsed n \<Rightarrow> Some (clamp_count n) | Parse_error \<Rightarrow> None)"
    using peek_count_eq [OF ws] by blast
  then obtain r where r: "peek_count s = Some (Parsed r)" "m = clamp_count r"
    using a(2) by (cases p) auto
  define c where "c = (let c = (if r = 0 then 1 else r) in if c > PEEK_MAX_WORDS then PEEK_MAX_WORDS else c)"
  have c: "unat c = m" unfolding c_def r(2) by (rule clamp_count_eq)
  have "peek_loop P (a AND NOT 3) c 0 s = None"
    by (rule peek_loop_hangs [OF said_refl [OF s]]) (use never a in \<open>simp_all add: peek_addrs_def c\<close>)
  with a r show ?thesis
    by (subst cmd_peek_def) (simp add: args_are_argc [OF ws] args_are_hex [OF ws] Let_def c_def)
qed

theorem poke_hangs:
  assumes s: "ready good s" and ws: "args_are s ws"
    and a: "\<not> length ws < 3" "parse_hex_spec (ws ! 1) = Parsed a" "parse_hex_spec (ws ! 2) = Parsed v"
    and never: "never_stores (a AND NOT 3) \<or> harmless (a AND NOT 3) \<and> never_loads (a AND NOT 3)"
  shows "cmd_poke P s = None"
proof (cases "never_stores (a AND NOT 3)")
  case True
  with a access_hangs(2) [OF said_refl [OF s] True] show ?thesis
    by (simp add: cmd_poke_def args_are_argc [OF ws] args_are_hex [OF ws] Let_def)
next
  case False
  let ?a = "a AND NOT 3"
  have h: "harmless ?a" and n: "never_loads ?a" using False never by simp_all
  note hang = access_hangs(1) [OF _ n]
  have "cmd_poke P s = (do {
          s \<leftarrow> REG32_store P ?a v s;
          s \<leftarrow> shell_put_hex P ?a s;
          s \<leftarrow> shell_puts P (lit (ascii '' <- '')) s;
          s \<leftarrow> shell_put_hex P v s;
          s \<leftarrow> shell_puts P (lit (ascii '' (readback: '')) s;
          (v, s) \<leftarrow> REG32_load P ?a s;
          s \<leftarrow> shell_put_hex P v s;
          s \<leftarrow> shell_puts P (lit (ascii '')'')) s;
          shell_newline P s })"
    using a by (simp add: cmd_poke_def args_are_argc [OF ws] args_are_hex [OF ws] Let_def)
  also have "\<dots> = None"
    by (rule store_hang [OF said_refl [OF s] h] put_hex_hang puts_hang | assumption | simp add: literal_simps; fail
        | erule hang)+
  finally show ?thesis .
qed

theorem go_said:
  assumes s: "ready good s" and ws: "args_are s ws"
  shows "returns (\<lambda>(out, s'). \<exists>os. go_does ws os out \<and> so_far s os s') (cmd_go P s)"
proof (cases "addr_of ws")
  case Parse_error
  have does: "\<exists>os. go_does ws os Back \<and> so_far s os s'"
    if "so_far s (map Text (ascii ''Error: invalid address'' @ CRLF)) s'" for s'
    using that Parse_error by (auto simp: go_does_def)
  show ?thesis
    by (subst cmd_go_def) (simp add: addr_arg_eq [OF ws] Parse_error,
      rule puts_step [OF said_refl [OF s]], simp add: literal_simps, simp add: does)
next
  case (Parsed a)
  have does: "\<exists>os. go_does ws os (Left_for a) \<and> so_far s os (jump a s')"
    if "so_far s (map Text (ascii ''Jumping to '' @ hex0x a @ ascii '' ...'' @ CRLF)
            @ [Drained, Act (Csr_clear CSR_MSTATUS 8)]) s'" for s'
    using jump_said [OF that, of a] Parsed by (auto simp: go_does_def)
  have "returns (\<lambda>(out, s'). \<exists>os. go_does ws os out \<and> so_far s os s')
    (do { s \<leftarrow> shell_puts P (lit (ascii ''Jumping to '')) s;
          s \<leftarrow> shell_put_hex P a s;
          s \<leftarrow> shell_puts P (lit (ascii '' ...'' @ CRLF)) s;
          s \<leftarrow> wait_tx_empty P s;
          let s = csrci P CSR_MSTATUS 0x8 s;
          let s = jump a s;
          Some (Left_for a, s) })"
    by (rule steps text_steps said_refl [OF s] said_step [where m = "wait_tx_empty P", OF _ wait_tx_empty_said]
        | assumption
        | rule let_step, simp only: returns_Some prod.case, rule does, erule said_eq, simp add: hex0x_def
        | simp add: literal_simps)+
  then show ?thesis
    by (subst cmd_go_def) (simp add: addr_arg_eq [OF ws] Parsed)
qed

end

section \<open>Loading words\<close>

lemma load_keys_keys:
  assumes "load_keys a n ks = Some (os, res, rest)"
  shows "ks = keys os @ rest \<and> list_all quiet os"
  using assms
proof (induction a n ks arbitrary: os rule: load_keys.induct)
  case (1 a n ks)
  from "1.prems" obtain os1 r1 rest1 where e: "edit 79 [] ks = Some (os1, r1, rest1)"
    by (subst (asm) load_keys.simps) (auto split: option.splits)
  note k = edit_keys [OF e]
  show ?case
  proof (cases r1)
    case None
    with "1.prems" e k show ?thesis by (subst (asm) load_keys.simps) (auto simp: list_all_iff)
  next
    case (Some line)
    note ih = "1.IH" [OF e refl refl Some]
    show ?thesis
      using "1.prems" e k ih Some
      by (subst (asm) load_keys.simps)
        (fastforce simp: after_Some list_all_iff split: if_split_asm parse_result.split_asm)
  qed
qed

lemma line_buffer_string:
  assumes "entered 79 (Some line) len buf" and "list_all printable line" and "length line \<le> 79"
  shows "c_string buf = Some line" and "length buf = 80" and "line \<noteq> [] \<Longrightarrow> buf ! 0 = hd line"
    and "len = int (length line)"
proof -
  have "80 - length line = Suc (79 - length line)" using assms(3) by simp
  moreover have "0 \<notin> set line" using assms(2) printable_simps by (fastforce simp: list_all_iff)
  ultimately show "c_string buf = Some line" and "length buf = 80" and "len = int (length line)"
    using assms by (simp_all add: entered_def)
  show "line \<noteq> [] \<Longrightarrow> buf ! 0 = hd line"
    using assms(1) by (cases line) (simp_all add: entered_def)
qed

context terminal begin

text \<open>
  \<open>loaded s os s'\<close>: as \<open>so_far\<close>, except that the line buffer of \<open>cmd_load\<close> has been overwritten.
\<close>

definition loaded :: "'w shell \<Rightarrow> obs list \<Rightarrow> 'w shell \<Rightarrow> bool" where
  "loaded s os s' \<longleftrightarrow> (\<exists>b. length b = 80 \<and> so_far (s\<lparr>line_buf := b\<rparr>) os s')"

lemma loaded_trans:
  assumes "so_far (s\<lparr>line_buf := b\<rparr>) os s1" and "loaded s1 os' s2"
  shows "loaded s (os @ os') s2"
proof -
  obtain b' where b': "length b' = 80" "so_far (s1\<lparr>line_buf := b'\<rparr>) os' s2"
    using assms(2) by (auto simp: loaded_def)
  have "so_far (s\<lparr>line_buf := b'\<rparr>) os (s1\<lparr>line_buf := b'\<rparr>)"
    using said_line_buf [OF assms(1), of b'] by simp
  with b' show ?thesis unfolding loaded_def by (blast intro: said_trans)
qed

lemma loadedI: "so_far (s\<lparr>line_buf := b\<rparr>) os s1 \<Longrightarrow> length b = 80 \<Longrightarrow> loaded s os s1"
  by (auto simp: loaded_def)

lemma typed_said:
  "so_far s os s' \<Longrightarrow> list_all quiet os \<Longrightarrow> keys os = [] \<Longrightarrow> typed (hw s) ks \<Longrightarrow> typed (hw s') ks"
  by (simp add: said_def)

lemma load_next:
  assumes s': "so_far (s\<lparr>line_buf := buf\<rparr>) os1 s'" and buf: "length buf = 80"
    and ks: "typed (hw s) (keys os1 @ rest)" "list_all quiet os1"
    and rec: "\<And>s. ready good s \<Longrightarrow> typed (hw s) rest \<Longrightarrow> length (line_buf s) = 80 \<Longrightarrow>
      returns (\<lambda>(r, s'). r = res \<and> loaded s os2 s') (load_loop P a n s)"
  shows "returns (\<lambda>(r, s''). r = res \<and> loaded s (os1 @ os2) s'') (load_loop P a n s')"
proof -
  have "typed (hw s') rest" using s' ks by (simp add: said_def)
  moreover have "length (line_buf s') = 80"
    using said_kept [OF s'] buf by (simp add: kept_def)
  ultimately have "returns (\<lambda>(r, s''). r = res \<and> loaded s' os2 s'') (load_loop P a n s')"
    by (rule rec [OF said_ready [OF s']])
  then show ?thesis
    by (rule returns_mono) (auto intro: loaded_trans [OF s'])
qed

lemma load_loop_said:
  assumes "load_keys a n ks = Some (os, res, rest)" and "ready good s" and "typed (hw s) ks"
    and "length (line_buf s) = 80" and "accesses_ok harmless answers os"
  shows "returns (\<lambda>(r, s'). r = res \<and> loaded s os s') (load_loop P a n s)"
  using assms
proof (induction a n ks arbitrary: os s rule: load_keys.induct)
  case (1 a n ks)
  let ?Q = "\<lambda>(r, s'). r = res \<and> loaded s os s'"
  from "1.prems"(1) obtain os1 r1 rest1 where e: "edit 79 [] ks = Some (os1, r1, rest1)"
    by (subst (asm) load_keys.simps) (auto split: option.splits)
  obtain len buf s1 where rl: "shell_readline P (line_buf s) CMD_BUF_SIZE s = Some (len, buf, s1)"
    and s1: "so_far s os1 s1" "typed (hw s1) rest1" "entered 79 r1 len buf"
    using readline_said [OF e, of "line_buf s" s] "1.prems"
    by (auto simp: CMD_BUF_SIZE_def elim!: returnsE)
  have ks: "typed (hw s) (keys os1 @ rest1)" "list_all quiet os1"
    using edit_keys [OF e] "1.prems"(3) by simp_all
  let ?s = "s1\<lparr>line_buf := buf\<rparr>"
  have s: "so_far (s\<lparr>line_buf := buf\<rparr>) os1 ?s" by (rule said_line_buf [OF s1(1)])
  show ?case
  proof (cases r1)
    case None
    then have len: "len = -1" "length buf = 80" using s1(3) by (simp_all add: entered_def)
    have os: "os = os1 @ map Text (ascii ''Aborted.'' @ CRLF)" "res = None"
      using "1.prems"(1) e None by (subst (asm) load_keys.simps; simp)+
    have "returns ?Q (Option.bind (shell_puts P (lit (ascii ''Aborted.'' @ CRLF)) ?s) (\<lambda>s. Some (None, s)))"
      by (rule puts_step [OF s], simp add: literal_simps) (simp add: os loadedI [OF _ len(2)])
    with len show ?thesis by (subst load_loop.simps) (simp add: rl)
  next
    case (Some line)
    have line: "list_all printable line" "length line \<le> 79"
      using edit_line [OF e [unfolded Some]] by simp_all
    note b = line_buffer_string [OF s1(3) [unfolded Some] line]
    note keys = load_keys.simps [of a n ks, unfolded e Some, simplified]
    note next_line = load_next [OF _ b(2)]
    consider (stop) "line = [] \<or> hd line = 46"
      | (comment) "\<not> (line = [] \<or> hd line = 46)" "hd line = 35 \<or> hd line = 64"
      | (word) "\<not> (line = [] \<or> hd line = 46)" "\<not> (hd line = 35 \<or> hd line = 64)"
      by blast
    then show ?thesis
    proof cases
      case stop
      then have "os = os1" "res = Some (a, n)" using "1.prems"(1) keys by simp_all
      with stop b rl loadedI [OF s b(2)] show ?thesis
        by (subst load_loop.simps) (cases "line = []"; simp add: Let_def)
    next
      case comment
      then obtain os' where os': "load_keys a n rest1 = Some (os', res, rest)" "os = os1 @ os'"
        using "1.prems"(1) keys by (auto simp: after_Some)
      have "returns ?Q (load_loop P a n ?s)"
        unfolding os'(2)
        by (rule next_line [OF s ks], rule "1.IH"(1) [OF e refl refl Some comment os'(1)])
          (use "1.prems"(5) os' in simp_all)
      with comment b show ?thesis by (subst load_loop.simps) (auto simp: rl)
    next
      case word
      have nz: "buf ! 0 \<noteq> 46 \<and> buf ! 0 \<noteq> 35 \<and> buf ! 0 \<noteq> 64 \<and> \<not> len < 0 \<and> len \<noteq> 0"
        using word b by auto
      have hex: "hex_to_uint32 buf = Some (parse_hex_spec line)"
        by (rule hex_to_uint32_eq [OF b(1)])
      show ?thesis
      proof (cases "parse_hex_spec line")
        case Parse_error
        let ?err = "ascii ''Error: invalid hex '' @ [39] @ line @ [39] @ CRLF"
        obtain os' where os': "load_keys a n rest1 = Some (os', res, rest)" "os = (os1 @ map Text ?err) @ os'"
          using "1.prems"(1) keys word Parse_error by (auto simp: after_Some)
        have ks': "typed (hw s) (keys (os1 @ map Text ?err) @ rest1)" "list_all quiet (os1 @ map Text ?err)"
          using ks by simp_all
        have rec: "returns ?Q (load_loop P a n s')"
          if s': "so_far (s\<lparr>line_buf := buf\<rparr>) (os1 @ map Text ?err) s'" for s'
          unfolding os'(2)
          by (rule next_line [OF s' ks'], rule "1.IH"(2) [OF e refl refl Some word Parse_error os'(1)])
            (use "1.prems"(5) os' in simp_all)
        have "returns ?Q (do { s \<leftarrow> shell_puts P (lit (ascii ''Error: invalid hex '' @ [39])) ?s;
                  s \<leftarrow> shell_puts P (line_buf s) s;
                  s \<leftarrow> shell_puts P (lit ([39] @ CRLF)) s;
                  load_loop P a n s })"
        proof (rule puts_step [OF s])
          fix s2 assume s2: "so_far (s\<lparr>line_buf := buf\<rparr>) (os1 @ map Text (ascii ''Error: invalid hex '' @ [39])) s2"
          then have "line_buf s2 = buf" using said_kept [OF s2] by (simp add: kept_def)
          then show "returns ?Q (do { s \<leftarrow> shell_puts P (line_buf s2) s2;
                  s \<leftarrow> shell_puts P (lit ([39] @ CRLF)) s; load_loop P a n s })"
            by (intro puts_step [OF s2, of _ line] puts_step [where p = "lit ([39] @ CRLF)"] rec)
              (simp add: b, assumption, simp add: literal_simps, erule said_eq, simp)
        qed (simp add: literal_simps)
        with nz hex Parse_error show ?thesis by (subst load_loop.simps) (simp add: rl)
      next
        case (Parsed v)
        obtain os' where os': "load_keys (a + 4) (n + 1) rest1 = Some (os', res, rest)"
          "os = (os1 @ [Act (Store a v)]) @ os'"
          using "1.prems"(1) keys word Parsed by (auto simp: after_Some)
        have ks': "typed (hw s) (keys (os1 @ [Act (Store a v)]) @ rest1)" "list_all quiet (os1 @ [Act (Store a v)])"
          using ks by simp_all
        have rec: "returns ?Q (load_loop P (a + 4) (n + 1) s')"
          if s': "so_far (s\<lparr>line_buf := buf\<rparr>) (os1 @ [Act (Store a v)]) s'" for s'
          unfolding os'(2)
          by (rule next_line [OF s' ks'], rule "1.IH"(3) [OF e refl refl Some word Parsed os'(1)])
            (use "1.prems"(5) os' in simp_all)
        have "returns ?Q (Option.bind (REG32_store P a v ?s) (load_loop P (a + 4) (n + 1)))"
          using "1.prems"(5) os'(2) by (intro store_step [OF s] rec) simp_all
        with nz hex Parsed show ?thesis by (subst load_loop.simps) (simp add: rl)
      qed
    qed
  qed
qed

text \<open>A word for an address whose store is never answered: the load does not return.\<close>

lemma edit_ok:
  assumes "edit n line ks = Some (os, res, rest)"
  shows "accesses_ok h r os"
  using assms
proof (induction ks arbitrary: os line)
  case (Cons c cs)
  from Cons.prems show ?case
    by (cases rule: edit_key) (use Cons.IH in auto)
qed simp

lemma load_loop_hangs:
  assumes "load_keys a n ks = Some (os, res, rest)" and "ready good s" and "typed (hw s) ks"
    and "length (line_buf s) = 80"
    and "accesses_ok (\<lambda>a. harmless a \<or> never_stores a) answers os" and "\<not> accesses_ok harmless answers os"
  shows "load_loop P a n s = None"
  using assms
proof (induction a n ks arbitrary: os s rule: load_keys.induct)
  case (1 a n ks)
  from "1.prems"(1) obtain os1 r1 rest1 where e: "edit 79 [] ks = Some (os1, r1, rest1)"
    by (subst (asm) load_keys.simps) (auto split: option.splits)
  note ok1 = edit_ok [OF e]
  obtain len buf s1 where rl: "shell_readline P (line_buf s) CMD_BUF_SIZE s = Some (len, buf, s1)"
    and s1: "so_far s os1 s1" "typed (hw s1) rest1" "entered 79 r1 len buf"
    using readline_said [OF e, of "line_buf s" s] "1.prems"
    by (auto simp: CMD_BUF_SIZE_def elim!: returnsE)
  let ?s = "s1\<lparr>line_buf := buf\<rparr>"
  have s: "so_far (s\<lparr>line_buf := buf\<rparr>) os1 ?s" by (rule said_line_buf [OF s1(1)])
  obtain line where line: "r1 = Some line"
    using "1.prems"(1,6) e ok1 by (subst (asm) load_keys.simps) (cases r1; auto)
  have pr: "list_all printable line" "length line \<le> 79"
    using edit_line [OF e [unfolded line]] by simp_all
  note b = line_buffer_string [OF s1(3) [unfolded line] pr]
  note keys = load_keys.simps [of a n ks, unfolded e line, simplified]
  have next_ok: "ready good s' \<and> typed (hw s') rest1 \<and> length (line_buf s') = 80"
    if "so_far (s\<lparr>line_buf := buf\<rparr>) (os1 @ os') s'" "list_all quiet os'" "keys os' = []" for os' s'
  proof -
    have "typed (hw s) (keys (os1 @ os') @ rest1)" "list_all quiet (os1 @ os')"
      using edit_keys [OF e] "1.prems"(3) that by simp_all
    moreover have "line_buf s' = buf" using said_kept [OF that(1)] by (simp add: kept_def)
    ultimately show ?thesis using that(1) b(2) by (simp add: said_def)
  qed
  consider (stop) "line = [] \<or> hd line = 46"
    | (comment) "\<not> (line = [] \<or> hd line = 46)" "hd line = 35 \<or> hd line = 64"
    | (word) "\<not> (line = [] \<or> hd line = 46)" "\<not> (hd line = 35 \<or> hd line = 64)"
    by blast
  then show ?case
  proof cases
    case stop
    then have "os = os1" using "1.prems"(1) keys by simp
    with "1.prems"(6) ok1 show ?thesis by simp
  next
    case comment
    then obtain os' where os': "load_keys a n rest1 = Some (os', res, rest)" "os = os1 @ os'"
      using "1.prems"(1) keys by (auto simp: after_Some)
    have "load_loop P a n ?s = None"
      by (rule "1.IH"(1) [OF e refl refl line comment os'(1)])
        (use "1.prems"(5,6) os' ok1 next_ok [of "[]" ?s] s in simp_all)
    with comment b show ?thesis by (subst load_loop.simps) (auto simp: rl)
  next
    case word
    have nz: "buf ! 0 \<noteq> 46 \<and> buf ! 0 \<noteq> 35 \<and> buf ! 0 \<noteq> 64 \<and> \<not> len < 0 \<and> len \<noteq> 0"
      using word b by auto
    have hex: "hex_to_uint32 buf = Some (parse_hex_spec line)"
      by (rule hex_to_uint32_eq [OF b(1)])
    show ?thesis
    proof (cases "parse_hex_spec line")
      case Parse_error
      let ?err = "ascii ''Error: invalid hex '' @ [39] @ line @ [39] @ CRLF"
      obtain os' where os': "load_keys a n rest1 = Some (os', res, rest)" "os = (os1 @ map Text ?err) @ os'"
        using "1.prems"(1) keys word Parse_error by (auto simp: after_Some)
      have rec: "load_loop P a n s' = None"
        if s': "so_far (s\<lparr>line_buf := buf\<rparr>) (os1 @ map Text ?err) s'" for s'
      proof (rule "1.IH"(2) [OF e refl refl line word Parse_error os'(1)])
        show "accesses_ok (\<lambda>a. harmless a \<or> never_stores a) answers os'" "\<not> accesses_ok harmless answers os'"
          using "1.prems"(5,6) os'(2) ok1 by simp_all
        have "list_all quiet (map Text ?err)" "keys (map Text ?err) = []" by (simp_all del: map_append)
        from next_ok [OF s' this]
        show "ready good s'" "typed (hw s') rest1" "length (line_buf s') = 80" by simp_all
      qed
      have "(do { s \<leftarrow> shell_puts P (lit (ascii ''Error: invalid hex '' @ [39])) ?s;
                s \<leftarrow> shell_puts P (line_buf s) s;
                s \<leftarrow> shell_puts P (lit ([39] @ CRLF)) s;
                load_loop P a n s }) = None"
      proof (rule puts_hang [OF s])
        fix s2 assume s2: "so_far (s\<lparr>line_buf := buf\<rparr>) (os1 @ map Text (ascii ''Error: invalid hex '' @ [39])) s2"
        then have "line_buf s2 = buf" using said_kept [OF s2] by (simp add: kept_def)
        then show "(do { s \<leftarrow> shell_puts P (line_buf s2) s2;
                s \<leftarrow> shell_puts P (lit ([39] @ CRLF)) s; load_loop P a n s }) = None"
          by (intro puts_hang [OF s2, of _ line] puts_hang [where p = "lit ([39] @ CRLF)"] rec)
            (simp add: b, assumption, simp add: literal_simps, erule said_eq, simp)
      qed (simp add: literal_simps)
      with nz hex Parse_error show ?thesis by (subst load_loop.simps) (simp add: rl)
    next
      case (Parsed v)
      obtain os' where os': "load_keys (a + 4) (n + 1) rest1 = Some (os', res, rest)"
        "os = (os1 @ [Act (Store a v)]) @ os'"
        using "1.prems"(1) keys word Parsed by (auto simp: after_Some)
      have "Option.bind (REG32_store P a v ?s) (load_loop P (a + 4) (n + 1)) = None"
      proof (cases "harmless a")
        case True
        have rec: "load_loop P (a + 4) (n + 1) s' = None"
          if s': "so_far (s\<lparr>line_buf := buf\<rparr>) (os1 @ [Act (Store a v)]) s'" for s'
          by (rule "1.IH"(3) [OF e refl refl line word Parsed os'(1)])
            (use "1.prems"(5,6) os' ok1 True next_ok [OF s'] in simp_all)
        show ?thesis by (rule store_hang [OF s True rec])
      next
        case False
        then have "never_stores a" using "1.prems"(5) os'(2) by simp
        then show ?thesis by (rule access_hangs(2) [OF s])
      qed
      with nz hex Parsed show ?thesis by (subst load_loop.simps) (simp add: rl)
    qed
  qed
qed

theorem load_said:
  assumes s: "ready good s" and ws: "args_are s ws" and ks: "typed (hw s) ks"
    and buf: "length (line_buf s) = 80" and does: "load_does ws ks os rest"
    and safe: "accesses_ok harmless answers os"
  shows "returns (loaded s os) (cmd_load P s)"
proof (cases "addr_of ws")
  case Parse_error
  with does have "os = map Text (ascii ''Error: invalid address'' @ CRLF)" by (simp add: load_does_def)
  moreover have "loaded s os s'" if "so_far s os s'" for s'
    using loadedI [where s = s and b = "line_buf s"] that buf by simp
  ultimately show ?thesis
    by (subst cmd_load_def) (simp add: addr_arg_eq [OF ws] Parse_error del: map_append,
      rule puts_only [OF s], auto simp: literal_simps simp del: map_append)
next
  case (Parsed a0)
  define a where "a = a0 AND NOT 3"
  obtain os1 res where lk: "load_keys a 0 ks = Some (os1, res, rest)"
    and os: "os = map Text (loading_text a) @ os1 @ (case res of None \<Rightarrow> []
        | Some (end, n) \<Rightarrow> map Text (loaded_text a end n))"
    using does unfolding load_does_def Parsed parse_result.case a_def by blast
  have finish: "returns (loaded s os) (case res of None \<Rightarrow> Some s2
       | Some (cur_addr, count) \<Rightarrow> do {
               s \<leftarrow> shell_puts P (lit (ascii ''Loaded '')) s2;
               s \<leftarrow> shell_put_dec P count s;
               s \<leftarrow> shell_puts P (lit (ascii '' words ('')) s;
               s \<leftarrow> shell_put_dec P (count * 4) s;
               s \<leftarrow> shell_puts P (lit (ascii '' bytes) to '')) s;
               s \<leftarrow> shell_put_hex P a s;
               s \<leftarrow> shell_puts P (lit (ascii '' - '')) s;
               s \<leftarrow> shell_put_hex P (cur_addr - 4) s;
               shell_newline P s })"
    if s2: "so_far (s\<lparr>line_buf := b\<rparr>) (map Text (loading_text a) @ os1) s2" and b: "length b = 80" for s2 b
  proof (cases res)
    case None
    with s2 b show ?thesis by (simp add: os loadedI)
  next
    case (Some r)
    obtain e n where r: "r = (e, n)" by (cases r)
    have fin: "loaded s os s3"
      if "so_far (s\<lparr>line_buf := b\<rparr>) ((map Text (loading_text a) @ os1) @ map Text (loaded_text a e n)) s3" for s3
      using loadedI [OF that b] by (simp add: os Some r)
    show ?thesis unfolding Some r option.case prod.case
      by (rule s2 steps text_steps newline_end | assumption | simp add: literal_simps
        | rule fin, erule said_eq, simp add: loaded_text_def hex0x_def)+
  qed
  have loop: "returns (loaded s os) (Option.bind (load_loop P a 0 s1) (\<lambda>(done, s). case done of None \<Rightarrow> Some s
       | Some (cur_addr, count) \<Rightarrow> do {
               s \<leftarrow> shell_puts P (lit (ascii ''Loaded '')) s;
               s \<leftarrow> shell_put_dec P count s;
               s \<leftarrow> shell_puts P (lit (ascii '' words ('')) s;
               s \<leftarrow> shell_put_dec P (count * 4) s;
               s \<leftarrow> shell_puts P (lit (ascii '' bytes) to '')) s;
               s \<leftarrow> shell_put_hex P a s;
               s \<leftarrow> shell_puts P (lit (ascii '' - '')) s;
               s \<leftarrow> shell_put_hex P (cur_addr - 4) s;
               shell_newline P s }))"
    if s1: "so_far s (map Text (loading_text a)) s1" for s1
  proof (rule returns_bindI)
    have "typed (hw s1) ks" by (rule typed_said [OF s1 _ _ ks]) (simp_all add: list_all_iff)
    then show "returns (\<lambda>(r, s'). r = res \<and> loaded s1 os1 s') (load_loop P a 0 s1)"
      using said_kept [OF s1] buf safe os by (intro load_loop_said [OF lk said_ready [OF s1]]) (simp_all add: kept_def)
    fix x assume "case x of (r, s') \<Rightarrow> r = res \<and> loaded s1 os1 s'"
    then obtain s2 b where x: "x = (res, s2)" and b: "length b = 80" "so_far (s1\<lparr>line_buf := b\<rparr>) os1 s2"
      by (auto simp: loaded_def)
    show "returns (loaded s os) (case x of (done, s) \<Rightarrow> case done of None \<Rightarrow> Some s
       | Some (cur_addr, count) \<Rightarrow> do {
               s \<leftarrow> shell_puts P (lit (ascii ''Loaded '')) s;
               s \<leftarrow> shell_put_dec P count s;
               s \<leftarrow> shell_puts P (lit (ascii '' words ('')) s;
               s \<leftarrow> shell_put_dec P (count * 4) s;
               s \<leftarrow> shell_puts P (lit (ascii '' bytes) to '')) s;
               s \<leftarrow> shell_put_hex P a s;
               s \<leftarrow> shell_puts P (lit (ascii '' - '')) s;
               s \<leftarrow> shell_put_hex P (cur_addr - 4) s;
               shell_newline P s })"
      unfolding x prod.case by (rule finish [OF said_trans [OF said_line_buf [OF s1] b(2)] b(1)])
  qed
  show ?thesis
    unfolding cmd_load_def addr_arg_eq [OF ws] Option.bind.simps Parsed parse_result.case
    by (rule let_step, fold a_def, (rule said_refl [OF s] steps text_steps | assumption | simp add: literal_simps)+,
      rule loop, erule said_eq, simp add: loading_text_def hex0x_def)
qed

theorem load_hangs:
  assumes s: "ready good s" and ws: "args_are s ws" and ks: "typed (hw s) ks"
    and buf: "length (line_buf s) = 80" and does: "load_does ws ks os rest"
    and never: "accesses_ok (\<lambda>a. harmless a \<or> never_stores a) answers os" "\<not> accesses_ok harmless answers os"
  shows "cmd_load P s = None"
proof (cases "addr_of ws")
  case Parse_error
  with does never(2) show ?thesis by (simp add: load_does_def del: map_append)
next
  case (Parsed a0)
  define a where "a = a0 AND NOT 3"
  obtain os1 res where lk: "load_keys a 0 ks = Some (os1, res, rest)"
    and os: "os = map Text (loading_text a) @ os1 @ (case res of None \<Rightarrow> []
        | Some (end, n) \<Rightarrow> map Text (loaded_text a end n))"
    using does unfolding load_does_def Parsed parse_result.case a_def by blast
  have "accesses_ok h r os \<longleftrightarrow> accesses_ok h r os1" for h r
    by (simp add: os del: map_append split: option.split prod.split)
  with never have n: "accesses_ok (\<lambda>a. harmless a \<or> never_stores a) answers os1" "\<not> accesses_ok harmless answers os1"
    by simp_all
  have loop: "Option.bind (load_loop P a 0 s1) f = None" if s1: "so_far s (map Text (loading_text a)) s1" for s1
      and f :: "(u32 \<times> u32) option \<times> 'w shell \<Rightarrow> 'w shell option"
  proof -
    have "typed (hw s1) ks" by (rule typed_said [OF s1 _ _ ks]) (simp_all add: list_all_iff)
    then have "load_loop P a 0 s1 = None"
      using said_kept [OF s1] buf by (intro load_loop_hangs [OF lk said_ready [OF s1] _ _ n]) (simp_all add: kept_def)
    then show ?thesis by simp
  qed
  show ?thesis
    unfolding cmd_load_def addr_arg_eq [OF ws] Option.bind.simps Parsed parse_result.case Let_def a_def [symmetric]
    by (rule said_refl [OF s] put_hex_hang puts_hang | assumption | simp add: literal_simps; fail
      | rule loop, erule said_eq, simp add: loading_text_def hex0x_def)+
qed

end

end
