(* ===== verification/Device_Commands.thy ===== *)
theory Device_Commands
  imports Memory_Commands
begin

text \<open>
  The commands of sw/examples/shell.c that show and set the state of the devices: \<open>help\<close>, \<open>rtos\<close>,
  \<open>gpio\<close>, \<open>uart\<close>, \<open>info\<close> and \<open>uptime\<close>, each with a specification of what it reads, writes and prints and
  the proof that it does so on every terminal.
\<close>

section \<open>The code\<close>

definition cmd_help :: "'w platform \<Rightarrow> 'w shell \<Rightarrow> 'w shell option" where
  "cmd_help P s =
     do { s \<leftarrow> shell_puts P (lit (ascii ''VSync Shell Commands:'' @ CRLF)) s;
          s \<leftarrow> shell_puts P (lit (ascii ''  help                  Show this help'' @ CRLF)) s;
          s \<leftarrow> shell_puts P (lit (ascii ''  peek <addr> [count]   Read memory (hex addr, max 16 words)'' @ CRLF)) s;
          s \<leftarrow> shell_puts P (lit (ascii ''  poke <addr> <value>   Write memory (hex addr & value)'' @ CRLF)) s;
          s \<leftarrow> shell_puts P (lit (ascii ''  load [addr]           Load hex words via UART (default: 0x0)'' @ CRLF)) s;
          s \<leftarrow> shell_puts P (lit (ascii ''  go [addr]             Jump to address (default: 0x0)'' @ CRLF)) s;
          s \<leftarrow> shell_puts P (lit (ascii ''  rtos                  Show RTOS scheduler state'' @ CRLF)) s;
          s \<leftarrow> shell_puts P (lit (ascii ''  gpio                  Show all GPIO registers'' @ CRLF)) s;
          s \<leftarrow> shell_puts P (lit (ascii ''  gpio read             Read GPIO input value'' @ CRLF)) s;
          s \<leftarrow> shell_puts P (lit (ascii ''  gpio write <val>      Set GPIO output (hex)'' @ CRLF)) s;
          s \<leftarrow> shell_puts P (lit (ascii ''  gpio dir <mask>       Set GPIO direction (hex, 1=out)'' @ CRLF)) s;
          s \<leftarrow> shell_puts P (lit (ascii ''  uart                  Show UART status/control'' @ CRLF)) s;
          s \<leftarrow> shell_puts P (lit (ascii ''  info                  System information'' @ CRLF)) s;
          shell_puts P (lit (ascii ''  uptime                Show uptime from CLINT mtime'' @ CRLF)) s }"

definition sched_fsm_name :: "u32 \<Rightarrow> byte list" where
  "sched_fsm_name state =
     lit (ascii
       (if state = SCHED_FSM_IDLE then ''IDLE''
        else if state = SCHED_FSM_SCAN then ''SCAN''
        else if state = SCHED_FSM_PREEMPT then ''PREEMPT''
        else if state = SCHED_FSM_SWITCH then ''SWITCH''
        else if state = SCHED_FSM_DONE then ''DONE''
        else ''UNKNOWN''))"

definition cmd_rtos :: "'w platform \<Rightarrow> 'w shell \<Rightarrow> 'w shell option" where
  "cmd_rtos P s =
     do { s \<leftarrow> shell_puts P (lit (ascii ''=== RTOS Scheduler State ==='' @ CRLF)) s;
          (en, s) \<leftarrow> REG32_load P (RTOS_BASE + RTOS_SCHED_EN) s;
          (policy, s) \<leftarrow> REG32_load P (RTOS_BASE + RTOS_SCHED_POLICY) s;
          (cur, s) \<leftarrow> REG32_load P (RTOS_BASE + RTOS_CURRENT_TASK) s;
          (next, s) \<leftarrow> REG32_load P (RTOS_BASE + RTOS_NEXT_TASK) s;
          (active, s) \<leftarrow> REG32_load P (RTOS_BASE + RTOS_TASK_ACTIVE) s;
          (count, s) \<leftarrow> REG32_load P (RTOS_BASE + RTOS_TASK_COUNT) s;
          (tslice, s) \<leftarrow> REG32_load P (RTOS_BASE + RTOS_TIME_SLICE) s;
          (fsm, s) \<leftarrow> REG32_load P (RTOS_BASE + RTOS_FSM_STATE) s;
          (irq, s) \<leftarrow> REG32_load P (RTOS_BASE + RTOS_IRQ_STATUS) s;
          (trig, s) \<leftarrow> REG32_load P (RTOS_BASE + RTOS_SCHED_TRIGGER) s;
          s \<leftarrow> shell_puts P (lit (ascii ''  Scheduler Enable : '')) s;
          s \<leftarrow> shell_puts P (lit (ascii (if en \<noteq> 0 then ''ON'' else ''OFF''))) s;
          s \<leftarrow> shell_newline P s;
          s \<leftarrow> shell_puts P (lit (ascii ''  Policy           : '')) s;
          s \<leftarrow> shell_put_dec P policy s;
          s \<leftarrow> shell_newline P s;
          s \<leftarrow> shell_puts P (lit (ascii ''  Current Task ID  : '')) s;
          s \<leftarrow> shell_put_dec P cur s;
          s \<leftarrow> shell_newline P s;
          s \<leftarrow> shell_puts P (lit (ascii ''  Next Task ID     : '')) s;
          s \<leftarrow> shell_put_dec P next s;
          s \<leftarrow> shell_newline P s;
          s \<leftarrow> shell_puts P (lit (ascii ''  Active Tasks Mask: '')) s;
          s \<leftarrow> shell_put_hex P active s;
          s \<leftarrow> shell_newline P s;
          s \<leftarrow> shell_puts P (lit (ascii ''  Task Count       : '')) s;
          s \<leftarrow> shell_put_dec P count s;
          s \<leftarrow> shell_puts P (lit (ascii '' / '')) s;
          s \<leftarrow> shell_put_dec P RTOS_MAX_TASKS s;
          s \<leftarrow> shell_newline P s;
          s \<leftarrow> shell_puts P (lit (ascii ''  Time Slice       : '')) s;
          s \<leftarrow> shell_put_dec P tslice s;
          s \<leftarrow> shell_puts P (lit (ascii '' cycles'')) s;
          s \<leftarrow> shell_newline P s;
          s \<leftarrow> shell_puts P (lit (ascii ''  FSM State        : '')) s;
          s \<leftarrow> shell_puts P (sched_fsm_name fsm) s;
          s \<leftarrow> shell_puts P (lit (ascii '' ('')) s;
          s \<leftarrow> shell_put_dec P fsm s;
          s \<leftarrow> shell_puts P (lit (ascii '')'')) s;
          s \<leftarrow> shell_newline P s;
          s \<leftarrow> shell_puts P (lit (ascii ''  IRQ Status       : '')) s;
          s \<leftarrow> shell_put_hex P irq s;
          s \<leftarrow> shell_newline P s;
          s \<leftarrow> shell_puts P (lit (ascii ''  Sched Trigger    : '')) s;
          s \<leftarrow> shell_put_hex P trig s;
          shell_newline P s }"

text \<open>The condition \<open>argc >= n && shell_strcmp(argv[1], t) == 0\<close>.\<close>

definition subcommand :: "'w shell \<Rightarrow> nat \<Rightarrow> string \<Rightarrow> bool option" where
  "subcommand s n t =
     (if argc s \<ge> n then map_option (\<lambda>r. r = 0) (shell_strcmp (arg s 1) (lit (ascii t))) else Some False)"

definition gpio_set :: "'w platform \<Rightarrow> u32 \<Rightarrow> string \<Rightarrow> string \<Rightarrow> 'w shell \<Rightarrow> 'w shell option" where
  "gpio_set P reg label err s =
     do { r \<leftarrow> hex_to_uint32 (arg s 2);
          case r of
            Parse_error \<Rightarrow> shell_puts P (lit (ascii err @ CRLF)) s
          | Parsed val \<Rightarrow> do {
              s \<leftarrow> REG32_store P (GPIO_BASE + reg) val s;
              s \<leftarrow> shell_puts P (lit (ascii label)) s;
              s \<leftarrow> shell_put_hex P val s;
              shell_newline P s } }"

definition gpio_show :: "'w platform \<Rightarrow> 'w shell \<Rightarrow> 'w shell option" where
  "gpio_show P s =
     do { s \<leftarrow> shell_puts P (lit (ascii ''=== GPIO Registers ==='' @ CRLF)) s;
          s \<leftarrow> shell_puts P (lit (ascii ''  OUT        : '')) s;
          (v, s) \<leftarrow> REG32_load P (GPIO_BASE + GPIO_OUT) s;
          s \<leftarrow> shell_put_hex P v s;
          s \<leftarrow> shell_newline P s;
          s \<leftarrow> shell_puts P (lit (ascii ''  IN         : '')) s;
          (v, s) \<leftarrow> REG32_load P (GPIO_BASE + GPIO_IN) s;
          s \<leftarrow> shell_put_hex P v s;
          s \<leftarrow> shell_newline P s;
          s \<leftarrow> shell_puts P (lit (ascii ''  DIR        : '')) s;
          (v, s) \<leftarrow> REG32_load P (GPIO_BASE + GPIO_DIR) s;
          s \<leftarrow> shell_put_hex P v s;
          s \<leftarrow> shell_newline P s;
          s \<leftarrow> shell_puts P (lit (ascii ''  INT_EN     : '')) s;
          (v, s) \<leftarrow> REG32_load P (GPIO_BASE + GPIO_INT_EN) s;
          s \<leftarrow> shell_put_hex P v s;
          s \<leftarrow> shell_newline P s;
          s \<leftarrow> shell_puts P (lit (ascii ''  INT_STATUS : '')) s;
          (v, s) \<leftarrow> REG32_load P (GPIO_BASE + GPIO_INT_STATUS) s;
          s \<leftarrow> shell_put_hex P v s;
          s \<leftarrow> shell_newline P s;
          s \<leftarrow> shell_puts P (lit (ascii ''  INT_TYPE   : '')) s;
          (v, s) \<leftarrow> REG32_load P (GPIO_BASE + GPIO_INT_TYPE) s;
          s \<leftarrow> shell_put_hex P v s;
          s \<leftarrow> shell_newline P s;
          s \<leftarrow> shell_puts P (lit (ascii ''  INT_POL    : '')) s;
          (v, s) \<leftarrow> REG32_load P (GPIO_BASE + GPIO_INT_POL) s;
          s \<leftarrow> shell_put_hex P v s;
          shell_newline P s }"

definition cmd_gpio :: "'w platform \<Rightarrow> 'w shell \<Rightarrow> 'w shell option" where
  "cmd_gpio P s =
     do { b \<leftarrow> subcommand s 2 ''read'';
          if b then do {
            (val, s) \<leftarrow> REG32_load P (GPIO_BASE + GPIO_IN) s;
            s \<leftarrow> shell_puts P (lit (ascii ''GPIO IN: '')) s;
            s \<leftarrow> shell_put_hex P val s;
            shell_newline P s }
          else do {
            b \<leftarrow> subcommand s 3 ''write'';
            if b then gpio_set P GPIO_OUT ''GPIO OUT <- '' ''Error: invalid value'' s
            else do {
              b \<leftarrow> subcommand s 3 ''dir'';
              if b then gpio_set P GPIO_DIR ''GPIO DIR <- '' ''Error: invalid mask'' s
              else gpio_show P s } } }"

definition cmd_uart :: "'w platform \<Rightarrow> 'w shell \<Rightarrow> 'w shell option" where
  "cmd_uart P s =
     do { s \<leftarrow> shell_puts P (lit (ascii ''=== UART Registers ==='' @ CRLF)) s;
          (status, s) \<leftarrow> REG32_load P (UART_BASE + UART_STATUS) s;
          (ctrl, s) \<leftarrow> REG32_load P (UART_BASE + UART_CTRL) s;
          (baud, s) \<leftarrow> REG32_load P (UART_BASE + UART_BAUD_DIV) s;
          s \<leftarrow> shell_puts P (lit (ascii ''  STATUS   : '')) s;
          s \<leftarrow> shell_put_hex P status s;
          s \<leftarrow> shell_newline P s;
          s \<leftarrow> shell_puts P (lit (ascii ''    TX Full  : '')) s;
          s \<leftarrow> shell_puts P (lit (ascii (if status AND UART_ST_TX_FULL \<noteq> 0 then ''Yes'' else ''No''))) s;
          s \<leftarrow> shell_newline P s;
          s \<leftarrow> shell_puts P (lit (ascii ''    TX Empty : '')) s;
          s \<leftarrow> shell_puts P (lit (ascii (if status AND UART_ST_TX_EMPTY \<noteq> 0 then ''Yes'' else ''No''))) s;
          s \<leftarrow> shell_newline P s;
          s \<leftarrow> shell_puts P (lit (ascii ''    RX Full  : '')) s;
          s \<leftarrow> shell_puts P (lit (ascii (if status AND UART_ST_RX_FULL \<noteq> 0 then ''Yes'' else ''No''))) s;
          s \<leftarrow> shell_newline P s;
          s \<leftarrow> shell_puts P (lit (ascii ''    RX Empty : '')) s;
          s \<leftarrow> shell_puts P (lit (ascii (if status AND UART_ST_RX_EMPTY \<noteq> 0 then ''Yes'' else ''No''))) s;
          s \<leftarrow> shell_newline P s;
          s \<leftarrow> shell_puts P (lit (ascii ''    TX Busy  : '')) s;
          s \<leftarrow> shell_puts P (lit (ascii (if status AND UART_ST_TX_BUSY \<noteq> 0 then ''Yes'' else ''No''))) s;
          s \<leftarrow> shell_newline P s;
          s \<leftarrow> shell_puts P (lit (ascii ''  CTRL     : '')) s;
          s \<leftarrow> shell_put_hex P ctrl s;
          s \<leftarrow> shell_newline P s;
          s \<leftarrow> shell_puts P (lit (ascii ''    TX IE    : '')) s;
          s \<leftarrow> shell_puts P (lit (ascii (if ctrl AND UART_CTRL_TX_IE \<noteq> 0 then ''On'' else ''Off''))) s;
          s \<leftarrow> shell_newline P s;
          s \<leftarrow> shell_puts P (lit (ascii ''    RX IE    : '')) s;
          s \<leftarrow> shell_puts P (lit (ascii (if ctrl AND UART_CTRL_RX_IE \<noteq> 0 then ''On'' else ''Off''))) s;
          s \<leftarrow> shell_newline P s;
          s \<leftarrow> shell_puts P (lit (ascii ''    TX En    : '')) s;
          s \<leftarrow> shell_puts P (lit (ascii (if ctrl AND UART_CTRL_TX_EN \<noteq> 0 then ''On'' else ''Off''))) s;
          s \<leftarrow> shell_newline P s;
          s \<leftarrow> shell_puts P (lit (ascii ''    RX En    : '')) s;
          s \<leftarrow> shell_puts P (lit (ascii (if ctrl AND UART_CTRL_RX_EN \<noteq> 0 then ''On'' else ''Off''))) s;
          s \<leftarrow> shell_newline P s;
          s \<leftarrow> shell_puts P (lit (ascii ''  BAUD_DIV : '')) s;
          s \<leftarrow> shell_put_dec P baud s;
          s \<leftarrow> shell_puts P (lit (ascii '' (int='')) s;
          s \<leftarrow> shell_put_dec P (drop_bit 4 baud) s;
          s \<leftarrow> shell_puts P (lit (ascii '' frac='')) s;
          s \<leftarrow> shell_put_dec P (baud AND 0xF) s;
          s \<leftarrow> shell_puts P (lit (ascii ''/16)'')) s;
          shell_newline P s }"

definition cmd_info :: "'w platform \<Rightarrow> 'w shell \<Rightarrow> 'w shell option" where
  "cmd_info P s =
     do { s \<leftarrow> shell_puts P (lit (ascii ''=== VSync System Information ==='' @ CRLF)) s;
          s \<leftarrow> shell_puts P (lit (ascii ''  Architecture : RV32IM'' @ CRLF)) s;
          s \<leftarrow> shell_puts P (lit (ascii ''  Clock        : 25 MHz'' @ CRLF)) s;
          s \<leftarrow> shell_puts P (lit (ascii ''  RTOS         : Hardware Task Scheduler'' @ CRLF)) s;
          s \<leftarrow> shell_newline P s;
          s \<leftarrow> shell_puts P (lit (ascii ''  Memory Map:'' @ CRLF)) s;
          s \<leftarrow> shell_puts P (lit (ascii ''    IMEM       : 0x00000000 - 0x0000FFFF (64 KB)'' @ CRLF)) s;
          s \<leftarrow> shell_puts P (lit (ascii ''    DMEM       : 0x00010000 - 0x00013FFF (16 KB)'' @ CRLF)) s;
          s \<leftarrow> shell_puts P (lit (ascii ''    CLINT      : 0x02000000 - 0x0200FFFF'' @ CRLF)) s;
          s \<leftarrow> shell_puts P (lit (ascii ''    PLIC       : 0x0C000000 - 0x0C000FFF'' @ CRLF)) s;
          s \<leftarrow> shell_puts P (lit (ascii ''    UART       : 0x10000000 - 0x100000FF'' @ CRLF)) s;
          s \<leftarrow> shell_puts P (lit (ascii ''    GPIO       : 0x10000100 - 0x100001FF'' @ CRLF)) s;
          s \<leftarrow> shell_puts P (lit (ascii ''    RTOS       : 0x11000000 - 0x1100FFFF'' @ CRLF)) s;
          s \<leftarrow> shell_puts P (lit (ascii ''    POSIX      : 0x12000000 - 0x1200FFFF'' @ CRLF)) s;
          shell_puts P (lit (ascii ''    HyperRAM   : 0x20000000 - 0x2FFFFFFF (256 MB)'' @ CRLF)) s }"

text \<open>The \<open>do \<dots> while (hi1 != hi2)\<close> loop that reads the 64-bit time: the high and the low word.\<close>

partial_function (option) read_mtime :: "'w platform \<Rightarrow> 'w shell \<Rightarrow> (u32 \<times> u32 \<times> 'w shell) option" where
  "read_mtime P s =
     do { (hi1, s) \<leftarrow> REG32_load P (CLINT_BASE + CLINT_MTIME_HI) s;
          (lo, s) \<leftarrow> REG32_load P (CLINT_BASE + CLINT_MTIME_LO) s;
          (hi2, s) \<leftarrow> REG32_load P (CLINT_BASE + CLINT_MTIME_HI) s;
          if hi1 \<noteq> hi2 then read_mtime P s else Some (hi1, lo, s) }"

text \<open>The two digits of a time field: \<open>if (v < 10) putchar('0'); puts(dec(v))\<close>.\<close>

definition put_field :: "'w platform \<Rightarrow> u32 \<Rightarrow> 'w shell \<Rightarrow> 'w shell option" where
  "put_field P v s =
     do { s \<leftarrow> (if v < 10 then shell_putchar P 48 s else Some s);
          shell_put_dec P v s }"

definition cmd_uptime :: "'w platform \<Rightarrow> 'w shell \<Rightarrow> 'w shell option" where
  "cmd_uptime P s =
     do { (hi1, lo, s) \<leftarrow> read_mtime P s;
          let total_sec = fst (div64by32 hi1 lo SYS_CLK_HZ);
          let days = total_sec div 86400;
          let drem = total_sec mod 86400;
          let hours = drem div 3600;
          let drem = drem mod 3600;
          let mins = drem div 60;
          let secs = drem mod 60;
          s \<leftarrow> shell_puts P (lit (ascii ''Uptime: '')) s;
          s \<leftarrow> (if days > 0 then do { s \<leftarrow> shell_put_dec P days s; shell_puts P (lit (ascii ''d '')) s }
               else Some s);
          s \<leftarrow> put_field P hours s;
          s \<leftarrow> shell_putchar P 58 s;
          s \<leftarrow> put_field P mins s;
          s \<leftarrow> shell_putchar P 58 s;
          s \<leftarrow> put_field P secs s;
          s \<leftarrow> shell_newline P s;
          s \<leftarrow> shell_puts P (lit (ascii ''Ticks : '')) s;
          s \<leftarrow> shell_put_hex P hi1 s;
          s \<leftarrow> shell_putchar P 95 s;
          s \<leftarrow> shell_put_hex P lo s;
          shell_newline P s }"

section \<open>Specifications\<close>

definition help_text :: "byte list" where
  "help_text =
     ascii ''VSync Shell Commands:'' @ CRLF
      @ ascii ''  help                  Show this help'' @ CRLF
      @ ascii ''  peek <addr> [count]   Read memory (hex addr, max 16 words)'' @ CRLF
      @ ascii ''  poke <addr> <value>   Write memory (hex addr & value)'' @ CRLF
      @ ascii ''  load [addr]           Load hex words via UART (default: 0x0)'' @ CRLF
      @ ascii ''  go [addr]             Jump to address (default: 0x0)'' @ CRLF
      @ ascii ''  rtos                  Show RTOS scheduler state'' @ CRLF
      @ ascii ''  gpio                  Show all GPIO registers'' @ CRLF
      @ ascii ''  gpio read             Read GPIO input value'' @ CRLF
      @ ascii ''  gpio write <val>      Set GPIO output (hex)'' @ CRLF
      @ ascii ''  gpio dir <mask>       Set GPIO direction (hex, 1=out)'' @ CRLF
      @ ascii ''  uart                  Show UART status/control'' @ CRLF
      @ ascii ''  info                  System information'' @ CRLF
      @ ascii ''  uptime                Show uptime from CLINT mtime'' @ CRLF"

definition info_text :: "byte list" where
  "info_text =
     ascii ''=== VSync System Information ==='' @ CRLF
      @ ascii ''  Architecture : RV32IM'' @ CRLF
      @ ascii ''  Clock        : 25 MHz'' @ CRLF
      @ ascii ''  RTOS         : Hardware Task Scheduler'' @ CRLF @ CRLF
      @ ascii ''  Memory Map:'' @ CRLF
      @ ascii ''    IMEM       : 0x00000000 - 0x0000FFFF (64 KB)'' @ CRLF
      @ ascii ''    DMEM       : 0x00010000 - 0x00013FFF (16 KB)'' @ CRLF
      @ ascii ''    CLINT      : 0x02000000 - 0x0200FFFF'' @ CRLF
      @ ascii ''    PLIC       : 0x0C000000 - 0x0C000FFF'' @ CRLF
      @ ascii ''    UART       : 0x10000000 - 0x100000FF'' @ CRLF
      @ ascii ''    GPIO       : 0x10000100 - 0x100001FF'' @ CRLF
      @ ascii ''    RTOS       : 0x11000000 - 0x1100FFFF'' @ CRLF
      @ ascii ''    POSIX      : 0x12000000 - 0x1200FFFF'' @ CRLF
      @ ascii ''    HyperRAM   : 0x20000000 - 0x2FFFFFFF (256 MB)'' @ CRLF"

text \<open>The name the shell shows for a scheduler state.\<close>

definition fsm_name :: "u32 \<Rightarrow> byte list" where
  "fsm_name fsm = butlast (sched_fsm_name fsm)"

definition rtos_report :: "u32 \<Rightarrow> u32 \<Rightarrow> u32 \<Rightarrow> u32 \<Rightarrow> u32 \<Rightarrow> u32 \<Rightarrow> u32 \<Rightarrow> u32 \<Rightarrow> u32 \<Rightarrow> u32 \<Rightarrow> byte list" where
  "rtos_report en policy cur next active count tslice fsm irq trig =
     ascii ''  Scheduler Enable : ''
      @ ascii (if en \<noteq> 0 then ''ON'' else ''OFF'') @ CRLF
      @ ascii ''  Policy           : '' @ dec_text policy @ CRLF
      @ ascii ''  Current Task ID  : '' @ dec_text cur @ CRLF
      @ ascii ''  Next Task ID     : '' @ dec_text next @ CRLF
      @ ascii ''  Active Tasks Mask: '' @ hex0x active @ CRLF
      @ ascii ''  Task Count       : '' @ dec_text count @ ascii '' / ''
      @ dec_text RTOS_MAX_TASKS @ CRLF @ ascii ''  Time Slice       : ''
      @ dec_text tslice @ ascii '' cycles'' @ CRLF @ ascii ''  FSM State        : ''
      @ fsm_name fsm @ ascii '' ('' @ dec_text fsm @ ascii '')'' @ CRLF
      @ ascii ''  IRQ Status       : '' @ hex0x irq @ CRLF
      @ ascii ''  Sched Trigger    : '' @ hex0x trig @ CRLF"

definition rtos_does :: "obs list \<Rightarrow> bool" where
  "rtos_does os \<longleftrightarrow> (\<exists>en policy cur next active count tslice fsm irq trig.
     os = map Text (ascii ''=== RTOS Scheduler State ==='' @ CRLF)
       @ [Act (Load (RTOS_BASE + RTOS_SCHED_EN) en),
         Act (Load (RTOS_BASE + RTOS_SCHED_POLICY) policy),
         Act (Load (RTOS_BASE + RTOS_CURRENT_TASK) cur),
         Act (Load (RTOS_BASE + RTOS_NEXT_TASK) next),
         Act (Load (RTOS_BASE + RTOS_TASK_ACTIVE) active),
         Act (Load (RTOS_BASE + RTOS_TASK_COUNT) count),
         Act (Load (RTOS_BASE + RTOS_TIME_SLICE) tslice),
         Act (Load (RTOS_BASE + RTOS_FSM_STATE) fsm),
         Act (Load (RTOS_BASE + RTOS_IRQ_STATUS) irq),
         Act (Load (RTOS_BASE + RTOS_SCHED_TRIGGER) trig)]
       @ map Text (rtos_report en policy cur next active count tslice fsm irq trig))"

definition uart_report :: "u32 \<Rightarrow> u32 \<Rightarrow> u32 \<Rightarrow> byte list" where
  "uart_report status ctrl baud =
     ascii ''  STATUS   : '' @ hex0x status @ CRLF @ ascii ''    TX Full  : ''
      @ ascii (if status AND UART_ST_TX_FULL \<noteq> 0 then ''Yes'' else ''No'')
      @ CRLF @ ascii ''    TX Empty : ''
      @ ascii (if status AND UART_ST_TX_EMPTY \<noteq> 0 then ''Yes'' else ''No'')
      @ CRLF @ ascii ''    RX Full  : ''
      @ ascii (if status AND UART_ST_RX_FULL \<noteq> 0 then ''Yes'' else ''No'')
      @ CRLF @ ascii ''    RX Empty : ''
      @ ascii (if status AND UART_ST_RX_EMPTY \<noteq> 0 then ''Yes'' else ''No'')
      @ CRLF @ ascii ''    TX Busy  : ''
      @ ascii (if status AND UART_ST_TX_BUSY \<noteq> 0 then ''Yes'' else ''No'')
      @ CRLF @ ascii ''  CTRL     : '' @ hex0x ctrl @ CRLF @ ascii ''    TX IE    : ''
      @ ascii (if ctrl AND UART_CTRL_TX_IE \<noteq> 0 then ''On'' else ''Off'') @ CRLF
      @ ascii ''    RX IE    : ''
      @ ascii (if ctrl AND UART_CTRL_RX_IE \<noteq> 0 then ''On'' else ''Off'') @ CRLF
      @ ascii ''    TX En    : ''
      @ ascii (if ctrl AND UART_CTRL_TX_EN \<noteq> 0 then ''On'' else ''Off'') @ CRLF
      @ ascii ''    RX En    : ''
      @ ascii (if ctrl AND UART_CTRL_RX_EN \<noteq> 0 then ''On'' else ''Off'') @ CRLF
      @ ascii ''  BAUD_DIV : '' @ dec_text baud @ ascii '' (int=''
      @ dec_text (drop_bit 4 baud) @ ascii '' frac='' @ dec_text (baud AND 0xF)
      @ ascii ''/16)'' @ CRLF"

definition uart_does :: "obs list \<Rightarrow> bool" where
  "uart_does os \<longleftrightarrow> (\<exists>status ctrl baud.
     os = map Text (ascii ''=== UART Registers ==='' @ CRLF)
       @ [Act (Load (UART_BASE + UART_STATUS) status),
         Act (Load (UART_BASE + UART_CTRL) ctrl),
         Act (Load (UART_BASE + UART_BAUD_DIV) baud)]
       @ map Text (uart_report status ctrl baud))"

definition gpio_line :: "string \<Rightarrow> u32 \<Rightarrow> u32 \<Rightarrow> obs list" where
  "gpio_line label reg v =
     map Text (ascii label) @ [Act (Load (GPIO_BASE + reg) v)] @ map Text (hex0x v @ CRLF)"

definition gpio_report :: "u32 list \<Rightarrow> obs list" where
  "gpio_report vs =
     map Text (ascii ''=== GPIO Registers ==='' @ CRLF)
     @ gpio_line ''  OUT        : '' GPIO_OUT (vs ! 0)
     @ gpio_line ''  IN         : '' GPIO_IN (vs ! 1)
     @ gpio_line ''  DIR        : '' GPIO_DIR (vs ! 2)
     @ gpio_line ''  INT_EN     : '' GPIO_INT_EN (vs ! 3)
     @ gpio_line ''  INT_STATUS : '' GPIO_INT_STATUS (vs ! 4)
     @ gpio_line ''  INT_TYPE   : '' GPIO_INT_TYPE (vs ! 5)
     @ gpio_line ''  INT_POL    : '' GPIO_INT_POL (vs ! 6)"

definition gpio_set_does :: "u32 \<Rightarrow> string \<Rightarrow> string \<Rightarrow> byte list \<Rightarrow> obs list \<Rightarrow> bool" where
  "gpio_set_does reg label err w os \<longleftrightarrow>
     (case parse_hex_spec w of
        Parse_error \<Rightarrow> os = map Text (ascii err @ CRLF)
      | Parsed v \<Rightarrow> os = Act (Store (GPIO_BASE + reg) v) # map Text (ascii label @ hex0x v @ CRLF))"

definition gpio_does :: "byte list list \<Rightarrow> obs list \<Rightarrow> bool" where
  "gpio_does ws os \<longleftrightarrow>
     (if length ws \<ge> 2 \<and> ws ! 1 = ascii ''read'' then
        \<exists>v. os = Act (Load (GPIO_BASE + GPIO_IN) v) # map Text (ascii ''GPIO IN: '' @ hex0x v @ CRLF)
      else if length ws \<ge> 3 \<and> ws ! 1 = ascii ''write'' then
        gpio_set_does GPIO_OUT ''GPIO OUT <- '' ''Error: invalid value'' (ws ! 2) os
      else if length ws \<ge> 3 \<and> ws ! 1 = ascii ''dir'' then
        gpio_set_does GPIO_DIR ''GPIO DIR <- '' ''Error: invalid mask'' (ws ! 2) os
      else \<exists>vs. length vs = 7 \<and> os = gpio_report vs)"

text \<open>
  The uptime: the ticks are 64 bits, the seconds 32, as the code keeps the low word of the
  quotient only. A field below 10 gets a leading zero.
\<close>

definition time_field :: "nat \<Rightarrow> byte list" where
  "time_field n = (if n < 10 then [48] else []) @ dec_text (of_nat n)"

definition uptime_seconds :: "u32 \<Rightarrow> u32 \<Rightarrow> nat" where
  "uptime_seconds hi lo = (unat hi * 2 ^ 32 + unat lo) div 25000000 mod 2 ^ 32"

definition uptime_text :: "u32 \<Rightarrow> u32 \<Rightarrow> byte list" where
  "uptime_text hi lo =
     (let t = uptime_seconds hi lo
      in ascii ''Uptime: ''
         @ (if t div 86400 > 0 then dec_text (of_nat (t div 86400)) @ ascii ''d '' else [])
         @ time_field (t mod 86400 div 3600) @ [58] @ time_field (t mod 3600 div 60) @ [58]
         @ time_field (t mod 60) @ CRLF
         @ ascii ''Ticks : '' @ hex0x hi @ [95] @ hex0x lo @ CRLF)"

definition round_obs :: "u32 \<times> u32 \<times> u32 \<Rightarrow> obs list" where
  "round_obs r = (case r of (hi1, lo, hi2) \<Rightarrow>
     [Act (Load (CLINT_BASE + CLINT_MTIME_HI) hi1), Act (Load (CLINT_BASE + CLINT_MTIME_LO) lo),
      Act (Load (CLINT_BASE + CLINT_MTIME_HI) hi2)])"

definition uptime_does :: "obs list \<Rightarrow> bool" where
  "uptime_does os \<longleftrightarrow>
     (\<exists>rs hi lo. (\<forall>(hi1, l, hi2) \<in> set rs. hi1 \<noteq> hi2)
        \<and> os = concat (map round_obs rs) @ round_obs (hi, lo, hi) @ map Text (uptime_text hi lo))"

text \<open>
  \<open>settles P w\<close>: from \<open>w\<close> on, after finitely many rounds of the three reads, the two reads of the high
  word agree.
\<close>

definition time_round :: "'w platform \<Rightarrow> 'w \<Rightarrow> u32 \<times> u32 \<times> u32 \<times> 'w" where
  "time_round P w =
     (let (hi1, w) = load32 P (CLINT_BASE + CLINT_MTIME_HI) w;
          (lo, w) = load32 P (CLINT_BASE + CLINT_MTIME_LO) w;
          (hi2, w) = load32 P (CLINT_BASE + CLINT_MTIME_HI) w
      in (hi1, lo, hi2, w))"

inductive settles :: "'w platform \<Rightarrow> 'w \<Rightarrow> bool" for P where
  agree: "time_round P w = (hi, lo, hi, w') \<Longrightarrow> settles P w"
| again: "time_round P w = (hi1, lo, hi2, w') \<Longrightarrow> settles P w' \<Longrightarrow> settles P w"

text \<open>The registers that the commands load from.\<close>

definition device_regs :: "u32 list" where
  "device_regs = [UART_BASE + UART_STATUS, UART_BASE + UART_CTRL, UART_BASE + UART_BAUD_DIV,
     GPIO_BASE + GPIO_OUT, GPIO_BASE + GPIO_IN, GPIO_BASE + GPIO_DIR, GPIO_BASE + GPIO_INT_EN,
     GPIO_BASE + GPIO_INT_STATUS, GPIO_BASE + GPIO_INT_TYPE, GPIO_BASE + GPIO_INT_POL,
     CLINT_BASE + CLINT_MTIME_HI, CLINT_BASE + CLINT_MTIME_LO]"

definition rtos_regs :: "u32 list" where
  "rtos_regs = [RTOS_BASE + RTOS_SCHED_EN, RTOS_BASE + RTOS_SCHED_POLICY, RTOS_BASE + RTOS_CURRENT_TASK,
     RTOS_BASE + RTOS_NEXT_TASK, RTOS_BASE + RTOS_TASK_ACTIVE, RTOS_BASE + RTOS_TASK_COUNT,
     RTOS_BASE + RTOS_TIME_SLICE, RTOS_BASE + RTOS_FSM_STATE, RTOS_BASE + RTOS_IRQ_STATUS,
     RTOS_BASE + RTOS_SCHED_TRIGGER]"

lemma rtos_does_ok:
  assumes "\<And>os. rtos_does os \<Longrightarrow> accesses_ok h r os"
  shows "list_all r rtos_regs"
proof -
  have "rtos_does (map Text (ascii ''=== RTOS Scheduler State ==='' @ CRLF)
      @ map (\<lambda>a. Act (Load a 0)) rtos_regs @ map Text (rtos_report 0 0 0 0 0 0 0 0 0 0))"
    unfolding rtos_does_def rtos_regs_def list.map append_Cons append_Nil by blast
  from assms [OF this] have "accesses_ok h r (map (\<lambda>a. Act (Load a 0)) rtos_regs)" by (simp del: map_append)
  then show ?thesis by (simp add: list.pred_map comp_def)
qed

locale timed_terminal = terminal P good sent room harmless answers typed
  for P :: "'w platform"
    and good :: "u32 \<Rightarrow> 'w \<Rightarrow> bool"
    and sent :: "'w \<Rightarrow> byte list"
    and room :: "'w \<Rightarrow> bool"
    and harmless :: "u32 \<Rightarrow> bool"
    and answers :: "u32 \<Rightarrow> bool"
    and typed :: "'w \<Rightarrow> byte list \<Rightarrow> bool" +
  assumes time_settles: "good fd w \<Longrightarrow> settles P w"
    and device_answers: "list_all answers device_regs"
    and gpio_harmless: "harmless (GPIO_BASE + GPIO_OUT) \<and> harmless (GPIO_BASE + GPIO_DIR)"

section \<open>Correctness\<close>

lemma c_string_fsm_name: "c_string (sched_fsm_name fsm) = Some (fsm_name fsm)"
  by (simp add: sched_fsm_name_def fsm_name_def lit_def literal_simps)

lemma subcommand_eq:
  assumes "args_are s ws" and "CHR 0x00 \<notin> set t" and "2 \<le> n"
  shows "subcommand s n t = Some (n \<le> length ws \<and> ws ! 1 = ascii t)"
proof (cases "n \<le> length ws")
  case True
  then have "c_string (arg s 1) = Some (ws ! 1)" using assms by (simp add: args_are_def)
  moreover have "c_string (lit (ascii t)) = Some (ascii t)" using assms by (simp add: literal_simps)
  ultimately obtain r where "shell_strcmp (arg s 1) (lit (ascii t)) = Some r" "r = 0 \<longleftrightarrow> ws ! 1 = ascii t"
    using shell_strcmp_eq by blast
  with True assms show ?thesis by (simp add: subcommand_def args_are_argc)
next
  case False
  with assms show ?thesis by (simp add: subcommand_def args_are_argc)
qed

context terminal begin

theorem help_said:
  assumes "ready good s"
  shows "returns (so_far s (map Text help_text)) (cmd_help P s)"
  unfolding cmd_help_def
  by (rule said_refl [OF assms] text_steps | assumption | simp (no_asm) add: literal_simps; fail
    | erule said_eq, simp (no_asm) add: help_text_def)+

theorem info_said:
  assumes "ready good s"
  shows "returns (so_far s (map Text info_text)) (cmd_info P s)"
  unfolding cmd_info_def
  by (rule said_refl [OF assms] text_steps newline_step | assumption | simp (no_asm) add: literal_simps; fail
    | erule said_eq, simp (no_asm) add: info_text_def)+

text \<open>\<open>rtos\<close> returns when the registers of the RTOS can be read, and hangs when they cannot.\<close>

theorem rtos_said: 
  assumes "ready good s" and ans: "list_all answers rtos_regs"
  shows "returns (\<lambda>s'. \<exists>os. rtos_does os \<and> so_far s os s') (cmd_rtos P s)"
proof -
  have does: "\<exists>os. rtos_does os \<and> so_far s os s'"
    if "so_far s (map Text (ascii ''=== RTOS Scheduler State ==='' @ CRLF)
       @ [Act (Load (RTOS_BASE + RTOS_SCHED_EN) en),
         Act (Load (RTOS_BASE + RTOS_SCHED_POLICY) policy),
         Act (Load (RTOS_BASE + RTOS_CURRENT_TASK) cur),
         Act (Load (RTOS_BASE + RTOS_NEXT_TASK) nxt),
         Act (Load (RTOS_BASE + RTOS_TASK_ACTIVE) active),
         Act (Load (RTOS_BASE + RTOS_TASK_COUNT) count),
         Act (Load (RTOS_BASE + RTOS_TIME_SLICE) tslice),
         Act (Load (RTOS_BASE + RTOS_FSM_STATE) fsm),
         Act (Load (RTOS_BASE + RTOS_IRQ_STATUS) irq),
         Act (Load (RTOS_BASE + RTOS_SCHED_TRIGGER) trig)]
       @ map Text (rtos_report en policy cur nxt active count tslice fsm irq trig)) s'"
    for s' en policy cur nxt active count tslice fsm irq trig
    using that unfolding rtos_does_def by blast
  have ans': "answers (RTOS_BASE + RTOS_SCHED_EN)" "answers (RTOS_BASE + RTOS_SCHED_POLICY)"
    "answers (RTOS_BASE + RTOS_CURRENT_TASK)" "answers (RTOS_BASE + RTOS_NEXT_TASK)"
    "answers (RTOS_BASE + RTOS_TASK_ACTIVE)" "answers (RTOS_BASE + RTOS_TASK_COUNT)"
    "answers (RTOS_BASE + RTOS_TIME_SLICE)" "answers (RTOS_BASE + RTOS_FSM_STATE)"
    "answers (RTOS_BASE + RTOS_IRQ_STATUS)" "answers (RTOS_BASE + RTOS_SCHED_TRIGGER)"
    using ans by (simp_all only: rtos_regs_def list.pred_inject simp_thms)
  show ?thesis
    unfolding cmd_rtos_def
    by (rule said_refl [OF assms(1)] ans' steps text_steps newline_end c_string_fsm_name | assumption | simp (no_asm) add: literal_simps; fail
      | rule does, erule said_eq, simp (no_asm) add: rtos_report_def hex0x_def)+
qed

theorem rtos_hangs:
  assumes "ready good s" and never: "never_loads (RTOS_BASE + RTOS_SCHED_EN)"
  shows "cmd_rtos P s = None"
  unfolding cmd_rtos_def
  by (rule puts_hang [OF said_refl [OF assms(1)]], simp (no_asm) add: literal_simps)
    (erule access_hangs(1) [OF _ never])

end

context timed_terminal begin

lemma device_answersI: "a \<in> set device_regs \<Longrightarrow> answers a"
  using device_answers by (simp add: list_all_iff)

lemma device_reg_answers:
  "answers (UART_BASE + UART_STATUS)" "answers (UART_BASE + UART_CTRL)" "answers (UART_BASE + UART_BAUD_DIV)"
  "answers (GPIO_BASE + GPIO_OUT)" "answers (GPIO_BASE + GPIO_IN)" "answers (GPIO_BASE + GPIO_DIR)"
  "answers (GPIO_BASE + GPIO_INT_EN)" "answers (GPIO_BASE + GPIO_INT_STATUS)"
  "answers (GPIO_BASE + GPIO_INT_TYPE)" "answers (GPIO_BASE + GPIO_INT_POL)"
  "answers (CLINT_BASE + CLINT_MTIME_HI)" "answers (CLINT_BASE + CLINT_MTIME_LO)"
  by (rule device_answersI, simp only: device_regs_def list.set insert_iff simp_thms)+

theorem uart_said: 
  assumes "ready good s"
  shows "returns (\<lambda>s'. \<exists>os. uart_does os \<and> so_far s os s') (cmd_uart P s)"
proof -
  have does: "\<exists>os. uart_does os \<and> so_far s os s'"
    if "so_far s (map Text (ascii ''=== UART Registers ==='' @ CRLF)
       @ [Act (Load (UART_BASE + UART_STATUS) status), Act (Load (UART_BASE + UART_CTRL) ctrl),
         Act (Load (UART_BASE + UART_BAUD_DIV) baud)]
       @ map Text (uart_report status ctrl baud)) s'" for s' status ctrl baud
    using that unfolding uart_does_def by blast
  show ?thesis
    unfolding cmd_uart_def
    by (rule said_refl [OF assms] device_reg_answers steps text_steps newline_end | assumption | simp (no_asm) add: literal_simps; fail
      | rule does, erule said_eq, simp (no_asm) add: uart_report_def hex0x_def split del: if_split)+
qed

theorem gpio_show_said:
  assumes "ready good s"
  shows "returns (\<lambda>s'. \<exists>vs. length vs = 7 \<and> so_far s (gpio_report vs) s') (gpio_show P s)"
proof -
  have does: "\<exists>vs. length vs = 7 \<and> so_far s (gpio_report vs) s'"
    if "so_far s (gpio_report [a, b, c, d, e, f, g]) s'" for s' a b c d e f g
    using that by (intro exI [of _ "[a, b, c, d, e, f, g]"]) simp
  show ?thesis
    unfolding gpio_show_def
    by (rule said_refl [OF assms] device_reg_answers steps text_steps newline_end | assumption | simp (no_asm) add: literal_simps; fail
      | rule does, erule said_eq, simp (no_asm) add: gpio_report_def gpio_line_def hex0x_def)+
qed

lemma gpio_set_said:
  assumes s: "ready good s" and "hex_to_uint32 (arg s 2) = Some (parse_hex_spec w)"
    and "harmless (GPIO_BASE + reg)" and "CHR 0x00 \<notin> set label" and "CHR 0x00 \<notin> set err"
  shows "returns (\<lambda>s'. \<exists>os. gpio_set_does reg label err w os \<and> so_far s os s') (gpio_set P reg label err s)"
proof (cases "parse_hex_spec w")
  case Parse_error
  with assms show ?thesis
    by (subst gpio_set_def) (simp, rule puts_only [OF s], auto simp: literal_simps gpio_set_does_def)
next
  case (Parsed v)
  have does: "\<exists>os. gpio_set_does reg label err w os \<and> so_far s os s'"
    if "so_far s (Act (Store (GPIO_BASE + reg) v) # map Text (ascii label @ hex0x v @ CRLF)) s'" for s'
    using that Parsed by (auto simp: gpio_set_does_def)
  show ?thesis
    unfolding gpio_set_def assms(2) Option.bind.simps Parsed parse_result.case
    by (rule store_step [OF said_refl [OF s] assms(3)] steps text_steps newline_end | assumption
      | simp (no_asm) add: literal_simps assms(4); fail
      | rule does, erule said_eq, simp (no_asm) add: hex0x_def)+
qed

theorem gpio_said:
  assumes s: "ready good s" and ws: "args_are s ws"
    and safe: "harmless (GPIO_BASE + GPIO_OUT)" "harmless (GPIO_BASE + GPIO_DIR)"
  shows "returns (\<lambda>s'. \<exists>os. gpio_does ws os \<and> so_far s os s') (cmd_gpio P s)"
proof -
  note sub = subcommand_eq [OF ws]
  consider (rd) "length ws \<ge> 2 \<and> ws ! 1 = ascii ''read''"
    | (wr) "\<not> (length ws \<ge> 2 \<and> ws ! 1 = ascii ''read'')" "length ws \<ge> 3 \<and> ws ! 1 = ascii ''write''"
    | (dir) "\<not> (length ws \<ge> 2 \<and> ws ! 1 = ascii ''read'')" "\<not> (length ws \<ge> 3 \<and> ws ! 1 = ascii ''write'')"
        "length ws \<ge> 3 \<and> ws ! 1 = ascii ''dir''"
    | (other) "\<not> (length ws \<ge> 2 \<and> ws ! 1 = ascii ''read'')" "\<not> (length ws \<ge> 3 \<and> ws ! 1 = ascii ''write'')"
        "\<not> (length ws \<ge> 3 \<and> ws ! 1 = ascii ''dir'')"
    by blast
  then show ?thesis
  proof cases
    case rd
    have does: "\<exists>os. gpio_does ws os \<and> so_far s os s'"
      if "so_far s (Act (Load (GPIO_BASE + GPIO_IN) v) # map Text (ascii ''GPIO IN: '' @ hex0x v @ CRLF)) s'" for s' v
      using that rd by (auto simp: gpio_does_def)
    have r: "subcommand s 2 ''read'' = Some True" using rd by (simp add: sub)
    show ?thesis
      unfolding cmd_gpio_def r Option.bind.simps if_True
      by (rule said_refl [OF s] device_reg_answers steps text_steps newline_end | assumption | simp (no_asm) add: literal_simps; fail
        | rule does, erule said_eq, simp (no_asm) add: hex0x_def)+
  next
    case wr
    then have "gpio_does ws = gpio_set_does GPIO_OUT ''GPIO OUT <- '' ''Error: invalid value'' (ws ! 2)"
      and "cmd_gpio P s = gpio_set P GPIO_OUT ''GPIO OUT <- '' ''Error: invalid value'' s"
      by (auto simp: gpio_does_def cmd_gpio_def sub)
    with wr show ?thesis
      by (simp only:) (rule gpio_set_said [OF s args_are_hex [OF ws] safe(1)]; simp)
  next
    case dir
    then have "gpio_does ws = gpio_set_does GPIO_DIR ''GPIO DIR <- '' ''Error: invalid mask'' (ws ! 2)"
      and "cmd_gpio P s = gpio_set P GPIO_DIR ''GPIO DIR <- '' ''Error: invalid mask'' s"
      by (auto simp: gpio_does_def cmd_gpio_def sub)
    with dir show ?thesis
      by (simp only:) (rule gpio_set_said [OF s args_are_hex [OF ws] safe(2)]; simp)
  next
    case other
    then have does: "gpio_does ws (gpio_report vs)" if "length vs = 7" for vs
      using that by (auto simp: gpio_does_def)
    have "cmd_gpio P s = gpio_show P s"
      using other by (auto simp: cmd_gpio_def sub)
    then show ?thesis
      using gpio_show_said [OF s] does by (auto elim!: returns_mono)
  qed
qed

end

section \<open>The uptime\<close>

lemma time_words:
  assumes "n < 2 ^ 32" and "k < 2 ^ 32"
  shows "(of_nat n :: u32) div of_nat k = of_nat (n div k)"
    and "(of_nat n :: u32) mod of_nat k = of_nat (n mod k)"
    and "(of_nat n :: u32) < of_nat k \<longleftrightarrow> n < k"
proof -
  have u: "unat (of_nat m :: u32) = m" if "m < 2 ^ 32" for m
    using that by (simp add: unat_of_nat_small)
  have "n div k < 2 ^ 32" and "n mod k < 2 ^ 32"
    using assms(1) by (meson div_le_dividend mod_less_eq_dividend le_less_trans)+
  with assms show "(of_nat n :: u32) div of_nat k = of_nat (n div k)"
    and "(of_nat n :: u32) mod of_nat k = of_nat (n mod k)"
    and "(of_nat n :: u32) < of_nat k \<longleftrightarrow> n < k"
    by (simp_all only: word_unat_eq_iff unat_div unat_mod word_less_nat_alt u)
qed

lemma uptime_seconds_bound: "uptime_seconds hi lo < 2 ^ 32"
  by (simp add: uptime_seconds_def)

lemma uptime_total:
  "fst (div64by32 hi lo SYS_CLK_HZ) = of_nat (uptime_seconds hi lo)"
proof -
  have k: "unat SYS_CLK_HZ = 25000000" by (simp add: SYS_CLK_HZ_def)
  have "(of_nat n :: u32) = of_nat (n mod 2 ^ 32)" for n
    by (simp add: word_unat_eq_iff unat_of_nat)
  then show ?thesis
    by (subst div64by32_eq) (simp_all add: k uptime_seconds_def)
qed

context timed_terminal begin

lemma read_mtime_round:
  assumes s: "ready good s" and r: "time_round P (hw s) = (hi1, lo, hi2, w')"
  shows "\<exists>s'. read_mtime P s = (if hi1 \<noteq> hi2 then read_mtime P s' else Some (hi1, lo, s'))
    \<and> hw s' = w' \<and> so_far s (round_obs (hi1, lo, hi2)) s'"
proof -
  let ?hi = "CLINT_BASE + CLINT_MTIME_HI" and ?lo = "CLINT_BASE + CLINT_MTIME_LO"
  define s1 where "s1 = after_load P ?hi s"
  define s2 where "s2 = after_load P ?lo s1"
  define s3 where "s3 = after_load P ?hi s2"
  have s1: "so_far s [Act (Load ?hi (fst (load32 P ?hi (hw s))))] s1"
    unfolding s1_def by (rule after_load_said [OF s])
  have s2: "so_far s1 [Act (Load ?lo (fst (load32 P ?lo (hw s1))))] s2"
    unfolding s2_def by (rule after_load_said [OF said_ready [OF s1]])
  have s3: "so_far s2 [Act (Load ?hi (fst (load32 P ?hi (hw s2))))] s3"
    unfolding s3_def by (rule after_load_said [OF said_ready [OF s2]])
  have loads: "REG32_load P ?hi s = Some (fst (load32 P ?hi (hw s)), s1)"
    "REG32_load P ?lo s1 = Some (fst (load32 P ?lo (hw s1)), s2)"
    "REG32_load P ?hi s2 = Some (fst (load32 P ?hi (hw s2)), s3)"
    using ready_load [OF s device_reg_answers(11)] ready_load [OF said_ready [OF s1] device_reg_answers(12)]
      ready_load [OF said_ready [OF s2] device_reg_answers(11)]
    by (simp_all add: s1_def s2_def s3_def REG32_load_ends)
  have vals: "hi1 = fst (load32 P ?hi (hw s))" "lo = fst (load32 P ?lo (hw s1))"
    "hi2 = fst (load32 P ?hi (hw s2))" "w' = hw s3"
    using r by (simp_all add: s1_def s2_def s3_def time_round_def case_prod_beta)
  have "read_mtime P s = (if hi1 \<noteq> hi2 then read_mtime P s3 else Some (hi1, lo, s3))"
    by (subst read_mtime.simps) (simp add: loads vals)
  moreover have "so_far s (round_obs (hi1, lo, hi2)) s3"
    using said_trans [OF said_trans [OF s1 s2] s3] by (simp add: round_obs_def vals)
  ultimately show ?thesis using vals by blast
qed

lemma read_mtime_said:
  assumes "settles P w" and "hw s = w" and "ready good s"
  shows "returns (\<lambda>(hi, lo, s'). \<exists>rs. (\<forall>(hi1, l, hi2) \<in> set rs. hi1 \<noteq> hi2)
    \<and> so_far s (concat (map round_obs rs) @ round_obs (hi, lo, hi)) s') (read_mtime P s)"
  using assms
proof (induction arbitrary: s rule: settles.induct)
  case (agree w hi lo w')
  then obtain s' where "read_mtime P s = Some (hi, lo, s')" "so_far s (concat (map round_obs []) @ round_obs (hi, lo, hi)) s'"
    using read_mtime_round [of s hi lo hi w'] by auto
  then show ?case by (simp only: returns_Some prod.case) (rule exI [of _ "[]"], simp)
next
  case (again w hi1 lo hi2 w')
  obtain s1 where s1: "read_mtime P s = (if hi1 \<noteq> hi2 then read_mtime P s1 else Some (hi1, lo, s1))"
    "hw s1 = w'" "so_far s (round_obs (hi1, lo, hi2)) s1"
    using read_mtime_round [of s hi1 lo hi2 w'] again by auto
  show ?case
  proof (cases "hi1 = hi2")
    case True
    with s1 have "read_mtime P s = Some (hi2, lo, s1)"
      "so_far s (concat (map round_obs []) @ round_obs (hi2, lo, hi2)) s1" by simp_all
    with True show ?thesis by (simp only: returns_Some prod.case) (rule exI [of _ "[]"], simp)
  next
    case False
    have step: "\<exists>rs. (\<forall>(hi1, l, hi2) \<in> set rs. hi1 \<noteq> hi2)
        \<and> so_far s (concat (map round_obs rs) @ round_obs (hi, l, hi)) s'"
      if "\<forall>(hi1, l, hi2) \<in> set rs. hi1 \<noteq> hi2"
        and "so_far s1 (concat (map round_obs rs) @ round_obs (hi, l, hi)) s'" for hi l s' rs
      using said_trans [OF s1(3) that(2)] that(1) False
      by (intro exI [of _ "(hi1, lo, hi2) # rs"]) simp
    show ?thesis
      using again.IH [OF s1(2) said_ready [OF s1(3)]] False step s1(1)
      by (auto elim!: returns_mono)
  qed
qed

lemma put_field_step:
  assumes s: "so_far s0 os s" and n: "n < 2 ^ 32"
    and f: "\<And>s'. so_far s0 (os @ map Text (time_field n)) s' \<Longrightarrow> returns Q (f s')"
  shows "returns Q (Option.bind (put_field P (of_nat n) s) f)"
proof (cases "n < 10")
  case True
  have "returns Q (Option.bind (shell_putchar P 48 s) (\<lambda>s. Option.bind (shell_put_dec P (of_nat n) s) f))"
    by (rule putchar_step [OF s], rule put_dec_step, assumption, rule f, erule said_eq)
      (simp add: time_field_def True)
  with True time_words(3) [OF n, of 10] show ?thesis by (simp add: put_field_def)
next
  case False
  have "returns Q (Option.bind (shell_put_dec P (of_nat n) s) f)"
    by (rule put_dec_step [OF s], rule f, erule said_eq) (simp add: time_field_def False)
  with False time_words(3) [OF n, of 10] show ?thesis by (simp add: put_field_def)
qed

theorem uptime_said:
  assumes s: "ready good s"
  shows "returns (\<lambda>s'. \<exists>os. uptime_does os \<and> so_far s os s') (cmd_uptime P s)"
proof -
  have "settles P (hw s)" using s time_settles [of "uart_fd s" "hw s"] by (simp add: ready_def)
  then obtain hi lo s1 rs where rd: "read_mtime P s = Some (hi, lo, s1)"
    and rs: "\<forall>(hi1, l, hi2) \<in> set rs. hi1 \<noteq> hi2"
    and s1: "so_far s (concat (map round_obs rs) @ round_obs (hi, lo, hi)) s1"
    using read_mtime_said [OF _ refl s] by (auto elim!: returnsE)
  let ?os = "concat (map round_obs rs) @ round_obs (hi, lo, hi)"
  define t where "t = uptime_seconds hi lo"
  have t: "t < 2 ^ 32" unfolding t_def by (rule uptime_seconds_bound)
  have small: "t mod k < 2 ^ 32" "t mod k div l < 2 ^ 32" for k l
    using t by (meson div_le_dividend le_less_trans mod_less_eq_dividend)+
  have tm: "(of_nat t :: u32) div 86400 = of_nat (t div 86400)"
    "(of_nat t :: u32) mod 86400 = of_nat (t mod 86400)"
    "(of_nat (t mod 86400) :: u32) div 3600 = of_nat (t mod 86400 div 3600)"
    "(of_nat (t mod 86400) :: u32) mod 3600 = of_nat (t mod 3600)"
    "(of_nat (t mod 3600) :: u32) div 60 = of_nat (t mod 3600 div 60)"
    "(of_nat (t mod 3600) :: u32) mod 60 = of_nat (t mod 60)"
    using time_words(1,2) [OF t, of 86400] time_words(1,2) [OF small(1) [of 86400], of 3600]
      time_words(1,2) [OF small(1) [of 3600], of 60]
    by (simp_all add: mod_mod_cancel)
  note fields = uptime_total [of hi lo, folded t_def]
  have days: "0 < (of_nat (t div 86400) :: u32) \<longleftrightarrow> 0 < t div 86400"
  proof -
    have "t div 86400 < 2 ^ 32" by (rule le_less_trans [OF div_le_dividend t])
    then have "unat (of_nat (t div 86400) :: u32) = t div 86400"
      by (intro unat_of_nat_small) simp
    then show ?thesis by (simp only: word_less_nat_alt unat_0)
  qed
  have does: "\<exists>os. uptime_does os \<and> so_far s os s'"
    if "so_far s (?os @ map Text (uptime_text hi lo)) s'" for s'
  proof -
    have "uptime_does (?os @ map Text (uptime_text hi lo))"
      unfolding uptime_does_def append_assoc
      by (rule exI [of _ rs], rule exI [of _ hi], rule exI [of _ lo], rule conjI [OF rs refl])
    with that show ?thesis by blast
  qed
  show ?thesis
    unfolding cmd_uptime_def rd Option.bind.simps prod.case Let_def fields tm days
    apply (rule puts_step [OF s1], simp (no_asm) add: literal_simps)
    apply (cases "0 < t div 86400"; simp only: if_True if_False Option.bind.simps bind_assoc)
     apply (rule steps text_steps newline_end put_field_step | assumption | simp (no_asm) add: literal_simps; fail
        | rule small | rule does, erule said_eq, simp add: hex0x_def uptime_text_def t_def [symmetric])+
    done
qed

end

end
