(* ===== verification/Shell_Main.thy ===== *)
theory Shell_Main
  imports Device_Commands
begin

text \<open>
  The command table, the dispatcher and the main program of sw/examples/shell.c, with the
  specification of a command line and of a session, and the proofs that the program meets them
  on every terminal.
\<close>

section \<open>The code\<close>

type_synonym 'w cmd_handler_t = "'w platform \<Rightarrow> 'w shell \<Rightarrow> (outcome \<times> 'w shell) option"

record 'w cmd_entry_t =
  entry_name :: "byte list"
  entry_handler :: "'w cmd_handler_t"
  entry_help :: "byte list"

text \<open>The handlers other than \<open>cmd_go\<close> always come back to the shell.\<close>

definition and_back :: "('w platform \<Rightarrow> 'w shell \<Rightarrow> 'w shell option) \<Rightarrow> 'w cmd_handler_t" where
  "and_back h P s = do { s \<leftarrow> h P s; Some (Back, s) }"

definition entry :: "string \<Rightarrow> 'w cmd_handler_t \<Rightarrow> string \<Rightarrow> 'w cmd_entry_t" where
  "entry n h t = \<lparr>entry_name = lit (ascii n), entry_handler = h, entry_help = lit (ascii t)\<rparr>"

definition cmd_table :: "'w cmd_entry_t list" where
  "cmd_table =
     [entry ''help'' (and_back cmd_help) ''Show command help'',
      entry ''peek'' (and_back cmd_peek) ''Read memory words'',
      entry ''poke'' (and_back cmd_poke) ''Write memory word'',
      entry ''load'' (and_back cmd_load) ''Load hex words via UART'',
      entry ''go'' cmd_go ''Jump to address and execute'',
      entry ''rtos'' (and_back cmd_rtos) ''Show RTOS scheduler state'',
      entry ''gpio'' (and_back cmd_gpio) ''GPIO register control'',
      entry ''uart'' (and_back cmd_uart) ''Show UART status'',
      entry ''info'' (and_back cmd_info) ''System information'',
      entry ''uptime'' (and_back cmd_uptime) ''Show system uptime'']"

fun dispatch_loop :: "'w cmd_entry_t list \<Rightarrow> 'w cmd_handler_t" where
  "dispatch_loop [] P s =
     do { s \<leftarrow> shell_puts P (lit (ascii ''Unknown command: '')) s;
          s \<leftarrow> shell_puts P (arg s 0) s;
          s \<leftarrow> shell_puts P
            (lit (CRLF @ ascii ''Type '' @ [39] @ ascii ''help'' @ [39] @ ascii '' for command list.'' @ CRLF)) s;
          Some (Back, s) }"
| "dispatch_loop (e # es) P s =
     do { r \<leftarrow> shell_strcmp (arg s 0) (entry_name e);
          if r = 0 then entry_handler e P s else dispatch_loop es P s }"

definition dispatch_command :: "'w cmd_handler_t" where
  "dispatch_command P s =
     do { (buf, n, av) \<leftarrow> parse_args (cmd_buf s) (argv s);
          let s = s\<lparr>cmd_buf := buf, argc := n, argv := av\<rparr>;
          if argc s = 0 then Some (Back, s) else dispatch_loop cmd_table P s }"

definition PROMPT :: "byte list" where
  "PROMPT = ascii ''vsync> ''"

text \<open>The body of the main loop, and the loop.\<close>

definition shell_round :: "'w cmd_handler_t" where
  "shell_round P s =
     do { s \<leftarrow> shell_puts P (lit PROMPT) s;
          (len, buf, s) \<leftarrow> shell_readline P (cmd_buf s) CMD_BUF_SIZE s;
          let s = s\<lparr>cmd_buf := buf\<rparr>;
          if len < 0 then Some (Back, s)
          else if len = 0 then Some (Back, s)
          else dispatch_command P s }"

partial_function (option) shell_loop :: "'w platform \<Rightarrow> 'w shell \<Rightarrow> (u32 \<times> 'w shell) option" where
  "shell_loop P s =
     do { (out, s) \<leftarrow> shell_round P s;
          case out of Back \<Rightarrow> shell_loop P s | Left_for a \<Rightarrow> Some (a, s) }"

definition print_banner :: "'w platform \<Rightarrow> 'w shell \<Rightarrow> 'w shell option" where
  "print_banner P s =
     do { s \<leftarrow> shell_puts P (lit CRLF) s;
          s \<leftarrow> shell_puts P (lit (ascii ''========================================'' @ CRLF)) s;
          s \<leftarrow> shell_puts P (lit (ascii ''  VSync Monitor Shell v1.0'' @ CRLF)) s;
          s \<leftarrow> shell_puts P (lit (ascii ''  RISC-V RV32IM Hardware RTOS Processor'' @ CRLF)) s;
          s \<leftarrow> shell_puts P (lit (ascii ''  UART: 115200 8N1'' @ CRLF)) s;
          s \<leftarrow> shell_puts P (lit (ascii ''========================================'' @ CRLF)) s;
          s \<leftarrow> shell_puts P
            (lit (ascii ''Type '' @ [39] @ ascii ''help'' @ [39] @ ascii '' for command list.'' @ CRLF)) s;
          shell_newline P s }"

text \<open>
  \<open>main\<close>: it returns \<open>-1\<close> when the UART cannot be opened, and otherwise ends only by a jump.
\<close>

datatype ending = Returned int | Jumped u32

definition shell_main :: "'w platform \<Rightarrow> 'w shell \<Rightarrow> (ending \<times> 'w shell) option" where
  "shell_main P s =
     do { (fd, s) \<leftarrow> posix_open P FD_TYPE_UART 0 s;
          let s = s\<lparr>uart_fd := fd\<rparr>;
          if sint (uart_fd s) < 0 then Some (Returned (-1), s)
          else do {
            s \<leftarrow> print_banner P s;
            (a, s) \<leftarrow> shell_loop P s;
            Some (Jumped a, s) } }"

section \<open>Specification\<close>

definition unknown_text :: "byte list \<Rightarrow> byte list" where
  "unknown_text w = ascii ''Unknown command: '' @ w @ CRLF @ ascii ''Type '' @ [39] @ ascii ''help''
     @ [39] @ ascii '' for command list.'' @ CRLF"

text \<open>
  \<open>command_does ws ks os out rest\<close>: the command line with the words \<open>ws\<close> does \<open>os\<close> and ends with \<open>out\<close>
  when the keys \<open>ks\<close> are typed ahead, and leaves the keys \<open>rest\<close>.
\<close>

definition command_does ::
  "byte list list \<Rightarrow> byte list \<Rightarrow> obs list \<Rightarrow> outcome \<Rightarrow> byte list \<Rightarrow> bool" where
  "command_does ws ks os out rest \<longleftrightarrow>
     (if ws = [] then os = [] \<and> out = Back \<and> rest = ks
      else if ws ! 0 = ascii ''load'' then load_does ws ks os rest \<and> out = Back
      else rest = ks \<and>
        (if ws ! 0 = ascii ''go'' then go_does ws os out
         else out = Back \<and>
           (if ws ! 0 = ascii ''help'' then os = map Text help_text
            else if ws ! 0 = ascii ''peek'' then peek_does ws os
            else if ws ! 0 = ascii ''poke'' then poke_does ws os
            else if ws ! 0 = ascii ''rtos'' then rtos_does os
            else if ws ! 0 = ascii ''gpio'' then gpio_does ws os
            else if ws ! 0 = ascii ''uart'' then uart_does os
            else if ws ! 0 = ascii ''info'' then os = map Text info_text
            else if ws ! 0 = ascii ''uptime'' then uptime_does os
            else os = map Text (unknown_text (ws ! 0)))))"

text \<open>
  The keys typed ahead end the command, and the command stores nowhere but where it is harmless and
  loads only what is answered.
\<close>

definition command_ends :: "byte list list \<Rightarrow> byte list \<Rightarrow> bool" where
  "command_ends ws ks \<longleftrightarrow> ws \<noteq> [] \<and> ws ! 0 = ascii ''load'' \<longrightarrow>
     (case addr_of ws of Parse_error \<Rightarrow> True | Parsed a \<Rightarrow> load_keys (a AND NOT 3) 0 ks \<noteq> None)"

definition command_safe :: "(u32 \<Rightarrow> bool) \<Rightarrow> (u32 \<Rightarrow> bool) \<Rightarrow> byte list list \<Rightarrow> byte list \<Rightarrow> bool" where
  "command_safe h r ws ks \<longleftrightarrow>
     (\<forall>os out rest. command_does ws ks os out rest \<longrightarrow> accesses_ok h r os)"

text \<open>The words of a line that \<open>argv\<close> has room for.\<close>

definition args_of :: "byte list \<Rightarrow> byte list list" where
  "args_of line = take (Suc MAX_ARGS) (words_of line)"

text \<open>The sizes of the buffers of the command line.\<close>

definition fit :: "'w shell \<Rightarrow> bool" where
  "fit s \<longleftrightarrow> length (cmd_buf s) = 80 \<and> length (line_buf s) = 80 \<and> length (argv s) = Suc MAX_ARGS"

section \<open>Correctness of a command\<close>

lemma peek_obs_keys [simp]: "keys (peek_obs a vs) = []"
  by (induction vs arbitrary: a) (simp_all del: map_append)

lemma round_obs_keys [simp]: "keys (concat (map round_obs rs)) = []" "keys (round_obs r) = []"
  by (induction rs) (auto simp: round_obs_def split: prod.splits)

lemma load_does_keys: "load_does ws ks os rest \<Longrightarrow> ks = keys os @ rest"
  by (auto simp: load_does_def dest: load_keys_keys simp del: map_append
      split: parse_result.splits option.splits)

text \<open>A command takes the keys that \<open>load\<close> reads, and no others.\<close>

lemma command_does_keys:
  assumes "command_does ws ks os out rest"
  shows "ks = keys os @ rest"
proof -
  have "peek_does ws os \<Longrightarrow> keys os = []" "poke_does ws os \<Longrightarrow> keys os = []"
    "rtos_does os \<Longrightarrow> keys os = []" "uart_does os \<Longrightarrow> keys os = []" "uptime_does os \<Longrightarrow> keys os = []"
    "go_does ws os out \<Longrightarrow> keys os = []" "gpio_does ws os \<Longrightarrow> keys os = []"
    by (auto simp: peek_does_def poke_does_def rtos_does_def uart_does_def uptime_does_def go_does_def
        gpio_does_def gpio_set_does_def gpio_report_def gpio_line_def simp del: map_append
        split: if_split_asm parse_result.split_asm option.split_asm)
  then show ?thesis
    using assms load_does_keys by (auto simp: command_does_def simp del: map_append split: if_split_asm)
qed

lemma dispatch_entry:
  assumes "args_are s ws" and "ws \<noteq> []" and "CHR 0x00 \<notin> set n"
  shows "dispatch_loop (entry n h t # es) P s
    = (if ws ! 0 = ascii n then h P s else dispatch_loop es P s)"
proof -
  have "c_string (arg s 0) = Some (ws ! 0)" using assms by (simp add: args_are_def)
  moreover have "c_string (lit (ascii n)) = Some (ascii n)" using assms by (simp add: literal_simps)
  ultimately obtain r where "shell_strcmp (arg s 0) (lit (ascii n)) = Some r" "r = 0 \<longleftrightarrow> ws ! 0 = ascii n"
    using shell_strcmp_eq by blast
  then show ?thesis by (simp add: entry_def)
qed

lemma kept_fit: "kept s s' \<Longrightarrow> fit s \<Longrightarrow> fit s'"
  by (simp add: kept_def fit_def)

lemma ascii_eq_iff: "ascii x = ascii y \<longleftrightarrow> x = y"
proof (induction x arbitrary: y)
  case (Cons c x)
  then show ?case by (cases y) (auto simp: ascii_def literal_simps)
qed (auto simp: ascii_def)

context timed_terminal begin

abbreviation goes :: "'w shell \<Rightarrow> obs list \<Rightarrow> 'w shell \<Rightarrow> bool" where
  "goes \<equiv> reached good sent typed"

definition command_result :: "byte list list \<Rightarrow> byte list \<Rightarrow> 'w shell \<Rightarrow> outcome \<times> 'w shell \<Rightarrow> bool" where
  "command_result ws ks s r \<longleftrightarrow> (\<exists>os rest. command_does ws ks os (fst r) rest \<and> goes s os (snd r) \<and> fit (snd r))"

lemma and_back_result:
  assumes "returns (\<lambda>s'. \<exists>os. D os \<and> so_far s os s') (h P s)" and "fit s"
    and "\<And>os. D os \<Longrightarrow> command_does ws ks os Back ks"
  shows "returns (command_result ws ks s) (and_back h P s)"
  unfolding and_back_def
  by (rule returns_bindI [OF assms(1)])
    (auto simp: command_result_def intro!: assms(3) reached_said kept_fit [OF said_kept assms(2)])

lemma load_reached:
  assumes "so_far (s\<lparr>line_buf := b\<rparr>) os s'" and "length b = 80" and "fit s"
  shows "goes s os s'" and "fit s'"
proof -
  have "with_buffers (s\<lparr>line_buf := b\<rparr>) s = s\<lparr>line_buf := b\<rparr>" by (simp add: with_buffers_def)
  with assms(1) show "goes s os s'" by (metis reachedI)
  have "fit (s\<lparr>line_buf := b\<rparr>)" using assms by (simp add: fit_def)
  with said_kept [OF assms(1)] show "fit s'" by (rule kept_fit)
qed

lemma command_said:
  assumes s: "ready good s" and fit: "fit s" and ws: "args_are s ws" and ne: "ws \<noteq> []"
    and ks: "typed (hw s) ks" and ends: "command_ends ws ks" and safe: "command_safe harmless answers ws ks"
  shows "returns (command_result ws ks s) (dispatch_loop cmd_table P s)"
proof -
  note does = command_does_def ne ascii_eq_iff
  let ?w = "ws ! 0"
  have helps: "returns (command_result ws ks s) (and_back cmd_help P s)" if "?w = ascii ''help''"
    using help_said [OF s] by (intro and_back_result [where D = "\<lambda>os. os = map Text help_text"] fit)
      (auto simp: does that simp del: map_append)
  have info: "returns (command_result ws ks s) (and_back cmd_info P s)" if "?w = ascii ''info''"
    using info_said [OF s] by (intro and_back_result [where D = "\<lambda>os. os = map Text info_text"] fit)
      (auto simp: does that simp del: map_append)
  have peek: "returns (command_result ws ks s) (and_back cmd_peek P s)" if "?w = ascii ''peek''"
  proof (rule and_back_result [where h = cmd_peek, OF peek_said [OF s ws] fit])
    show "list_all answers (peek_addrs ws)"
      by (rule peek_does_ok [where h = harmless]) (use safe in \<open>auto simp: command_safe_def does that\<close>)
  qed (simp add: does that)
  have rtos: "returns (command_result ws ks s) (and_back cmd_rtos P s)" if "?w = ascii ''rtos''"
  proof (rule and_back_result [where h = cmd_rtos, OF rtos_said [OF s] fit])
    show "list_all answers rtos_regs"
      by (rule rtos_does_ok [where h = harmless]) (use safe in \<open>auto simp: command_safe_def does that\<close>)
  qed (simp add: does that)
  have uart: "returns (command_result ws ks s) (and_back cmd_uart P s)" if "?w = ascii ''uart''"
    by (rule and_back_result [where h = cmd_uart, OF uart_said [OF s] fit]) (simp add: does that)
  have uptime: "returns (command_result ws ks s) (and_back cmd_uptime P s)" if "?w = ascii ''uptime''"
    by (rule and_back_result [where h = cmd_uptime, OF uptime_said [OF s] fit]) (simp add: does that)
  have gpio: "returns (command_result ws ks s) (and_back cmd_gpio P s)" if "?w = ascii ''gpio''"
    by (rule and_back_result [where h = cmd_gpio, OF gpio_said [OF s ws] fit]) (use gpio_harmless in \<open>simp_all add: does that\<close>)
  have poke: "returns (command_result ws ks s) (and_back cmd_poke P s)" if w: "?w = ascii ''poke''"
    by (rule and_back_result [where h = cmd_poke, OF poke_said [OF s ws] fit])
      (use safe in \<open>auto simp: command_safe_def does w\<close>)
  have go: "returns (command_result ws ks s) (cmd_go P s)" if "?w = ascii ''go''"
    using go_said [OF s ws]
  proof (rule returns_mono)
    fix r :: "outcome \<times> 'w shell"
    assume "case r of (out, s') \<Rightarrow> \<exists>os. go_does ws os out \<and> so_far s os s'"
    then obtain os where "go_does ws os (fst r)" "so_far s os (snd r)" by (auto simp: case_prod_beta)
    with that show "command_result ws ks s r"
      using reached_said kept_fit [OF said_kept fit] by (fastforce simp: command_result_def does)
  qed
  have load: "returns (command_result ws ks s) (and_back cmd_load P s)" if w: "?w = ascii ''load''"
  proof -
    obtain os rest where ld: "load_does ws ks os rest"
      using ends w ne by (auto simp: command_ends_def load_does_def split: parse_result.splits)
    then have cd: "command_does ws ks os Back rest" by (simp add: does w)
    then have "accesses_ok harmless answers os" using safe by (auto simp: command_safe_def)
    from load_said [OF s ws ks _ ld this]
    have "returns (loaded s os) (cmd_load P s)" using fit by (simp add: fit_def)
    then show ?thesis unfolding and_back_def
    proof (rule returns_bindI)
      fix s' assume "loaded s os s'"
      then have "goes s os s'" "fit s'" by (auto simp: loaded_def intro: load_reached fit)
      with cd have "command_result ws ks s (Back, s')" unfolding command_result_def by auto
      then show "returns (command_result ws ks s) (Some (Back, s'))" by simp
    qed
  qed
  have other: "returns (command_result ws ks s) (dispatch_loop [] P s)"
    if "?w \<notin> ascii ` {''help'', ''peek'', ''poke'', ''load'', ''go'', ''rtos'', ''gpio'', ''uart'', ''info'', ''uptime''}"
  proof -
    have arg0: "c_string (arg s' 0) = Some ?w" if "kept s s'" for s'
      using ws ne that by (simp add: args_are_def kept_arg)
    have fin: "command_result ws ks s (Back, s')" if s': "so_far s (map Text (unknown_text ?w)) s'" for s'
      using \<open>?w \<notin> _\<close> reached_said [OF s'] kept_fit [OF said_kept [OF s'] fit]
      by (auto simp: command_result_def does simp del: map_append)
    show ?thesis unfolding dispatch_loop.simps
      by (rule puts_step [OF said_refl [OF s]], simp add: literal_simps,
          rule puts_step, assumption, rule arg0, erule said_kept,
          rule puts_step, assumption, simp add: literal_simps,
          simp only: returns_Some, rule fin, erule said_eq, simp add: unknown_text_def)
  qed
  show ?thesis
    unfolding cmd_table_def
    using helps info peek poke load go rtos gpio uart uptime other
    by (simp add: dispatch_entry [OF ws ne] del: dispatch_loop.simps)
qed

lemma dispatch_splits:
  assumes s: "ready good s" and fit: "fit s" and line: "c_string (cmd_buf s) = Some line"
  shows "\<exists>s1. ready good s1 \<and> fit s1 \<and> hw s1 = hw s \<and> (\<forall>os s'. goes s1 os s' \<longrightarrow> goes s os s')
    \<and> args_are s1 (args_of line)
    \<and> dispatch_command P s = (if args_of line = [] then Some (Back, s1) else dispatch_loop cmd_table P s1)"
proof -
  obtain buf n av where pa: "parse_args (cmd_buf s) (argv s) = Some (buf, n, av)"
    and n: "n = length (args_of line)" and len: "length buf = length (cmd_buf s)" "length av = Suc MAX_ARGS"
    and args: "\<forall>j < n. arg_string buf av j = Some (words_of line ! j)"
    using parse_args_correct [OF line, of "argv s"] fit by (auto simp: args_of_def fit_def)
  define s1 where "s1 = s\<lparr>cmd_buf := buf, argc := n, argv := av\<rparr>"
  have s1: "ready good s1" "fit s1" "hw s1 = hw s" "with_buffers s1 s = s1"
    using s fit len by (simp_all add: s1_def ready_def sized_def fit_def with_buffers_def)
  have "args_are s1 (args_of line)"
    using args n by (simp add: args_are_def s1_def arg_def arg_string_def args_of_def)
  moreover have "dispatch_command P s = (if args_of line = [] then Some (Back, s1) else dispatch_loop cmd_table P s1)"
    using n by (simp add: dispatch_command_def pa s1_def)
  moreover have "goes s os s'" if "goes s1 os s'" for os s'
    using that s1(4) unfolding reached_def by (metis with_buffers_simps(10))
  ultimately show ?thesis using s1(1-3) by blast
qed

lemma dispatch_said:
  assumes s: "ready good s" and fit: "fit s" and line: "c_string (cmd_buf s) = Some line"
    and ks: "typed (hw s) ks" and ends: "command_ends (args_of line) ks"
    and safe: "command_safe harmless answers (args_of line) ks"
  shows "returns (command_result (args_of line) ks s) (dispatch_command P s)"
proof -
  obtain s1 where s1: "ready good s1" "fit s1" "hw s1 = hw s" and start: "\<And>os s'. goes s1 os s' \<Longrightarrow> goes s os s'"
    and ws: "args_are s1 (args_of line)"
    and d: "dispatch_command P s = (if args_of line = [] then Some (Back, s1) else dispatch_loop cmd_table P s1)"
    using dispatch_splits [OF s fit line] by blast
  show ?thesis
  proof (cases "args_of line = []")
    case True
    then show ?thesis
      using start [OF reached_said [OF said_refl [OF s1(1)]]] s1(2)
      by (simp add: d command_result_def command_does_def)
  next
    case False
    have "typed (hw s1) ks" using ks s1(3) by simp
    from command_said [OF s1(1,2) ws False this ends safe]
    have "returns (command_result (args_of line) ks s) (dispatch_loop cmd_table P s1)"
      by (rule returns_mono) (use start in \<open>unfold command_result_def, blast\<close>)
    with False show ?thesis by (simp add: d)
  qed
qed

end

section \<open>Rounds and sessions\<close>

text \<open>
  \<open>round_does ks os out rest\<close>: one round of the main loop, the keys \<open>ks\<close> being typed: the prompt, the
  editing of a line, and what the line asks for.
\<close>

definition round_does :: "byte list \<Rightarrow> obs list \<Rightarrow> outcome \<Rightarrow> byte list \<Rightarrow> bool" where
  "round_does ks os out rest \<longleftrightarrow>
     (case edit 79 [] ks of
        None \<Rightarrow> False
      | Some (os1, None, rest1) \<Rightarrow> os = map Text PROMPT @ os1 \<and> out = Back \<and> rest = rest1
      | Some (os1, Some line, rest1) \<Rightarrow>
          (\<exists>os2. command_does (args_of line) rest1 os2 out rest \<and> os = map Text PROMPT @ os1 @ os2))"

definition round_ok :: "(u32 \<Rightarrow> bool) \<Rightarrow> (u32 \<Rightarrow> bool) \<Rightarrow> byte list \<Rightarrow> bool" where
  "round_ok h r ks \<longleftrightarrow>
     (case edit 79 [] ks of
        None \<Rightarrow> False
      | Some (os1, None, rest1) \<Rightarrow> True
      | Some (os1, Some line, rest1) \<Rightarrow>
          command_ends (args_of line) rest1 \<and> command_safe h r (args_of line) rest1)"

lemma args_of_Nil [simp]: "args_of [] = []"
  by (simp add: args_of_def)

lemma round_does_keys:
  assumes "round_does ks os out rest"
  shows "ks = keys os @ rest"
  using assms
  by (auto simp: round_does_def dest!: edit_keys command_does_keys simp del: map_append
      split: option.split_asm prod.split_asm)

context timed_terminal begin

text \<open>The round up to the dispatch: the prompt and the line.\<close>

lemma round_prompt_line:
  assumes s: "ready good s" and fit: "fit s" and ks: "typed (hw s) ks"
    and e: "edit 79 [] ks = Some (os1, res, rest1)"
  shows "\<exists>s3. ready good s3 \<and> fit s3 \<and> typed (hw s3) rest1 \<and> goes s (map Text PROMPT @ os1) s3
    \<and> (\<forall>line. res = Some line \<longrightarrow> c_string (cmd_buf s3) = Some line)
    \<and> shell_round P s = (if res = None \<or> res = Some [] then Some (Back, s3) else dispatch_command P s3)"
proof -
  have "returns (so_far s ([] @ map Text PROMPT)) (shell_puts P (lit PROMPT) s)"
    by (rule puts_end [OF said_refl [OF s]]) (simp_all add: PROMPT_def literal_simps)
  then obtain s1 where p: "shell_puts P (lit PROMPT) s = Some s1" and s1: "so_far s (map Text PROMPT) s1"
    by (auto elim: returnsE)
  have ks1: "typed (hw s1) ks" and fit1: "fit s1"
    using typed_said [OF s1 _ _ ks] kept_fit [OF said_kept [OF s1] fit] by simp_all
  obtain len buf s2 where rl: "shell_readline P (cmd_buf s1) CMD_BUF_SIZE s1 = Some (len, buf, s2)"
    and s2: "so_far s1 os1 s2" "typed (hw s2) rest1" and ent: "entered 79 res len buf"
    using readline_said [OF e _ said_ready [OF s1] ks1, of "cmd_buf s1"] fit1
    by (auto simp: CMD_BUF_SIZE_def fit_def elim!: returnsE)
  define s3 where "s3 = s2\<lparr>cmd_buf := buf\<rparr>"
  have "length buf = 80"
    using ent edit_line [of 79 "[]" ks os1 _ rest1] e
    by (auto simp: entered_def Suc_diff_le split: option.split_asm)
  then have s3: "ready good s3" "fit s3" "typed (hw s3) rest1"
    using s2 said_ready [OF s2(1)] kept_fit [OF said_kept [OF s2(1)] fit1]
    by (simp_all add: s3_def ready_def sized_def fit_def)
  have "so_far s (map Text PROMPT @ os1) s2" using said_trans [OF s1 s2(1)] by simp
  moreover have "with_buffers s3 s2 = s3" by (simp add: s3_def with_buffers_def)
  ultimately have g3: "goes s (map Text PROMPT @ os1) s3"
    using said_buffers [of good sent typed s _ s2 s3] by (auto intro!: reachedI [of _ _ _ s3])
  have rd: "shell_round P s = (if len < 0 \<or> len = 0 then Some (Back, s3) else dispatch_command P s3)"
    by (simp add: shell_round_def p rl Let_def s3_def)
  show ?thesis
  proof (cases res)
    case None
    then show ?thesis using ent g3 s3 rd by (auto simp: entered_def)
  next
    case (Some line)
    have line: "list_all printable line" "length line \<le> 79" using edit_line [OF e [unfolded Some]] by simp_all
    note b = line_buffer_string [OF ent [unfolded Some] line]
    show ?thesis using Some b g3 s3 rd by (intro exI [of _ s3]) (auto simp: s3_def)
  qed
qed

lemma round_said:
  assumes s: "ready good s" and fit: "fit s" and ks: "typed (hw s) ks" and ok: "round_ok harmless answers ks"
  shows "returns (\<lambda>(out, s'). \<exists>os rest. round_does ks os out rest \<and> goes s os s' \<and> fit s') (shell_round P s)"
proof -
  obtain os1 res rest1 where e: "edit 79 [] ks = Some (os1, res, rest1)"
    using ok by (auto simp: round_ok_def split: option.split_asm)
  obtain s3 where s3: "ready good s3" "fit s3" "typed (hw s3) rest1" and g3: "goes s (map Text PROMPT @ os1) s3"
    and line: "\<And>line. res = Some line \<Longrightarrow> c_string (cmd_buf s3) = Some line"
    and rd: "shell_round P s = (if res = None \<or> res = Some [] then Some (Back, s3) else dispatch_command P s3)"
    using round_prompt_line [OF s fit ks e] by blast
  show ?thesis
  proof (cases "res = None \<or> res = Some []")
    case True
    then have "round_does ks (map Text PROMPT @ os1) Back rest1"
      using e by (auto simp: round_does_def command_does_def)
    with True g3 s3 rd show ?thesis by auto
  next
    case False
    then obtain l where l: "res = Some l" "l \<noteq> []" by auto
    have "returns (command_result (args_of l) rest1 s3) (dispatch_command P s3)"
      using ok e l by (intro dispatch_said s3 line) (simp_all add: round_ok_def)
    then show ?thesis unfolding rd if_not_P [OF False]
    proof (rule returns_mono)
      fix r assume "command_result (args_of l) rest1 s3 r"
      then obtain os2 rest where "command_does (args_of l) rest1 os2 (fst r) rest"
        "goes s3 os2 (snd r)" "fit (snd r)" by (auto simp: command_result_def)
      with e l reached_trans [OF g3] show "case r of (out, s') \<Rightarrow>
          \<exists>os rest. round_does ks os out rest \<and> goes s os s' \<and> fit s'"
        by (fastforce simp: round_does_def case_prod_beta)
    qed
  qed
qed

end

text \<open>
  \<open>leaves h r ks\<close>: the keys \<open>ks\<close> keep the main loop going until a round leaves the shell, whatever the
  values the machine returns meanwhile. \<open>session ks os a rest\<close>: what such a run of rounds does.
\<close>

inductive leaves :: "(u32 \<Rightarrow> bool) \<Rightarrow> (u32 \<Rightarrow> bool) \<Rightarrow> byte list \<Rightarrow> bool" for h r where
  leavesI: "round_ok h r ks
    \<Longrightarrow> (\<And>os rest. round_does ks os Back rest \<Longrightarrow> list_all quiet os)
    \<Longrightarrow> (\<And>os rest. round_does ks os Back rest \<Longrightarrow> leaves h r rest)
    \<Longrightarrow> leaves h r ks"

inductive session :: "byte list \<Rightarrow> obs list \<Rightarrow> u32 \<Rightarrow> byte list \<Rightarrow> bool" where
  leave: "round_does ks os (Left_for a) rest \<Longrightarrow> session ks os a rest"
| again: "round_does ks os Back ks' \<Longrightarrow> session ks' os' a rest \<Longrightarrow> session ks (os @ os') a rest"

definition banner_text :: "byte list" where
  "banner_text = CRLF @ ascii ''========================================'' @ CRLF
     @ ascii ''  VSync Monitor Shell v1.0'' @ CRLF
     @ ascii ''  RISC-V RV32IM Hardware RTOS Processor'' @ CRLF
     @ ascii ''  UART: 115200 8N1'' @ CRLF
     @ ascii ''========================================'' @ CRLF
     @ ascii ''Type '' @ [39] @ ascii ''help'' @ [39] @ ascii '' for command list.'' @ CRLF @ CRLF"

text \<open>\<open>opens P s fd s'\<close>: the call of \<open>open\<close> returns \<open>fd\<close>.\<close>

definition opens :: "'w platform \<Rightarrow> 'w shell \<Rightarrow> u32 \<Rightarrow> 'w shell \<Rightarrow> bool" where
  "opens P s fd s' \<longleftrightarrow> posix_open P FD_TYPE_UART 0 s = Some (fd, s')"

lemma main_open_fails:
  assumes "opens P s fd s'" and "sint fd < 0"
  shows "shell_main P s = Some (Returned (-1), s'\<lparr>uart_fd := fd\<rparr>)"
  using assms by (simp add: shell_main_def opens_def)

context timed_terminal begin

lemma loop_said:
  assumes "leaves harmless answers ks" and "ready good s" and "fit s" and "typed (hw s) ks"
  shows "returns (\<lambda>(a, s'). \<exists>os rest. session ks os a rest \<and> goes s os s') (shell_loop P s)"
  using assms
proof (induction arbitrary: s rule: leaves.induct)
  case (leavesI ks)
  let ?Q = "\<lambda>(a, s'). \<exists>os rest. session ks os a rest \<and> goes s os s'"
  show ?case
  proof (subst shell_loop.simps, rule returns_bindI [OF round_said [OF leavesI.prems leavesI.hyps(1)]])
    fix x assume "case x of (out, s') \<Rightarrow> \<exists>os rest. round_does ks os out rest \<and> goes s os s' \<and> fit s'"
    then obtain out s1 os rest where x: "x = (out, s1)" and rd: "round_does ks os out rest"
      and s1: "goes s os s1" "fit s1" by (cases x) auto
    show "returns ?Q (case x of (out, s) \<Rightarrow> case out of Back \<Rightarrow> shell_loop P s | Left_for a \<Rightarrow> Some (a, s))"
    proof (cases out)
      case (Left_for a)
      with rd s1 show ?thesis by (auto simp: x intro: session.leave)
    next
      case Back
      have "list_all quiet os" using leavesI.hyps(2) rd Back by blast
      then have "typed (hw s1) rest"
        using s1(1) round_does_keys [OF rd] leavesI.prems(3) by (simp add: reached_def said_def)
      moreover have "ready good s1" using s1(1) by (simp add: reached_def said_def)
      ultimately have "returns (\<lambda>(a, s'). \<exists>os rest'. session rest os a rest' \<and> goes s1 os s') (shell_loop P s1)"
        using leavesI.IH [of os rest s1] rd Back s1(2) by simp
      then have "returns ?Q (shell_loop P s1)"
        by (rule returns_mono)
          (use rd Back s1(1) in \<open>auto intro: session.again reached_trans\<close>)
      then show ?thesis by (simp add: x Back)
    qed
  qed
qed

lemma banner_said:
  assumes "ready good s"
  shows "returns (so_far s (map Text banner_text)) (print_banner P s)"
  unfolding print_banner_def
  by (rule said_refl [OF assms] text_steps newline_end | assumption | simp (no_asm) add: literal_simps; fail
    | erule said_eq, simp (no_asm) add: banner_text_def)+

lemma main_said:
  assumes op: "opens P s fd s1" and fd: "0 \<le> sint fd" and s: "ready good (s1\<lparr>uart_fd := fd\<rparr>)" "fit s1"
    and ks: "leaves harmless answers ks" "typed (hw s1) ks"
  shows "returns (\<lambda>(r, s'). \<exists>a os rest. r = Jumped a \<and> session ks os a rest
      \<and> goes (s1\<lparr>uart_fd := fd\<rparr>) (map Text banner_text @ os) s') (shell_main P s)"
proof -
  let ?s = "s1\<lparr>uart_fd := fd\<rparr>"
  obtain s2 where s2: "print_banner P ?s = Some s2" "so_far ?s (map Text banner_text) s2"
    using banner_said [OF s(1)] by (auto elim: returnsE)
  have "fit s2" using kept_fit [OF said_kept [OF s2(2)]] s(2) by (simp add: fit_def)
  moreover have "typed (hw s2) ks" by (rule typed_said [OF s2(2)]) (use ks in simp_all)
  ultimately obtain a s3 os rest where s3: "shell_loop P s2 = Some (a, s3)" "session ks os a rest" "goes s2 os s3"
    using loop_said [OF ks(1) said_ready [OF s2(2)]] by (auto elim!: returnsE)
  have "shell_main P s = Some (Jumped a, s3)"
    using op fd s2 s3 by (simp add: shell_main_def opens_def)
  with s3 reached_trans [OF reached_said [OF s2(2)] s3(3)] show ?thesis by auto
qed

end

text \<open>Whatever the machine does, the program never returns from its main loop except by a jump.\<close>

definition jumped_last :: "u32 \<Rightarrow> 'w shell \<Rightarrow> bool" where
  "jumped_last a s \<longleftrightarrow> trace s \<noteq> [] \<and> last (trace s) = Jump a"

lemma case_Some_iff:
  "(case out of Back \<Rightarrow> f | Left_for a \<Rightarrow> g a) = Some x
     \<longleftrightarrow> (out = Back \<and> f = Some x) \<or> (\<exists>a. out = Left_for a \<and> g a = Some x)"
  "(case r of Parse_error \<Rightarrow> f | Parsed v \<Rightarrow> k v) = Some x
     \<longleftrightarrow> (r = Parse_error \<and> f = Some x) \<or> (\<exists>v. r = Parsed v \<and> k v = Some x)"
  by (cases out; simp) (cases r; simp)

lemma go_leaves: "cmd_go P s = Some (Left_for a, s') \<Longrightarrow> jumped_last a s'"
  by (auto simp: cmd_go_def jump_def jumped_last_def Let_def Option.bind_eq_Some_conv case_Some_iff)

lemma dispatch_loop_leaves:
  assumes "dispatch_loop es P s = Some (Left_for a, s')"
    and "\<And>e. e \<in> set es \<Longrightarrow> entry_handler e = cmd_go \<or> (\<exists>h. entry_handler e = and_back h)"
  shows "jumped_last a s'"
  using assms
proof (induction es)
  case (Cons e es)
  from Cons.prems(2) [of e] consider "entry_handler e = cmd_go" | h where "entry_handler e = and_back h" by auto
  then show ?case
    using Cons by cases
      (auto simp: and_back_def Option.bind_eq_Some_conv dest: go_leaves split: if_split_asm)
qed (auto simp: Option.bind_eq_Some_conv)

lemma cmd_table_handlers:
  "e \<in> set cmd_table \<Longrightarrow> entry_handler e = cmd_go \<or> (\<exists>h. entry_handler e = and_back h)"
  unfolding cmd_table_def entry_def by (simp, elim disjE, simp_all, blast+)

lemma dispatch_leaves: "dispatch_command P s = Some (Left_for a, s') \<Longrightarrow> jumped_last a s'"
  by (auto simp: dispatch_command_def Option.bind_eq_Some_conv Let_def
      simp del: dispatch_loop.simps split: if_split_asm elim!: dispatch_loop_leaves cmd_table_handlers)

lemma round_leaves: "shell_round P s = Some (Left_for a, s') \<Longrightarrow> jumped_last a s'"
  by (auto simp: shell_round_def Let_def Option.bind_eq_Some_conv split: if_split_asm dest: dispatch_leaves)

lemma loop_leaves:
  assumes "shell_loop P s = Some r"
  shows "jumped_last (fst r) (snd r)"
  using assms
proof (induction rule: shell_loop.raw_induct [rotated, consumes 1])
  case (1 loop P s r)
  then show ?case
    by (auto simp: Option.bind_eq_Some_conv case_Some_iff dest: round_leaves)
qed

lemma main_ends:
  assumes "shell_main P s = Some (r, s')"
  shows "r = Returned (-1) \<or> (\<exists>a. r = Jumped a \<and> jumped_last a s')"
  using assms loop_leaves [of P]
  by (auto simp: shell_main_def Let_def Option.bind_eq_Some_conv split: if_split_asm)

end
