(* ===== verification/Shell_Hangs.thy ===== *)
theory Shell_Hangs
  imports Shell_Main
begin

text \<open>
  The sessions of the shell that never end because a command makes an access that the machine does not
  end: which command lines do, and that the main program then does not return.
\<close>

section \<open>Commands that get stuck\<close>

text \<open>
  \<open>command_stuck h n r ws ks\<close>: where a store to \<open>h\<close> and a load from \<open>r\<close> end, a store to \<open>n\<close> and any
  other load do not, the command with the words \<open>ws\<close> makes an access that does not end, the keys \<open>ks\<close>
  being typed ahead.
\<close>

definition command_stuck ::
  "(u32 \<Rightarrow> bool) \<Rightarrow> (u32 \<Rightarrow> bool) \<Rightarrow> (u32 \<Rightarrow> bool) \<Rightarrow> byte list list \<Rightarrow> byte list \<Rightarrow> bool" where
  "command_stuck h n r ws ks \<longleftrightarrow> ws \<noteq> [] \<and>
     (if ws ! 0 = ascii ''rtos'' then \<not> r (RTOS_BASE + RTOS_SCHED_EN)
      else if ws ! 0 = ascii ''peek'' then \<not> list_all r (peek_addrs ws)
      else if ws ! 0 = ascii ''poke'' then
        (\<exists>a v. \<not> length ws < 3 \<and> parse_hex_spec (ws ! 1) = Parsed a \<and> parse_hex_spec (ws ! 2) = Parsed v
          \<and> (n (a AND NOT 3) \<or> h (a AND NOT 3) \<and> \<not> r (a AND NOT 3)))
      else if ws ! 0 = ascii ''load'' then
        (\<exists>os rest. load_does ws ks os rest \<and> accesses_ok (\<lambda>a. h a \<or> n a) r os \<and> \<not> accesses_ok h r os)
      else False)"

text \<open>\<open>sticks h n r ks\<close>: with the keys \<open>ks\<close> the main loop comes to such a command.\<close>

inductive sticks :: "(u32 \<Rightarrow> bool) \<Rightarrow> (u32 \<Rightarrow> bool) \<Rightarrow> (u32 \<Rightarrow> bool) \<Rightarrow> byte list \<Rightarrow> bool" for h n r where
  here: "edit 79 [] ks = Some (os, Some line, rest) \<Longrightarrow> command_stuck h n r (args_of line) rest
    \<Longrightarrow> sticks h n r ks"
| again: "round_ok h r ks
    \<Longrightarrow> (\<And>os out rest. round_does ks os out rest \<Longrightarrow> out = Back \<and> list_all quiet os)
    \<Longrightarrow> (\<And>os out rest. round_does ks os out rest \<Longrightarrow> sticks h n r rest)
    \<Longrightarrow> sticks h n r ks"

section \<open>They do\<close>

context timed_terminal begin

lemma command_hangs:
  assumes stuck: "command_stuck harmless n answers ws ks"
    and loads: "\<And>a. answers a \<or> never_loads a" and stores: "\<And>a. n a \<Longrightarrow> never_stores a"
    and s: "ready good s" "fit s" "args_are s ws" "typed (hw s) ks"
  shows "dispatch_loop cmd_table P s = None"
proof -
  have ne: "ws \<noteq> []" using stuck by (simp add: command_stuck_def)
  note st = stuck [unfolded command_stuck_def]
  have rtos: "cmd_rtos P s = None" if "ws ! 0 = ascii ''rtos''"
    using st that loads by (intro rtos_hangs s) auto
  have peek: "cmd_peek P s = None" if w: "ws ! 0 = ascii ''peek''"
  proof (rule peek_hangs [OF s(1,3)])
    show "list_all (\<lambda>a. answers a \<or> never_loads a) (peek_addrs ws)" using loads by (simp add: list_all_iff)
    show "\<not> list_all answers (peek_addrs ws)" using st w by (simp add: ascii_eq_iff)
  qed
  have poke: "cmd_poke P s = None" if w: "ws ! 0 = ascii ''poke''"
  proof -
    obtain a v where a: "\<not> length ws < 3" "parse_hex_spec (ws ! 1) = Parsed a" "parse_hex_spec (ws ! 2) = Parsed v"
      and n: "n (a AND NOT 3) \<or> harmless (a AND NOT 3) \<and> \<not> answers (a AND NOT 3)"
      using st w by (auto simp: ascii_eq_iff)
    then show ?thesis using loads stores by (intro poke_hangs [OF s(1,3) a]) blast
  qed
  have load: "cmd_load P s = None" if w: "ws ! 0 = ascii ''load''"
  proof -
    obtain os rest where l: "load_does ws ks os rest" "accesses_ok (\<lambda>a. harmless a \<or> n a) answers os"
      "\<not> accesses_ok harmless answers os"
      using st w by (auto simp: ascii_eq_iff)
    have "accesses_ok (\<lambda>a. harmless a \<or> never_stores a) answers os"
      by (rule accesses_ok_mono [OF l(2)]) (use stores in blast)
    from load_hangs [OF s(1,3,4) _ l(1) this l(3)] s(2) show ?thesis by (simp add: fit_def)
  qed
  from st consider "ws ! 0 = ascii ''rtos''" | "ws ! 0 = ascii ''peek''" | "ws ! 0 = ascii ''poke''"
    | "ws ! 0 = ascii ''load''" by (auto split: if_split_asm)
  then show ?thesis
    unfolding cmd_table_def
    by cases (simp_all add: dispatch_entry [OF s(3) ne] ascii_eq_iff and_back_def rtos peek poke load
        del: dispatch_loop.simps)
qed

lemma loop_hangs:
  assumes "sticks harmless n answers ks" and "ready good s" "fit s" "typed (hw s) ks"
    and acc: "\<And>a. answers a \<or> never_loads a" "\<And>a. n a \<Longrightarrow> never_stores a"
  shows "shell_loop P s = None"
  using assms(1-4)
proof (induction arbitrary: s rule: sticks.induct)
  case (here ks os line rest)
  from round_prompt_line [OF here.prems here.hyps(1)] obtain s3 where
    s3: "ready good s3" "fit s3" "typed (hw s3) rest" "c_string (cmd_buf s3) = Some line"
    and rd: "shell_round P s = (if line = [] then Some (Back, s3) else dispatch_command P s3)" by auto
  have ne: "args_of line \<noteq> []" using here.hyps(2) by (simp add: command_stuck_def)
  from dispatch_splits [OF s3(1,2,4)] obtain s4 where
    s4: "ready good s4" "fit s4" "hw s4 = hw s3" "args_are s4 (args_of line)"
    and d: "dispatch_command P s3 = (if args_of line = [] then Some (Back, s4) else dispatch_loop cmd_table P s4)"
    by blast
  have "dispatch_loop cmd_table P s4 = None"
    by (rule command_hangs [OF here.hyps(2) acc s4(1,2,4)]) (use s3(3) s4(3) in auto)
  with ne d rd have "shell_round P s = None" by auto
  then show ?case by (subst shell_loop.simps) simp
next
  case (again ks)
  obtain out s1 where r1: "shell_round P s = Some (out, s1)"
    and "\<exists>os rest. round_does ks os out rest \<and> goes s os s1 \<and> fit s1"
    using round_said [OF again.prems again.hyps(1)] by (auto elim!: returnsE)
  then obtain os rest where rd: "round_does ks os out rest" and s1: "goes s os s1" "fit s1" by blast
  have out: "out = Back" "list_all quiet os" using again.hyps(2) [OF rd] by simp_all
  have "typed (hw s1) rest" "ready good s1"
    using s1(1) out(2) round_does_keys [OF rd] again.prems(3) by (simp_all add: reached_def said_def)
  from again.IH [OF rd this(2) s1(2) this(1)] show ?case
    by (subst shell_loop.simps) (simp add: r1 out)
qed

lemma main_hangs:
  assumes op: "opens P s fd s1" and fd: "0 \<le> sint fd" and s: "ready good (s1\<lparr>uart_fd := fd\<rparr>)" "fit s1"
    and ks: "sticks harmless n answers ks" "typed (hw s1) ks"
    and acc: "\<And>a. answers a \<or> never_loads a" "\<And>a. n a \<Longrightarrow> never_stores a"
  shows "shell_main P s = None"
proof -
  let ?s = "s1\<lparr>uart_fd := fd\<rparr>"
  obtain s2 where s2: "print_banner P ?s = Some s2" "so_far ?s (map Text banner_text) s2"
    using banner_said [OF s(1)] by (auto elim: returnsE)
  have "fit s2" using kept_fit [OF said_kept [OF s2(2)]] s(2) by (simp add: fit_def)
  moreover have "typed (hw s2) ks" by (rule typed_said [OF s2(2)]) (use ks in simp_all)
  ultimately have "shell_loop P s2 = None" using loop_hangs [OF ks(1) said_ready [OF s2(2)] _ _ acc] by blast
  with op fd s2(1) show ?thesis by (simp add: shell_main_def opens_def)
qed

end

end
