(* ===== verification/Soc.thy ===== *)
theory Soc
  imports Soc_Calls Shell_Hangs
begin

text \<open>
  The SoC as a terminal: the laws that the shell relies on, proved for the clocked model of
  \<open>Soc_Clock\<close>, as interpretations of the locales \<open>output_port\<close>, \<open>terminal\<close> and \<open>timed_terminal\<close>.
\<close>

section \<open>The contract\<close>

text \<open>The user goes on typing, for ever.\<close>

definition fair :: "env \<Rightarrow> bool" where
  "fair E \<longleftrightarrow> (\<forall>t. \<exists>t' \<ge> t. key_at E t')"

definition usable :: "soc \<Rightarrow> bool" where
  "usable w \<longleftrightarrow> idle_ctl w \<and> uart_wf (soc_uart w) \<and> ctrl_tx_en (soc_uart w) \<and> ctrl_rx_en (soc_uart w)"

definition soc_good :: "env \<Rightarrow> u32 \<Rightarrow> soc \<Rightarrow> bool" where
  "soc_good E fd w \<longleftrightarrow> fair E \<and> usable w \<and> unat fd < MAX_FD \<and> fd_valid (soc_posix w) ! unat fd
     \<and> fd_base_addr (soc_posix w) ! unat fd = UART_BASE"

definition soc_sent :: "soc \<Rightarrow> byte list" where
  "soc_sent w = accepted (soc_uart w)"

definition soc_room :: "soc \<Rightarrow> bool" where
  "soc_room w \<longleftrightarrow> \<not> fifo_full (tx_ring (soc_uart w))"

text \<open>
  The stores that end and that do not change the UART, nor the program: those to the GPIO, to the timer and
  the PLIC (sw/boot/start.S leaves \<open>mie\<close> at zero, so that no interrupt is taken), to the registers of the
  RTOS (whose effect is among the inputs it may get at any clock) and of the POSIX layer (ignored), to
  addresses without a device, and to the memories where they hold nothing of the program. Those that end
  but are not among them are the stores to the UART and to the memory of the program.
\<close>

definition soc_harmless :: "env \<Rightarrow> u32 \<Rightarrow> bool" where
  "soc_harmless E a \<longleftrightarrow> gpio_page a \<or> clint_page a \<or> plic_page a \<or> rtos_page a \<or> posix_page a
     \<or> decode a = None \<or> (imem_page a \<or> dmem_page a) \<and> spare_ram E a"

definition soc_typed :: "soc \<Rightarrow> byte list \<Rightarrow> bool" where
  "soc_typed w cs \<longleftrightarrow> (\<exists>ys. pending w = cs @ ys)"

lemma good_moves:
  assumes "soc_good E fd w" and "idle_ctl w'" "same_fds w w'" "undisturbed w w'"
  shows "soc_good E fd w' \<and> soc_sent w' = soc_sent w \<and> (soc_typed w cs \<longrightarrow> soc_typed w' cs)
    \<and> (soc_room w \<longrightarrow> soc_room w')"
  using assms
  by (auto simp: soc_good_def usable_def same_fds_def undisturbed_def soc_sent_def soc_typed_def soc_room_def)

lemma good_passes:
  assumes "soc_good E fd w" and "passes E w w'"
  shows "soc_good E fd w' \<and> soc_sent w' = soc_sent w \<and> (soc_typed w cs \<longrightarrow> soc_typed w' cs)
    \<and> (soc_room w \<longrightarrow> soc_room w')"
  using assms passes_idle_ctl [OF assms(2)] by (intro good_moves) (auto simp: soc_good_def usable_def)

section \<open>Loads\<close>

text \<open>A load from a register other than the receive register passes.\<close>

lemma uart_offset:
  assumes "uart_page a"
  shows "a AND 0xFF = 4 \<longleftrightarrow> a = UART_RX_DATA_ADDR"
proof -
  have "unat (0x10000000 :: u32) \<le> unat a" "unat a \<le> unat (0x100000FF :: u32)"
    using assms by (simp_all only: uart_page_def in_page_def hw_defs word_le_nat_alt)
  moreover define k where "k = unat a - 0x10000000"
  ultimately have k: "unat a = 0x10000000 + k" "k \<le> 255" by simp_all
  have "(0x10000000 + k) mod 256 = k" 
    by (subst mod_add_left_eq [symmetric]) (use k(2) in simp)
  then have "unat (take_bit 8 a) = k"
    by (simp add: unsigned_take_bit_eq take_bit_eq_mod unat_mod k(1))
  moreover have "a AND 0xFF = take_bit 8 a" by (simp add: take_bit_eq_mask mask_eq_exp_minus_1)
  ultimately have "a AND 0xFF = 4 \<longleftrightarrow> k = 4" by (simp add: word_unat_eq_iff)
  moreover have "a = UART_RX_DATA_ADDR \<longleftrightarrow> k = 4" by (simp add: word_unat_eq_iff k(1) hw_defs)
  ultimately show ?thesis by simp
qed

lemma load_passes:
  assumes "a \<noteq> UART_RX_DATA_ADDR"
  shows "passes E w (snd (cpu_load E a w))"
proof -
  have "\<not> (rx_fifo_pop (cpu_apb True False a 0) \<and> uart_page a)"
    using assms uart_offset [of a] by (auto simp: rx_fifo_pop_def reg_offset_def)
  then have "passes E w (accessed E False a 0 w)"
    unfolding accessed_def
    by (intro passes_trans [OF passes_latency] passes.clock [OF passes_selected]) simp_all
  then show ?thesis
    using passes_trans [OF passes_latency passes_latency, of E w] by (simp add: cpu_load_def Let_def)
qed

lemma on_apb_uart [simp]: "on_apb UART_STATUS_ADDR" "on_apb UART_RX_DATA_ADDR"
  by (simp_all add: on_apb_def uart_page_def in_page_def hw_defs)

lemma uart_page_regs [simp]: "uart_page UART_STATUS_ADDR" "uart_page UART_RX_DATA_ADDR"
  by (simp_all add: uart_page_def in_page_def hw_defs)

text \<open>Reading the status samples it at the access phase.\<close>

abbreviation sample :: "env \<Rightarrow> soc \<Rightarrow> soc" where
  "sample E w \<equiv> selected E False UART_STATUS_ADDR 0 w"

lemma status_value:
  assumes "idle_ctl w" and "uart_wf (soc_uart w)"
  shows "fst (cpu_load E UART_STATUS_ADDR w) = uart_status (soc_uart (sample E w))"
proof -
  have "idle_ctl (sample E w)" using passes_idle_ctl [OF passes_selected assms] by simp
  then show ?thesis
    by (simp add: cpu_load_def Let_def idle_ctl_def apb_prdata_def uart_prdata_def reg_offset_def)
      (simp add: hw_defs)
qed

lemma after_sample: "passes E (sample E w) (snd (cpu_load E UART_STATUS_ADDR w))"
proof -
  have "passes E (sample E w) (accessed E False UART_STATUS_ADDR 0 w)"
    unfolding accessed_def
    by (rule passes_trans [OF passes_latency], rule passes.clock [OF passes.stay])
      (simp_all add: rx_fifo_pop_def reg_offset_def hw_defs)
  then show ?thesis by (simp add: cpu_load_def Let_def)
qed

lemma status_later: "now w < now (snd (cpu_load E UART_STATUS_ADDR w))"
proof -
  have "now w < now (sample E w)"
    using passes_now [OF passes_latency, of w E] by (simp add: selected_def)
  then show ?thesis using passes_now [OF after_sample, of E w] by simp
qed

section \<open>The transmit FIFO empties\<close>

lemma clock_empty:
  assumes w: "idle_ctl w" "uart_wf (soc_uart w)" and q: "\<not> apb_write_en q"
  shows "fifo_empty (tx_ring (soc_uart w)) \<Longrightarrow> fifo_empty (tx_ring (soc_uart (soc_clock E q ecall_none w)))"
    and "ctrl_tx_en (soc_uart w) \<Longrightarrow> \<not> fifo_empty (tx_ring (soc_uart w))
      \<Longrightarrow> (soc_uart (soc_clock E q ecall_none w), soc_uart w) \<in> tx_order"
proof -
  have r: "uart_req w q = select uart_page q"
    by (rule idle_ctl_clock(3) [OF w(1) ecall_none_simps])
  have wf: "fifo_wf (tx_ring (soc_uart w))" using w(2) by (simp add: uart_wf_def)
  have np: "\<not> tx_fifo_push (select uart_page q)" using q by (simp add: tx_fifo_push_def)
  show "fifo_empty (tx_ring (soc_uart w)) \<Longrightarrow> fifo_empty (tx_ring (soc_uart (soc_clock E q ecall_none w)))"
    using wf ring.wf_step [OF wf] np
    by (simp add: r uart_step_def Let_def ring.empty_iff ring.items_step queue_step_def)
  assume "ctrl_tx_en (soc_uart w)" "\<not> fifo_empty (tx_ring (soc_uart w))"
  then show "(soc_uart (soc_clock E q ecall_none w), soc_uart w) \<in> tx_order"
    using tx_progress [OF w(2)] ring.empty_iff [OF wf] q by (simp add: r)
qed

lemma passes_empty:
  assumes "passes E w w'" and "idle_ctl w" and "uart_wf (soc_uart w)" and "fifo_empty (tx_ring (soc_uart w))"
  shows "fifo_empty (tx_ring (soc_uart w'))"
  using assms
proof (induction rule: passes.induct)
  case (clock w' q)
  then show ?case using passes_idle_ctl [OF clock.hyps(1)] clock_empty(1) [OF _ _ clock.hyps(2)] by blast
qed

lemma passes_tx:
  assumes "passes E w w'" and "idle_ctl w" and "uart_wf (soc_uart w)" and "ctrl_tx_en (soc_uart w)"
    and "\<not> fifo_empty (tx_ring (soc_uart w'))"
  shows "(soc_uart w', soc_uart w) \<in> tx_order\<^sup>*"
  using assms
proof (induction rule: passes.induct)
  case (clock w' q)
  have w': "idle_ctl w'" "uart_wf (soc_uart w')" "undisturbed w w'"
    using passes_idle_ctl [OF clock.hyps(1) clock.prems(1,2)] by auto
  note e = clock_empty [OF w'(1,2) clock.hyps(2), of E]
  have ne: "\<not> fifo_empty (tx_ring (soc_uart w'))" using e(1) clock.prems(4) by blast
  have "ctrl_tx_en (soc_uart w')" using clock.prems(3) w'(3) by (simp add: undisturbed_def)
  from e(2) [OF this ne] clock.IH [OF clock.prems(1-3) ne]
  show ?case by (rule converse_rtrancl_into_rtrancl)
qed simp

lemma tx_moves:
  assumes "soc_good E fd w" and "uart_status (soc_uart (sample E w)) AND UART_ST_TX_EMPTY = 0"
    and "\<not> fifo_empty (tx_ring (soc_uart w'))" and "w' = snd (cpu_load E UART_STATUS_ADDR w)"
  shows "(soc_uart w', soc_uart w) \<in> tx_order\<^sup>+"
proof -
  have w: "idle_ctl w" "uart_wf (soc_uart w)" "ctrl_tx_en (soc_uart w)"
    using assms(1) by (simp_all add: soc_good_def usable_def)
  let ?s = "sample E w" and ?l = "latency E w"
  have s: "idle_ctl ?s" "uart_wf (soc_uart ?s)" "ctrl_tx_en (soc_uart ?s)"
    using passes_idle_ctl [OF passes_selected w(1,2), of E False] w(3) by (auto simp: undisturbed_def)
  have l: "idle_ctl ?l" "uart_wf (soc_uart ?l)" "ctrl_tx_en (soc_uart ?l)"
    using passes_idle_ctl [OF passes_latency w(1,2), of E] w(3) by (auto simp: undisturbed_def)
  have ne: "\<not> fifo_empty (tx_ring (soc_uart ?s))" using assms(2) by (simp add: uart_status_bits)
  have pl: "passes E ?l ?s"
    unfolding selected_def by (rule passes.clock [OF passes.stay]) (simp_all add: rx_fifo_pop_def)
  have nl: "\<not> fifo_empty (tx_ring (soc_uart ?l))" using passes_empty [OF pl l(1,2)] ne by blast
  have "(soc_uart w', soc_uart ?s) \<in> tx_order\<^sup>*"
    using passes_tx [OF after_sample s(1,2,3)] assms(3,4) by simp
  moreover have "(soc_uart ?s, soc_uart ?l) \<in> tx_order"
  proof -
    have "fifo_wf (tx_ring (soc_uart ?l))" using l(2) by (simp add: uart_wf_def)
    then have "fifo_items (tx_ring (soc_uart ?l)) \<noteq> []" using nl ring.empty_iff by blast
    then show ?thesis
      using l tx_progress [OF l(2,3)] idle_ctl_clock(3) [OF l(1) ecall_none_simps]
      by (simp add: selected_def)
  qed
  moreover have "(soc_uart ?l, soc_uart w) \<in> tx_order\<^sup>*"
    by (rule passes_tx [OF passes_latency w(1,2,3) nl])
  ultimately show ?thesis by (meson rtrancl_into_trancl2 rtrancl_trancl_trancl trancl_rtrancl_trancl)
qed

lemma status_load_soc: "status_load (soc_platform E) w = cpu_load E UART_STATUS_ADDR w"
  by (simp add: status_load_def soc_platform_def)

lemma good_status:
  assumes "soc_good E fd w"
  shows "fst (status_load (soc_platform E) w) = uart_status (soc_uart (sample E w))"
    and "soc_good E fd (snd (status_load (soc_platform E) w))"
proof -
  have w: "idle_ctl w" "uart_wf (soc_uart w)" using assms by (simp_all add: soc_good_def usable_def)
  show "fst (status_load (soc_platform E) w) = uart_status (soc_uart (sample E w))"
    using status_value [OF w] by (simp add: status_load_soc)
  have "UART_STATUS_ADDR \<noteq> UART_RX_DATA_ADDR" by (simp add: hw_defs)
  from good_passes [OF assms load_passes [OF this]]
  show "soc_good E fd (snd (status_load (soc_platform E) w))" by (simp add: status_load_soc)
qed

lemma soc_empty_comes:
  assumes "soc_good E fd w"
  shows "comes (soc_platform E) (\<lambda>v. v AND UART_ST_TX_EMPTY \<noteq> 0) w"
proof -
  have "\<forall>w. soc_uart w = u \<longrightarrow> soc_good E fd w \<longrightarrow> comes (soc_platform E) (\<lambda>v. v AND UART_ST_TX_EMPTY \<noteq> 0) w" for u
  proof (induction u rule: wf_induct_rule [OF wf_trancl [OF wf_tx_order]])
    case (1 u)
    have "comes (soc_platform E) (\<lambda>v. v AND UART_ST_TX_EMPTY \<noteq> 0) w"
      if u: "soc_uart w = u" and g: "soc_good E fd w" for w
    proof (cases "uart_status (soc_uart (sample E w)) AND UART_ST_TX_EMPTY = 0")
      case False
      then show ?thesis by (intro comes_now) (simp add: good_status(1) [OF g])
    next
      case True
      define w' where "w' = snd (status_load (soc_platform E) w)"
      have g': "soc_good E fd w'" using good_status(2) [OF g] by (simp add: w'_def)
      have "comes (soc_platform E) (\<lambda>v. v AND UART_ST_TX_EMPTY \<noteq> 0) w'"
      proof (cases "fifo_empty (tx_ring (soc_uart w'))")
        case True
        have "idle_ctl w'" "uart_wf (soc_uart w')" using g' by (simp_all add: soc_good_def usable_def)
        from passes_empty [OF passes_selected this True]
        show ?thesis
          by (intro comes_now) (simp add: good_status(1) [OF g'] uart_status_bits)
      next
        case ne: False
        have "(soc_uart w', soc_uart w) \<in> tx_order\<^sup>+"
          by (rule tx_moves [OF g True ne]) (simp add: w'_def status_load_soc)
        with 1 u g' show ?thesis by blast
      qed
      then show ?thesis unfolding w'_def by (rule comes_later)
    qed
    then show ?case by blast
  qed
  with assms show ?thesis by blast
qed

lemma comes_weaken:
  assumes "comes P c w" and "\<And>w. c (fst (status_load P w)) \<Longrightarrow> d (fst (status_load P w))"
  shows "comes P d w"
  using assms by (auto simp: comes_def)

lemma soc_room_comes:
  assumes "soc_good E fd w"
  shows "comes (soc_platform E) (\<lambda>v. v AND UART_ST_TX_FULL = 0) w"
proof -
  have "comes (soc_platform E) (\<lambda>v. v AND UART_ST_TX_FULL = 0) w"
    if "comes (soc_platform E) (\<lambda>v. v AND UART_ST_TX_EMPTY \<noteq> 0) w" and "soc_good E fd w" for w
    using that
  proof (induction rule: comes_induct)
    case (found w)
    then have "fifo_empty (tx_ring (soc_uart (sample E w)))" by (simp add: good_status(1) uart_status_bits)
    then show ?case
      using found(2)
      by (intro comes_now)
        (simp add: good_status(1) uart_status_bits fifo_empty_def fifo_full_def FIFO_DEPTH_def)
  next
    case (poll w)
    have "comes (soc_platform E) (\<lambda>v. v AND UART_ST_TX_FULL = 0) (snd (status_load (soc_platform E) w))"
      by (rule poll(2), rule good_status(2) [OF poll(3)])
    then show ?case by (rule comes_later)
  qed
  from this [OF soc_empty_comes [OF assms] assms] show ?thesis .
qed

section \<open>The typed bytes arrive\<close>

lemma clock_items:
  assumes w: "idle_ctl w" "uart_wf (soc_uart w)" and q: "\<not> (rx_fifo_pop q \<and> uart_page (apb_paddr q))"
    and e: "fifo_items (rx_ring (soc_uart (soc_clock E q ecall_none w))) = []"
  shows "fifo_items (rx_ring (soc_uart w)) = []"
    and "ctrl_rx_en (soc_uart w) \<Longrightarrow> pending w \<noteq> [] \<Longrightarrow> \<not> key_at E (now w)"
proof -
  have r: "uart_req w q = select uart_page q" by (rule idle_ctl_clock(3) [OF w(1) ecall_none_simps])
  note items = rx_items_step [OF w(2), of "select uart_page q" "rx_byte E w"]
  have np: "\<not> rx_fifo_pop (select uart_page q)" using q by (simp add: select_pop)
  show i: "fifo_items (rx_ring (soc_uart w)) = []" using e np items by (simp add: r)
  have wf: "fifo_wf (rx_ring (soc_uart w))" using w(2) by (simp add: uart_wf_def)
  have nf: "\<not> fifo_full (rx_ring (soc_uart w))" using i ring.full_iff [OF wf] by (simp add: FIFO_DEPTH_def)
  have none: "rx_byte E w = None"
    using e np items i by (simp add: r FIFO_DEPTH_def split: option.splits)
  show "ctrl_rx_en (soc_uart w) \<Longrightarrow> pending w \<noteq> [] \<Longrightarrow> \<not> key_at E (now w)"
    using none nf i by (auto simp: rx_byte_def pending_def split: if_split_asm)
qed

text \<open>Bytes wait in the FIFO until they are read, and no key arrives while it stays empty.\<close>

lemma passes_items:
  assumes "passes E w w'" and "idle_ctl w" "uart_wf (soc_uart w)" "ctrl_rx_en (soc_uart w)" "pending w \<noteq> []"
    and "fifo_items (rx_ring (soc_uart w')) = []"
  shows "fifo_items (rx_ring (soc_uart w)) = [] \<and> (\<forall>t. now w \<le> t \<and> t < now w' \<longrightarrow> \<not> key_at E t)"
  using assms
proof (induction rule: passes.induct)
  case (clock w' q)
  have w': "idle_ctl w'" "uart_wf (soc_uart w')" "undisturbed w w'"
    using passes_idle_ctl [OF clock.hyps(1) clock.prems(1,2)] by auto
  note c = clock_items [OF w'(1,2) clock.hyps(3) clock.prems(5)]
  have "ctrl_rx_en (soc_uart w')" "pending w' \<noteq> []" using w'(3) clock.prems by (simp_all add: undisturbed_def)
  from c(2) [OF this] clock.IH [OF clock.prems(1-4) c(1)] show ?case by (auto simp: less_Suc_eq)
qed auto

lemma good_usable: "soc_good E fd w \<Longrightarrow> idle_ctl w \<and> uart_wf (soc_uart w) \<and> ctrl_tx_en (soc_uart w)
    \<and> ctrl_rx_en (soc_uart w)"
  by (simp add: soc_good_def usable_def)

lemma sample_nonempty:
  assumes "soc_good E fd w" and "pending w \<noteq> []" and "fifo_items (rx_ring (soc_uart w)) \<noteq> []"
  shows "fst (status_load (soc_platform E) w) AND UART_ST_RX_EMPTY = 0"
proof -
  note g = good_usable [OF assms(1)]
  have "uart_wf (soc_uart (sample E w))" using passes_idle_ctl [OF passes_selected] g by blast
  then have wf: "fifo_wf (rx_ring (soc_uart (sample E w)))" by (simp add: uart_wf_def)
  have "fifo_items (rx_ring (soc_uart (sample E w))) \<noteq> []"
    using passes_items [OF passes_selected, of w E False UART_STATUS_ADDR 0] g assms(2,3) by auto
  then show ?thesis by (simp add: good_status(1) [OF assms(1)] uart_status_bits ring.empty_iff [OF wf])
qed

lemma soc_key_comes:
  assumes "soc_good E fd w" and "pending w \<noteq> []"
  shows "comes (soc_platform E) (\<lambda>v. v AND UART_ST_RX_EMPTY = 0) w"
proof -
  have ind: "comes (soc_platform E) (\<lambda>v. v AND UART_ST_RX_EMPTY = 0) w"
    if "soc_good E fd w" "pending w \<noteq> []" "key_at E t" "now w \<le> t" for t w
    using that
  proof (induction "t - now w" arbitrary: w rule: less_induct)
    case less
    define w' where "w' = snd (status_load (soc_platform E) w)"
    have p: "passes E w w'" and later: "now w < now w'"
      using load_passes [of UART_STATUS_ADDR E w] status_later [of w E]
      by (simp_all add: w'_def status_load_soc hw_defs)
    note g = good_usable [OF less.prems(1)]
    have g': "soc_good E fd w'" using good_status(2) [OF less.prems(1)] by (simp add: w'_def)
    have pend: "pending w' \<noteq> []" using passes_idle_ctl [OF p] g less.prems(2) by (simp add: undisturbed_def)
    have "comes (soc_platform E) (\<lambda>v. v AND UART_ST_RX_EMPTY = 0) w'"
    proof (cases "now w' \<le> t")
      case True
      with later less.prems(4) less.hyps [OF _ g' pend less.prems(3)] show ?thesis by simp
    next
      case False
      then have "fifo_items (rx_ring (soc_uart w')) \<noteq> []"
        using passes_items [OF p] g less.prems by auto
      then show ?thesis by (intro comes_now sample_nonempty [OF g' pend])
    qed
    then show ?case unfolding w'_def by (rule comes_later)
  qed
  obtain t where "now w \<le> t" "key_at E t" using assms(1) by (auto simp: soc_good_def fair_def)
  then show ?thesis using ind assms by blast
qed

section \<open>Reading a byte\<close>

text \<open>A clock without a write to the UART, whatever it reads.\<close>

lemma clock_read:
  assumes g: "soc_good E fd w" and q: "\<not> (apb_write_en q \<and> uart_page (apb_paddr q))"
  shows "soc_good E fd (soc_clock E q ecall_none w)"
    and "soc_sent (soc_clock E q ecall_none w) = soc_sent w"
proof -
  note u = good_usable [OF g]
  note c = idle_ctl_clock [OF u [THEN conjunct1] ecall_none_simps, where q = q]
  have nw: "\<not> apb_write_en (uart_req w q)" using q by (simp add: c(3))
  then have np: "\<not> tx_fifo_push (uart_req w q)" by (simp add: tx_fifo_push_def)
  show "soc_good E fd (soc_clock E q ecall_none w)"
    using g c(1,2) u by (simp add: soc_good_def usable_def same_fds_def uart_wf_step uart_step_quiet nw)
  show "soc_sent (soc_clock E q ecall_none w) = soc_sent w"
    using accepted_step [of "soc_uart w" "uart_req w q" "rx_byte E w"] u np by (simp add: soc_sent_def)
qed

lemma rx_request: "rx_fifo_pop (cpu_apb True False UART_RX_DATA_ADDR 0)"
  by (simp add: rx_fifo_pop_def reg_offset_def hw_defs)

lemma soc_key_read:
  assumes g: "soc_good E fd w" and items: "fifo_items (rx_ring (soc_uart w)) \<noteq> []" and p: "pending w = c # ys"
  shows "fst (cpu_load E UART_RX_DATA_ADDR w) = ucast c" and "pending (snd (cpu_load E UART_RX_DATA_ADDR w)) = ys"
proof -
  let ?q = "cpu_apb True False UART_RX_DATA_ADDR 0" and ?w = "selected E False UART_RX_DATA_ADDR 0 w"
  note u = good_usable [OF g]
  have w1: "idle_ctl ?w" "uart_wf (soc_uart ?w)" "undisturbed w ?w"
    using passes_idle_ctl [OF passes_selected] u by blast+
  have wf: "fifo_wf (rx_ring (soc_uart ?w))" using w1(2) by (simp add: uart_wf_def)
  have ne: "fifo_items (rx_ring (soc_uart ?w)) \<noteq> []"
    using passes_items [OF passes_selected, of w E False UART_RX_DATA_ADDR 0] u items p by auto
  have p1: "pending ?w = c # ys" using w1(3) p by (simp add: undisturbed_def)
  then have "hd (fifo_items (rx_ring (soc_uart ?w))) = c"
    and tl: "tl (fifo_items (rx_ring (soc_uart ?w))) @ keyboard ?w = ys"
    using ne by (auto simp: pending_def append_eq_Cons_conv)
  then show "fst (cpu_load E UART_RX_DATA_ADDR w) = ucast c"
    using w1(1) ring.items_front [OF wf ne]
    by (simp add: cpu_load_def Let_def idle_ctl_def apb_prdata_def uart_prdata_def reg_offset_def)
      (simp add: hw_defs)
  have "uart_req ?w ?q = select uart_page ?q" by (rule idle_ctl_clock(3) [OF w1(1) ecall_none_simps])
  then have "pending (soc_clock E ?q ecall_none ?w) = ys"
    using tl by (simp add: pending_clock [OF w1(2)] select_pop rx_request)
  moreover have "soc_good E fd ?w" using good_passes [OF g passes_selected] by blast
  then have "soc_good E fd (soc_clock E ?q ecall_none ?w)" by (intro clock_read(1)) simp_all
  note u2 = good_usable [OF this]
  ultimately show "pending (snd (cpu_load E UART_RX_DATA_ADDR w)) = ys"
    using passes_idle_ctl [OF passes_latency [of E "soc_clock E ?q ecall_none ?w"]] u2
    by (simp add: cpu_load_def Let_def accessed_def undisturbed_def)
qed

lemma soc_load_keeps:
  assumes "soc_good E fd w"
  shows "soc_good E fd (snd (cpu_load E a w)) \<and> soc_sent (snd (cpu_load E a w)) = soc_sent w"
proof (cases "a = UART_RX_DATA_ADDR")
  case False
  then show ?thesis using good_passes [OF assms load_passes] by blast
next
  case True
  let ?w = "selected E False a 0 w"
  have w1: "soc_good E fd ?w" "soc_sent ?w = soc_sent w" using good_passes [OF assms passes_selected] by blast+
  have "\<not> apb_write_en (cpu_apb True False a 0)" by simp
  with clock_read [OF w1(1), of "cpu_apb True False a 0"] w1(2)
    good_passes [OF _ passes_latency, of E fd "soc_clock E (cpu_apb True False a 0) ecall_none ?w"]
  show ?thesis using True by (simp add: cpu_load_def Let_def accessed_def)
qed

section \<open>Stores\<close>

lemma harmless_uart: "soc_harmless E a \<Longrightarrow> \<not> uart_page a"
  using page_slaves(4) [of a]
  by (auto simp: soc_harmless_def gpio_page_def clint_page_def plic_page_def rtos_page_def posix_page_def
      imem_page_def dmem_page_def uart_page_def in_page_def hw_defs word_le_nat_alt)

lemma harmless_accepted: "soc_harmless E a \<Longrightarrow> bus_accepts a"
  using page_slaves(3) [of a]
  by (auto simp: bus_accepts_def soc_harmless_def gpio_page_def clint_page_def plic_page_def rtos_page_def
      posix_page_def imem_page_def
      dmem_page_def hyperram_page_def in_page_def hw_defs word_le_nat_alt)

lemma apb_answers: "on_apb a \<Longrightarrow> bus_answers a"
  by (auto simp: bus_answers_def on_apb_def uart_page_def gpio_page_def clint_page_def rtos_page_def
      posix_page_def in_page_def hw_defs word_le_nat_alt)

lemma soc_store_keeps:
  assumes "soc_good E fd w" and "soc_harmless E a"
  shows "soc_good E fd (cpu_store E a v w) \<and> soc_sent (cpu_store E a v w) = soc_sent w
    \<and> (soc_typed w cs \<longrightarrow> soc_typed (cpu_store E a v w) cs)"
proof -
  let ?q = "cpu_apb True True a v" and ?w = "selected E True a v w"
  note w1 = good_passes [OF assms(1) passes_selected, of True a v]
  note u = good_usable [OF w1 [THEN conjunct1]]
  note c = idle_ctl_clock [OF u [THEN conjunct1] ecall_none_simps, where q = ?q]
  have nu: "\<not> uart_page a" by (rule harmless_uart [OF assms(2)])
  then have "\<not> rx_fifo_pop (uart_req ?w ?q)" by (simp add: c(3) select_pop)
  then have "pending (soc_clock E ?q ecall_none ?w) = pending ?w" using u by (simp add: pending_clock)
  then have w2: "soc_good E fd (soc_clock E ?q ecall_none ?w)"
    "soc_sent (soc_clock E ?q ecall_none ?w) = soc_sent ?w"
    "soc_typed ?w cs \<longrightarrow> soc_typed (soc_clock E ?q ecall_none ?w) cs"
    using clock_read [OF w1 [THEN conjunct1], of ?q] nu by (simp_all add: soc_typed_def)
  note w3 = good_passes [OF w2(1) passes_latency]
  note l = good_passes [OF assms(1) passes_latency]
  note l2 = good_passes [OF l [THEN conjunct1] passes_latency]
  show ?thesis
    using w1 w2 w3 l l2 by (simp add: cpu_store_def accessed_def)
qed

section \<open>The timer\<close>

lemma latency_now: "now (latency E w) \<le> now w + 65535"
proof -
  have "now (idle E n w) = now w + n" for n by (induction n) (simp_all add: idle_def)
  moreover have "unat (delay_at E (now w)) < 2 ^ LENGTH(16)" by (rule unsigned_less)
  ultimately show ?thesis by (simp add: latency_def)
qed

definition clint_reg :: "u32 \<Rightarrow> bool" where
  "clint_reg a \<longleftrightarrow> a = CLINT_BASE + CLINT_MTIME_HI \<or> a = CLINT_BASE + CLINT_MTIME_LO"

lemma clint_reg_page: "clint_reg a \<Longrightarrow> on_apb a \<and> \<not> uart_page a \<and> \<not> gpio_page a \<and> clint_page a
    \<and> a \<noteq> UART_RX_DATA_ADDR"
  by (auto simp: clint_reg_def on_apb_def uart_page_def gpio_page_def clint_page_def in_page_def hw_defs)

text \<open>A load of a half of the timer: a time between the start and the end of the load.\<close>

lemma time_load:
  assumes w: "idle_ctl w" and a: "clint_reg a"
  shows "\<exists>t. fst (cpu_load E a w) = (if a = CLINT_BASE + CLINT_MTIME_HI then hi_half else lo_half)
      (after_clocks t (mtime_r (soc_clint w)))
    \<and> t \<le> now (snd (cpu_load E a w)) - now w \<and> now (snd (cpu_load E a w)) \<le> now w + 131072
    \<and> now w \<le> now (snd (cpu_load E a w))"
proof -
  let ?w = "selected E False a 0 w" and ?t = "now (selected E False a 0 w) - now w"
  note s = passes_time [OF passes_selected [of E w False a 0] w]
  have "fst (cpu_load E a w) = (if a = CLINT_BASE + CLINT_MTIME_HI then hi_half else lo_half)
      (mtime_r (soc_clint ?w))"
    using clint_reg_page [OF a] s a
    by (auto simp: cpu_load_def Let_def idle_ctl_def apb_prdata_def clint_prdata_def clint_offset_def
        clint_reg_def hw_defs)
  moreover have snd: "snd (cpu_load E a w) = accessed E False a 0 w"
    using clint_reg_page [OF a] by (simp add: cpu_load_def Let_def)
  have "passes E ?w (accessed E False a 0 w)"
    unfolding accessed_def
    using clint_reg_page [OF a]
    by (intro passes_trans [OF passes_latency] passes.clock [OF passes.stay]) simp_all
  from passes_now [OF this] have "now ?w \<le> now (accessed E False a 0 w)" .
  moreover have "now w \<le> now ?w" by (rule passes_now [OF passes_selected])
  moreover have "now (accessed E False a 0 w) \<le> now w + 131072"
    using latency_now [of E w] latency_now [of E "soc_clock E (cpu_apb True False a 0) ecall_none ?w"]
    by (simp add: accessed_def selected_def)
  ultimately show ?thesis using s by (intro exI [of _ ?t]) (simp add: snd)
qed

lemma load_idle: "idle_ctl w \<Longrightarrow> clint_reg a \<Longrightarrow>
    idle_ctl (snd (cpu_load E a w)) \<and> mtime_r (soc_clint (snd (cpu_load E a w)))
      = after_clocks (now (snd (cpu_load E a w)) - now w) (mtime_r (soc_clint w))"
  by (rule passes_time [OF load_passes]) (simp_all add: clint_reg_page)

text \<open>One round of \<open>read_mtime\<close>: two readings of the high half within \<open>393216\<close> clocks.\<close>

lemma round_reads:
  assumes w: "idle_ctl w" and r: "time_round (soc_platform E) w = (hi1, lo, hi2, w')"
  shows "\<exists>a b d. a \<le> b \<and> b \<le> d \<and> d \<le> 393216 \<and> hi1 = hi_half (after_clocks a (mtime_r (soc_clint w)))
    \<and> hi2 = hi_half (after_clocks b (mtime_r (soc_clint w))) \<and> idle_ctl w'
    \<and> mtime_r (soc_clint w') = after_clocks d (mtime_r (soc_clint w))"
proof -
  let ?H = "CLINT_BASE + CLINT_MTIME_HI" and ?L = "CLINT_BASE + CLINT_MTIME_LO" and ?M = "mtime_r (soc_clint w)"
  define w1 where "w1 = snd (cpu_load E ?H w)"
  define w2 where "w2 = snd (cpu_load E ?L w1)"
  have regs: "clint_reg ?H" "clint_reg ?L" by (simp_all add: clint_reg_def)
  have w1: "idle_ctl w1" "mtime_r (soc_clint w1) = after_clocks (now w1 - now w) ?M"
    using load_idle [OF w regs(1)] by (simp_all add: w1_def)
  have w2: "idle_ctl w2" "mtime_r (soc_clint w2) = after_clocks (now w2 - now w1) (mtime_r (soc_clint w1))"
    using load_idle [OF w1(1) regs(2)] by (simp_all add: w2_def)
  have res: "hi1 = fst (cpu_load E ?H w)" "hi2 = fst (cpu_load E ?H w2)" "w' = snd (cpu_load E ?H w2)"
    using r by (auto simp: time_round_def soc_platform_def w2_def w1_def Let_def case_prod_beta)
  have w': "idle_ctl w'" "mtime_r (soc_clint w') = after_clocks (now w' - now w2) (mtime_r (soc_clint w2))"
    using load_idle [OF w2(1) regs(1)] by (simp_all add: res(3))
  obtain a where a: "hi1 = hi_half (after_clocks a ?M)" "a \<le> now w1 - now w" "now w1 \<le> now w + 131072" "now w \<le> now w1"
    using time_load [OF w regs(1), of E] by (auto simp: w1_def res)
  have b: "now w2 \<le> now w1 + 131072" "now w1 \<le> now w2"
    using time_load [OF w1(1) regs(2), of E] by (auto simp: w2_def)
  obtain c where c: "hi2 = hi_half (after_clocks c (mtime_r (soc_clint w2)))" "c \<le> now w' - now w2"
    "now w' \<le> now w2 + 131072" "now w2 \<le> now w'"
    using time_load [OF w2(1) regs(1), of E] by (auto simp: res)
  have "hi2 = hi_half (after_clocks (now w2 - now w + c) ?M)"
    using c(1) w1(2) w2(2) a(4) b by (simp add: after_clocks_add)
  moreover have "mtime_r (soc_clint w') = after_clocks (now w' - now w) ?M"
    using w'(2) w1(2) w2(2) a(4) b c(4) by (simp add: after_clocks_add)
  moreover have "a \<le> now w2 - now w + c" "now w2 - now w + c \<le> now w' - now w" "now w' - now w \<le> 393216"
    using a(2-4) b c(2-4) by linarith+
  ultimately show ?thesis using a(1) w'(1) by metis
qed

lemma soc_time_settles:
  assumes "idle_ctl w"
  shows "settles (soc_platform E) w"
proof -
  obtain hi1 lo hi2 w1 where r1: "time_round (soc_platform E) w = (hi1, lo, hi2, w1)"
    by (cases "time_round (soc_platform E) w") auto
  obtain hi3 lo' hi4 w2 where r2: "time_round (soc_platform E) w1 = (hi3, lo', hi4, w2)"
    by (cases "time_round (soc_platform E) w1") auto
  let ?M = "mtime_r (soc_clint w)"
  obtain a b d where r: "a \<le> b" "b \<le> d" "d \<le> 393216" "hi1 = hi_half (after_clocks a ?M)"
    "hi2 = hi_half (after_clocks b ?M)" "idle_ctl w1" "mtime_r (soc_clint w1) = after_clocks d ?M"
    using round_reads [OF assms r1] by blast
  obtain a' b' d' where r': "a' \<le> b'" "b' \<le> d'" "d' \<le> 393216" "hi3 = hi_half (after_clocks (d + a') ?M)"
    "hi4 = hi_half (after_clocks (d + b') ?M)"
    using round_reads [OF r(6) r2] r(7) by (auto simp: after_clocks_add)
  show ?thesis
  proof (cases "hi1 = hi2")
    case True
    with r1 show ?thesis by (auto intro: settles.agree)
  next
    case False
    then have "hi3 = hi4"
      using hi_half_once [of a b "d + a'" "d + b'" ?M] r r' by simp
    with r1 r2 show ?thesis by (auto intro: settles.intros)
  qed
qed

section \<open>The interfaces hold\<close>

lemma ucast_byte_low: "ucast (c :: byte) AND 0xFF = (ucast c :: u32)"
proof -
  have "unat c < 2 ^ LENGTH(8)" by (rule unsigned_less)
  then have "take_bit 8 (ucast c :: u32) = ucast c" by (intro take_bit_small) simp
  then show ?thesis by (simp add: take_bit_eq_mask mask_eq_exp_minus_1)
qed

lemma soc_write_room:
  assumes "soc_good E fd w" and "soc_room w"
  shows "\<exists>w'. soc_syscall E SYS_WRITE [fd, ucast b, 1] w = Some (0, w') \<and> soc_good E fd w'
    \<and> soc_sent w' = soc_sent w @ [b] \<and> pending w' = pending w"
proof -
  have g: "idle_ctl w" "uart_wf (soc_uart w)" "unat fd < 16" "fd_valid (soc_posix w) ! unat fd"
    "fd_base_addr (soc_posix w) ! unat fd = UART_BASE" "\<not> fifo_full (tx_ring (soc_uart w))"
    using assms by (simp_all add: soc_good_def usable_def soc_room_def MAX_FD_def)
  from write_call [OF g, of E "ucast b" 1] obtain w' where
    "soc_syscall E SYS_WRITE [fd, ucast b, 1] w = Some (0, w')" "idle_ctl w'" "same_fds w w'" "delivered b w w'"
    by auto
  with assms show ?thesis
    by (intro exI [of _ w'])
      (simp add: soc_good_def usable_def same_fds_def delivered_def soc_sent_def)
qed

lemma soc_simps [simp]:
  "load_ends (soc_platform E) a w \<longleftrightarrow> bus_answers a" "store_ends (soc_platform E) a w \<longleftrightarrow> bus_accepts a"
  "load32 (soc_platform E) = cpu_load E" "store32 (soc_platform E) = cpu_store E"
  "syscall (soc_platform E) = soc_syscall E" "csr_clear (soc_platform E) csr bits w = latency E w"
  by (simp_all add: soc_platform_def)

interpretation soc: output_port "soc_platform E" "soc_good E" soc_sent soc_room "soc_harmless E" bus_answers
  for E
proof (unfold_locales, goal_cases)
  case (1 fd w a)
  then show ?case by simp
next
  case (2 fd w a)
  then show ?case by (simp add: harmless_accepted)
next
  case 3
  show ?case by (simp add: apb_answers)
next
  case (4 fd w a v w')
  then show ?case using soc_load_keeps [of E fd w a] by simp
next
  case (5 fd w a v)
  then show ?case using soc_store_keeps [of E fd w a v] by simp
next
  case (6 fd w csr bits)
  then show ?case using good_passes [OF 6 passes_latency] by simp
next
  case (7 fd w v w')
  then have "\<not> fifo_full (tx_ring (soc_uart (sample E w)))"
    using good_status(1) [OF 7(1)] by (simp add: status_load_soc uart_status_bits)
  moreover have "undisturbed (sample E w) w'"
    using 7(1,2) passes_idle_ctl [OF after_sample, of E w] passes_idle_ctl [OF passes_selected, of w E]
    by (simp add: soc_good_def usable_def)
  ultimately show ?case by (simp add: soc_room_def undisturbed_def)
next
  case (8 fd w b)
  then show ?case using soc_write_room [OF 8, of b] by auto
next
  case (9 fd w)
  then show ?case by (rule soc_room_comes)
next
  case (10 fd w)
  then show ?case by (rule soc_empty_comes)
qed

interpretation soc: terminal "soc_platform E" "soc_good E" soc_sent soc_room "soc_harmless E" bus_answers soc_typed
  for E
proof (unfold_locales, goal_cases)
  case 1
  show ?case by (simp add: apb_answers)
next
  case (2 fd w cs a v w')
  then show ?case using good_passes [OF 2(1) load_passes [OF 2(3)]] by simp
next
  case (3 fd w cs a v)
  then show ?case using soc_store_keeps [of E fd w a v] by simp
next
  case (4 fd w cs csr bits)
  then show ?case using good_passes [OF 4(1) passes_latency] by simp
next
  case (5 fd w cs b r w')
  then show ?case using soc_write_room [OF 5(1,3), of b] by (auto simp: soc_typed_def)
next
  case (6 fd w c cs)
  then show ?case by (intro soc_key_comes [OF 6(1)]) (auto simp: soc_typed_def)
next
  case (7 fd w c cs v w' d w'')
  obtain ys where p: "pending w = c # cs @ ys" using 7(2) by (auto simp: soc_typed_def)
  have w': "w' = snd (cpu_load E UART_STATUS_ADDR w)" "soc_good E fd w'"
    using 7(3) soc_load_keeps [OF 7(1), of UART_STATUS_ADDR] by simp_all
  have s: "idle_ctl (sample E w)" "undisturbed w (sample E w)" "uart_wf (soc_uart (sample E w))"
    "ctrl_rx_en (soc_uart (sample E w))"
    using passes_idle_ctl [OF passes_selected] good_usable [OF 7(1)] by (auto simp: undisturbed_def)
  have "\<not> fifo_empty (rx_ring (soc_uart (sample E w)))"
    using 7(3,4) good_status(1) [OF 7(1)] by (simp add: status_load_soc uart_status_bits)
  then have "fifo_items (rx_ring (soc_uart (sample E w))) \<noteq> []"
    using s(3) ring.empty_iff by (simp add: uart_wf_def)
  moreover have "pending (sample E w) = c # cs @ ys" using s(2) p by (simp add: undisturbed_def)
  ultimately have "fifo_items (rx_ring (soc_uart w')) \<noteq> []"
    using passes_items [OF after_sample s(1,3,4)] w'(1) by auto
  moreover have "pending w' = c # cs @ ys"
    using passes_idle_ctl [OF load_passes, of UART_STATUS_ADDR w E] good_usable [OF 7(1)] p w'(1)
    by (simp add: undisturbed_def hw_defs)
  ultimately show ?case
    using soc_key_read [OF w'(2), of c "cs @ ys"] 7(5) by (auto simp: ucast_byte_low soc_typed_def)
qed

interpretation soc: timed_terminal "soc_platform E" "soc_good E" soc_sent soc_room "soc_harmless E" bus_answers soc_typed
  for E
proof (unfold_locales, goal_cases)
  case (1 fd w)
  then show ?case by (intro soc_time_settles) (simp add: good_usable)
next
  case 2
  show ?case
    by (simp add: device_regs_def apb_answers on_apb_def uart_page_def gpio_page_def clint_page_def in_page_def hw_defs)
next
  case 3
  show ?case by (simp add: soc_harmless_def gpio_page_def in_page_def hw_defs)
qed

text \<open>Accesses that the bus does not end, in no state.\<close>

lemma soc_never:
  "\<not> bus_answers a \<Longrightarrow> soc.never_loads E a" "\<not> bus_accepts a \<Longrightarrow> soc.never_stores E a"
  by (simp_all add: soc.never_loads_def soc.never_stores_def)

lemma rtos_page_hangs: "rtos_page a \<Longrightarrow> \<not> bus_answers a"
  by (simp add: bus_answers_def)

lemma hyperram_page_hangs: "hyperram_page a \<Longrightarrow> \<not> bus_accepts a"
  by (simp add: bus_accepts_def)

end
