(* ===== verification/Soc_Files.thy ===== *)
theory Soc_Files
  imports Soc
begin

text \<open>
  The file calls of the C library on the SoC against an abstract descriptor table: a finite map
  from descriptors to device types. The layer implements \<open>open\<close> and \<open>close\<close> on it.
\<close>

section \<open>The abstract table\<close>

type_synonym fd_table = "nat \<Rightarrow> u32 option"

definition table_of :: "posix \<Rightarrow> fd_table" where
  "table_of p i = (if i < MAX_FD \<and> fd_valid p ! i then Some (fd_type_r p ! i) else None)"

definition soc_table :: "soc \<Rightarrow> fd_table" where
  "soc_table w = table_of (soc_posix w)"

text \<open>The lowest descriptor from 3 on that is not in use.\<close>

definition lowest_free :: "fd_table \<Rightarrow> nat option" where
  "lowest_free m = (case filter (\<lambda>i. m i = None) [3..<MAX_FD] of [] \<Rightarrow> None | i # _ \<Rightarrow> Some i)"

text \<open>
  \<open>open\<close>: a device type above 4 is refused, but the descriptor is taken all the same.
\<close>

definition open_spec :: "u32 \<Rightarrow> fd_table \<Rightarrow> u32 \<times> fd_table" where
  "open_spec t m =
     (let dev = t AND 7 in
      (if dev > 4 then POSIX_ENOENT
       else case lowest_free m of None \<Rightarrow> POSIX_EMFILE | Some i \<Rightarrow> of_nat i,
       case lowest_free m of None \<Rightarrow> m | Some i \<Rightarrow> m(i \<mapsto> dev)))"

definition close_spec :: "u32 \<Rightarrow> fd_table \<Rightarrow> u32 \<times> fd_table" where
  "close_spec fd m =
     (if m (unat fd) = None then (POSIX_EBADF, m)
      else if unat fd < 3 then (POSIX_EPERM, m)
      else (0, m(unat fd := None)))"

definition lseek_spec :: "u32 \<Rightarrow> u32 \<Rightarrow> fd_table \<Rightarrow> u32" where
  "lseek_spec fd offset m =
     (case m (unat fd) of
        None \<Rightarrow> POSIX_EBADF
      | Some t \<Rightarrow> if t = FD_TYPE_MEM then offset else POSIX_ESPIPE)"

section \<open>The layer implements it\<close>

lemma lowest_free_idx:
  "lowest_free (table_of p) = (if free_fd_idx p < MAX_FD then Some (free_fd_idx p) else None)"
proof -
  have eq: "filter (\<lambda>i. table_of p i = None) [3..<MAX_FD] = filter (\<lambda>i. \<not> fd_valid p ! i) [3..<MAX_FD]"
    by (rule filter_cong) (auto simp: table_of_def)
  show ?thesis
  proof (cases "filter (\<lambda>i. \<not> fd_valid p ! i) [3..<MAX_FD]")
    case Nil
    then show ?thesis unfolding lowest_free_def eq free_fd_idx_def by simp
  next
    case (Cons i js)
    have "i \<in> set (filter (\<lambda>i. \<not> fd_valid p ! i) [3..<MAX_FD])" by (simp only: Cons) simp
    then have "i < MAX_FD" by simp
    then show ?thesis unfolding lowest_free_def eq free_fd_idx_def Cons by simp
  qed
qed

lemma lowest_free_SomeD:
  assumes "lowest_free m = Some i"
  shows "3 \<le> i \<and> i < MAX_FD \<and> m i = None"
proof -
  obtain js where "filter (\<lambda>i. m i = None) [3..<MAX_FD] = i # js"
    using assms by (auto simp: lowest_free_def split: list.split_asm)
  then have "i \<in> set (filter (\<lambda>i. m i = None) [3..<MAX_FD])" by simp
  then show ?thesis by simp
qed

text \<open>A state the calls are made in.\<close>

definition serving :: "soc \<Rightarrow> bool" where
  "serving w \<longleftrightarrow> idle_ctl w \<and> uart_wf (soc_uart w) \<and> fd_wf (soc_posix w) \<and> std_open (soc_posix w)
     \<and> fd_based (soc_posix w)"

lemma fds_after_wf:
  assumes "fds_after c w w'" and "serving w"
  shows "fd_wf (soc_posix w')" "std_open (soc_posix w')" "fd_based (soc_posix w')"
proof -
  let ?q = "with_args c (soc_posix w)"
  have "fd_wf ?q" "std_open ?q" "fd_based ?q"
    using assms(2) by (simp_all add: serving_def fd_wf_def std_open_def fd_based_def)
  note t = fd_update_table [OF this(1) refl refl refl refl] this(2,3)
  show "fd_wf (soc_posix w')" "std_open (soc_posix w')" "fd_based (soc_posix w')"
    using assms(1) t by (simp_all add: fds_after_def Let_def fd_wf_def std_open_def fd_based_def)
qed

lemma table_with_args [simp]: "table_of (with_args c p) = table_of p"
  by (simp add: table_of_def fun_eq_iff)

lemma fds_after_table: "fds_after c w w' \<Longrightarrow>
    soc_table w' = table_of (fd_update (with_args c (soc_posix w)) (with_args c (soc_posix w)))"
  by (simp add: soc_table_def table_of_def fun_eq_iff fds_after_def Let_def)

lemma open_table:
  assumes "syscall_subop p = 0" and "state_r p = S_FILE_OP" and "fd_wf p"
  shows "table_of (fd_update p p) = snd (open_spec (latched_arg0 p) (table_of p))"
    and "file_result p = fst (open_spec (latched_arg0 p) (table_of p))"
  using assms
  by (auto simp: fd_update_def open_spec_def lowest_free_idx Let_def table_of_def fun_eq_iff nth_update
      fd_wf_def device_type_def file_result_def not_less not_le)

lemma table_lookup: "table_of p (unat (latched_arg0 p)) \<noteq> None \<longleftrightarrow> fd_open p"
    "fd_open p \<Longrightarrow> fd_index p = unat (latched_arg0 p) \<and> unat (latched_arg0 p) < MAX_FD"
  by (auto simp: table_of_def fd_open_def fd_index_def MAX_FD_def)

lemma close_table:
  assumes "syscall_subop p = 1" and "state_r p = S_FILE_OP" and "fd_wf p"
  shows "table_of (fd_update p p) = snd (close_spec (latched_arg0 p) (table_of p))"
    and "file_result p = fst (close_spec (latched_arg0 p) (table_of p))"
proof -
  have none: "table_of p (unat (latched_arg0 p)) = None \<longleftrightarrow> \<not> fd_open p" using table_lookup(1) by blast
  show "table_of (fd_update p p) = snd (close_spec (latched_arg0 p) (table_of p))"
  proof (cases "fd_open p")
    case True
    with assms none table_lookup(2) [OF True] show ?thesis
      by (auto simp: fd_update_def close_spec_def table_of_def fun_eq_iff nth_update fd_wf_def)
  next
    case False
    with assms none show ?thesis by (simp add: fd_update_def close_spec_def)
  qed
  show "file_result p = fst (close_spec (latched_arg0 p) (table_of p))"
    using assms table_lookup(2) [of p]
    by (auto simp: file_result_def close_spec_def none Let_def)
qed

section \<open>The calls\<close>

text \<open>A call of the C library: the result, the world after it, and the event in the trace.\<close>

definition sys_returns ::
  "u32 \<Rightarrow> u32 list \<Rightarrow> u32 \<Rightarrow> soc \<Rightarrow> (soc, 'x) machine_scheme \<Rightarrow> (u32 \<times> (soc, 'x) machine_scheme) option \<Rightarrow> bool"
  where
  "sys_returns num args r w' s res \<longleftrightarrow>
     res = Some (r, s\<lparr>hw := w', trace := trace s @ [Ecall num args r]\<rparr>)"

lemma ecall_returns: "soc_syscall E num args (hw s) = Some (r, w') \<Longrightarrow>
    sys_returns num args r w' s (ecall (soc_platform E) num args s)"
  by (simp add: sys_returns_def ecall_def)

lemma file_call_internal:
  assumes w: "serving w" and num: "call_state num = S_FILE_OP" and op: "unat (ucast num :: byte) mod 16 \<notin> {2, 3, 4}"
  shows "\<exists>w'. soc_syscall E num args w = Some (file_result (with_args (ecall_for E num args w) (soc_posix w)), w')
    \<and> serving w' \<and> undisturbed w w'
    \<and> soc_table w' = table_of (fd_update (with_args (ecall_for E num args w) (soc_posix w))
        (with_args (ecall_for E num args w) (soc_posix w)))"
proof -
  have "idle_ctl w" "uart_wf (soc_uart w)" using w by (simp_all add: serving_def)
  from internal_call [OF this, of num "ecall_for E num args w" E args] num op obtain w' where
    w': "soc_syscall E num args w = Some (file_result (with_args (ecall_for E num args w) (soc_posix w)), w')"
      "idle_ctl w'" "undisturbed w w'" "fds_after (ecall_for E num args w) w w'"
    by (auto simp: file_call_def)
  have "serving w'"
    using w' fds_after_wf [OF w'(4) w] by (simp add: serving_def undisturbed_def)
  with w' fds_after_table [OF w'(4)] show ?thesis by blast
qed

theorem open_refines:
  assumes "serving (hw s)"
  shows "\<exists>w'. sys_returns SYS_OPEN [t, flags] (fst (open_spec t (soc_table (hw s)))) w' s
      (posix_open (soc_platform E) t flags s)
    \<and> soc_table w' = snd (open_spec t (soc_table (hw s))) \<and> serving w' \<and> undisturbed (hw s) w'"
proof -
  let ?p = "with_args (ecall_for E SYS_OPEN [t, flags] (hw s)) (soc_posix (hw s))"
  have wf: "fd_wf ?p" "syscall_subop ?p = 0" "state_r ?p = S_FILE_OP"
    using assms by (simp_all add: serving_def fd_wf_def syscall_subop_def posix_defs)
  have "call_state SYS_OPEN = S_FILE_OP"
    by (simp add: call_state_def decode_state_def syscall_category_def posix_defs)
  from file_call_internal [OF assms this, of E "[t, flags]"] obtain w' where
    w': "soc_syscall E SYS_OPEN [t, flags] (hw s) = Some (file_result ?p, w')" "serving w'"
      "undisturbed (hw s) w'" "soc_table w' = table_of (fd_update ?p ?p)"
    by (auto simp: posix_defs)
  then show ?thesis
    using open_table [OF wf(2,3,1)] ecall_returns [OF w'(1)]
    by (auto simp: posix_open_def syscall2_def soc_table_def)
qed

theorem close_refines:
  assumes "serving (hw s)"
  shows "\<exists>w'. sys_returns SYS_CLOSE [fd] (fst (close_spec fd (soc_table (hw s)))) w' s
      (posix_close (soc_platform E) fd s)
    \<and> soc_table w' = snd (close_spec fd (soc_table (hw s))) \<and> serving w' \<and> undisturbed (hw s) w'"
proof -
  let ?p = "with_args (ecall_for E SYS_CLOSE [fd] (hw s)) (soc_posix (hw s))"
  have wf: "fd_wf ?p" "syscall_subop ?p = 1" "state_r ?p = S_FILE_OP"
    using assms by (simp_all add: serving_def fd_wf_def syscall_subop_def posix_defs)
  have "call_state SYS_CLOSE = S_FILE_OP"
    by (simp add: call_state_def decode_state_def syscall_category_def posix_defs)
  from file_call_internal [OF assms this, of E "[fd]"] obtain w' where
    w': "soc_syscall E SYS_CLOSE [fd] (hw s) = Some (file_result ?p, w')" "serving w'"
      "undisturbed (hw s) w'" "soc_table w' = table_of (fd_update ?p ?p)"
    by (auto simp: posix_defs)
  then show ?thesis
    using close_table [OF wf(2,3,1)] ecall_returns [OF w'(1)]
    by (auto simp: posix_close_def syscall1_def soc_table_def)
qed

theorem lseek_refines:
  assumes "serving (hw s)"
  shows "\<exists>w'. sys_returns SYS_LSEEK [fd, offset, whence] (lseek_spec fd offset (soc_table (hw s))) w' s
      (lseek (soc_platform E) fd offset whence s)
    \<and> soc_table w' = soc_table (hw s) \<and> serving w' \<and> undisturbed (hw s) w'"
proof -
  let ?p = "with_args (ecall_for E SYS_LSEEK [fd, offset, whence] (hw s)) (soc_posix (hw s))"
  have op: "syscall_subop ?p = 5" by (simp add: syscall_subop_def posix_defs)
  have "call_state SYS_LSEEK = S_FILE_OP"
    by (simp add: call_state_def decode_state_def syscall_category_def posix_defs)
  from file_call_internal [OF assms this, of E "[fd, offset, whence]"] obtain w' where
    w': "soc_syscall E SYS_LSEEK [fd, offset, whence] (hw s) = Some (file_result ?p, w')" "serving w'"
      "undisturbed (hw s) w'" "soc_table w' = table_of (fd_update ?p ?p)"
    by (auto simp: posix_defs)
  have "file_result ?p = lseek_spec fd offset (table_of ?p)"
    using op table_lookup [of ?p]
    by (auto simp: file_result_def Let_def lseek_spec_def table_of_def split: option.splits)
  moreover have "fd_update ?p ?p = ?p" using op by (simp add: fd_update_def)
  ultimately show ?thesis
    using w' ecall_returns [OF w'(1)] by (auto simp: lseek_def syscall3_def soc_table_def)
qed

text \<open>A write to a descriptor that is not open delivers nothing.\<close>

theorem write_bad_fd:
  assumes "serving (hw s)" and "soc_table (hw s) (unat fd) = None"
  shows "\<exists>w'. sys_returns SYS_WRITE [fd, v, n] POSIX_EBADF w' s (syscall3 (soc_platform E) SYS_WRITE fd v n s)
    \<and> soc_table w' = soc_table (hw s) \<and> serving w' \<and> undisturbed (hw s) w'"
proof -
  let ?c = "ecall_for E SYS_WRITE [fd, v, n] (hw s)"
  let ?p = "with_args ?c (soc_posix (hw s))"
  have bad: "\<not> fd_open ?p" using assms(2) table_lookup(1) [of ?p] by (simp add: soc_table_def)
  have op: "syscall_subop ?p = 3" by (simp add: syscall_subop_def posix_defs)
  have num: "file_call SYS_WRITE"
    by (simp add: file_call_def call_state_def decode_state_def syscall_category_def posix_defs)
  have "idle_ctl (hw s)" "uart_wf (soc_uart (hw s))" using assms by (simp_all add: serving_def)
  from internal_call [OF this num refl] bad obtain w' where
    w': "soc_syscall E SYS_WRITE [fd, v, n] (hw s) = Some (file_result ?p, w')" "idle_ctl w'"
      "undisturbed (hw s) w'" "fds_after ?c (hw s) w'" by blast
  have "file_result ?p = POSIX_EBADF" using bad op by (simp add: file_result_def)
  moreover have "soc_table w' = soc_table (hw s)"
    unfolding fds_after_table [OF w'(4)] using op by (simp add: fd_update_def soc_table_def)
  moreover have "serving w'"
    using w' fds_after_wf [OF w'(4) assms(1)] by (simp add: serving_def undisturbed_def)
  ultimately show ?thesis using ecall_returns [OF w'(1)] w'(3) by (auto simp: syscall3_def)
qed

section \<open>Consequences\<close>

text \<open>The descriptor that \<open>open\<close> returns is the one that \<open>close\<close> frees.\<close>

lemma open_close_spec:
  assumes "lowest_free m = Some i" and "t AND 7 \<le> 4"
  shows "fst (open_spec t m) = of_nat i" and "close_spec (of_nat i) (snd (open_spec t m)) = (0, m)"
    and "snd (open_spec t m) i = Some (t AND 7)"
proof -
  have i: "3 \<le> i" "i < 16" "m i = None" using lowest_free_SomeD [OF assms(1)] by (simp_all add: MAX_FD_def)
  have n: "unat (of_nat i :: u32) = i" using i by (intro unat_of_nat_small) simp
  have dev: "\<not> 4 < t AND 7" using assms(2) by (simp only: not_less)
  show "fst (open_spec t m) = of_nat i" "snd (open_spec t m) i = Some (t AND 7)"
    using assms(1) dev by (simp_all add: open_spec_def Let_def)
  have "m(i := None) = m" using i by (simp add: fun_eq_iff)
  then show "close_spec (of_nat i) (snd (open_spec t m)) = (0, m)"
    using i assms(1) by (simp add: open_spec_def Let_def close_spec_def n)
qed

lemma open_close_roundtrip:
  assumes "serving (hw s)" and "lowest_free (soc_table (hw s)) \<noteq> None" and "t AND 7 \<le> 4"
  shows "returns (\<lambda>(r, s'). r = 0 \<and> soc_table (hw s') = soc_table (hw s) \<and> serving (hw s')
      \<and> undisturbed (hw s) (hw s'))
    (do { (fd, s') \<leftarrow> posix_open (soc_platform E) t flags s; posix_close (soc_platform E) fd s' })"
proof -
  obtain i where i: "lowest_free (soc_table (hw s)) = Some i" using assms(2) by blast
  note spec = open_close_spec [OF i assms(3)]
  obtain w1 where o: "sys_returns SYS_OPEN [t, flags] (of_nat i) w1 s (posix_open (soc_platform E) t flags s)"
    "soc_table w1 = snd (open_spec t (soc_table (hw s)))" "serving w1" "undisturbed (hw s) w1"
    using open_refines [OF assms(1), of t flags E] spec(1) by auto
  define s1 where "s1 = s\<lparr>hw := w1, trace := trace s @ [Ecall SYS_OPEN [t, flags] (of_nat i)]\<rparr>"
  have "serving (hw s1)" using o(3) by (simp add: s1_def)
  from close_refines [OF this, of "of_nat i" E] obtain w2 where
    c: "sys_returns SYS_CLOSE [of_nat i] 0 w2 s1 (posix_close (soc_platform E) (of_nat i) s1)"
      "soc_table w2 = soc_table (hw s)" "serving w2" "undisturbed w1 w2"
    using o(2) spec(2) by (auto simp: s1_def)
  show ?thesis
    using o(1) c undisturbed_trans [OF o(4) c(4)] by (simp add: sys_returns_def s1_def)
qed

section \<open>The shell on the SoC\<close>

text \<open>Ready to boot: the calls are served, the UART is on, and a descriptor is free.\<close>

definition bootable :: "soc \<Rightarrow> bool" where
  "bootable w \<longleftrightarrow> serving w \<and> ctrl_tx_en (soc_uart w) \<and> ctrl_rx_en (soc_uart w)
     \<and> lowest_free (soc_table w) \<noteq> None"

lemma soc_reset_bootable: "bootable (soc_reset ks)"
proof -
  have "serving (soc_reset ks)"
    using posix_reset_table uart_reset_wf
    by (simp add: serving_def soc_reset_def idle_ctl_def posix_reset_def bridge_reset_def)
  moreover have "lowest_free (soc_table (soc_reset ks)) = Some 3"
    by (simp add: lowest_free_def soc_table_def table_of_def soc_reset_def posix_reset_def MAX_FD_def
        upt_rec nth_append)
  ultimately show ?thesis by (simp add: bootable_def soc_reset_def uart_reset_def)
qed

lemma small_descriptor:
  assumes "i < 16"
  shows "unat (of_nat i :: u32) = i" and "0 \<le> sint (of_nat i :: u32)"
proof -
  show n: "unat (of_nat i :: u32) = i" using assms by (intro unat_of_nat_small) simp
  then have "uint (of_nat i :: u32) = int i" by (simp only: uint_nat)
  then have "sint (of_nat i :: u32) = signed_take_bit 31 (int i)" by (simp add: sint_uint)
  also have "\<dots> = int i" using assms by (intro signed_take_bit_int_eq_self) simp_all
  finally show "0 \<le> sint (of_nat i :: u32)" by simp
qed

lemma uart_opens:
  assumes "bootable (hw s)" and "fair E"
  shows "\<exists>fd w'. opens (soc_platform E) s fd (s\<lparr>hw := w', trace := trace s @ [Ecall SYS_OPEN [FD_TYPE_UART, 0] fd]\<rparr>)
    \<and> 0 \<le> sint fd \<and> soc_good E fd w' \<and> soc_sent w' = soc_sent (hw s) \<and> pending w' = pending (hw s)"
proof -
  have b: "serving (hw s)" "lowest_free (soc_table (hw s)) \<noteq> None" using assms(1) by (simp_all add: bootable_def)
  then obtain i where i: "lowest_free (soc_table (hw s)) = Some i" by blast
  have dev: "FD_TYPE_UART AND 7 = FD_TYPE_UART" "FD_TYPE_UART \<le> 4" by (simp_all add: posix_defs)
  note spec = open_close_spec [OF i, of FD_TYPE_UART, unfolded dev(1), OF dev(2)]
  have ib: "i < 16" using lowest_free_SomeD [OF i] by (simp add: MAX_FD_def)
  note n = small_descriptor [OF ib]
  obtain w' where o: "sys_returns SYS_OPEN [FD_TYPE_UART, 0] (of_nat i) w' s (posix_open (soc_platform E) FD_TYPE_UART 0 s)"
    "soc_table w' i = Some FD_TYPE_UART" "serving w'" "undisturbed (hw s) w'"
    using open_refines [OF b(1), of FD_TYPE_UART 0 E] spec by auto
  have "fd_valid (soc_posix w') ! i" "fd_type_r (soc_posix w') ! i = FD_TYPE_UART"
    using o(2) by (simp_all add: soc_table_def table_of_def split: if_split_asm)
  moreover from this have "fd_base_addr (soc_posix w') ! i = UART_BASE"
    using o(3) ib by (simp add: serving_def fd_based_def MAX_FD_def get_device_base_def)
  ultimately have "soc_good E (of_nat i) w'"
    using o(3,4) assms ib n
    by (simp add: soc_good_def usable_def bootable_def serving_def MAX_FD_def undisturbed_def)
  then show ?thesis
    using o(1,4) n(2) by (auto simp: opens_def sys_returns_def soc_sent_def undisturbed_def)
qed

lemma main_opens:
  assumes boot: "bootable (hw s)" "fair E" "sized s" "fit s" and ks: "pending (hw s) = ks @ later"
  shows "\<exists>fd s1. opens (soc_platform E) s fd s1 \<and> 0 \<le> sint fd \<and> ready (soc_good E) (s1\<lparr>uart_fd := fd\<rparr>)
    \<and> fit s1 \<and> soc_typed (hw s1) ks \<and> soc_sent (hw s1) = soc_sent (hw s)"
proof -
  from uart_opens [OF boot(1,2)] obtain fd w' where
    o: "opens (soc_platform E) s fd (s\<lparr>hw := w', trace := trace s @ [Ecall SYS_OPEN [FD_TYPE_UART, 0] fd]\<rparr>)"
    and w': "0 \<le> sint fd" "soc_good E fd w'" "soc_sent w' = soc_sent (hw s)" "pending w' = pending (hw s)"
    by blast
  then show ?thesis
    by (intro exI [of _ fd] exI [of _ "s\<lparr>hw := w', trace := trace s @ [Ecall SYS_OPEN [FD_TYPE_UART, 0] fd]\<rparr>"])
      (use boot(3,4) ks in \<open>simp add: ready_def sized_def fit_def soc_typed_def\<close>)
qed

theorem shell_on_soc:
  assumes boot: "bootable (hw s)" "fair E" "sized s" "fit s"
    and ks: "leaves (soc_harmless E) bus_answers ks" "pending (hw s) = ks @ later"
  shows "returns (\<lambda>(r, s'). \<exists>a os rest. r = Jumped a \<and> session ks os a rest
      \<and> soc_sent (hw s') = soc_sent (hw s) @ banner_text @ texts os) (shell_main (soc_platform E) s)"
proof -
  from main_opens [OF boot ks(2)] obtain fd s1 where
    o: "opens (soc_platform E) s fd s1" "0 \<le> sint fd" "ready (soc_good E) (s1\<lparr>uart_fd := fd\<rparr>)" "fit s1"
    and w: "soc_typed (hw s1) ks" "soc_sent (hw s1) = soc_sent (hw s)" by blast
  from soc.main_said [OF o ks(1) w(1)] show ?thesis
    by (rule returns_mono) (auto simp: reached_def said_def w(2))
qed

text \<open>A session that comes to an access that the bus does not end.\<close>

theorem shell_sticks:
  assumes boot: "bootable (hw s)" "fair E" "sized s" "fit s"
    and ks: "sticks (soc_harmless E) (\<lambda>a. \<not> bus_accepts a) bus_answers ks" "pending (hw s) = ks @ later"
  shows "shell_main (soc_platform E) s = None"
proof -
  from main_opens [OF boot ks(2)] obtain fd s1 where
    o: "opens (soc_platform E) s fd s1" "0 \<le> sint fd" "ready (soc_good E) (s1\<lparr>uart_fd := fd\<rparr>)" "fit s1"
    and w: "soc_typed (hw s1) ks" by blast
  show ?thesis by (rule soc.main_hangs [OF o ks(1) w]) (use soc_never in blast)+
qed

end
