(* ===== verification/Soc_Safety.thy ===== *)
theory Soc_Safety
  imports Soc_Calls "HOL-Library.Sublist"
begin

text \<open>
  What holds in every state of the SoC from reset on, whatever the core puts on the bus and
  whatever calls it makes: the invariants of the FIFOs, of the descriptor table and of the handshake
  between the layer and the bridge, and what never happens to the bytes the UART has accepted.
\<close>

section \<open>Reachable states\<close>

text \<open>One clock after the other, with any bus request and any call at each.\<close>

inductive powered :: "env \<Rightarrow> soc \<Rightarrow> bool" for E where
  reset: "powered E (soc_reset ks)"
| clock: "powered E w \<Longrightarrow> powered E (soc_clock E q c w)"

inductive runs :: "env \<Rightarrow> soc \<Rightarrow> soc \<Rightarrow> bool" for E w where
  stay: "runs E w w"
| tick: "runs E w w' \<Longrightarrow> runs E w (soc_clock E q c w')"

inductive_cases runsE: "runs E w w'"

lemma runs_powered: "runs E w w' \<Longrightarrow> powered E w \<Longrightarrow> powered E w'"
  by (induction rule: runs.induct) (auto intro: powered.intros)

lemma runs_trans: "runs E w' w'' \<Longrightarrow> runs E w w' \<Longrightarrow> runs E w w''"
  by (induction rule: runs.induct) (auto intro: runs.intros)

text \<open>The states of the program's steps are among them.\<close>

lemma passes_runs: "passes E w w' \<Longrightarrow> runs E w w'"
  by (induction rule: passes.induct) (auto intro: runs.intros)

lemma latency_runs: "runs E w (latency E w)"
  by (rule passes_runs [OF passes_latency])

lemma cpu_store_runs: "runs E w (cpu_store E a v w)"
proof -
  have sel: "runs E w (selected E wr a d w)" for wr d w by (rule passes_runs [OF passes_selected])
  have "runs E w (accessed E True a v w)"
    unfolding accessed_def by (rule runs_trans [OF latency_runs runs.tick [OF sel]])
  then show ?thesis by (simp add: cpu_store_def runs_trans [OF latency_runs latency_runs])
qed

section \<open>Invariants\<close>

definition soc_inv :: "soc \<Rightarrow> bool" where
  "soc_inv w \<longleftrightarrow> uart_wf (soc_uart w) \<and> fd_wf (soc_posix w) \<and> std_open (soc_posix w)
     \<and> fd_based (soc_posix w) \<and> lockstep w"

lemma soc_inv_reset: "soc_inv (soc_reset ks)"
  by (simp add: soc_inv_def soc_reset_def uart_reset_wf posix_reset_table lockstep_def bridge_reset_def)
    (simp add: posix_reset_def)

lemma soc_inv_clock: "soc_inv w \<Longrightarrow> soc_inv (soc_clock E q c w)"
  by (simp add: soc_inv_def uart_wf_step posix_step_table lockstep_clock)

lemma powered_inv: "powered E w \<Longrightarrow> soc_inv w"
  by (induction rule: powered.induct) (simp_all add: soc_inv_reset soc_inv_clock)

lemma powered_bounds:
  assumes "powered E w"
  shows "length (fifo_items (tx_ring (soc_uart w))) \<le> FIFO_DEPTH"
    and "length (fifo_items (rx_ring (soc_uart w))) \<le> FIFO_DEPTH"
  using powered_inv [OF assms]
  by (simp_all add: soc_inv_def uart_wf_def fifo_wf_def fifo_items_def FIFO_DEPTH_def)

section \<open>The bytes the UART has accepted\<close>

text \<open>
  A write to a full FIFO is dropped; otherwise every clock keeps the bytes accepted so far, in order,
  and adds the byte written.
\<close>

lemma accepted_clock:
  assumes "uart_wf u"
  shows "accepted (uart_step q rx u)
    = accepted u @ (if tx_fifo_push q \<and> \<not> fifo_full (tx_ring u) then [ucast (apb_pwdata q)] else [])"
proof (cases "tx_fifo_push q \<and> fifo_full (tx_ring u)")
  case False
  with accepted_step [OF assms, of q rx] show ?thesis by auto
next
  case True
  have wf: "fifo_wf (tx_ring u)" using assms by (simp add: uart_wf_def)
  have ring: "fifo_step True (ucast (apb_pwdata q)) pop (tx_ring u) = fifo_step False b pop (tx_ring u)" for pop b
    using True by (simp add: fifo_step_def Let_def)
  have "accepted (uart_step q rx u) = accepted (uart_step apb_none rx u)"
    using True ring by (simp add: accepted_def uart_step_def Let_def tx_fifo_push_def [of apb_none])
  with accepted_step [OF assms, of apb_none rx] True show ?thesis
    by (simp add: tx_fifo_push_def [of apb_none])
qed

lemma runs_accepted:
  assumes "runs E w w'" and "uart_wf (soc_uart w)"
  shows "uart_wf (soc_uart w') \<and> prefix (accepted (soc_uart w)) (accepted (soc_uart w'))"
  using assms
  by (induction rule: runs.induct) (auto simp: uart_wf_step accepted_clock intro: prefix_prefix)

text \<open>A descriptor that is open stays open, on the same device, as long as nobody closes it.\<close>

definition closing :: "posix \<Rightarrow> bool" where
  "closing p \<longleftrightarrow> state_r p = S_FILE_OP \<and> syscall_subop p = 1"

lemma open_clock:
  assumes "fd_wf (soc_posix w)" and "\<not> closing (soc_posix w)" and "i < MAX_FD" and "fd_valid (soc_posix w) ! i"
  shows "fd_valid (soc_posix (soc_clock E q c w)) ! i"
  using assms by (auto simp: closing_def fd_wf_def intro!: fd_stays_open)

end
