(* ===== verification/Soc_Shell.thy ===== *)
theory Soc_Shell
  imports Soc_Files Soc_Safety
begin

text \<open>
  The shell of sw/examples/shell.c on the SoC, for the statements about the whole system: names for
  the console predicates at the SoC, and one concrete machine, just after reset with a user who types
  whenever there is room.
\<close>

section \<open>The console of the SoC\<close>

text \<open>
  \<open>shell_ready E s\<close>: the descriptor in \<open>uart_fd\<close> is open on the UART, the UART is on, no call is in
  progress, and the user types in the end. \<open>shell_did E s os s'\<close>: from \<open>s\<close> to \<open>s'\<close> the program did
  \<open>os\<close>: this is what the events in its trace mean, the texts in \<open>os\<close> are the bytes the UART accepted
  in this time, and the keys in \<open>os\<close> have been taken from what the user types. \<open>shell_reached\<close>: the
  same, for a stretch of the program that may also have changed its command line.
\<close>

abbreviation shell_ready :: "env \<Rightarrow> soc shell \<Rightarrow> bool" where
  "shell_ready E \<equiv> ready (soc_good E)"

abbreviation shell_did :: "env \<Rightarrow> soc shell \<Rightarrow> obs list \<Rightarrow> soc shell \<Rightarrow> bool" where
  "shell_did E \<equiv> said (soc_good E) soc_sent soc_typed"

abbreviation shell_reached :: "env \<Rightarrow> soc shell \<Rightarrow> obs list \<Rightarrow> soc shell \<Rightarrow> bool" where
  "shell_reached E \<equiv> reached (soc_good E) soc_sent soc_typed"

section \<open>One machine\<close>

text \<open>
  The core does not answer the RTOS, and nobody writes to its registers; the program leaves the last
  4096 bytes of the instruction memory free.
\<close>

definition rtos_undisturbed :: rtos_in where
  "rtos_undisturbed = \<lparr>timer_tick = False, core_ack = False, core_reg_data = 0, core_pc = 0,
     axi_wr_time_slice = None, axi_wr_reschedule_req = False\<rparr>"

definition bench :: env where
  "bench = \<lparr>key_at = (\<lambda>_. True), pins_at = (\<lambda>_. 0), to_rtos = (\<lambda>_. rtos_undisturbed), delay_at = (\<lambda>_. 0),
     other_read = (\<lambda>_ _. 0), spare_ram = in_page 0xF000 0xFFFF,
     unset_reg = (\<lambda>_ _. 0)\<rparr>"

definition shell_start :: "byte list \<Rightarrow> soc shell" where
  "shell_start ks = \<lparr>hw = soc_reset ks, trace = [], uart_fd = 0, hex_buf = replicate 9 0,
     dec_buf = replicate 11 0, argc = 0, argv = replicate 5 0, cmd_buf = replicate 80 0,
     line_buf = replicate 80 0\<rparr>"

text \<open>The command line split into the words \<open>ws\<close>, one after the other.\<close>

definition with_words :: "byte list list \<Rightarrow> 'w shell \<Rightarrow> 'w shell" where
  "with_words ws s = s\<lparr>cmd_buf := concat (map lit ws), argc := length ws,
     argv := map (\<lambda>i. length (concat (map lit (take i ws)))) [0..<length ws]\<rparr>"

lemma with_words_simps [simp]:
  "hw (with_words ws s) = hw s" "uart_fd (with_words ws s) = uart_fd s"
  "hex_buf (with_words ws s) = hex_buf s" "dec_buf (with_words ws s) = dec_buf s"
  "line_buf (with_words ws s) = line_buf s"
  by (simp_all add: with_words_def)

lemma with_words_args:
  assumes "\<forall>w \<in> set ws. 0 \<notin> set w"
  shows "args_are (with_words ws s) ws"
proof -
  have "c_string (arg (with_words ws s) i) = Some (ws ! i)" if i: "i < length ws" for i
  proof -
    have "ws = take i ws @ ws ! i # drop (Suc i) ws" using i by (rule id_take_nth_drop)
    then have "concat (map lit ws) = concat (map lit (take i ws)) @ lit (ws ! i) @ concat (map lit (drop (Suc i) ws))"
      by (metis concat.simps(2) concat_append list.simps(9) map_append)
    then have "drop (length (concat (map lit (take i ws)))) (concat (map lit ws))
        = ws ! i @ 0 # concat (map lit (drop (Suc i) ws))"
      by (simp add: lit_def)
    with i assms show ?thesis by (simp add: arg_def with_words_def)
  qed
  then show ?thesis by (simp add: args_are_def with_words_def)
qed

lemma bench_fair: "fair bench"
  by (auto simp: fair_def bench_def)

lemma soc_reset_good: "soc_good bench 0 (soc_reset ks)"
  by (simp add: soc_good_def bench_fair usable_def idle_ctl_def MAX_FD_def)
    (simp add: soc_reset_def posix_reset_def bridge_reset_def uart_reset_wf nth_append, simp add: uart_reset_def)

lemma shell_start_ready [simp]:
  "shell_ready bench (shell_start ks)" "shell_ready bench (with_words ws (shell_start ks))"
  "fit (shell_start ks)" "sized (shell_start ks)"
  by (simp_all add: ready_def sized_def shell_start_def soc_reset_good fit_def MAX_ARGS_def)

lemma shell_start_typed: "pending (soc_reset ks) = ks" "soc_typed (soc_reset ks) ks"
  by (simp_all add: soc_typed_def pending_def soc_reset_def uart_reset_def fifo_reset_wf)

lemma shell_start_hw [simp]: "hw (shell_start ks) = soc_reset ks" "line_buf (shell_start ks) = replicate 80 0"
  "uart_fd (shell_start ks) = 0"
  by (simp_all add: shell_start_def)

lemma soc_reset_serving: "serving (soc_reset ks)"
  using soc_reset_bootable by (simp add: bootable_def)

lemma soc_reset_idle: "idle_ctl (soc_reset ks)" "uart_wf (soc_uart (soc_reset ks))"
  using soc_reset_serving by (simp_all add: serving_def)

text \<open>A session of one command: the user types \<open>go\<close>.\<close>

definition go_keys :: "byte list" where
  "go_keys = ascii ''go'' @ [13]"

lemma go_keys_edit: "edit 79 [] go_keys = Some ([Key 103, Text 103, Key 111, Text 111, Key 13, Text 13, Text 10], Some [103, 111], [])"
  by (simp add: go_keys_def ascii_def after_def CRLF_def)

lemma go_args: "args_of [103, 111] = [ascii ''go'']"
  by (simp add: args_of_def MAX_ARGS_def ascii_def words_of_last)

lemma go_command:
  assumes "command_does [ascii ''go''] ks os out rest"
  shows "out = Left_for IMEM_BASE \<and> accesses_ok h r os \<and> rest = ks"
  using assms
  by (auto simp: command_does_def go_does_def addr_of_def ascii_eq_iff simp del: map_append)

lemma go_leaves_shell: "leaves h r go_keys"
proof
  show "round_ok h r go_keys"
    using go_command
    by (auto simp: round_ok_def go_keys_edit go_args command_ends_def command_safe_def ascii_eq_iff)
qed (auto simp: round_does_def go_keys_edit go_args dest: go_command)

text \<open>A session that sticks: the user types \<open>rtos\<close>.\<close>

definition rtos_keys :: "byte list" where
  "rtos_keys = ascii ''rtos'' @ [13]"

lemma rtos_sticks: "sticks h n bus_answers rtos_keys"
proof (rule sticks.here)
  show "edit 79 [] rtos_keys = Some ([Key 114, Text 114, Key 116, Text 116, Key 111, Text 111, Key 115, Text 115,
      Key 13, Text 13, Text 10], Some [114, 116, 111, 115], [])"
    by (simp add: rtos_keys_def ascii_def after_def CRLF_def)
  have "args_of [114, 116, 111, 115] = [ascii ''rtos'']"
    by (simp add: args_of_def MAX_ARGS_def ascii_def words_of_last)
  moreover have "\<not> bus_answers (RTOS_BASE + RTOS_SCHED_EN)"
    by (rule rtos_page_hangs) (simp add: rtos_page_def in_page_def hw_defs)
  ultimately show "command_stuck h n bus_answers (args_of [114, 116, 111, 115]) []"
    by (simp add: command_stuck_def)
qed

text \<open>A program of one word: the user types it, and a full stop; to the spare memory and to the HyperRAM.\<close>

definition load_words :: "byte list list" where
  "load_words = [ascii ''load'', ascii ''F000'']"

definition load_hyper_words :: "byte list list" where
  "load_hyper_words = [ascii ''load'', ascii ''20000000'']"

definition load_typed :: "byte list" where
  "load_typed = ascii ''B7'' @ [13] @ ascii ''.'' @ [13]"

lemma load_typed_keys:
  "load_keys a 0 load_typed = Some
     ([Key 66, Text 66, Key 55, Text 55, Key 13, Text 13, Text 10, Act (Store a 0xB7),
       Key 46, Text 46, Key 13, Text 13, Text 10], Some (a + 4, 1), [])"
  unfolding load_typed_def ascii_def
  by (simp add: load_keys.simps [of a] load_keys.simps [of "a + 4"] after_def CRLF_def
      parse_hex_spec_def is_hex_def hex_val_def hex_nibble_def digits_value_def)

lemma load_addrs: "addr_of load_words = Parsed 0xF000" "addr_of load_hyper_words = Parsed 0x20000000"
  by (simp_all add: addr_of_def load_words_def load_hyper_words_def ascii_def parse_hex_spec_def is_hex_def
      hex_val_def hex_nibble_def digits_value_def)

lemma bench_pages:
  "soc_harmless bench 0xF000" "\<not> soc_harmless bench 0x20000000" "bus_answers 0xF000" "\<not> bus_accepts 0x20000000"
proof -
  show "soc_harmless bench 0xF000"
    by (simp add: soc_harmless_def bench_def imem_page_def in_page_def hw_defs)
  show "bus_answers 0xF000" by (simp add: bus_answers_def rtos_page_def posix_page_def in_page_def hw_defs)
  show "\<not> bus_accepts 0x20000000" by (simp add: bus_accepts_def hyperram_page_def in_page_def hw_defs)
  then show "\<not> soc_harmless bench 0x20000000" using harmless_accepted by blast
qed

lemma load_typed_does:
  "\<exists>os. load_does load_words load_typed os [] \<and> accesses_ok (soc_harmless bench) bus_answers os
    \<and> Act (Store 0xF000 0xB7) \<in> set os"
  by (simp add: load_does_def load_typed_keys load_addrs bench_pages)

lemma load_hyper_does:
  "\<exists>os. load_does load_hyper_words load_typed os [] \<and> \<not> accesses_ok (soc_harmless bench) bus_answers os
    \<and> accesses_ok (\<lambda>a. soc_harmless bench a \<or> \<not> bus_accepts a) bus_answers os"
  by (simp add: load_does_def load_typed_keys load_addrs bench_pages)

text \<open>The first key arrives at the first clock.\<close>

lemma reset_receives:
  shows "pending (soc_clock bench apb_none ecall_none (soc_reset (k # ks))) = k # ks"
    and "fifo_items (rx_ring (soc_uart (soc_clock bench apb_none ecall_none (soc_reset (k # ks))))) \<noteq> []"
    and "uart_wf (soc_uart (soc_clock bench apb_none ecall_none (soc_reset (k # ks))))"
proof -
  let ?w = "soc_reset (k # ks)"
  have q: "\<not> rx_fifo_pop (uart_req ?w apb_none)" using uart_req_quiet [of ?w] soc_reset_idle by (auto simp: idle_ctl_def)
  have rx: "rx_byte bench ?w = Some k"
    by (simp add: rx_byte_def bench_def soc_reset_def uart_reset_def fifo_full_def fifo_reset_def FIFO_DEPTH_def)
  have empty: "fifo_items (rx_ring (soc_uart ?w)) = []"
    by (simp add: soc_reset_def uart_reset_def fifo_reset_wf)
  show "uart_wf (soc_uart (soc_clock bench apb_none ecall_none ?w))"
    using soc_reset_idle(2) by (simp add: uart_wf_step)
  show "pending (soc_clock bench apb_none ecall_none ?w) = k # ks"
    using pending_clock [OF soc_reset_idle(2)] q shell_start_typed(1) by simp
  show "fifo_items (rx_ring (soc_uart (soc_clock bench apb_none ecall_none ?w))) \<noteq> []"
    using rx_items_step [OF soc_reset_idle(2), of "uart_req ?w apb_none" "Some k"] q rx empty
    by (simp add: FIFO_DEPTH_def)
qed

end
