(* ===== verification/Soc_Bus.thy ===== *)
theory Soc_Bus
  imports Soc_Clock
begin

unbundle bit_operations_syntax

text \<open>
  The bus and the rest of the SoC on one clock: the requests of the APB bridge of \<open>Axi_Bus\<close> are those of
  \<open>soc_clock\<close>, and the answers of the devices are those the bridge gets. An access of the core that the bus
  ends is one of \<open>Soc_Clock\<close>, with the latency the bus has.
\<close>

section \<open>Both on one clock\<close>

text \<open>The answer of the APB to the bridge: \<open>plic\<close> is the data of the PLIC.\<close>

definition bridge_prdata :: "u32 \<Rightarrow> soc \<Rightarrow> apb_req \<Rightarrow> u32" where
  "bridge_prdata plic w m = (if apb_psel (select plic_page m) then plic else apb_prdata w m)"

definition bridge_pready :: "apb_req \<Rightarrow> bool" where
  "bridge_pready m \<longleftrightarrow>
     (if apb_psel (select uart_page m) \<or> apb_psel (select gpio_page m) \<or> apb_psel (select plic_page m)
        \<or> apb_psel (select clint_page m)
      then uart_pready m else True)"

text \<open>The registers of the RTOS and of the POSIX layer, by the low byte of the address.\<close>

definition fsm_code :: "rtos_fsm_t \<Rightarrow> u32" where
  "fsm_code st = (case st of FSM_IDLE \<Rightarrow> 0 | FSM_SCAN_READY \<Rightarrow> 1 | FSM_COMPARE_PRIORITY \<Rightarrow> 2
     | FSM_PREEMPT_CHECK \<Rightarrow> 3 | FSM_CONTEXT_SAVE \<Rightarrow> 4 | FSM_CONTEXT_LOAD \<Rightarrow> 5 | FSM_DISPATCH \<Rightarrow> 6
     | FSM_TIMER_UPDATE \<Rightarrow> 7 | FSM_TASK_CREATE \<Rightarrow> 8 | FSM_TASK_EXIT \<Rightarrow> 9 | FSM_BLOCK_TASK \<Rightarrow> 10
     | FSM_UNBLOCK_TASK \<Rightarrow> 11 | FSM_WAIT_CTX_ACK \<Rightarrow> 12 | FSM_TASK_JOIN \<Rightarrow> 13 | FSM_EXIT_SETTLE \<Rightarrow> 14)"

definition task_count :: "hw_rtos \<Rightarrow> 4 word" where
  "task_count r = of_nat (length (filter id (all_valid r)))"

definition rtos_reg :: "hw_rtos \<Rightarrow> u32 \<Rightarrow> u32" where
  "rtos_reg r off =
     (if off = 0x00 then 1
      else if off = 0x04 then 2
      else if off = 0x08 then of_nat (current_task_id_r r)
      else if off = 0x0C then of_nat (next_task_id_r r)
      else if off = 0x10 then of_bool (task_active_r r)
      else if off = 0x14 then ucast (task_count r)
      else if off = 0x18 then ucast (time_slice_config r)
      else if off = 0x1C then fsm_code (fsm_state r)
      else if off = 0x20 then of_bool (timer_tick_pending r)
      else if off = 0x24 then of_bool (need_reschedule r)
      else 0xDEADBEEF)"

definition layer_code :: "posix_state_t \<Rightarrow> u32" where
  "layer_code st = (case st of S_IDLE \<Rightarrow> 0 | S_DECODE \<Rightarrow> 1 | S_THREAD_OP \<Rightarrow> 2 | S_MUTEX_OP \<Rightarrow> 3 | S_SEM_OP \<Rightarrow> 4
     | S_MSGQ_OP \<Rightarrow> 5 | S_TIMER_OP \<Rightarrow> 6 | S_FILE_OP \<Rightarrow> 7 | S_SIGNAL_OP \<Rightarrow> 8 | S_SYSTEM_OP \<Rightarrow> 9
     | S_PERIPH_WAIT \<Rightarrow> 10 | S_WAIT_RTOS \<Rightarrow> 11 | S_COMPLETE \<Rightarrow> 12)"

definition posix_reg :: "posix \<Rightarrow> u32 \<Rightarrow> u32" where
  "posix_reg p off =
     (if off = 0x00 then push_bit 8 (ucast (pending_syscall_cnt p)) OR layer_code (state_r p)
      else if off AND 3 = 0 \<and> 4 \<le> off \<and> off \<le> 0x3C then
        (let i = unat off div 4 - 1
         in push_bit 16 (ucast (fd_flags p ! i)) OR push_bit 8 (fd_type_r p ! i) OR of_bool (fd_valid p ! i))
      else if off = 0x40 then ucast (last_syscall_num_r p)
      else if off = 0x44 then last_syscall_ret_r p
      else 0xDEADBEEF)"

definition bus_answer :: "soc \<Rightarrow> apb_req \<Rightarrow> bus_in \<Rightarrow> bus_in" where
  "bus_answer w q x = (let m = apb_mux (soc_bridge w) q in
     x\<lparr>bus_prdata := bridge_prdata (bus_prdata x) w m, bus_pready := bridge_pready m,
       rtos_regs_at := rtos_reg (soc_rtos w), posix_regs_at := posix_reg (soc_posix w)\<rparr>)"

definition soc_bus_clock :: "env \<Rightarrow> bus_in \<Rightarrow> bus \<times> soc \<Rightarrow> bus \<times> soc" where
  "soc_bus_clock E x = (\<lambda>(b, w). let q = apb_request (bus_apb b) in
     (bus_clock (bus_answer w q x) b, soc_clock E q ecall_none w))"

fun soc_bus_run :: "env \<Rightarrow> (nat \<Rightarrow> bus_in) \<Rightarrow> nat \<Rightarrow> bus \<times> soc \<Rightarrow> bus \<times> soc" where
  "soc_bus_run E ins 0 s = s"
| "soc_bus_run E ins (Suc n) s = soc_bus_clock E (ins n) (soc_bus_run E ins n s)"

section \<open>The bus sees the devices, and the devices see the bus\<close>

definition seen :: "env \<Rightarrow> (nat \<Rightarrow> bus_in) \<Rightarrow> bus \<times> soc \<Rightarrow> nat \<Rightarrow> bus_in" where
  "seen E ins s n = (let (b, w) = soc_bus_run E ins n s in bus_answer w (apb_request (bus_apb b)) (ins n))"

lemma seen_cmd [simp]: "bus_cmd (seen E ins s n) = bus_cmd (ins n)"
  by (simp add: seen_def bus_answer_def Let_def split: prod.split)

lemma bus_of_run: "fst (soc_bus_run E ins n (b, w)) = bus_run (seen E ins (b, w)) n b"
  by (induction n) (auto simp: soc_bus_clock_def seen_def Let_def split: prod.splits)

lemma soc_of_run:
  "snd (soc_bus_run E ins (Suc n) (b, w))
    = soc_clock E (apb_at (seen E ins (b, w)) b n) ecall_none (snd (soc_bus_run E ins n (b, w)))"
  using bus_of_run [of E ins n b w]
  by (simp add: soc_bus_clock_def apb_at_def Let_def case_prod_beta)

lemma run_idle_ctl: "idle_ctl w \<Longrightarrow> idle_ctl (snd (soc_bus_run E ins n (b, w)))"
  by (induction n) (simp_all add: soc_of_run idle_ctl_clock(1) del: soc_bus_run.simps(2))

lemma seen_commanded [simp]: "commanded wr a d (seen E ins s) b \<longleftrightarrow> commanded wr a d ins b"
  by (simp add: commanded_def)

text \<open>The devices are ready in the access phase.\<close>

lemma seen_access:
  assumes "idle_ctl w" and "apb_at (seen E ins (b, w)) b n = q" and "apb_penable q" "apb_psel q"
  shows "bus_pready (seen E ins (b, w) n)"
    and "bus_prdata (seen E ins (b, w) n)
      = bridge_prdata (bus_prdata (ins n)) (snd (soc_bus_run E ins n (b, w))) q"
proof -
  let ?s = "soc_bus_run E ins n (b, w)"
  have q: "apb_request (bus_apb (fst ?s)) = q" using assms(2) by (simp add: apb_at_def bus_of_run)
  have m: "apb_mux (soc_bridge (snd ?s)) q = q"
    using run_idle_ctl [OF assms(1), of E ins n b] by (simp add: idle_ctl_def)
  show "bus_pready (seen E ins (b, w) n)"
    using assms(3,4) by (simp add: seen_def case_prod_beta q m bus_answer_def Let_def bridge_pready_def uart_pready_def)
  show "bus_prdata (seen E ins (b, w) n) = bridge_prdata (bus_prdata (ins n)) (snd ?s) q"
    by (simp add: seen_def case_prod_beta q m bus_answer_def Let_def)
qed

section \<open>Requests that mean the same\<close>

definition same_request :: "apb_req \<Rightarrow> apb_req \<Rightarrow> bool" where
  "same_request q q' \<longleftrightarrow> apb_psel q = apb_psel q' \<and> (apb_psel q \<longrightarrow> apb_penable q = apb_penable q'
     \<and> apb_pwrite q = apb_pwrite q' \<and> apb_paddr q = apb_paddr q' \<and> (apb_pwrite q \<longrightarrow> apb_pwdata q = apb_pwdata q'))"

lemma same_select:
  assumes "same_request q q'"
  shows "same_request (select page q) (select page q')"
  using assms by (auto simp: same_request_def select_def)

lemma same_mux:
  assumes "same_request q q'"
  shows "same_request (apb_mux b q) (apb_mux b q')"
  using assms by (auto simp: same_request_def apb_mux_def)

lemma same_devices:
  assumes "same_request q q'"
  shows "uart_step q rx u = uart_step q' rx u" "gpio_step q pins g = gpio_step q' pins g"
    "clint_step q c = clint_step q' c"
proof -
  have wr: "apb_write_en q = apb_write_en q'" "apb_read_en q = apb_read_en q'"
    "apb_write_en q \<Longrightarrow> apb_pwdata q = apb_pwdata q'" "apb_write_en q \<Longrightarrow> apb_paddr q = apb_paddr q'"
    "apb_read_en q \<Longrightarrow> apb_paddr q = apb_paddr q'"
    using assms by (auto simp: same_request_def apb_write_en_def apb_read_en_def)
  then have off: "apb_write_en q \<Longrightarrow> reg_offset q = reg_offset q'" "apb_read_en q \<Longrightarrow> reg_offset q = reg_offset q'"
    "apb_write_en q \<Longrightarrow> clint_offset q = clint_offset q'"
    by (simp_all add: reg_offset_def clint_offset_def)
  have push: "tx_fifo_push q = tx_fifo_push q'" "rx_fifo_pop q = rx_fifo_pop q'"
    using wr off by (auto simp: tx_fifo_push_def rx_fifo_pop_def)
  have ring: "fifo_step (tx_fifo_push q) (ucast (apb_pwdata q)) pop r
      = fifo_step (tx_fifo_push q') (ucast (apb_pwdata q')) pop r" for pop and r :: ring
  proof (cases "apb_write_en q")
    case False
    then have "\<not> tx_fifo_push q'" using push(1) by (simp add: tx_fifo_push_def)
    then show ?thesis by (simp add: push(1) fifo_step_def Let_def)
  qed (simp add: push(1) wr(3))
  show "uart_step q rx u = uart_step q' rx u"
    unfolding uart_step_def Let_def ring using wr off push by (cases "apb_write_en q") simp_all
  show "gpio_step q pins g = gpio_step q' pins g" "clint_step q c = clint_step q' c"
    using wr off by (cases "apb_write_en q"; simp add: gpio_step_def clint_step_def Let_def)+
qed

lemma clock_cong:
  assumes "\<And>page. page \<in> {uart_page, gpio_page, clint_page} \<Longrightarrow>
      same_request (select page (apb_mux (soc_bridge w) q)) (select page (apb_mux (soc_bridge w) q'))"
  shows "soc_clock E q c w = soc_clock E q' c w"
proof -
  have "same_request (select uart_page (apb_mux (soc_bridge w) q)) (select uart_page (apb_mux (soc_bridge w) q'))"
    "same_request (select gpio_page (apb_mux (soc_bridge w) q)) (select gpio_page (apb_mux (soc_bridge w) q'))"
    "same_request (select clint_page (apb_mux (soc_bridge w) q)) (select clint_page (apb_mux (soc_bridge w) q'))"
    using assms by blast+
  then show ?thesis
    unfolding soc_clock_def Let_def by (simp add: same_devices(1) same_devices(2) same_devices(3) cong: conj_cong)
qed

lemma same_clock: "same_request q q' \<Longrightarrow> soc_clock E q c w = soc_clock E q' c w"
  by (rule clock_cong) (rule same_select [OF same_mux])

lemma unselected: "\<not> apb_psel q \<Longrightarrow> soc_clock E q c w = soc_clock E apb_none c w"
  by (rule same_clock) (simp add: same_request_def apb_none_def)

text \<open>A request to an address without a device of this model.\<close>

lemma off_clock:
  assumes "idle_ctl w" and "apb_psel q \<longrightarrow> \<not> on_apb (apb_paddr q)"
  shows "soc_clock E q c w = soc_clock E apb_none c w"
proof (rule clock_cong)
  fix page assume "page \<in> {uart_page, gpio_page, clint_page}"
  then have "\<not> apb_psel (select page q)" using assms(2) by (auto simp: on_apb_def)
  then show "same_request (select page (apb_mux (soc_bridge w) q)) (select page (apb_mux (soc_bridge w) apb_none))"
    using assms(1) by (auto simp: same_request_def idle_ctl_def apb_none_def)
qed

section \<open>Accesses on the bus are accesses of the core\<close>

lemma delay_clock [simp]: "soc_clock (E\<lparr>delay_at := f\<rparr>) q c w = soc_clock E q c w"
  by (simp add: soc_clock_def rx_byte_def rtos_inputs_def)

lemma delay_idle [simp]:
  "idle (E\<lparr>delay_at := f\<rparr>) n w = idle E n w"
  "latency (E\<lparr>delay_at := f\<rparr>) w = idle E (unat (f (now w))) w"
proof -
  have "soc_clock (E\<lparr>delay_at := f\<rparr>) apb_none ecall_none = soc_clock E apb_none ecall_none"
    by (rule ext) simp
  then show i: "idle (E\<lparr>delay_at := f\<rparr>) n w = idle E n w" for n by (simp add: idle_def)
  show "latency (E\<lparr>delay_at := f\<rparr>) w = idle E (unat (f (now w))) w" by (simp add: latency_def i)
qed

lemma idle_simps [simp]:
  "idle E 0 w = w" "idle E (Suc n) w = soc_clock E apb_none ecall_none (idle E n w)" "now (idle E n w) = now w + n"
proof -
  show "idle E 0 w = w" "idle E (Suc n) w = soc_clock E apb_none ecall_none (idle E n w)" for n
    by (simp_all add: idle_def)
  show "now (idle E n w) = now w + n" by (induction n) (simp_all add: idle_def)
qed

lemma run_quiet:
  assumes "idle_ctl w" and "\<forall>j < n. apb_psel (apb_at (seen E ins (b, w)) b j)
      \<longrightarrow> \<not> on_apb (apb_paddr (apb_at (seen E ins (b, w)) b j))"
  shows "snd (soc_bus_run E ins n (b, w)) = idle E n w"
  using assms(2)
proof (induction n)
  case (Suc n)
  then have i: "snd (soc_bus_run E ins n (b, w)) = idle E n w" by simp
  have "idle_ctl (idle E n w)" using run_idle_ctl [OF assms(1), of E ins n b] by (simp add: i)
  from off_clock [OF this, of "apb_at (seen E ins (b, w)) b n" E ecall_none] Suc.prems show ?case
    by (simp add: soc_of_run i del: soc_bus_run.simps(2))
qed simp

text \<open>The latency of the bus: \<open>k\<close> clocks before the setup phase and one after the access.\<close>

definition bus_delay :: "nat \<Rightarrow> nat \<Rightarrow> nat \<Rightarrow> nat \<Rightarrow> 16 word" where
  "bus_delay t k l t' = (if t' = t then of_nat k else of_nat l)"

lemma run_transfer:
  assumes w: "idle_ctl w" and k: "k \<le> 4"
    and q: "\<forall>j < k. \<not> apb_psel (apb_at (seen E ins (b, w)) b j)"
      "same_request (apb_at (seen E ins (b, w)) b k) (cpu_apb False wr a d)"
      "same_request (apb_at (seen E ins (b, w)) b (Suc k)) (cpu_apb True wr a d)"
      "\<not> apb_psel (apb_at (seen E ins (b, w)) b (Suc (Suc k)))"
  shows "snd (soc_bus_run E ins (Suc k) (b, w)) = selected (E\<lparr>delay_at := bus_delay (now w) k 1\<rparr>) wr a d w"
    and "snd (soc_bus_run E ins (Suc (Suc (Suc k))) (b, w)) = accessed (E\<lparr>delay_at := bus_delay (now w) k 1\<rparr>) wr a d w"
proof -
  have ku: "unat (of_nat k :: 16 word) = k" using k by (simp add: unat_of_nat take_bit_nat_eq_self)
  have i: "snd (soc_bus_run E ins k (b, w)) = idle E k w" by (rule run_quiet [OF w]) (use q(1) in blast)
  show s: "snd (soc_bus_run E ins (Suc k) (b, w)) = selected (E\<lparr>delay_at := bus_delay (now w) k 1\<rparr>) wr a d w"
    by (simp add: soc_of_run i selected_def bus_delay_def ku same_clock [OF q(2)] del: soc_bus_run.simps(2))
  define v where "v = soc_clock E (cpu_apb True wr a d) ecall_none (snd (soc_bus_run E ins (Suc k) (b, w)))"
  have v: "snd (soc_bus_run E ins (Suc (Suc k)) (b, w)) = v"
    by (subst soc_of_run) (simp add: v_def same_clock [OF q(3)] del: soc_bus_run.simps(2))
  have "now v = now w + k + 2"
    by (simp add: v_def soc_of_run i del: soc_bus_run.simps(2))
  then have "latency (E\<lparr>delay_at := bus_delay (now w) k 1\<rparr>) v = soc_clock E apb_none ecall_none v"
    by (simp add: bus_delay_def)
  moreover have "snd (soc_bus_run E ins (Suc (Suc (Suc k))) (b, w)) = soc_clock E apb_none ecall_none v"
    by (simp only: soc_of_run [of _ _ "Suc (Suc k)"] v unselected [OF q(4)])
  moreover have "accessed (E\<lparr>delay_at := bus_delay (now w) k 1\<rparr>) wr a d w
      = latency (E\<lparr>delay_at := bus_delay (now w) k 1\<rparr>) v"
    by (simp only: accessed_def v_def s delay_clock)
  ultimately show "snd (soc_bus_run E ins (Suc (Suc (Suc k))) (b, w))
      = accessed (E\<lparr>delay_at := bus_delay (now w) k 1\<rparr>) wr a d w"
    by (simp only:)
qed

text \<open>The theorem: an access that the bus ends, for any address.\<close>

lemma apb_decoded: "on_apb a \<Longrightarrow> decode a = Some Apb_bridge" "on_apb a \<Longrightarrow> \<not> plic_page a"
  using page_slaves(4) [of a]
  by (auto simp: on_apb_def uart_page_def gpio_page_def clint_page_def plic_page_def in_page_def hw_defs word_le_nat_alt)

lemma seen_ready:
  assumes c: "commanded wr a d ins b" and w: "idle_ctl w" and a: "decode a = Some Apb_bridge"
  shows "bus_pready (seen E ins (b, w) (if wr then 5 else 3))"
proof (cases wr)
  case True
  with c have "commanded True a d (seen E ins (b, w)) b" by simp
  from seen_access(1) [OF w apb_write_access(8) [OF this a]] True show ?thesis by simp
next
  case False
  with c have "commanded False a d (seen E ins (b, w)) b" by simp
  from apb_read_access(6) [OF this a] obtain v where
    "apb_at (seen E ins (b, w)) b 3 = \<lparr>apb_psel = True, apb_penable = True, apb_pwrite = False, apb_paddr = a, apb_pwdata = v\<rparr>"
    by blast
  from seen_access(1) [OF w this] False show ?thesis by simp
qed

theorem access_ends_soc:
  assumes c: "commanded wr a d ins b" and w: "idle_ctl w" and a: "access_ends wr a"
  shows "\<exists>n \<le> 38. ends (seen E ins (b, w)) n b"
  by (rule bus_access_ends [of wr a d]) (use c a seen_ready [OF c w] in simp_all)

text \<open>What an access of \<open>Soc_Clock\<close> does, the latency being \<open>f\<close>.\<close>

definition access_with :: "env \<Rightarrow> (nat \<Rightarrow> 16 word) \<Rightarrow> bool \<Rightarrow> u32 \<Rightarrow> u32 \<Rightarrow> soc \<Rightarrow> soc" where
  "access_with E f wr a d w =
     (if wr then cpu_store (E\<lparr>delay_at := f\<rparr>) a d w else snd (cpu_load (E\<lparr>delay_at := f\<rparr>) a w))"

lemma access_off_apb:
  assumes c: "commanded wr a d ins b" and w: "idle_ctl w" and off: "\<not> on_apb a"
    and n: "ends (seen E ins (b, w)) n b" "n \<le> 38"
  shows "snd (soc_bus_run E ins n (b, w)) = access_with E (bus_delay (now w) n 0) wr a d w"
proof -
  let ?ins = "seen E ins (b, w)"
  have "apb_psel (apb_at ?ins b j) \<longrightarrow> \<not> on_apb (apb_paddr (apb_at ?ins b j))" if j: "j < n" for j
  proof (cases "decode a = Some Apb_bridge")
    case False
    have "commanded wr a d ?ins b" using c by simp
    from apb_unused [OF this False, of n j] n(1) j show ?thesis by (simp add: ends_def)
  next
    case True
    show ?thesis
    proof (cases wr)
      case wr: True
      then have c': "commanded True a d ?ins b" and r: "bus_pready (?ins 5)"
        using c seen_ready [OF c w True] by simp_all
      note f = apb_write_access(6-8) [OF c' True] apb_write(2) [OF c' True r]
      have "n = 7" by (rule ends_once [OF n(1) apb_write(1) [OF c' True r]])
      then consider "j \<in> {0, 1, 2, 3}" | "j = 4" | "j = 5" | "j = 6" using j by fastforce
      then show ?thesis using f off by cases auto
    next
      case rd: False
      then have c': "commanded False a d ?ins b" and r: "bus_pready (?ins 3)"
        using c seen_ready [OF c w True] by simp_all
      note f = apb_read_access(4-6) [OF c' True] apb_read(3) [OF c' True r]
      have "n = 5" by (rule ends_once [OF n(1) apb_read(1) [OF c' True r]])
      then consider "j \<in> {0, 1}" | "j = 2" | "j = 3" | "j = 4" using j by fastforce
      then show ?thesis using f off by cases auto
    qed
  qed
  then have "snd (soc_bus_run E ins n (b, w)) = idle E n w" by (intro run_quiet [OF w]) blast
  moreover have "0 < n" using n(1) c by (cases n) (auto simp: ends_def bus_done_def commanded_def bus_idle_def)
  then have "access_with E (bus_delay (now w) n 0) wr a d w = idle E n w"
    using off n(2) by (simp add: access_with_def cpu_store_def cpu_load_def Let_def bus_delay_def unat_of_nat take_bit_nat_eq_self)
  ultimately show ?thesis by simp
qed

lemma access_on_apb:
  assumes c: "commanded wr a d ins b" and w: "idle_ctl w" and on: "on_apb a"
    and n: "ends (seen E ins (b, w)) n b"
  shows "snd (soc_bus_run E ins n (b, w)) = access_with E (bus_delay (now w) (if wr then 4 else 2) 1) wr a d w"
    and "\<not> wr \<Longrightarrow> rdata_reg (bus_master (fst (soc_bus_run E ins n (b, w))))
      = fst (cpu_load (E\<lparr>delay_at := bus_delay (now w) 2 1\<rparr>) a w)"
proof -
  let ?ins = "seen E ins (b, w)"
  note a = apb_decoded [OF on]
  have "snd (soc_bus_run E ins n (b, w)) = access_with E (bus_delay (now w) (if wr then 4 else 2) 1) wr a d w
    \<and> (\<not> wr \<longrightarrow> rdata_reg (bus_master (fst (soc_bus_run E ins n (b, w))))
      = fst (cpu_load (E\<lparr>delay_at := bus_delay (now w) 2 1\<rparr>) a w))"
  proof (cases wr)
    case True
    then have c': "commanded True a d ?ins b" and r: "bus_pready (?ins 5)"
      using c seen_ready [OF c w a(1)] by simp_all
    note f = apb_write_access(6-8) [OF c' a(1)] apb_write(2) [OF c' a(1) r]
    have "n = 7" by (rule ends_once [OF n(1) apb_write(1) [OF c' a(1) r]])
    moreover have "snd (soc_bus_run E ins (Suc (Suc (Suc 4))) (b, w))
        = accessed (E\<lparr>delay_at := bus_delay (now w) 4 1\<rparr>) True a d w"
      by (rule run_transfer(2) [OF w]) (use f in \<open>auto simp: same_request_def cpu_apb_def less_Suc_eq numeral_eq_Suc\<close>)
    ultimately show ?thesis using True on by (simp add: access_with_def cpu_store_def del: soc_bus_run.simps)
  next
    case False
    then have c': "commanded False a d ?ins b" and r: "bus_pready (?ins 3)"
      using c seen_ready [OF c w a(1)] by simp_all
    note f = apb_read_access(4-6) [OF c' a(1)] apb_read(3) [OF c' a(1) r]
    have n5: "n = 5" by (rule ends_once [OF n(1) apb_read(1) [OF c' a(1) r]])
    let ?E = "E\<lparr>delay_at := bus_delay (now w) 2 1\<rparr>"
    have q: "\<forall>j < 2. \<not> apb_psel (apb_at ?ins b j)" "same_request (apb_at ?ins b 2) (cpu_apb False False a 0)"
      "same_request (apb_at ?ins b (Suc 2)) (cpu_apb True False a 0)" "\<not> apb_psel (apb_at ?ins b (Suc (Suc 2)))"
      using f by (auto simp: same_request_def cpu_apb_def less_Suc_eq numeral_eq_Suc)
    have two: "(2::nat) \<le> 4" by simp
    note t = run_transfer [OF w two q]
    have "snd (soc_bus_run E ins 5 (b, w)) = accessed ?E False a 0 w"
      using t(2) by (simp add: numeral_eq_Suc del: soc_bus_run.simps)
    moreover have "bus_prdata (?ins 3) = fst (cpu_load ?E a w)"
    proof -
      obtain v where v: "apb_at ?ins b 3
          = \<lparr>apb_psel = True, apb_penable = True, apb_pwrite = False, apb_paddr = a, apb_pwdata = v\<rparr>"
        using f(3) by blast
      have s: "snd (soc_bus_run E ins 3 (b, w)) = selected ?E False a 0 w"
        using t(1) by (simp add: numeral_eq_Suc del: soc_bus_run.simps)
      have i: "idle_ctl (selected ?E False a 0 w)" using run_idle_ctl [OF w, of E ins 3 b] by (simp only: s)
      show ?thesis
        using seen_access(2) [OF w v] on a(2) i
        by (simp add: s bridge_prdata_def cpu_load_def Let_def idle_ctl_def apb_prdata_def uart_prdata_def
            gpio_prdata_def clint_prdata_def reg_offset_def clint_offset_def apb_read_en_def cpu_apb_def select_def)
    qed
    ultimately show ?thesis
      using False on n5 apb_read(2) [OF c' a(1) r]
      by (simp add: access_with_def cpu_load_def Let_def bus_of_run del: soc_bus_run.simps bus_run.simps)
  qed
  then show "snd (soc_bus_run E ins n (b, w)) = access_with E (bus_delay (now w) (if wr then 4 else 2) 1) wr a d w"
    "\<not> wr \<Longrightarrow> rdata_reg (bus_master (fst (soc_bus_run E ins n (b, w))))
      = fst (cpu_load (E\<lparr>delay_at := bus_delay (now w) 2 1\<rparr>) a w)" by blast+
qed

section \<open>The bus and the accesses of the model\<close>

theorem bus_access_iff:
  assumes c: "commanded wr a d ins b" and w: "idle_ctl w"
  shows "(\<exists>n. bus_done (fst (soc_bus_run E ins n (b, w)))) \<longleftrightarrow> access_ends wr a"
  using access_ends_soc [OF c w, of E] bus_access_hangs [of wr a d "seen E ins (b, w)" b] c
  by (auto simp: bus_of_run ends_def simp del: bus_run.simps)

text \<open>
  What a load gets from the memories and the PLIC, which \<open>Soc_Clock\<close> leaves open, when it ends at clock \<open>n\<close>:
  the output of a block memory two clocks after the address, the last four bytes of the HyperRAM, or the
  answer of the PLIC in its access phase.
\<close>

definition memory_read :: "(nat \<Rightarrow> bus_in) \<Rightarrow> nat \<Rightarrow> u32 \<Rightarrow> u32" where
  "memory_read ins n a =
     (if dmem_page a then dmem_dout (ins 3) else if imem_page a then imem_dout (ins 3)
      else if hyperram_page a then hyper_word ins (n - 1) 4 else bus_prdata (ins 3))"

lemma soc_clock_other [simp]: "soc_clock (E\<lparr>other_read := g\<rparr>) q c w = soc_clock E q c w"
  by (simp add: soc_clock_def rx_byte_def rtos_inputs_def)

lemma other_selected [simp]: "selected (E\<lparr>other_read := g\<rparr>) wr a d w = selected E wr a d w"
proof -
  have "soc_clock (E\<lparr>other_read := g\<rparr>) apb_none ecall_none = soc_clock E apb_none ecall_none" by (rule ext) simp
  then show ?thesis by (simp add: selected_def latency_def idle_def)
qed

lemma load_value_on_apb: "on_apb a \<Longrightarrow> fst (cpu_load (E\<lparr>other_read := g\<rparr>) a w) = fst (cpu_load E a w)"
  by (simp add: cpu_load_def Let_def)

lemma seen_memories [simp]:
  "dmem_dout (seen E ins s n) = dmem_dout (ins n)" "imem_dout (seen E ins s n) = imem_dout (ins n)"
  "hyper_dq (seen E ins s n) = hyper_dq (ins n)"
  by (simp_all add: seen_def bus_answer_def Let_def split: prod.split)

lemma decoded_off_apb:
  assumes "\<not> on_apb a" and "bus_answers a"
  shows "decode a = None \<or> decode a = Some Dmem \<and> dmem_page a \<or> decode a = Some Imem \<and> imem_page a \<and> \<not> dmem_page a
    \<or> decode a = Some Hyperram \<and> hyperram_page a \<and> \<not> dmem_page a \<and> \<not> imem_page a
    \<or> decode a = Some Apb_bridge \<and> plic_page a \<and> \<not> dmem_page a \<and> \<not> imem_page a \<and> \<not> hyperram_page a"
proof -
  have "hyperram_page a \<Longrightarrow> \<not> imem_page a" "plic_page a \<Longrightarrow> \<not> imem_page a"
    by (auto simp: hyperram_page_def plic_page_def imem_page_def in_page_def hw_defs word_le_nat_alt)
  with assms show ?thesis by (auto simp: decode_def on_apb_def bus_answers_def)
qed

lemma load_off_apb:
  assumes c: "commanded False a d ins b" and w: "idle_ctl w" and off: "\<not> on_apb a" and a: "bus_answers a"
    and n: "ends (seen E ins (b, w)) n b"
  shows "rdata_reg (bus_master (fst (soc_bus_run E ins n (b, w)))) = (if decode a = None then 0 else memory_read ins n a)"
proof -
  let ?ins = "seen E ins (b, w)"
  have c': "commanded False a d ?ins b" using c by simp
  have same: "hyper_word ?ins k 4 = hyper_word ins k 4" for k by (simp add: hyper_word_def)
  have "rdata_reg (bus_master (bus_run ?ins n b)) = (if decode a = None then 0 else memory_read ins n a)"
    using decoded_off_apb [OF off a]
  proof (elim disjE conjE)
    assume s: "decode a = None"
    have "n = 3" by (rule ends_once [OF n no_slave_read(1) [OF c' s]])
    with no_slave_read(2) [OF c' s] s show ?thesis by simp
  next
    assume s: "decode a = Some Dmem" "dmem_page a"
    have "n = 4" by (rule ends_once [OF n ram_read(1) [OF c' s(1)]]) simp
    with ram_read(3) [OF c' s(1)] s show ?thesis by (simp add: memory_read_def dout_of_def del: bus_run.simps)
  next
    assume s: "decode a = Some Imem" "imem_page a" "\<not> dmem_page a"
    have "n = 4" by (rule ends_once [OF n ram_read(1) [OF c' s(1)]]) simp
    with ram_read(3) [OF c' s(1)] s show ?thesis by (simp add: memory_read_def dout_of_def del: bus_run.simps)
  next
    assume s: "decode a = Some Hyperram" "hyperram_page a" "\<not> dmem_page a" "\<not> imem_page a"
    obtain m where m: "ends ?ins m b" "rdata_reg (bus_master (bus_run ?ins m b)) = hyper_word ?ins (m - 1) 4"
      using hyper_read [OF c' s(1)] by blast
    have "n = m" by (rule ends_once [OF n m(1)])
    with m(2) s show ?thesis by (simp add: memory_read_def same)
  next
    assume s: "decode a = Some Apb_bridge" "plic_page a" "\<not> dmem_page a" "\<not> imem_page a" "\<not> hyperram_page a"
    have r: "bus_pready (?ins 3)" using seen_ready [OF c w s(1), of E] by simp
    obtain v where v: "apb_at ?ins b 3 = \<lparr>apb_psel = True, apb_penable = True, apb_pwrite = False, apb_paddr = a, apb_pwdata = v\<rparr>"
      using apb_read_access(6) [OF c' s(1)] by blast
    have "bus_prdata (?ins 3) = bus_prdata (ins 3)"
      using seen_access(2) [OF w v] s(2) by (simp add: bridge_prdata_def)
    moreover have "n = 5" by (rule ends_once [OF n apb_read(1) [OF c' s(1) r]])
    ultimately show ?thesis using apb_read(2) [OF c' s(1) r] s by (simp add: memory_read_def del: bus_run.simps)
  qed
  then show ?thesis by (simp only: bus_of_run)
qed

theorem bus_access_refines:
  assumes c: "commanded wr a d ins b" and w: "idle_ctl w" and a: "access_ends wr a"
  shows "\<exists>n f. n \<le> 38 \<and> bus_done (fst (soc_bus_run E ins n (b, w)))
    \<and> bus_idle (fst (soc_bus_run E ins (Suc n) (b, w)))
    \<and> snd (soc_bus_run E ins n (b, w)) = access_with E f wr a d w
    \<and> (\<not> wr \<longrightarrow> rdata_reg (bus_master (fst (soc_bus_run E ins n (b, w))))
        = fst (cpu_load (E\<lparr>delay_at := f, other_read := \<lambda>_. memory_read ins n\<rparr>) a w))"
proof -
  obtain n where n: "n \<le> 38" "ends (seen E ins (b, w)) n b" using access_ends_soc [OF assms] by blast
  show ?thesis
  proof (cases "on_apb a")
    case True
    from n(1,2) access_on_apb [OF c w True n(2)] True show ?thesis
      by (intro exI [of _ n] exI [of _ "bus_delay (now w) (if wr then 4 else 2) 1"])
        (auto simp: bus_of_run ends_def load_value_on_apb simp del: bus_run.simps soc_bus_run.simps)
  next
    case False
    have "rdata_reg (bus_master (fst (soc_bus_run E ins n (b, w)))) = (if decode a = None then 0 else memory_read ins n a)" if "\<not> wr"
      using that c a load_off_apb [OF _ w False _ n(2)] by (simp add: access_ends_def del: soc_bus_run.simps)
    with n(1,2) access_off_apb [OF c w False n(2,1)] False show ?thesis
      by (intro exI [of _ n] exI [of _ "bus_delay (now w) n 0"])
        (auto simp: bus_of_run ends_def cpu_load_def Let_def simp del: bus_run.simps soc_bus_run.simps)
  qed
qed

text \<open>One access after reset.\<close>

definition one_access :: "bool \<Rightarrow> u32 \<Rightarrow> u32 \<Rightarrow> nat \<Rightarrow> bus_in" where
  "one_access wr a d n = \<lparr>bus_cmd = (if n = 0 then Some (wr, a, d) else None), bus_prdata = 0, bus_pready = True,
     dmem_dout = 0, imem_dout = 0, hyper_rwds = False, hyper_dq = 0, rtos_regs_at = (\<lambda>_. 0),
     posix_regs_at = (\<lambda>_. 0)\<rparr>"

lemma one_access_commanded: "commanded wr a d (one_access wr a d) bus_reset"
  by (simp add: commanded_def bus_reset_idle one_access_def)

end
