(* ===== verification/Examples.thy ===== *)
theory Examples
  imports Posix_Lib Str_Util
begin

text \<open>
  The example programs sw/examples/hello_uart.c, gpio_blink.c and multitask.c, on the C library. An
  address of a local or static object that is only passed on is a parameter.
\<close>

section \<open>hello\_uart.c\<close>

definition hello_msg :: "byte list" where
  "hello_msg = lit (ascii ''Hello VSync!'' @ [10])"

definition hello_main :: "'w platform \<Rightarrow> 'w machine \<Rightarrow> (int \<times> 'w machine) option" where
  "hello_main P s =
     do { (fd, s) \<leftarrow> posix_open P FD_TYPE_UART 0 s;
          if sint fd < 0 then Some (-1, s)
          else do {
            (_, s) \<leftarrow> posix_write P fd hello_msg 14 s;
            (_, s) \<leftarrow> posix_close P fd s;
            Some (0, s) } }"

section \<open>gpio\_blink.c\<close>

definition LED_BIT :: u32 where
  "LED_BIT = 0x01"

text \<open>The body of the blink loop: the new LED state.\<close>

definition blink :: "'w platform \<Rightarrow> u32 \<Rightarrow> u32 \<Rightarrow> u32 \<Rightarrow> 'w machine \<Rightarrow> (u32 \<times> 'w machine) option" where
  "blink P fd delay led_state s =
     do { let led_state = led_state XOR LED_BIT;
          (_, s) \<leftarrow> ioctl P fd GPIO_SET_OUTPUT led_state s;
          (_, s) \<leftarrow> nanosleep P delay 0 s;
          Some (led_state, s) }"

partial_function (option) blink_loop ::
  "'w platform \<Rightarrow> u32 \<Rightarrow> u32 \<Rightarrow> u32 \<Rightarrow> 'w machine \<Rightarrow> (int \<times> 'w machine) option" where
  "blink_loop P fd delay led_state s =
     do { (led_state, s) \<leftarrow> blink P fd delay led_state s; blink_loop P fd delay led_state s }"

text \<open>The part before the loop.\<close>

definition blink_setup :: "'w platform \<Rightarrow> 'w machine \<Rightarrow> (u32 \<times> 'w machine) option" where
  "blink_setup P s =
     do { (fd, s) \<leftarrow> posix_open P FD_TYPE_GPIO 0 s;
          if sint fd < 0 then Some (fd, s)
          else do { (_, s) \<leftarrow> ioctl P fd GPIO_SET_DIR LED_BIT s; Some (fd, s) } }"

definition blink_main :: "'w platform \<Rightarrow> u32 \<Rightarrow> 'w machine \<Rightarrow> (int \<times> 'w machine) option" where
  "blink_main P delay s =
     do { (fd, s) \<leftarrow> blink_setup P s;
          if sint fd < 0 then Some (-1, s) else blink_loop P fd delay 0 s }"

section \<open>multitask.c\<close>

text \<open>
  The addresses the program passes on, the contents of \<open>task1\<close> and \<open>task2\<close> when they are joined,
  and the entry points of the two tasks.
\<close>

record multitask_objects =
  addr_sync_sem :: u32
  addr_task1 :: u32
  addr_task2 :: u32
  addr_delay :: u32
  task1 :: pthread_t
  task2 :: pthread_t
  task1_entry :: u32
  task2_entry :: u32

definition uart_puts :: "'w platform \<Rightarrow> u32 \<Rightarrow> byte list \<Rightarrow> 'w machine \<Rightarrow> 'w machine option" where
  "uart_puts P fd str s =
     do { n \<leftarrow> strlen_simple str;
          (_, s) \<leftarrow> posix_write P fd str (of_nat n) s;
          Some s }"

definition task1_func :: "'w platform \<Rightarrow> multitask_objects \<Rightarrow> u32 \<Rightarrow> 'w machine \<Rightarrow> 'w machine option" where
  "task1_func P obj fd s =
     do { s \<leftarrow> uart_puts P fd (lit (ascii ''Task1: Waiting for semaphore...'' @ [10])) s;
          (_, s) \<leftarrow> sem_wait P (addr_sync_sem obj) s;
          s \<leftarrow> uart_puts P fd (lit (ascii ''Task1: Semaphore acquired! Running.'' @ [10])) s;
          (_, s) \<leftarrow> pthread_yield P s;
          uart_puts P fd (lit (ascii ''Task1: Done.'' @ [10])) s }"

definition task2_func :: "'w platform \<Rightarrow> multitask_objects \<Rightarrow> u32 \<Rightarrow> 'w machine \<Rightarrow> 'w machine option" where
  "task2_func P obj fd s =
     do { s \<leftarrow> uart_puts P fd (lit (ascii ''Task2: Starting work...'' @ [10])) s;
          (_, s) \<leftarrow> nanosleep P (addr_delay obj) 0 s;
          s \<leftarrow> uart_puts P fd (lit (ascii ''Task2: Signaling Task1.'' @ [10])) s;
          (_, s) \<leftarrow> sem_post P (addr_sync_sem obj) s;
          uart_puts P fd (lit (ascii ''Task2: Done.'' @ [10])) s }"

definition multitask_main ::
  "'w platform \<Rightarrow> multitask_objects \<Rightarrow> 'w machine \<Rightarrow> (int \<times> 'w machine) option" where
  "multitask_main P obj s =
     do { (fd, s) \<leftarrow> posix_open P FD_TYPE_UART 0 s;
          if sint fd < 0 then Some (-1, s)
          else do {
            s \<leftarrow> uart_puts P fd (lit (ascii ''Main: VSync Multitask Demo'' @ [10])) s;
            (_, s) \<leftarrow> sem_init P (addr_sync_sem obj) 0 0 s;
            (r, s) \<leftarrow> pthread_create P (addr_task1 obj) 0 (task1_entry obj) 0 s;
            if r \<noteq> 0 then
              do { s \<leftarrow> uart_puts P fd (lit (ascii ''Main: Failed to create Task1'' @ [10])) s; Some (-1, s) }
            else do {
              (r, s) \<leftarrow> pthread_create P (addr_task2 obj) 0 (task2_entry obj) 0 s;
              if r \<noteq> 0 then
                do { s \<leftarrow> uart_puts P fd (lit (ascii ''Main: Failed to create Task2'' @ [10])) s; Some (-1, s) }
              else do {
                s \<leftarrow> uart_puts P fd (lit (ascii ''Main: Tasks created. Waiting for completion.'' @ [10])) s;
                (_, s) \<leftarrow> pthread_join P (task1 obj) 0 s;
                (_, s) \<leftarrow> pthread_join P (task2 obj) 0 s;
                s \<leftarrow> uart_puts P fd (lit (ascii ''Main: All tasks completed.'' @ [10])) s;
                (_, s) \<leftarrow> sem_destroy P (addr_sync_sem obj) s;
                (_, s) \<leftarrow> posix_close P fd s;
                Some (0, s) } } } }"

section \<open>Behaviour\<close>

text \<open>A call that returns has added its event to the trace.\<close>

lemma ecall_trace: "ecall P n args s = Some (r, s') \<Longrightarrow> trace s' = trace s @ [Ecall n args r]"
  by (auto simp: ecall_def Option.bind_eq_Some_conv)

lemmas stub_defs = posix_open_def posix_close_def ioctl_def nanosleep_def pthread_create_def
  syscall0_def syscall1_def syscall2_def syscall3_def syscall4_def

text \<open>
  \<open>hello_uart\<close> hands over the bytes of the message and the terminating NUL as well, as the length it
  passes is 14 and the message has 13 characters.
\<close>

lemma hello_trace:
  assumes "hello_main P s = Some (0, s')"
  shows "\<exists>fd rs rc ret. trace s' = trace s @ [Ecall SYS_OPEN [FD_TYPE_UART, 0] fd]
      @ writes fd hello_msg rs @ [Ecall SYS_CLOSE [fd] rc]
    \<and> 0 \<le> sint fd \<and> write_result 14 rs ret 14"
proof -
  from assms obtain fd s1 ret s2 rc where
    "posix_open P FD_TYPE_UART 0 s = Some (fd, s1)" and fd: "\<not> sint fd < 0"
    and w: "posix_write P fd hello_msg 14 s1 = Some (ret, s2)"
    and "posix_close P fd s2 = Some (rc, s')"
    by (auto simp: hello_main_def Option.bind_eq_Some_conv split: if_split_asm)
  then have "trace s1 = trace s @ [Ecall SYS_OPEN [FD_TYPE_UART, 0] fd]"
    and "trace s' = trace s2 @ [Ecall SYS_CLOSE [fd] rc]"
    by (auto simp: stub_defs dest!: ecall_trace)
  moreover obtain rs where "trace s2 = trace s1 @ writes fd hello_msg rs" "write_result 14 rs ret (unat (14 :: u32))"
    using posix_write_trace [OF w] by blast
  ultimately show ?thesis using fd by auto
qed

text \<open>The blink loop never ends, and each round writes the other state of the LED.\<close>

lemma blink_loop_None: "blink_loop P fd delay led_state s = None"
proof (cases "blink_loop P fd delay led_state s")
  case (Some y)
  then have False
    by (rule blink_loop.raw_induct [rotated])
      (auto simp: Option.bind_eq_Some_conv split: prod.split_asm)
  then show ?thesis ..
qed

fun blinks :: "'w platform \<Rightarrow> u32 \<Rightarrow> u32 \<Rightarrow> nat \<Rightarrow> u32 \<Rightarrow> 'w machine \<Rightarrow> (u32 \<times> 'w machine) option" where
  "blinks P fd delay 0 led_state s = Some (led_state, s)"
| "blinks P fd delay (Suc n) led_state s =
     do { (led_state, s) \<leftarrow> blink P fd delay led_state s; blinks P fd delay n led_state s }"

text \<open>The program up to the end of the n-th round of its loop.\<close>

definition blink_upto :: "'w platform \<Rightarrow> u32 \<Rightarrow> nat \<Rightarrow> 'w machine \<Rightarrow> (u32 \<times> 'w machine) option" where
  "blink_upto P delay n s = do { (fd, s) \<leftarrow> blink_setup P s; blinks P fd delay n 0 s }"

fun blink_events :: "u32 \<Rightarrow> u32 \<Rightarrow> bool \<Rightarrow> (u32 \<times> u32) list \<Rightarrow> io_event list" where
  "blink_events fd delay on [] = []"
| "blink_events fd delay on ((r, r') # rs) =
     Ecall SYS_IOCTL [fd, GPIO_SET_OUTPUT, of_bool on] r # Ecall SYS_NANOSLEEP [delay, 0] r'
       # blink_events fd delay (\<not> on) rs"

lemma blinks_trace:
  assumes "blinks P fd delay n (of_bool on) s = Some (led, s')"
  shows "\<exists>rs. length rs = n \<and> trace s' = trace s @ blink_events fd delay (\<not> on) rs
    \<and> led = of_bool (on \<noteq> odd n)"
  using assms
proof (induction n arbitrary: on s)
  case (Suc n)
  have x: "of_bool on XOR LED_BIT = (of_bool (\<not> on) :: u32)" by (simp add: LED_BIT_def)
  from Suc.prems obtain r s1 r' s2 where
    "ioctl P fd GPIO_SET_OUTPUT (of_bool (\<not> on)) s = Some (r, s1)"
    "nanosleep P delay 0 s1 = Some (r', s2)" and rest: "blinks P fd delay n (of_bool (\<not> on)) s2 = Some (led, s')"
    by (auto simp: blink_def x Let_def Option.bind_eq_Some_conv)
  then have "trace s2 = trace s @ [Ecall SYS_IOCTL [fd, GPIO_SET_OUTPUT, of_bool (\<not> on)] r,
      Ecall SYS_NANOSLEEP [delay, 0] r']"
    by (auto simp: stub_defs dest!: ecall_trace)
  moreover obtain rs where "length rs = n" "trace s' = trace s2 @ blink_events fd delay on rs"
    "led = of_bool ((\<not> on) \<noteq> odd n)"
    using Suc.IH [OF rest] by auto
  ultimately show ?case
    by (intro exI [of _ "(r, r') # rs"]) simp
qed simp

lemma blink_alternates:
  assumes "blinks P fd delay n 0 s = Some (led, s')"
  shows "(\<exists>rs. length rs = n \<and> trace s' = trace s @ blink_events fd delay True rs)
    \<and> led = of_bool (odd n) \<and> blink_loop P fd delay led s' = None"
  using blinks_trace [of P fd delay n False s led s'] assms by (auto simp: blink_loop_None)

end
