(* ===== verification/Soc_Examples.thy ===== *)
theory Soc_Examples
  imports Soc_Files Examples
begin

text \<open>
  The example programs on the SoC. \<open>write\<close> does not wait for room: the bytes of one call all reach the
  UART when they fit into the transmit FIFO, as the message of sw/examples/hello\_uart.c does.
\<close>

section \<open>A write that fits\<close>

text \<open>The bytes that have left the transmit FIFO, and those that wait in it.\<close>

definition soc_left :: "soc \<Rightarrow> nat" where
  "soc_left w = length (tx_log (soc_uart w))"

definition soc_waiting :: "soc \<Rightarrow> byte list" where
  "soc_waiting w = fifo_items (tx_ring (soc_uart w))"

lemma sent_left: "length (soc_sent w) = soc_left w + length (soc_waiting w)"
  by (simp add: soc_sent_def soc_left_def soc_waiting_def accepted_def)

lemma left_clock: "soc_left w \<le> soc_left (soc_clock E q c w)"
  by (simp add: soc_left_def uart_step_def Let_def)

lemma left_passes: "soc_left w \<le> soc_left (idle E n w)" "soc_left w \<le> soc_left (latency E w)"
proof -
  show i: "soc_left w \<le> soc_left (idle E n w)" for n
    by (induction n) (auto simp: idle_def intro: order_trans left_clock)
  show "soc_left w \<le> soc_left (latency E w)" unfolding latency_def by (rule i)
qed

lemma left_wait:
  assumes "syscall_wait E c v = Some x"
  shows "soc_left v \<le> soc_left (snd x)"
  using assms
proof (induction rule: syscall_wait.raw_induct [rotated, consumes 1])
  case (1 loop E c v x)
  show ?case
  proof (cases "syscall_done (soc_posix v)")
    case True
    then have "snd x = soc_clock E apb_none c v" using 1(2) by auto
    then show ?thesis using left_clock by simp
  next
    case False
    then have "loop E c (soc_clock E apb_none c v) = Some x" using 1(2) by simp
    from order_trans [OF left_clock 1(1) [OF this]] show ?thesis .
  qed
qed

lemma left_call:
  assumes "soc_syscall E num args w = Some (r, w')"
  shows "soc_left w \<le> soc_left w'"
proof -
  let ?w0 = "idle E 5 (latency E w)"
  obtain w1 where w1: "syscall_wait E (ecall_for E num args w) ?w0 = Some (r, w1)" "w' = latency E (idle E 1 w1)"
    using assms by (auto simp: soc_syscall_def Option.bind_eq_Some_conv)
  from left_wait [OF w1(1)] left_passes(1) [of "latency E w" E 5] left_passes(2) [of w E] left_passes(1) [of w1 E 1]
    left_passes(2) [of "idle E 1 w1" E] show ?thesis
    by (simp add: w1(2))
qed

text \<open>\<open>m\<close> bytes at least have left the FIFO: then it has room for those accepted up to \<open>m + 16\<close>.\<close>

lemma room_by_count:
  assumes "uart_wf (soc_uart w)" and "m \<le> soc_left w" and "length (soc_sent w) < m + FIFO_DEPTH"
  shows "\<not> fifo_full (tx_ring (soc_uart w))"
  using assms ring.full_iff [of "tx_ring (soc_uart w)"] sent_left [of w]
  by (simp add: uart_wf_def soc_waiting_def)

text \<open>The descriptor \<open>fd\<close> is open on the UART.\<close>

definition uart_open :: "u32 \<Rightarrow> soc \<Rightarrow> bool" where
  "uart_open fd w \<longleftrightarrow> serving w \<and> unat fd < 16 \<and> soc_table w (unat fd) = Some FD_TYPE_UART"

lemma uart_openD:
  assumes "uart_open fd w"
  shows "idle_ctl w" "uart_wf (soc_uart w)" "unat fd < 16" "fd_valid (soc_posix w) ! unat fd"
    "fd_base_addr (soc_posix w) ! unat fd = UART_BASE"
  using assms
  by (auto simp: uart_open_def serving_def soc_table_def table_of_def fd_based_def MAX_FD_def
      get_device_base_def split: if_split_asm)

lemma same_fds_serving:
  assumes "serving w" and "same_fds w w'" and "idle_ctl w'" and "uart_wf (soc_uart w')"
  shows "serving w'" and "soc_table w' = soc_table w"
  using assms
  by (simp_all add: serving_def same_fds_def fd_wf_def std_open_def fd_based_def soc_table_def
      table_of_def fun_eq_iff)

lemma write_one:
  assumes fd: "uart_open fd (hw s)" and room: "m \<le> soc_left (hw s)" "length (soc_sent (hw s)) < m + FIFO_DEPTH"
  shows "\<exists>w'. syscall3 (soc_platform E) SYS_WRITE fd (ucast (b :: byte)) 1 s
      = Some (0, s\<lparr>hw := w', trace := trace s @ [Ecall SYS_WRITE [fd, ucast b, 1] 0]\<rparr>)
    \<and> uart_open fd w' \<and> soc_sent w' = soc_sent (hw s) @ [b] \<and> soc_table w' = soc_table (hw s) \<and> m \<le> soc_left w'"
proof -
  note d = uart_openD [OF fd]
  have "\<not> fifo_full (tx_ring (soc_uart (hw s)))" using d(2) room by (rule room_by_count)
  from write_call [OF d this, of E "ucast b" 1] obtain w' where
    w': "soc_syscall E SYS_WRITE [fd, ucast b, 1] (hw s) = Some (0, w')" "idle_ctl w'" "same_fds (hw s) w'"
      "delivered b (hw s) w'" by auto
  have "serving (hw s)" "uart_wf (soc_uart w')" using fd w'(4) by (simp_all add: uart_open_def delivered_def)
  note k = same_fds_serving [OF this(1) w'(3,2) this(2)]
  then have "uart_open fd w'" using fd by (simp add: uart_open_def)
  with w' k left_call [OF w'(1)] room(1) show ?thesis
    by (intro exI [of _ w']) (simp add: syscall3_def ecall_def delivered_def soc_sent_def)
qed

lemma write_loop_fits:
  assumes "unat count \<le> length p" and "i \<le> count" and "uart_open fd (hw s)"
    and "length (soc_sent (hw s)) + (unat count - unat i) \<le> m + FIFO_DEPTH" and "m \<le> soc_left (hw s)"
  shows "returns (\<lambda>(r, s'). r = count \<and> uart_open fd (hw s') \<and> soc_table (hw s') = soc_table (hw s)
      \<and> soc_sent (hw s') = soc_sent (hw s) @ drop (unat i) (take (unat count) p))
    (write_loop (soc_platform E) fd p count i s)"
  using assms
proof (induction "unat count - unat i" arbitrary: i s)
  case 0
  then have "i = count" by (simp add: word_le_nat_alt word_unat_eq_iff)
  with 0 show ?case by (simp add: write_loop.simps)
next
  case (Suc n)
  then have i: "i < count" "unat i < length p" by (simp_all add: word_less_nat_alt)
  note n = unat_less_Suc_word [OF i(1)]
  have le: "i + 1 \<le> count" "n = unat count - unat (i + 1)"
    using i(1) n Suc.hyps(2) by (simp_all add: word_less_nat_alt word_le_nat_alt)
  have "length (soc_sent (hw s)) < m + FIFO_DEPTH" using Suc.prems(4) Suc.hyps(2) by simp
  from write_one [OF Suc.prems(3,5) this, of E "p ! unat i"] obtain w' where
    w: "syscall3 (soc_platform E) SYS_WRITE fd (ucast (p ! unat i)) 1 s
        = Some (0, s\<lparr>hw := w', trace := trace s @ [Ecall SYS_WRITE [fd, ucast (p ! unat i), 1] 0]\<rparr>)"
      "uart_open fd w'" "soc_sent w' = soc_sent (hw s) @ [p ! unat i]" "soc_table w' = soc_table (hw s)"
      "m \<le> soc_left w'" by blast
  let ?s = "s\<lparr>hw := w', trace := trace s @ [Ecall SYS_WRITE [fd, ucast (p ! unat i), 1] 0]\<rparr>"
  have len: "length (soc_sent (hw ?s)) + (unat count - unat (i + 1)) \<le> m + FIFO_DEPTH" "m \<le> soc_left (hw ?s)"
    using Suc.prems(4) w(3,5) n i(1) by (simp_all add: word_less_nat_alt)
  have drop: "drop (unat i) (take (unat count) p) = p ! unat i # drop (unat (i + 1)) (take (unat count) p)"
    using i Suc.prems(1) by (simp add: n Cons_nth_drop_Suc [symmetric] word_less_nat_alt)
  have "uart_open fd (hw ?s)" using w(2) by simp
  note IH = Suc.hyps(1) [OF le(2) Suc.prems(1) le(1) this len]
  show ?case
    using IH i w by (simp add: write_loop.simps [of _ _ _ _ i] drop)
qed

section \<open>hello\_uart.c\<close>

lemma hello_fits:
  assumes w: "serving (hw s)" "lowest_free (soc_table (hw s)) \<noteq> None" and sent: "length (soc_waiting (hw s)) \<le> 2"
  shows "returns (\<lambda>(r, s'). r = 0 \<and> soc_sent (hw s') = soc_sent (hw s) @ hello_msg
      \<and> soc_table (hw s') = soc_table (hw s) \<and> serving (hw s')) (hello_main (soc_platform E) s)"
proof -
  obtain i where i: "lowest_free (soc_table (hw s)) = Some i" using w(2) by blast
  have dev: "FD_TYPE_UART AND 7 = FD_TYPE_UART" "FD_TYPE_UART \<le> 4" by (simp_all add: posix_defs)
  note spec = open_close_spec [OF i, of FD_TYPE_UART, unfolded dev(1), OF dev(2)]
  have ib: "i < 16" using lowest_free_SomeD [OF i] by (simp add: MAX_FD_def)
  note n = small_descriptor [OF ib]
  let ?fd = "of_nat i :: u32"
  obtain w1 where o: "sys_returns SYS_OPEN [FD_TYPE_UART, 0] ?fd w1 s (posix_open (soc_platform E) FD_TYPE_UART 0 s)"
    "soc_table w1 = snd (open_spec FD_TYPE_UART (soc_table (hw s)))" "serving w1" "undisturbed (hw s) w1"
    using open_refines [OF w(1), of FD_TYPE_UART 0 E] spec by auto
  define s1 where "s1 = s\<lparr>hw := w1, trace := trace s @ [Ecall SYS_OPEN [FD_TYPE_UART, 0] ?fd]\<rparr>"
  have s1: "uart_open ?fd (hw s1)" "soc_sent (hw s1) = soc_sent (hw s)"
    using o ib n(1) spec(3) by (simp_all add: s1_def uart_open_def undisturbed_def soc_sent_def)
  have left: "soc_left (hw s) \<le> soc_left (hw s1)"
  proof -
    have "soc_syscall E SYS_OPEN [FD_TYPE_UART, 0] (hw s) = Some (?fd, w1)"
      using o(1) by (auto simp: sys_returns_def posix_open_def syscall2_def ecall_def Option.bind_eq_Some_conv
          dest!: arg_cong [where f = hw])
    from left_call [OF this] show ?thesis by (simp add: s1_def)
  qed
  have len: "length hello_msg = 14" by (simp add: hello_msg_def lit_def ascii_def)
  have "returns (\<lambda>(r, s'). r = 14 \<and> uart_open ?fd (hw s') \<and> soc_table (hw s') = soc_table (hw s1)
      \<and> soc_sent (hw s') = soc_sent (hw s1) @ hello_msg) (posix_write (soc_platform E) ?fd hello_msg 14 s1)"
    unfolding posix_write_def
    using write_loop_fits [of 14 hello_msg 0 ?fd s1 "soc_left (hw s)" E] s1 sent len left sent_left [of "hw s"] by (simp add: FIFO_DEPTH_def)
  then obtain s2 where s2: "posix_write (soc_platform E) ?fd hello_msg 14 s1 = Some (14, s2)" "serving (hw s2)"
    "soc_table (hw s2) = soc_table (hw s1)" "soc_sent (hw s2) = soc_sent (hw s) @ hello_msg"
    using s1 by (auto simp: uart_open_def elim!: returnsE)
  from close_refines [OF s2(2), of ?fd E] obtain w3 where
    c: "sys_returns SYS_CLOSE [?fd] 0 w3 s2 (posix_close (soc_platform E) ?fd s2)" "soc_table w3 = soc_table (hw s)"
      "serving w3" "undisturbed (hw s2) w3"
    using s2(3) o(2) spec(2) by (auto simp: s1_def)
  have "hello_main (soc_platform E) s = Some (0, s2\<lparr>hw := w3, trace := trace s2 @ [Ecall SYS_CLOSE [?fd] 0]\<rparr>)"
    using o(1) s2(1) c(1) n(2) by (simp add: hello_main_def sys_returns_def s1_def)
  then show ?thesis using c s2(4) by (simp add: undisturbed_def soc_sent_def)
qed

end
