(* ===== verification/Soc_Gpio.thy ===== *)
theory Soc_Gpio
  imports Soc_Examples
begin

text \<open>
  \<open>ioctl\<close> on a descriptor of the GPIO, clock by clock, and sw/examples/gpio\_blink.c on the SoC: what
  its rounds do to the pins.
\<close>

section \<open>The call\<close>

text \<open>The write \<open>d\<close> to the register at \<open>off\<close> is all that happened to the pins, and the UART did not notice.\<close>

definition gpio_wrote :: "u32 \<Rightarrow> u32 \<Rightarrow> soc \<Rightarrow> soc \<Rightarrow> bool" where
  "gpio_wrote off d w w' \<longleftrightarrow> uart_wf (soc_uart w') \<and> accepted (soc_uart w') = accepted (soc_uart w)
     \<and> pending w' = pending w
     \<and> gpio_out_r (soc_gpio w') = (if off = GPIO_SET_OUTPUT then ucast d else gpio_out_r (soc_gpio w))
     \<and> gpio_dir_r (soc_gpio w') = (if off = GPIO_SET_DIR then ucast d else gpio_dir_r (soc_gpio w))"

lemma gpio_wrote_trans:
  "undisturbed w w' \<Longrightarrow> gpio_wrote off d w' w'' \<Longrightarrow> gpio_wrote off d w w''"
  "gpio_wrote off d w w' \<Longrightarrow> undisturbed w' w'' \<Longrightarrow> gpio_wrote off d w w''"
  by (simp_all add: gpio_wrote_def undisturbed_def)

lemma gpio_regs:
  assumes "off = GPIO_SET_OUTPUT \<or> off = GPIO_SET_DIR"
  shows "gpio_page (GPIO_BASE + off)" "\<not> uart_page (GPIO_BASE + off)" "(GPIO_BASE + off) AND 0xFF = off"
    "off AND 0xFFF = off"
  using assms by (auto simp: gpio_page_def uart_page_def in_page_def hw_defs posix_defs)

lemma transfer_gpio_write:
  assumes w: "transfer PERIPH_ACCESS True (GPIO_BASE + off) d w" and wf: "uart_wf (soc_uart w)"
    and off: "off = GPIO_SET_OUTPUT \<or> off = GPIO_SET_DIR"
  shows "gpio_wrote off d w (tick E c w)"
proof -
  note q = transfer_request [OF w] and r = gpio_regs [OF off]
  have quiet: "\<not> apb_write_en (uart_req w apb_none)" "\<not> rx_fifo_pop (uart_req w apb_none)"
    using q r by (simp_all add: rx_fifo_pop_def)
  then have np: "\<not> tx_fifo_push (uart_req w apb_none)" by (simp add: tx_fifo_push_def)
  have "accepted (soc_uart (tick E c w)) = accepted (soc_uart w)"
    using accepted_step [OF wf, of "uart_req w apb_none" "rx_byte E w"] np by simp
  moreover have "gpio_out_r (soc_gpio (tick E c w)) = (if off = GPIO_SET_OUTPUT then ucast d else gpio_out_r (soc_gpio w))"
    "gpio_dir_r (soc_gpio (tick E c w)) = (if off = GPIO_SET_DIR then ucast d else gpio_dir_r (soc_gpio w))"
    using q r off by (simp_all add: gpio_step_def Let_def) (simp_all add: posix_defs)
  ultimately show ?thesis
    using wf quiet by (simp add: gpio_wrote_def uart_wf_step pending_clock [OF wf])
qed

theorem gpio_call:
  assumes w: "idle_ctl w" "uart_wf (soc_uart w)" and fd: "unat fd < 16" "fd_valid (soc_posix w) ! unat fd"
      "fd_base_addr (soc_posix w) ! unat fd = GPIO_BASE"
    and off: "off = GPIO_SET_OUTPUT \<or> off = GPIO_SET_DIR"
  shows "\<exists>w'. soc_syscall E SYS_IOCTL [fd, off, d] w = Some (0, w')
    \<and> idle_ctl w' \<and> same_fds w w' \<and> gpio_wrote off d w w'"
proof -
  let ?c = "ecall_for E SYS_IOCTL [fd, off, d] w"
  have num: "call_state SYS_IOCTL = S_FILE_OP"
    by (simp add: call_state_def decode_state_def syscall_category_def posix_defs)
  have op: "unat (syscall_num ?c) mod 16 = 4" by (simp add: posix_defs)
  obtain w0 v where w0: "same_fds w w0" "undisturbed w w0" "op_state S_FILE_OP ?c w0 v"
    and s: "soc_syscall E SYS_IOCTL [fd, off, d] w
      = do { (r, w') \<leftarrow> syscall_wait E ?c v; Some (r, latency E (idle E 1 w')) }"
    using syscall_to_op [OF w, of SYS_IOCTL E "[fd, off, d]"] num by auto
  have v: "same_fds w v" using w0(3) same_fds_trans [OF w0(1)] by (simp add: op_state_def)
  have "fd_open (soc_posix v)" "fd_index (soc_posix v) = unat fd"
    using fd v w0(3) by (simp_all add: op_state_def fd_open_def fd_index_def MAX_FD_def same_fds_def)
  then have out: "periph_out (soc_posix v) = Some (True, GPIO_BASE + off, d)"
    using fd v w0(3) op gpio_regs(4) [OF off]
    by (simp add: op_state_def periph_out_def Let_def same_fds_def syscall_subop_def)
  obtain w2 w' where w2: "undisturbed w0 w2" "transfer PERIPH_ACCESS True (GPIO_BASE + off) d w2"
    "undisturbed (tick E ?c w2) w'" "syscall_wait E ?c v = Some (0, w')" "idle_ctl w'" "same_fds w0 w'"
    using call_transfer [OF w0(3) out, of E] op by auto
  note wrote = transfer_gpio_write [OF w2(2) undisturbed_wf [OF w2(1)] off, of E ?c]
  note a = after_call [OF w2(5) undisturbed_wf [OF w2(3)], of E 1]
  have "gpio_wrote off d w (latency E (idle E 1 w'))"
    using wrote w0(2) w2(1,3) a(3) by (meson gpio_wrote_trans)
  then show ?thesis
    using s w2(4) a(1) same_fds_trans [OF same_fds_trans [OF w0(1) w2(6)] a(2)] by simp
qed

section \<open>gpio\_blink.c\<close>

definition gpio_open :: "u32 \<Rightarrow> soc \<Rightarrow> bool" where
  "gpio_open fd w \<longleftrightarrow> serving w \<and> unat fd < 16 \<and> soc_table w (unat fd) = Some FD_TYPE_GPIO"

lemma gpio_openD:
  assumes "gpio_open fd w"
  shows "serving w" "idle_ctl w" "uart_wf (soc_uart w)" "unat fd < 16" "fd_valid (soc_posix w) ! unat fd"
    "fd_base_addr (soc_posix w) ! unat fd = GPIO_BASE"
  using assms
  by (auto simp: gpio_open_def serving_def soc_table_def table_of_def fd_based_def MAX_FD_def
      get_device_base_def FD_TYPE_UART_def FD_TYPE_GPIO_def split: if_split_asm)

lemma ioctl_writes:
  assumes fd: "gpio_open fd (hw s)" and off: "off = GPIO_SET_OUTPUT \<or> off = GPIO_SET_DIR"
  shows "\<exists>w'. sys_returns SYS_IOCTL [fd, off, d] 0 w' s (ioctl (soc_platform E) fd off d s)
    \<and> gpio_open fd w' \<and> soc_table w' = soc_table (hw s) \<and> gpio_wrote off d (hw s) w'"
proof -
  note g = gpio_openD [OF fd]
  from gpio_call [OF g(2-6) off, of E d] obtain w' where
    w': "soc_syscall E SYS_IOCTL [fd, off, d] (hw s) = Some (0, w')" "idle_ctl w'" "same_fds (hw s) w'"
      "gpio_wrote off d (hw s) w'" by blast
  have "uart_wf (soc_uart w')" using w'(4) by (simp add: gpio_wrote_def)
  note k = same_fds_serving [OF g(1) w'(3,2) this]
  then have "gpio_open fd w'" using fd by (simp add: gpio_open_def)
  with w' k ecall_returns [OF w'(1)] show ?thesis by (auto simp: ioctl_def syscall3_def)
qed

lemma nanosleep_passes:
  assumes fd: "gpio_open fd (hw s)"
  shows "\<exists>w'. sys_returns SYS_NANOSLEEP [req, rem] 0 w' s (nanosleep (soc_platform E) req rem s)
    \<and> gpio_open fd w' \<and> soc_table w' = soc_table (hw s) \<and> undisturbed (hw s) w'"
proof -
  note g = gpio_openD [OF fd]
  have "call_state SYS_NANOSLEEP = S_TIMER_OP"
    by (simp add: call_state_def decode_state_def syscall_category_def posix_defs)
  from timer_call [OF g(2,3) this, of E "[req, rem]"] obtain w' where
    w': "soc_syscall E SYS_NANOSLEEP [req, rem] (hw s) = Some (0, w')" "idle_ctl w'" "same_fds (hw s) w'"
      "undisturbed (hw s) w'" by blast
  note k = same_fds_serving [OF g(1) w'(3,2) undisturbed_wf [OF w'(4)]]
  then have "gpio_open fd w'" using fd by (simp add: gpio_open_def)
  with w' k ecall_returns [OF w'(1)] show ?thesis by (auto simp: nanosleep_def syscall2_def)
qed

text \<open>The state of the loop: the LED pin is an output.\<close>

definition blinking :: "u32 \<Rightarrow> soc \<Rightarrow> soc \<Rightarrow> bool" where
  "blinking fd w0 w \<longleftrightarrow> gpio_open fd w \<and> gpio_dir_r (soc_gpio w) = ucast LED_BIT
     \<and> soc_table w = soc_table w0 \<and> soc_sent w = soc_sent w0 \<and> pending w = pending w0"

lemma blink_drives:
  assumes "blinking fd w0 (hw s)"
  shows "\<exists>s'. blink (soc_platform E) fd delay led s = Some (led XOR LED_BIT, s') \<and> blinking fd w0 (hw s')
    \<and> gpio_out_r (soc_gpio (hw s')) = ucast (led XOR LED_BIT)"
proof -
  have "gpio_open fd (hw s)" using assms by (simp add: blinking_def)
  from ioctl_writes [OF this, of GPIO_SET_OUTPUT "led XOR LED_BIT" E] obtain w1 where
    w1: "sys_returns SYS_IOCTL [fd, GPIO_SET_OUTPUT, led XOR LED_BIT] 0 w1 s
        (ioctl (soc_platform E) fd GPIO_SET_OUTPUT (led XOR LED_BIT) s)" "gpio_open fd w1"
      "soc_table w1 = soc_table (hw s)" "gpio_wrote GPIO_SET_OUTPUT (led XOR LED_BIT) (hw s) w1" by blast
  let ?s1 = "s\<lparr>hw := w1, trace := trace s @ [Ecall SYS_IOCTL [fd, GPIO_SET_OUTPUT, led XOR LED_BIT] 0]\<rparr>"
  have "gpio_open fd (hw ?s1)" using w1(2) by simp
  from nanosleep_passes [OF this, of delay 0 E] obtain w2 where
    w2: "sys_returns SYS_NANOSLEEP [delay, 0] 0 w2 ?s1 (nanosleep (soc_platform E) delay 0 ?s1)"
      "gpio_open fd w2" "soc_table w2 = soc_table w1" "undisturbed w1 w2" by auto
  have "GPIO_SET_OUTPUT \<noteq> GPIO_SET_DIR" by (simp add: posix_defs)
  with w1 w2 assms show ?thesis
    by (auto simp: blink_def Let_def sys_returns_def blinking_def gpio_wrote_def undisturbed_def soc_sent_def)
qed

lemma blinks_drive:
  assumes "blinking fd w0 (hw s)"
  shows "returns (\<lambda>(led, s'). led = of_bool (on \<noteq> odd n) \<and> blinking fd w0 (hw s')
      \<and> gpio_out_r (soc_gpio (hw s')) = (if n = 0 then gpio_out_r (soc_gpio (hw s)) else ucast led))
    (blinks (soc_platform E) fd delay n (of_bool on) s)"
  using assms
proof (induction n arbitrary: on s)
  case (Suc n)
  have x: "of_bool on XOR LED_BIT = (of_bool (\<not> on) :: u32)" by (simp add: LED_BIT_def)
  from blink_drives [OF Suc.prems, of E delay "of_bool on"] obtain s' where
    s': "blink (soc_platform E) fd delay (of_bool on) s = Some (of_bool (\<not> on), s')" "blinking fd w0 (hw s')"
      "gpio_out_r (soc_gpio (hw s')) = ucast (of_bool (\<not> on) :: u32)" unfolding x by blast
  with s' Suc.IH [OF s'(2), of "\<not> on"] show ?case
    by (cases n) (auto elim!: returns_mono)
qed simp

text \<open>The part before the loop.\<close>

lemma blink_opens:
  assumes w: "serving (hw s)" and i: "lowest_free (soc_table (hw s)) = Some i"
  shows "\<exists>s1. blink_setup (soc_platform E) s = Some (of_nat i, s1)
    \<and> gpio_open (of_nat i) (hw s1) \<and> gpio_dir_r (soc_gpio (hw s1)) = ucast LED_BIT
    \<and> gpio_out_r (soc_gpio (hw s1)) = gpio_out_r (soc_gpio (hw s))
    \<and> soc_table (hw s1) = (soc_table (hw s))(i \<mapsto> FD_TYPE_GPIO)
    \<and> soc_sent (hw s1) = soc_sent (hw s) \<and> pending (hw s1) = pending (hw s)"
proof -
  have dev: "FD_TYPE_GPIO AND 7 = FD_TYPE_GPIO" "FD_TYPE_GPIO \<le> 4" by (simp_all add: posix_defs)
  note spec = open_close_spec [OF i, of FD_TYPE_GPIO, unfolded dev(1), OF dev(2)]
  have ib: "i < 16" using lowest_free_SomeD [OF i] by (simp add: MAX_FD_def)
  note n = small_descriptor [OF ib]
  let ?fd = "of_nat i :: u32"
  obtain w1 where o: "sys_returns SYS_OPEN [FD_TYPE_GPIO, 0] ?fd w1 s (posix_open (soc_platform E) FD_TYPE_GPIO 0 s)"
    "soc_table w1 = snd (open_spec FD_TYPE_GPIO (soc_table (hw s)))" "serving w1" "undisturbed (hw s) w1"
    using open_refines [OF w, of FD_TYPE_GPIO 0 E] spec by auto
  have table: "soc_table w1 = (soc_table (hw s))(i \<mapsto> FD_TYPE_GPIO)"
    using o(2) i dev by (simp add: open_spec_def)
  define s1 where "s1 = s\<lparr>hw := w1, trace := trace s @ [Ecall SYS_OPEN [FD_TYPE_GPIO, 0] ?fd]\<rparr>"
  have g1: "gpio_open ?fd (hw s1)" using o(3) table ib n(1) by (simp add: s1_def gpio_open_def)
  from ioctl_writes [OF g1, of GPIO_SET_DIR LED_BIT E] obtain w2 where
    w2: "sys_returns SYS_IOCTL [?fd, GPIO_SET_DIR, LED_BIT] 0 w2 s1 (ioctl (soc_platform E) ?fd GPIO_SET_DIR LED_BIT s1)"
      "gpio_open ?fd w2" "soc_table w2 = soc_table (hw s1)" "gpio_wrote GPIO_SET_DIR LED_BIT (hw s1) w2" by blast
  let ?s2 = "s1\<lparr>hw := w2, trace := trace s1 @ [Ecall SYS_IOCTL [?fd, GPIO_SET_DIR, LED_BIT] 0]\<rparr>"
  have "blink_setup (soc_platform E) s = Some (?fd, ?s2)"
    using o(1) w2(1) n(2) by (simp add: blink_setup_def sys_returns_def s1_def)
  moreover have "GPIO_SET_DIR \<noteq> GPIO_SET_OUTPUT" by (simp add: posix_defs)
  ultimately show ?thesis
    using w2 table o(4)
    by (intro exI [of _ ?s2]) (simp add: s1_def gpio_wrote_def undisturbed_def soc_sent_def)
qed

lemma blink_refused:
  assumes w: "serving (hw s)" and full: "lowest_free (soc_table (hw s)) = None"
  shows "returns (\<lambda>(r, s'). r = -1 \<and> undisturbed (hw s) (hw s')
      \<and> soc_table (hw s') = soc_table (hw s)) (blink_main (soc_platform E) delay s)"
proof -
  have "open_spec FD_TYPE_GPIO (soc_table (hw s)) = (POSIX_EMFILE, soc_table (hw s))"
    using full by (simp add: open_spec_def FD_TYPE_GPIO_def)
  moreover have "sint POSIX_EMFILE < 0" by (simp add: POSIX_EMFILE_def)
  ultimately show ?thesis
    using open_refines [OF w, of FD_TYPE_GPIO 0 E] by (auto simp: blink_main_def blink_setup_def sys_returns_def)
qed

text \<open>The whole program.\<close>

lemma blink_runs:
  assumes w: "serving (hw s)" and i: "lowest_free (soc_table (hw s)) = Some i"
  shows "blink_main (soc_platform E) delay s = None"
    and "returns (\<lambda>(led, s'). led = of_bool (odd n)
        \<and> gpio_out_r (soc_gpio (hw s')) = (if n = 0 then gpio_out_r (soc_gpio (hw s)) else ucast led)
        \<and> gpio_dir_r (soc_gpio (hw s')) = ucast LED_BIT \<and> soc_sent (hw s') = soc_sent (hw s)
        \<and> soc_table (hw s') = (soc_table (hw s))(i \<mapsto> FD_TYPE_GPIO)) (blink_upto (soc_platform E) delay n s)"
proof -
  obtain s1 where m: "blink_setup (soc_platform E) s = Some (of_nat i, s1)"
    and s1: "gpio_open (of_nat i) (hw s1)" "gpio_dir_r (soc_gpio (hw s1)) = ucast LED_BIT"
      "gpio_out_r (soc_gpio (hw s1)) = gpio_out_r (soc_gpio (hw s))"
      "soc_table (hw s1) = (soc_table (hw s))(i \<mapsto> FD_TYPE_GPIO)" "soc_sent (hw s1) = soc_sent (hw s)"
    using blink_opens [OF w i] by blast
  have "\<not> sint (of_nat i :: u32) < 0"
    using small_descriptor [of i] lowest_free_SomeD [OF i] by (simp add: MAX_FD_def)
  then show "blink_main (soc_platform E) delay s = None"
    by (simp add: blink_main_def m blink_loop_None)
  have "blinking (of_nat i) (hw s1) (hw s1)" using s1 by (simp add: blinking_def)
  from blinks_drive [OF this, of False n E delay] s1
  show "returns (\<lambda>(led, s'). led = of_bool (odd n)
      \<and> gpio_out_r (soc_gpio (hw s')) = (if n = 0 then gpio_out_r (soc_gpio (hw s)) else ucast led)
      \<and> gpio_dir_r (soc_gpio (hw s')) = ucast LED_BIT \<and> soc_sent (hw s') = soc_sent (hw s)
      \<and> soc_table (hw s') = (soc_table (hw s))(i \<mapsto> FD_TYPE_GPIO)) (blink_upto (soc_platform E) delay n s)"
    by (auto simp: blink_upto_def m blinking_def elim!: returns_mono)
qed

end
