(* ===== verification/Rtos_Sched.thy ===== *)
theory Rtos_Sched
  imports Hw_Rtos
begin

text \<open>
  What the RTOS does between a trigger of its scheduler and the next time it is idle: the scan of the
  task control blocks, the comparison and the dispatch. All inputs are arbitrary; requests that arrive
  meanwhile are at most remembered.
\<close>

section \<open>Runs\<close>

definition rtos_run :: "(rtos_in \<times> rtos_cmd) list \<Rightarrow> hw_rtos \<Rightarrow> hw_rtos" where
  "rtos_run xs r = fold (\<lambda>(i, c). rtos_clock i c) xs r"

lemma rtos_run_simps [simp]:
  "rtos_run [] r = r" "rtos_run ((i, c) # xs) r = rtos_run xs (rtos_clock i c r)"
  "rtos_run (xs @ ys) r = rtos_run ys (rtos_run xs r)"
  by (simp_all add: rtos_run_def)

section \<open>No operation on a semaphore, mutex or queue\<close>

definition quiet :: "hw_rtos \<Rightarrow> bool" where
  "quiet r \<longleftrightarrow> sem_op_int r = 0 \<and> mutex_op_int r = 0 \<and> msgq_op_int r = 0 \<and> \<not> any_wake r \<and> \<not> wake_pending r
     \<and> prio_boost (mutex_u r) = None \<and> \<not> prio_boost_wr_pending r \<and> \<not> tcb_wr_en r"

definition passing :: "rtos_fsm_t \<Rightarrow> bool" where
  "passing st \<longleftrightarrow> st \<notin> {FSM_IDLE, FSM_BLOCK_TASK, FSM_TASK_EXIT}"

lemma unit_nops:
  "\<not> sem_wake_valid (hw_semaphore 0 i t v m prio u)" "\<not> mutex_wake_valid (hw_mutex 0 i t prio w)"
  "\<not> msgq_wake_valid (hw_msgqueue 0 i d t q)" "prio_boost (hw_mutex 0 i t prio w) = None"
  by (simp_all add: hw_semaphore_def hw_mutex_def hw_msgqueue_def Let_def)

lemma quiet_clock:
  assumes "quiet r" and "passing (fsm_state r)"
  shows "quiet (rtos_clock i c r)"
proof -
  have "sem_op_int (rtos_clock i c r) = 0 \<and> mutex_op_int (rtos_clock i c r) = 0 \<and> msgq_op_int (rtos_clock i c r) = 0
      \<and> \<not> wake_pending (rtos_clock i c r) \<and> \<not> tcb_wr_en (rtos_clock i c r) \<and> \<not> prio_boost_wr_pending (rtos_clock i c r)"
    using assms
    by (cases "fsm_state r") (simp_all add: quiet_def passing_def state_updates rtos_boost_def split: option.split)
  then show ?thesis using assms(1) by (simp add: quiet_def any_wake_def unit_nops)
qed

section \<open>The scan\<close>

text \<open>What does not change while the scheduler is at work.\<close>

definition same_task :: "hw_rtos \<Rightarrow> hw_rtos \<Rightarrow> bool" where
  "same_task r r' \<longleftrightarrow> current_task_id_r r' = current_task_id_r r \<and> task_active_r r' = task_active_r r
     \<and> join_on r' = join_on r \<and> ctx_u r' = ctx_u r \<and> sems (sem_u r') = sems (sem_u r)
     \<and> mutexes (mutex_u r') = mutexes (mutex_u r) \<and> queues (msgq_u r') = queues (msgq_u r)"

lemma same_task_cur: "same_task r r' \<Longrightarrow> current_task_id_r r' = current_task_id_r r"
  by (simp add: same_task_def)

lemma same_task_refl [simp]: "same_task r r"
  by (simp add: same_task_def)

lemma same_task_trans: "same_task r s \<Longrightarrow> same_task s t \<Longrightarrow> same_task r t"
  by (simp add: same_task_def)

text \<open>No switch has been asked of the context switch unit, and it is idle.\<close>

definition ctx_rests :: "hw_rtos \<Rightarrow> bool" where
  "ctx_rests r \<longleftrightarrow> ctx_state (ctx_u r) = CTX_IDLE \<and> \<not> cs_switch_req r"

text \<open>The trigger has been given, and \<open>ts\<close> are the blocks at the next clock.\<close>

definition entering :: "tcb list \<Rightarrow> hw_rtos \<Rightarrow> bool" where
  "entering ts r \<longleftrightarrow> fsm_state r = FSM_SCAN_READY \<and> sched_trigger r \<and> sched_state (sched_u r) = SCHED_IDLE \<and> quiet r
     \<and> ctx_rests r \<and> length ts = NUM_TASKS \<and> tcb_array (ports r) None (tcbs r) = ts \<and> current_task_id_r r < NUM_TASKS"

text \<open>The scheduler is at work, \<open>k\<close> clocks after the trigger.\<close>

definition at_work :: "nat \<Rightarrow> tcb list \<Rightarrow> hw_rtos \<Rightarrow> bool" where
  "at_work k ts r \<longleftrightarrow> fsm_state r = FSM_SCAN_READY \<and> sched_at (current_task_id_r r) ts k (sched_u r) \<and> quiet r
     \<and> ctx_rests r \<and> ports r = no_ports \<and> same_status ts (tcbs r) \<and> current_task_id_r r < NUM_TASKS"

lemma status_tick: "i < length ts \<Longrightarrow> status (map slice_tick ts) i = status ts i"
  by (simp add: status_def slice_tick_def)

lemma same_status_refl: "length ts = NUM_TASKS \<Longrightarrow> same_status ts ts"
  by (simp add: same_status_def)

lemma same_status_tick: "same_status ts ts' \<Longrightarrow> same_status ts (map slice_tick ts')"
  by (simp add: same_status_def status_tick)

lemma same_status_trans: "same_status a b \<Longrightarrow> same_status b c \<Longrightarrow> same_status a c"
  by (simp add: same_status_def)

lemma quiet_no_write: "quiet r \<Longrightarrow> tcb_wr r = None"
  by (simp add: quiet_def tcb_wr_def Let_def)

lemma scan_same_task:
  assumes "fsm_state r \<in> {FSM_SCAN_READY, FSM_COMPARE_PRIORITY}" "quiet r" "ctx_rests r"
  shows "same_task r (rtos_clock i c r)"
proof -
  have "sems (hw_semaphore 0 j t v m prio u) = sems u" "mutexes (hw_mutex 0 j t prio w) = mutexes w"
    "queues (hw_msgqueue 0 j d t q) = queues q" for j t v m prio u w d q
    by (simp_all add: hw_semaphore_def hw_mutex_def hw_msgqueue_def Let_def)
  with assms show ?thesis by (auto simp: same_task_def quiet_def ctx_rests_def context_switch_def state_updates)
qed

lemma entering_step:
  assumes "entering ts r"
  shows "at_work 1 ts (rtos_clock i c r)" "same_task r (rtos_clock i c r)"
proof -
  have r: "fsm_state r = FSM_SCAN_READY" "quiet r" "sched_state (sched_u r) = SCHED_IDLE" "sched_trigger r" "ctx_rests r"
    using assms by (simp_all add: entering_def)
  note q = quiet_clock [OF r(2), of i c]
  show "same_task r (rtos_clock i c r)" by (rule scan_same_task) (use r in simp_all)
  have "sched_at t ts 1 (task_scheduler True t (tcbs r) (sched_u r))" for t
    using r(3) by (simp add: sched_at_def task_scheduler_def scanned_def NUM_TASKS_def Let_def)
  moreover have "ctx_rests (rtos_clock i c r)" using r(1,5) by (simp add: ctx_rests_def context_switch_def rtos_scan_def)
  ultimately show "at_work 1 ts (rtos_clock i c r)"
    using assms q r same_status_refl [of ts] quiet_no_write [OF r(2)]
    by (simp add: at_work_def entering_def passing_def fsm_next_def sched_done_def rtos_scan_def del: One_nat_def)
qed

lemma at_work_step:
  assumes "at_work k ts r" and k: "0 < k" "k < sched_clocks (current_task_id_r r) ts"
  shows "at_work (Suc k) ts (rtos_clock i c r)" "same_task r (rtos_clock i c r)"
proof -
  have r: "fsm_state r = FSM_SCAN_READY" "quiet r" "ctx_rests r" "ports r = no_ports" "same_status ts (tcbs r)"
    "sched_at (current_task_id_r r) ts k (sched_u r)" "current_task_id_r r < NUM_TASKS"
    using assms(1) by (simp_all add: at_work_def)
  note q = quiet_clock [OF r(2), of i c]
  note s = sched_step [OF r(6) k(2) r(5,7), of "sched_trigger r"]
  show "same_task r (rtos_clock i c r)" by (rule scan_same_task) (use r in simp_all)
  have "ctx_rests (rtos_clock i c r)" using r(1,3) by (simp add: ctx_rests_def context_switch_def rtos_scan_def)
  then show "at_work (Suc k) ts (rtos_clock i c r)"
    using s k q r same_status_tick [OF r(5)] quiet_no_write [OF r(2)]
    by (simp add: at_work_def passing_def fsm_next_def rtos_scan_def)
qed

lemma at_work_run:
  assumes "at_work k ts r" and "0 < k" "k + length xs \<le> sched_clocks (current_task_id_r r) ts"
  shows "at_work (k + length xs) ts (rtos_run xs r) \<and> same_task r (rtos_run xs r)"
  using assms
proof (induction xs arbitrary: k r)
  case (Cons x xs)
  obtain i c where x: "x = (i, c)" by (cases x)
  have k: "k < sched_clocks (current_task_id_r r) ts" using Cons.prems(3) by simp
  note s = at_work_step [OF Cons.prems(1,2) k, of i c]
  from Cons.IH [OF s(1)] Cons.prems(3) same_task_trans [OF s(2)] show ?case
    by (simp add: x same_task_cur [OF s(2)] del: rtos_clock_regs)
qed simp

text \<open>The choice has been made.\<close>

definition decided :: "tcb list \<Rightarrow> hw_rtos \<Rightarrow> bool" where
  "decided ts r \<longleftrightarrow> fsm_state r = FSM_COMPARE_PRIORITY \<and> next_task_id_r r = schedule (current_task_id_r r) ts
     \<and> next_task_id_reg (sched_u r) = schedule (current_task_id_r r) ts \<and> sched_state (sched_u r) = SCHED_IDLE
     \<and> \<not> sched_trigger r \<and> quiet r \<and> ctx_rests r \<and> ports r = no_ports \<and> same_status ts (tcbs r)
     \<and> current_task_id_r r < NUM_TASKS"

lemma scan_decides:
  assumes "entering ts r" and "length xs = sched_clocks (current_task_id_r r) ts + 1"
  shows "decided ts (rtos_run xs r) \<and> same_task r (rtos_run xs r)"
proof -
  let ?n = "sched_clocks (current_task_id_r r) ts"
  have "xs \<noteq> []" using assms(2) by auto
  then obtain i c ys where x: "xs = (i, c) # ys" by (metis list.exhaust prod.exhaust)
  then have "ys \<noteq> []" using assms(2) by (auto simp: sched_clocks_def NUM_TASKS_def split: if_split_asm)
  then obtain zs j d where y: "ys = zs @ [(j, d)]" by (metis rev_exhaust prod.exhaust)
  note e = entering_step [OF assms(1), of i c]
  note cur = same_task_cur [OF e(2)]
  have len: "1 + length zs = ?n" using assms(2) by (simp add: x y)
  define s where "s = rtos_run zs (rtos_clock i c r)"
  have s: "at_work ?n ts s" "same_task r s"
    using at_work_run [OF e(1), of zs, unfolded cur] len same_task_trans [OF e(2)] by (simp_all add: s_def)
  note cur' = same_task_cur [OF s(2)]
  have r: "fsm_state s = FSM_SCAN_READY" "quiet s" "ctx_rests s" "ports s = no_ports" "same_status ts (tcbs s)"
    "sched_at (current_task_id_r s) ts ?n (sched_u s)" "current_task_id_r s < NUM_TASKS"
    using s(1) by (simp_all add: at_work_def)
  have u: "sched_state (sched_u s) = SCHED_DONE" "next_task_id_reg (sched_u s) = schedule (current_task_id_r s) ts"
    using r(6) cur' by (auto simp: sched_at_def sched_clocks_def split: if_split_asm)
  have "decided ts (rtos_clock j d s)"
    using quiet_clock [OF r(2), of j d] r u same_status_tick [OF r(5)] quiet_no_write [OF r(2)]
    by (simp add: decided_def passing_def fsm_next_def rtos_scan_def sched_done_def sched_busy_def task_scheduler_def
        ctx_rests_def context_switch_def)
  moreover have "same_task s (rtos_clock j d s)" by (rule scan_same_task) (use r in simp_all)
  ultimately show ?thesis using same_task_trans [OF s(2)] by (simp add: x y s_def [symmetric])
qed

section \<open>The blocks\<close>

definition set_state :: "nat \<Rightarrow> task_state_t \<Rightarrow> tcb list \<Rightarrow> tcb list" where
  "set_state i st ts = ts[i := (ts ! i)\<lparr>task_state := st\<rparr>]"

text \<open>A task as it is created.\<close>

definition new_task :: "nat \<Rightarrow> u32 \<Rightarrow> u32 \<Rightarrow> 4 word \<Rightarrow> tcb" where
  "new_task i pc sp prio = \<lparr>task_id = i, prio_level = prio, task_state = TASK_READY, task_pc = pc, task_sp = sp,
     time_slice = - 1, task_valid = True\<rparr>"

text \<open>The blocks at the next clock.\<close>

definition blocks :: "hw_rtos \<Rightarrow> tcb list" where
  "blocks r = tcb_array (ports r) (tcb_wr r) (tcbs r)"

lemma same_status_length: "same_status ts ts' \<Longrightarrow> length ts = NUM_TASKS \<and> length ts' = NUM_TASKS"
  by (simp add: same_status_def)

lemma slice_tick_updates [simp]:
  "(slice_tick t)\<lparr>time_slice := v\<rparr> = t\<lparr>time_slice := v\<rparr>"
  "(slice_tick t)\<lparr>task_state := st, time_slice := v\<rparr> = t\<lparr>task_state := st, time_slice := v\<rparr>"
  by (simp_all add: slice_tick_def)

lemma slice_tick_state: "(slice_tick t)\<lparr>task_state := st\<rparr> = t\<lparr>task_state := st, time_slice := time_slice (slice_tick t)\<rparr>"
  by (cases t) (simp add: slice_tick_def)

lemma status_update:
  assumes "length ts = NUM_TASKS" "length ts' = NUM_TASKS"
    and "\<And>j. j < NUM_TASKS \<Longrightarrow> j \<noteq> i \<Longrightarrow> status ts j = status ts' j" and "t\<lparr>time_slice := 0\<rparr> = t'\<lparr>time_slice := 0\<rparr>"
  shows "same_status (ts[i := t]) (ts'[i := t'])"
proof -
  have "status (ts[i := t]) j = status (ts'[i := t']) j" if "j < NUM_TASKS" for j
    using assms that by (cases "j = i") (simp_all add: status_def)
  then show ?thesis using assms(1,2) by (simp add: same_status_def)
qed

lemma state_port_status:
  assumes "same_status ts ts'" and "i < NUM_TASKS" and "reload = None \<or> reload = Some (i, v)"
  shows "same_status (set_state i st ts)
    (tcb_array (no_ports\<lparr>state_port := Some (i, st), reload_port := reload\<rparr>) None ts')"
proof -
  have s: "status ts j = status (map slice_tick ts') j" if "j < NUM_TASKS" for j
    using assms(1) that by (simp add: same_status_def status_tick)
  have "status ts i = status ts' i" using assms(1,2) by (simp add: same_status_def)
  then have "(ts ! i)\<lparr>task_state := st, time_slice := 0\<rparr> = (ts' ! i)\<lparr>task_state := st, time_slice := 0\<rparr>"
    unfolding status_def by (cases "ts ! i"; cases "ts' ! i") simp
  moreover have "tcb_array (no_ports\<lparr>state_port := Some (i, st), reload_port := reload\<rparr>) None ts'
      = (map slice_tick ts')[i := (ts' ! i)\<lparr>task_state := st,
          time_slice := (case reload of None \<Rightarrow> time_slice (slice_tick (ts' ! i)) | Some (_, v) \<Rightarrow> v)\<rparr>]"
    using assms(2,3) same_status_length [OF assms(1)]
    by (auto simp: tcb_array_def tcb_port_defs no_ports_def slice_tick_state)
  ultimately show ?thesis
    unfolding set_state_def using s same_status_length [OF assms(1)] by (auto intro!: status_update)
qed

lemma create_port_status:
  assumes "same_status ts ts'" and "i < NUM_TASKS"
  shows "same_status (ts[i := new_task i pc sp prio])
    (tcb_array (no_ports\<lparr>create_port := Some (i, pc, sp, prio), reload_port := Some (i, v)\<rparr>) None ts')"
proof -
  have s: "status ts j = status (map slice_tick ts') j" if "j < NUM_TASKS" for j
    using assms(1) that by (simp add: same_status_def status_tick)
  have "tcb_array (no_ports\<lparr>create_port := Some (i, pc, sp, prio), reload_port := Some (i, v)\<rparr>) None ts'
      = (map slice_tick ts')[i := (new_task i pc sp prio)\<lparr>time_slice := v\<rparr>]"
    using assms(2) same_status_length [OF assms(1)] by (simp add: tcb_array_def tcb_port_defs no_ports_def new_task_def)
  then show ?thesis using s same_status_length [OF assms(1)] by (auto intro!: status_update)
qed

section \<open>Dispatch\<close>

text \<open>Task \<open>n\<close> has been dispatched, and \<open>ts\<close> are the blocks at the next clock.\<close>

definition dispatched :: "nat \<Rightarrow> tcb list \<Rightarrow> hw_rtos \<Rightarrow> bool" where
  "dispatched n ts r \<longleftrightarrow> fsm_state r = FSM_IDLE \<and> current_task_id_r r = n \<and> task_active_r r \<and> quiet r \<and> ctx_rests r
     \<and> sched_state (sched_u r) = SCHED_IDLE \<and> \<not> sched_trigger r \<and> same_status ts (blocks r) \<and> n < NUM_TASKS"

definition dispatches :: "nat \<Rightarrow> hw_rtos \<Rightarrow> bool" where
  "dispatches n r \<longleftrightarrow> (if task_active_r r then n = current_task_id_r r else n \<noteq> 0)"

lemma best_ready_less: "best_ready ts = Some b \<Longrightarrow> b < NUM_TASKS"
  using best_ready_Some by (auto simp: is_best_def)

lemma schedule_less: "cur < NUM_TASKS \<Longrightarrow> schedule cur ts < NUM_TASKS"
  by (auto simp: schedule_def dest: best_ready_less split: option.split)

lemma decided_dispatch:
  assumes r: "decided ts r" and n: "n = schedule (current_task_id_r r) ts" "dispatches n r" and xs: "length xs = 2"
  shows "dispatched n (set_state n TASK_RUNNING ts) (rtos_run xs r)"
proof -
  obtain i c j d where x: "xs = [(i, c), (j, d)]" using xs by (auto simp: numeral_2_eq_2 length_Suc_conv)
  have a: "fsm_state r = FSM_COMPARE_PRIORITY" "quiet r" "ctx_rests r" "ports r = no_ports" "same_status ts (tcbs r)"
    "next_task_id_r r = n" "next_task_id_reg (sched_u r) = n" "sched_state (sched_u r) = SCHED_IDLE" "\<not> sched_trigger r"
    "n < NUM_TASKS"
    using r schedule_less [of "current_task_id_r r" ts] by (simp_all add: decided_def n(1))
  define s where "s = rtos_clock i c r"
  have q: "quiet s" unfolding s_def using quiet_clock [OF a(2)] a(1) by (simp add: passing_def)
  have s: "fsm_state s = FSM_DISPATCH" "ctx_rests s" "ports s = no_ports" "same_status ts (tcbs s)" "next_task_id_r s = n"
    "sched_state (sched_u s) = SCHED_IDLE" "\<not> sched_trigger s"
    using a n(2) same_status_tick [OF a(5)] quiet_no_write [OF a(2)]
    by (auto simp: s_def fsm_next_def compare_next_def dispatches_def ctx_rests_def context_switch_def task_scheduler_def
        split: if_split_asm)
  have q': "quiet (rtos_clock j d s)" using quiet_clock [OF q] s(1) by (simp add: passing_def)
  have "ports (rtos_clock j d s) = no_ports\<lparr>state_port := Some (n, TASK_RUNNING), reload_port := Some (n, time_slice_config s)\<rparr>"
    using s(1,5) by (simp add: state_updates)
  then have "blocks (rtos_clock j d s) = tcb_array (no_ports\<lparr>state_port := Some (n, TASK_RUNNING),
      reload_port := Some (n, time_slice_config s)\<rparr>) None (map slice_tick (tcbs s))"
    using s quiet_no_write [OF q] quiet_no_write [OF q'] by (simp add: blocks_def)
  with state_port_status [OF same_status_tick [OF s(4)] a(10) disjI2 [OF refl]] q' s a(10) show ?thesis
    by (simp add: x s_def [symmetric] dispatched_def fsm_next_def state_updates ctx_rests_def context_switch_def
        task_scheduler_def)
qed

text \<open>A trigger that ends in a dispatch.\<close>

theorem trigger_dispatches:
  assumes "entering ts r" and n: "n = schedule (current_task_id_r r) ts" "dispatches n r"
    and xs: "length xs = sched_clocks (current_task_id_r r) ts + 3"
  shows "dispatched n (set_state n TASK_RUNNING ts) (rtos_run xs r)"
proof -
  let ?k = "sched_clocks (current_task_id_r r) ts + 1"
  define s where "s = rtos_run (take ?k xs) r"
  have run: "rtos_run xs r = rtos_run (drop ?k xs) s"
    unfolding s_def rtos_run_simps(3) [symmetric] by (simp only: append_take_drop_id)
  have d: "decided ts s" "same_task r s" using scan_decides [OF assms(1), of "take ?k xs"] xs by (simp_all add: s_def)
  have "dispatches n s" using n(2) d(2) by (simp add: dispatches_def same_task_def)
  moreover have "n = schedule (current_task_id_r s) ts" using n(1) same_task_cur [OF d(2)] by simp
  ultimately show ?thesis unfolding run using xs by (intro decided_dispatch [OF d(1)]) simp_all
qed

text \<open>A trigger that finds no task, and none is running: the machine is idle again.\<close>

theorem trigger_idles:
  assumes "entering ts r" and n: "schedule (current_task_id_r r) ts = 0" "\<not> task_active_r r"
    and xs: "length xs = sched_clocks (current_task_id_r r) ts + 2"
  shows "fsm_state (rtos_run xs r) = FSM_IDLE" "same_task r (rtos_run xs r)" "same_status ts (tcbs (rtos_run xs r))"
proof -
  obtain ys i c where x: "xs = ys @ [(i, c)]" using xs by (cases xs rule: rev_cases) auto
  define s where "s = rtos_run ys r"
  have d: "decided ts s" "same_task r s" using scan_decides [OF assms(1), of ys] xs by (simp_all add: x s_def)
  then have s: "fsm_state s = FSM_COMPARE_PRIORITY" "next_task_id_reg (sched_u s) = 0" "\<not> task_active_r s" "quiet s"
    "ctx_rests s" "ports s = no_ports" "same_status ts (tcbs s)"
    using n by (simp_all add: decided_def same_task_def)
  have run: "rtos_run xs r = rtos_clock i c s" by (simp add: x s_def)
  show "fsm_state (rtos_run xs r) = FSM_IDLE" unfolding run using s by (simp add: fsm_next_def compare_next_def)
  show "same_task r (rtos_run xs r)"
    unfolding run by (rule same_task_trans [OF d(2) scan_same_task]) (use s in simp_all)
  show "same_status ts (tcbs (rtos_run xs r))"
    unfolding run using s same_status_tick [OF s(7)] quiet_no_write [OF s(4)] by simp
qed

section \<open>Creation\<close>

lemma free_task_id_Some:
  assumes "free_task_id valid = Some i"
  shows "0 < i" "i < NUM_TASKS" "\<not> valid ! i"
  using assms by (auto simp: free_task_id_def split: list.splits dest: filter_ConsD)

lemma create_enters:
  assumes r: "fsm_state r = FSM_TASK_CREATE" "quiet r" "ctx_rests r" "sched_state (sched_u r) = SCHED_IDLE" "\<not> sched_trigger r"
    and cur: "current_task_id_r r < NUM_TASKS" and i: "free_task_id (all_valid r) = Some i"
    and ts: "same_status ts (blocks r)"
    and req: "(pc, sp, prio) = (if task_create_pending r then (task_create_pc_r r, task_create_sp_r r, task_create_prio_r r)
      else (rtos_task_create_pc c, rtos_task_create_sp c, rtos_task_create_prio c))"
  shows "\<exists>ts'. entering ts' (rtos_clock x c r) \<and> same_status (ts[i := new_task i pc sp prio]) ts'
    \<and> create_done_r (rtos_clock x c r) \<and> create_id_r (rtos_clock x c r) = i \<and> \<not> task_create_pending (rtos_clock x c r)
    \<and> same_task r (rtos_clock x c r)"
proof -
  let ?r = "rtos_clock x c r"
  note n = free_task_id_Some [OF i]
  have q: "quiet ?r" using quiet_clock [OF r(2)] r(1) by (simp add: passing_def)
  have "ports ?r = no_ports\<lparr>create_port := Some (i, pc, sp, prio), reload_port := Some (i, time_slice_config r)\<rparr>"
    using r(1) i req by (auto simp: state_updates no_ports_def split: if_split_asm)
  then have b: "tcb_array (ports ?r) None (tcbs ?r) = tcb_array (no_ports\<lparr>create_port := Some (i, pc, sp, prio),
      reload_port := Some (i, time_slice_config r)\<rparr>) None (blocks r)"
    by (simp add: blocks_def)
  note st = create_port_status [OF ts n(2), of pc sp prio "time_slice_config r", folded b]
  have nop: "sems (hw_semaphore 0 j t v m pr u) = sems u" "mutexes (hw_mutex 0 j t pr w) = mutexes w"
    "queues (hw_msgqueue 0 j d t q) = queues q" for j t v m pr u w d q
    by (simp_all add: hw_semaphore_def hw_mutex_def hw_msgqueue_def Let_def)
  have "same_task r ?r" using r nop i
    by (simp add: same_task_def quiet_def ctx_rests_def context_switch_def state_updates)
  moreover have "entering (tcb_array (ports ?r) None (tcbs ?r)) ?r"
    using r i q cur same_status_length [OF st]
    by (simp add: entering_def fsm_next_def state_updates ctx_rests_def context_switch_def task_scheduler_def)
  ultimately show ?thesis using st r(1) i
    by (intro exI [of _ "tcb_array (ports ?r) None (tcbs ?r)"]) (simp add: state_updates)
qed

text \<open>Until the choice has been made, nothing else happens.\<close>

lemma scan_keeps:
  assumes "entering ts r" and "length xs \<le> sched_clocks (current_task_id_r r) ts + 1"
  shows "same_task r (rtos_run xs r)"
proof (cases xs)
  case Nil
  then show ?thesis by simp
next
  case (Cons x ys)
  obtain i c where x: "x = (i, c)" by (cases x)
  note e = entering_step [OF assms(1), of i c]
  show ?thesis
  proof (cases "length xs = sched_clocks (current_task_id_r r) ts + 1")
    case True
    then show ?thesis using scan_decides [OF assms(1)] by blast
  next
    case False
    then have "1 + length ys \<le> sched_clocks (current_task_id_r (rtos_clock i c r)) ts"
      using assms(2) same_task_cur [OF e(2)] Cons by (simp del: rtos_clock_regs)
    from at_work_run [OF e(1) zero_less_one this] same_task_trans [OF e(2)] show ?thesis
      by (simp add: Cons x)
  qed
qed

end
