(* ===== verification/Rtos_Ops.thy ===== *)
theory Rtos_Ops
  imports Hw_Rtos Posix_Lib
begin

text \<open>
  How a call on a semaphore or mutex goes from the POSIX layer through the state machine of
  rtl/rtos/hw\_rtos.sv to the unit that executes it, clock by clock: the layer and the RTOS wired
  together as in rtl/top/vsync\_top.sv.
\<close>

section \<open>With the POSIX layer\<close>

record pair_in =
  in_rtos :: rtos_in
  in_ecall :: ecall_port
  in_periph :: periph_port

definition pair_clock :: "pair_in \<Rightarrow> posix \<times> hw_rtos \<Rightarrow> posix \<times> hw_rtos" where
  "pair_clock x pr = (case pr of (p, r) \<Rightarrow>
     (posix_step (in_ecall x) (rtos_port_of r) (in_periph x) p, rtos_clock (in_rtos x) (rtos_out p) r))"

definition pair_run :: "pair_in list \<Rightarrow> posix \<times> hw_rtos \<Rightarrow> posix \<times> hw_rtos" where
  "pair_run xs pr = fold pair_clock xs pr"

lemma pair_run_simps [simp]:
  "pair_run [] pr = pr" "pair_run (x # xs) pr = pair_run xs (pair_clock x pr)"
  "pair_run (xs @ ys) pr = pair_run ys (pair_run xs pr)"
  by (simp_all add: pair_run_def)

lemma rtos_none_simps [simp]:
  "\<not> rtos_task_create rtos_none" "\<not> rtos_task_exit rtos_none" "\<not> rtos_task_join rtos_none"
  "\<not> rtos_task_yield rtos_none" "rtos_sem_op rtos_none = 0" "rtos_mutex_op rtos_none = 0"
  "rtos_msgq_op rtos_none = 0" "rtos_sem_value rtos_none = 0"
  by (simp_all add: rtos_none_def)

section \<open>A semaphore operation in the RTOS\<close>

text \<open>No command to a task, to a mutex or to a queue.\<close>

definition sem_only :: "rtos_cmd \<Rightarrow> bool" where
  "sem_only c \<longleftrightarrow> \<not> rtos_task_create c \<and> \<not> rtos_task_exit c \<and> \<not> rtos_task_join c \<and> \<not> rtos_task_yield c
     \<and> rtos_mutex_op c = 0 \<and> rtos_msgq_op c = 0"

text \<open>Nothing is in progress but what concerns the semaphores.\<close>

definition others_quiet :: "hw_rtos \<Rightarrow> bool" where
  "others_quiet r \<longleftrightarrow> \<not> task_create_pending r \<and> \<not> wake_pending r
     \<and> \<not> mutex_op_pending r \<and> \<not> msgq_op_pending r \<and> mutex_op_int r = 0 \<and> msgq_op_int r = 0
     \<and> \<not> mutex_wake_valid (mutex_u r) \<and> \<not> msgq_wake_valid (msgq_u r)
     \<and> \<not> mutex_done_r r \<and> \<not> msgq_done_r r"

text \<open>
  A moment of a semaphore operation: the state, the operation before the unit, whether the answer is
  awaited, whether it is being given, the semaphore, the task and the unit.
\<close>

definition sem_at ::
  "rtos_fsm_t \<Rightarrow> nat \<Rightarrow> bool \<Rightarrow> bool \<Rightarrow> nat \<Rightarrow> nat \<Rightarrow> sem_unit \<Rightarrow> hw_rtos \<Rightarrow> bool" where
  "sem_at st op pend done i t u r \<longleftrightarrow> fsm_state r = st \<and> sem_op_int r = op \<and> sem_op_pending r = pend
     \<and> sem_done_r r = done \<and> (done \<longrightarrow> sem_result_r r) \<and> (op \<noteq> 0 \<longrightarrow> sem_id_int r = i)
     \<and> current_task_id_r r = t \<and> sem_u r = u \<and> others_quiet r"

definition sem_nop :: "sem_unit \<Rightarrow> sem_unit" where
  "sem_nop u = u\<lparr>sem_success := False, sem_block := False, sem_wake_task_id := 0, sem_wake_valid := False\<rparr>"

lemma hw_semaphore_nop [simp]: "hw_semaphore 0 i t v m prio u = sem_nop u"
  by (cases u) (simp add: hw_semaphore_def sem_nop_def Let_def wake_id_def)

lemma hw_mutex_nop: "\<not> mutex_wake_valid (hw_mutex 0 i t prio u)"
  by (simp add: hw_mutex_def Let_def)

lemma hw_msgqueue_nop: "\<not> msgq_wake_valid (hw_msgqueue 0 i d t u)"
  by (simp add: hw_msgqueue_def Let_def)

lemmas rtos_defs = rtos_clock_def fsm_next_def idle_next_def block_next_def rtos_latch_def rtos_state_update_def
  rtos_issue_def rtos_collect_def rtos_block_def put_state_def after_op_def any_wake_def
  Let_def

lemmas sem_path = rtos_defs others_quiet_def sem_only_def sem_at_def hw_mutex_nop hw_msgqueue_nop

lemma sem_issue:
  assumes "sem_at FSM_IDLE 0 False dn j t u r" and "\<not> sem_wake_valid u"
    and "sem_only c" "rtos_sem_op c = op" "rtos_sem_id c = i" "op \<noteq> 0"
  shows "sem_at FSM_BLOCK_TASK op True False i t (sem_nop u) (rtos_clock x c r)"
  using assms by (simp add: sem_path)

lemma sem_exec:
  assumes "sem_at FSM_BLOCK_TASK op True False i t u r"
    and "\<not> sem_success u" "\<not> sem_block u" "\<not> sem_wake_valid u" "sem_only c" "op \<noteq> 0"
  shows "sem_at FSM_BLOCK_TASK op True False i t
    (hw_semaphore op i t (rtos_sem_value c) 0xFF (task_prios r) u) (rtos_clock x c r)"
  using assms by (simp add: sem_path)

lemma sem_finish:
  assumes "sem_at FSM_BLOCK_TASK op True False i t u r"
    and "sem_success u" "\<not> sem_block u" "\<not> sem_wake_valid u" "sem_only c" "op \<noteq> 0"
  shows "sem_at FSM_IDLE 0 False True i t
    (hw_semaphore op i t (rtos_sem_value c) 0xFF (task_prios r) u) (rtos_clock x c r)"
  using assms by (simp add: sem_path)

lemma sem_collect_block:
  assumes "sem_at FSM_BLOCK_TASK op True False i t u r"
    and "sem_block u" "\<not> sem_success u" "sem_only c" "op \<noteq> 0"
  shows "fsm_state (rtos_clock x c r) = FSM_SCAN_READY \<and> \<not> task_active_r (rtos_clock x c r)
    \<and> sem_u (rtos_clock x c r) = hw_semaphore op i t (rtos_sem_value c) 0xFF (task_prios r) u"
  using assms by (simp add: sem_path)

section \<open>The layer while it waits\<close>

definition sem_call :: "posix_state_t \<Rightarrow> byte \<Rightarrow> u32 \<Rightarrow> u32 \<Rightarrow> posix \<Rightarrow> bool" where
  "sem_call st num a0 a1 p \<longleftrightarrow> state_r p = st \<and> latched_syscall_num p = num \<and> latched_arg0 p = a0
     \<and> latched_arg1 p = a1"

text \<open>The number of a call on a semaphore that waits for the RTOS.\<close>

definition sem_num :: "byte \<Rightarrow> bool" where
  "sem_num num \<longleftrightarrow> unat num div 16 = 2 \<and> unat num mod 16 < 7"

lemma sem_call_cmd:
  assumes "sem_call st num a0 a1 p" and "st = S_SEM_OP \<or> st = S_WAIT_RTOS" and "sem_num num"
  shows "rtos_out p = sem_cmd p" "sem_only (sem_cmd p)" "rtos_sem_id (sem_cmd p) = unat a0 mod 8"
  using assms
  by (auto simp: sem_call_def rtos_out_def sem_num_def syscall_category_def sem_cmd_def sem_only_def
      rtos_none_def)

lemma sem_call_step:
  assumes "sem_call st num a0 a1 p" and "sem_num num"
  shows "st = S_SEM_OP \<Longrightarrow> sem_call S_WAIT_RTOS num a0 a1 (posix_step c k d p)"
    and "st = S_WAIT_RTOS \<Longrightarrow> \<not> rtos_sem_done k \<Longrightarrow> sem_call S_WAIT_RTOS num a0 a1 (posix_step c k d p)"
    and "st = S_WAIT_RTOS \<Longrightarrow> rtos_sem_done k \<Longrightarrow> rtos_sem_result k
      \<Longrightarrow> state_r (posix_step c k d p) = S_COMPLETE \<and> result_r (posix_step c k d p) = 0"
  using assms
  by (simp_all add: sem_call_def sem_num_def posix_step_latched state_next_def result_next_def rtos_answer_def
      rtos_done_def syscall_category_def syscall_subop_def Let_def)

text \<open>
  The RTOS sees the request once more, and executes it again, while the layer takes the answer; after
  that the layer asks for nothing.
\<close>

lemma sem_only_none: "sem_only rtos_none"
  by (simp add: sem_only_def)

text \<open>
  The four clocks until the layer is done, and the two in which the RTOS executes the request again.
\<close>

definition sem_answered :: "pair_in list \<Rightarrow> posix \<times> hw_rtos \<Rightarrow> (hw_rtos \<Rightarrow> bool) \<Rightarrow> bool" where
  "sem_answered xs pr Q \<longleftrightarrow> (let (p, r) = pair_run (take 4 xs) pr; (p', r') = pair_run (drop 4 xs) (p, r)
     in state_r p = S_COMPLETE \<and> result_r p = 0 \<and> state_r p' \<in> {S_IDLE, S_DECODE} \<and> Q r')"

lemma sem_answered_mono: "\<lbrakk>sem_answered xs pr Q; \<And>r'. Q r' \<Longrightarrow> Q' r'\<rbrakk> \<Longrightarrow> sem_answered xs pr Q'"
  by (auto simp: sem_answered_def Let_def split: prod.splits)

lemma six_inputs: "length xs = 6 \<Longrightarrow> \<exists>a b c d e f. xs = [a, b, c, d, e, f]"
  by (auto simp: numeral_eq_Suc length_Suc_conv)

lemma sem_port:
  "sem_at st op pend dn i t u r \<Longrightarrow> rtos_sem_done (rtos_port_of r) = dn \<and> (dn \<longrightarrow> rtos_sem_result (rtos_port_of r))"
  by (simp add: sem_at_def rtos_port_of_def)

text \<open>The unit without the priorities, which only matter when a task is woken.\<close>

definition sem_exec_to :: "nat \<Rightarrow> nat \<Rightarrow> nat \<Rightarrow> byte \<Rightarrow> sem_unit \<Rightarrow> sem_unit \<Rightarrow> bool" where
  "sem_exec_to op i t v u u' \<longleftrightarrow> (\<forall>prio. hw_semaphore op i t v 0xFF prio u = u')"

lemma sem_first_half:
  fixes v :: byte
  assumes p: "sem_call S_SEM_OP num a0 a1 p" "sem_num num" and r: "sem_at FSM_IDLE 0 False False j t u r"
    and op: "rtos_sem_op (sem_cmd p) = op" "op \<noteq> 0" "rtos_sem_value (sem_cmd p) = v" and nw: "\<not> sem_wake_valid u"
    and i: "i = unat a0 mod 8"
    and u2: "sem_exec_to op i t v (sem_nop u) u2" "sem_success u2" "\<not> sem_block u2" "\<not> sem_wake_valid u2"
    and u3: "sem_exec_to op i t v u2 u3" "\<not> sem_wake_valid u3"
  shows "case pair_run [x0, x1, x2, x3] (p, r) of (p4, r4) \<Rightarrow> state_r p4 = S_COMPLETE \<and> result_r p4 = 0
    \<and> sem_at FSM_BLOCK_TASK op True False i t (sem_nop u3) r4"
proof -
  have cmd: "rtos_sem_op (sem_cmd q) = op" "rtos_sem_value (sem_cmd q) = v" if "sem_call st num a0 a1 q" for q st
  proof -
    have "sem_cmd q = sem_cmd p"
      using that p(1) by (simp add: sem_cmd_def sem_call_def syscall_subop_def)
    then show "rtos_sem_op (sem_cmd q) = op" "rtos_sem_value (sem_cmd q) = v" using op by simp_all
  qed
  note c0 = sem_call_cmd [OF p(1) disjI1 [OF refl] p(2)]
  define r1 where "r1 = rtos_clock (in_rtos x0) (sem_cmd p) r"
  have r1: "sem_at FSM_BLOCK_TASK op True False i t (sem_nop u) r1"
    unfolding r1_def using sem_issue [OF r nw c0(2) op(1) c0(3) op(2)] i by blast
  define p1 where "p1 = posix_step (in_ecall x0) (rtos_port_of r) (in_periph x0) p"
  have p1: "sem_call S_WAIT_RTOS num a0 a1 p1" unfolding p1_def by (rule sem_call_step(1) [OF p refl])
  note c1 = sem_call_cmd [OF p1 disjI2 [OF refl] p(2)]
  have low: "\<not> sem_success (sem_nop w)" "\<not> sem_block (sem_nop w)" "\<not> sem_wake_valid (sem_nop w)" for w
    by (simp_all add: sem_nop_def)
  define r2 where "r2 = rtos_clock (in_rtos x1) (sem_cmd p1) r1"
  have r2: "sem_at FSM_BLOCK_TASK op True False i t u2 r2"
    using sem_exec [OF r1 low c1(2) op(2), of "in_rtos x1"] cmd [OF p1] u2(1) by (simp add: sem_exec_to_def r2_def)
  define p2 where "p2 = posix_step (in_ecall x1) (rtos_port_of r1) (in_periph x1) p1"
  have p2: "sem_call S_WAIT_RTOS num a0 a1 p2"
    unfolding p2_def using sem_port [OF r1] by (intro sem_call_step(2) [OF p1 p(2) refl]) simp
  note c2 = sem_call_cmd [OF p2 disjI2 [OF refl] p(2)]
  define r3 where "r3 = rtos_clock (in_rtos x2) (sem_cmd p2) r2"
  have r3: "sem_at FSM_IDLE 0 False True i t u3 r3"
    using sem_finish [OF r2 u2(2-4) c2(2) op(2), of "in_rtos x2"] cmd [OF p2] u3(1) by (simp add: sem_exec_to_def r3_def)
  define p3 where "p3 = posix_step (in_ecall x2) (rtos_port_of r2) (in_periph x2) p2"
  have p3: "sem_call S_WAIT_RTOS num a0 a1 p3"
    unfolding p3_def using sem_port [OF r2] by (intro sem_call_step(2) [OF p2 p(2) refl]) simp
  note c3 = sem_call_cmd [OF p3 disjI2 [OF refl] p(2)]
  define r4 where "r4 = rtos_clock (in_rtos x3) (sem_cmd p3) r3"
  have r4: "sem_at FSM_BLOCK_TASK op True False i t (sem_nop u3) r4"
    unfolding r4_def using sem_issue [OF r3 u3(2) c3(2) cmd(1) [OF p3] c3(3) op(2)] i by blast
  define p4 where "p4 = posix_step (in_ecall x3) (rtos_port_of r3) (in_periph x3) p3"
  have p4: "state_r p4 = S_COMPLETE \<and> result_r p4 = 0"
    unfolding p4_def using sem_port [OF r3] by (intro sem_call_step(3) [OF p3 p(2) refl]) simp_all
  have "pair_run [x0, x1, x2, x3] (p, r) = (p4, r4)"
    by (simp add: pair_clock_def c0(1) c1(1) c2(1) c3(1) p1_def [symmetric] r1_def [symmetric]
        p2_def [symmetric] r2_def [symmetric] p3_def [symmetric] r3_def [symmetric] p4_def r4_def)
  with p4 r4 show ?thesis by simp
qed

text \<open>From there on the layer asks for nothing, and the value it gives is zero.\<close>

lemma layer_done:
  assumes "state_r p = S_COMPLETE"
  shows "rtos_out p = rtos_none" "state_r (posix_step c k d p) = S_IDLE"
    "rtos_out (posix_step c k d p) = rtos_none"
    "state_r (posix_step c' k' d' (posix_step c k d p)) \<in> {S_IDLE, S_DECODE}"
  using assms by (simp_all add: rtos_out_def state_next_def)

lemma sem_second_half:
  assumes p: "state_r p = S_COMPLETE" and r: "sem_at FSM_BLOCK_TASK op True False i t (sem_nop u) r" "op \<noteq> 0"
    and u2: "sem_exec_to op i t 0 (sem_nop u) u2" and u3: "sem_exec_to op i t 0 u2 u3"
    and Q: "sem_success u2 \<and> \<not> sem_block u2 \<and> \<not> sem_wake_valid u2
        \<and> (\<forall>r'. fsm_state r' = FSM_IDLE \<and> sem_u r' = u3 \<longrightarrow> Q r')
      \<or> sem_block u2 \<and> \<not> sem_success u2
        \<and> (\<forall>r'. fsm_state r' = FSM_SCAN_READY \<and> \<not> task_active_r r' \<and> sem_u r' = u3 \<longrightarrow> Q r')
      \<or> \<not> sem_success u2 \<and> \<not> sem_block u2 \<and> \<not> sem_wake_valid u2
        \<and> (\<forall>r'. fsm_state r' = FSM_BLOCK_TASK \<and> sem_u r' = u3 \<longrightarrow> Q r')"
  shows "case pair_run [x0, x1] (p, r) of (p', r') \<Rightarrow> state_r p' \<in> {S_IDLE, S_DECODE} \<and> Q r'"
proof -
  have low: "\<not> sem_success (sem_nop u)" "\<not> sem_block (sem_nop u)" "\<not> sem_wake_valid (sem_nop u)"
    by (simp_all add: sem_nop_def)
  define r1 where "r1 = rtos_clock (in_rtos x0) rtos_none r"
  have r1: "sem_at FSM_BLOCK_TASK op True False i t u2 r1"
    using sem_exec [OF r(1) low sem_only_none r(2), of "in_rtos x0"] u2 by (simp add: sem_exec_to_def r1_def)
  have "Q (rtos_clock (in_rtos x1) rtos_none r1)"
    using Q
  proof (elim disjE)
    assume "sem_success u2 \<and> \<not> sem_block u2 \<and> \<not> sem_wake_valid u2
        \<and> (\<forall>r'. fsm_state r' = FSM_IDLE \<and> sem_u r' = u3 \<longrightarrow> Q r')"
    with sem_finish [OF r1 _ _ _ sem_only_none r(2), of "in_rtos x1"] u3 show ?thesis
      by (simp add: sem_at_def sem_exec_to_def)
  next
    assume "sem_block u2 \<and> \<not> sem_success u2
        \<and> (\<forall>r'. fsm_state r' = FSM_SCAN_READY \<and> \<not> task_active_r r' \<and> sem_u r' = u3 \<longrightarrow> Q r')"
    with sem_collect_block [OF r1 _ _ sem_only_none r(2), of "in_rtos x1"] u3 show ?thesis
      by (simp add: sem_exec_to_def)
  next
    assume "\<not> sem_success u2 \<and> \<not> sem_block u2 \<and> \<not> sem_wake_valid u2
        \<and> (\<forall>r'. fsm_state r' = FSM_BLOCK_TASK \<and> sem_u r' = u3 \<longrightarrow> Q r')"
    with sem_exec [OF r1 _ _ _ sem_only_none r(2), of "in_rtos x1"] u3 show ?thesis
      by (simp add: sem_at_def sem_exec_to_def)
  qed
  then show ?thesis
    using layer_done [OF p] by (simp add: pair_clock_def r1_def del: posix_step_simps)
qed

section \<open>Four times\<close>

text \<open>
  The unit after operations on semaphore \<open>i\<close>, for which nobody waits: \<open>k\<close> is its count, \<open>ok\<close> whether the
  last operation succeeded. A POST at the maximum neither succeeds nor blocks.
\<close>

definition sem_counted :: "sem_unit \<Rightarrow> nat \<Rightarrow> nat \<Rightarrow> bool \<Rightarrow> sem_unit" where
  "sem_counted u i k ok = \<lparr>sems = (sems u)[i := (sems u ! i)\<lparr>count_r := of_nat k\<rparr>], sem_success = ok,
     sem_block = False, sem_wake_task_id = 0, sem_wake_valid = False\<rparr>"

text \<open>The unit after a WAIT that found the count zero: task \<open>t\<close> is entered as waiting.\<close>

definition sem_waited :: "sem_unit \<Rightarrow> nat \<Rightarrow> nat \<Rightarrow> sem_unit" where
  "sem_waited u i t = \<lparr>sems = (sems u)[i := (sems u ! i)\<lparr>count_r := 0, sem_wait_mask_r := 2 ^ t\<rparr>], sem_success = False,
     sem_block = True, sem_wake_task_id = 0, sem_wake_valid = False\<rparr>"

text \<open>The unit after so many WAITs by task \<open>t\<close>, from the count \<open>c\<close>.\<close>

definition sem_taken :: "sem_unit \<Rightarrow> nat \<Rightarrow> nat \<Rightarrow> nat \<Rightarrow> nat \<Rightarrow> sem_unit" where
  "sem_taken u i t c k = (if k \<le> c then sem_counted u i (c - k) True else sem_waited u i t)"

lemma sem_counted_simps [simp]:
  "sem_success (sem_counted u i k ok) = ok" "\<not> sem_block (sem_counted u i k ok)" "\<not> sem_wake_valid (sem_counted u i k ok)"
  "sem_success (sem_taken u i t c k) \<longleftrightarrow> k \<le> c" "sem_block (sem_taken u i t c k) \<longleftrightarrow> c < k"
  "\<not> sem_wake_valid (sem_taken u i t c k)" "sems (sem_nop w) = sems w"
  by (simp_all add: sem_counted_def sem_taken_def sem_waited_def sem_nop_def)

lemma sem_counted_sems: "sems (sem_counted u i k ok) = (sems u)[i := (sems u ! i)\<lparr>count_r := of_nat k\<rparr>]"
  by (simp add: sem_counted_def)

lemma sem_counted_start:
  "sems u = sems (sem_counted u i (unat (count_r (sems u ! i))) ok)"
  "sems u = sems (sem_taken u i t (unat (count_r (sems u ! i))) 0)"
  by (simp_all add: sem_counted_def sem_taken_def)

lemma hw_sem_post:
  assumes w: "sems w = sems (sem_counted u i k ok)" and i: "i < length (sems u)" "sem_wait_mask_r (sems u ! i) = 0"
    and k: "k \<le> unat (max_count_r (sems u ! i))"
  shows "hw_semaphore 3 i t v m prio w
    = sem_counted u i (min (k + 1) (unat (max_count_r (sems u ! i)))) (k < unat (max_count_r (sems u ! i)))"
proof -
  have "unat (max_count_r (sems u ! i)) < 256" using unsigned_less [of "max_count_r (sems u ! i)", where 'a = nat] by simp
  then have "of_nat k < max_count_r (sems u ! i) \<longleftrightarrow> k < unat (max_count_r (sems u ! i))"
    using k by (simp add: word_less_nat_alt unat_of_nat)
  with w i k show ?thesis
    by (simp add: hw_semaphore_def Let_def wake_id_def sem_counted_def min_def ac_simps)
qed

lemma hw_sem_wait:
  assumes w: "sems w = sems (sem_taken u i t c k)" and i: "i < length (sems u)" "sem_wait_mask_r (sems u ! i) = 0"
    and c: "c < 256"
  shows "hw_semaphore 2 i t v m prio w = sem_taken u i t c (k + 1)"
proof (cases "k < c")
  case True
  then have "(of_nat (c - k) :: byte) \<noteq> 0" using c by (simp add: word_of_nat_eq_0_iff nat_dvd_not_less del: of_nat_diff)
  moreover have "(of_nat (c - k) :: byte) - 1 = of_nat (c - Suc k)" using True by (simp add: of_nat_diff)
  ultimately show ?thesis
    using w i True by (simp add: hw_semaphore_def Let_def wake_id_def sem_counted_def sem_taken_def word_gt_0 diff_diff_eq ac_simps)
next
  case False
  have again: "set_bit n (2 ^ n) = (2 ^ n :: task_mask)" "set_bit n 0 = (2 ^ n :: task_mask)" for n
    by (rule bit_word_eqI, auto simp: bit_set_bit_iff bit_exp_iff)+
  show ?thesis
    using w i False again
    by (cases "k = c") (simp_all add: hw_semaphore_def Let_def wake_id_def sem_counted_def sem_taken_def sem_waited_def)
qed

text \<open>The layer is about to ask for the call \<open>num\<close>, and nothing else is in progress.\<close>

definition sem_call_at :: "u32 \<Rightarrow> u32 \<Rightarrow> u32 \<Rightarrow> posix \<times> hw_rtos \<Rightarrow> bool" where
  "sem_call_at num a0 a1 pr \<longleftrightarrow> sem_call S_SEM_OP (ucast num) a0 a1 (fst pr)
     \<and> sem_at FSM_IDLE 0 False False (sem_id_int (snd pr)) (current_task_id_r (snd pr)) (sem_u (snd pr)) (snd pr)
     \<and> \<not> sem_wake_valid (sem_u (snd pr)) \<and> sem_wf (sem_u (snd pr))"

definition sem_of :: "u32 \<Rightarrow> hw_rtos \<Rightarrow> semaphore" where
  "sem_of a0 r = sems (sem_u r) ! (unat a0 mod 8)"

lemma sem_num_calls:
  "sem_num (ucast SYS_SEM_INIT)" "sem_num (ucast SYS_SEM_WAIT)" "sem_num (ucast SYS_SEM_POST)"
  by (simp_all add: sem_num_def posix_defs)

lemma sem_cmd_calls:
  assumes "sem_call st (ucast num) a0 a1 p"
  shows "num = SYS_SEM_INIT \<Longrightarrow> rtos_sem_op (sem_cmd p) = 1 \<and> rtos_sem_value (sem_cmd p) = ucast a1"
    and "num = SYS_SEM_WAIT \<Longrightarrow> rtos_sem_op (sem_cmd p) = 2 \<and> rtos_sem_value (sem_cmd p) = 0"
    and "num = SYS_SEM_POST \<Longrightarrow> rtos_sem_op (sem_cmd p) = 3 \<and> rtos_sem_value (sem_cmd p) = 0"
  using assms by (simp_all add: sem_call_def sem_cmd_def syscall_subop_def posix_defs)

lemma sem_answeredI:
  assumes pr: "sem_call_at num a0 a1 (p, r)" "sem_num (ucast num)" and xs: "xs = [x0, x1, x2, x3, x4, x5]"
    and op: "rtos_sem_op (sem_cmd p) = op" "op \<noteq> 0" "rtos_sem_value (sem_cmd p) = v"
    and ex: "ex = sem_exec_to op (unat a0 mod 8) (current_task_id_r r)"
    and u2: "ex v (sem_nop (sem_u r)) u2" "sem_success u2" "\<not> sem_block u2" "\<not> sem_wake_valid u2"
    and u3: "ex v u2 u3" "\<not> sem_wake_valid u3"
    and u5: "ex 0 (sem_nop u3) u5" "ex 0 u5 u6"
    and Q: "sem_success u5 \<and> \<not> sem_block u5 \<and> \<not> sem_wake_valid u5
        \<and> (\<forall>r'. fsm_state r' = FSM_IDLE \<and> sem_u r' = u6 \<longrightarrow> Q r')
      \<or> sem_block u5 \<and> \<not> sem_success u5
        \<and> (\<forall>r'. fsm_state r' = FSM_SCAN_READY \<and> \<not> task_active_r r' \<and> sem_u r' = u6 \<longrightarrow> Q r')
      \<or> \<not> sem_success u5 \<and> \<not> sem_block u5 \<and> \<not> sem_wake_valid u5
        \<and> (\<forall>r'. fsm_state r' = FSM_BLOCK_TASK \<and> sem_u r' = u6 \<longrightarrow> Q r')"
  shows "sem_answered xs (p, r) Q"
proof -
  have c: "sem_call S_SEM_OP (ucast num) a0 a1 p" "\<not> sem_wake_valid (sem_u r)"
    "sem_at FSM_IDLE 0 False False (sem_id_int r) (current_task_id_r r) (sem_u r) r"
    using pr(1) by (simp_all add: sem_call_at_def)
  note ex = ex [THEN fun_cong, THEN fun_cong, THEN fun_cong, THEN iffD1]
  obtain p4 r4 where h: "pair_run [x0, x1, x2, x3] (p, r) = (p4, r4)" by (cases "pair_run [x0, x1, x2, x3] (p, r)")
  from sem_first_half [OF c(1) pr(2) c(3) op c(2) refl ex [OF u2(1)] u2(2-4) ex [OF u3(1)] u3(2), of x0 x1 x2 x3]
  have h4: "state_r p4 = S_COMPLETE" "result_r p4 = 0"
    "sem_at FSM_BLOCK_TASK op True False (unat a0 mod 8) (current_task_id_r r) (sem_nop u3) r4"
    by (simp_all only: h prod.case)
  from sem_second_half [OF h4(1,3) op(2) ex [OF u5(1)] ex [OF u5(2)] Q, of x4 x5] h4(1,2) show ?thesis
    unfolding sem_answered_def xs by (simp only: take_Cons_numeral drop_Cons_numeral) (simp add: h del: pair_run_simps(2) split: prod.splits)
qed

text \<open>What one request does.\<close>

lemma sem_call_facts:
  assumes "sem_call_at num a0 a1 (p, r)"
  shows "sem_call S_SEM_OP (ucast num) a0 a1 p" "unat a0 mod 8 < length (sems (sem_u r))"
  using assms by (simp_all add: sem_call_at_def sem_wf_def NUM_SEMS_def)

text \<open>
  The count goes up to the maximum, at which the RTOS waits for an answer of the unit that does not
  come, when it is executing the request again.
\<close>

lemma sem_post_repeats:
  assumes pr: "sem_call_at SYS_SEM_POST a0 a1 (p, r)" and xs: "length xs = 6" and w: "sem_wait_mask_r (sem_of a0 r) = 0"
    and M: "M = unat (max_count_r (sem_of a0 r))" and c: "c = unat (count_r (sem_of a0 r))" "c < M"
  shows "sem_answered xs (p, r) (\<lambda>r'. sem_of a0 r' = (sem_of a0 r)\<lparr>count_r := of_nat (min (c + 4) M)\<rparr>
    \<and> fsm_state r' = (if c + 3 \<le> M then FSM_IDLE else FSM_BLOCK_TASK))"
proof -
  obtain x0 x1 x2 x3 x4 x5 where x: "xs = [x0, x1, x2, x3, x4, x5]" using six_inputs [OF xs] by blast
  let ?i = "unat a0 mod 8" and ?u = "sem_u r"
  define up where "up = (\<lambda>k. sem_counted ?u ?i (min (c + k) M) (c + k \<le> M))"
  note f = sem_call_facts [OF pr]
  have start: "sems (sem_nop ?u) = sems (sem_counted ?u ?i (min c M) True)"
    using sem_counted_start(1) [of ?u ?i True] c by (simp add: sem_of_def min_def)
  have up: "sem_exec_to 3 ?i (current_task_id_r r) 0 w' (up (k + 1))"
    if "sems w' = sems (sem_counted ?u ?i (min (c + k) M) ok)" for w' k ok
    using hw_sem_post [OF that f(2)] w M by (auto simp: sem_exec_to_def sem_of_def up_def min_def)
  have e: "sem_exec_to 3 ?i (current_task_id_r r) 0 (sem_nop ?u) (up 1)" "sem_exec_to 3 ?i (current_task_id_r r) 0 (up 1) (up 2)"
    "sem_exec_to 3 ?i (current_task_id_r r) 0 (sem_nop (up 2)) (up 3)" "sem_exec_to 3 ?i (current_task_id_r r) 0 (up 3) (up 4)"
    using up [of "sem_nop ?u" 0 True] start up [of "up 1" 1 "c + 1 \<le> M"] up [of "sem_nop (up 2)" 2 "c + 2 \<le> M"] up [of "up 3" 3 "c + 3 \<le> M"]
    by (simp_all add: up_def)
  show ?thesis
    using e sem_cmd_calls(3) [OF f(1) refl] c f(2)
    by (intro sem_answeredI [OF pr sem_num_calls(3) x _ _ _ refl, where op = 3 and v = 0
          and ?u2.0 = "up 1" and ?u3.0 = "up 2" and ?u5.0 = "up 3" and ?u6.0 = "up 4"])
      (auto simp: sem_of_def up_def sem_counted_sems)
qed

text \<open>
  When the count reaches zero in between, the caller, whose \<open>sem_wait\<close> has returned 0, is entered as
  waiting; it is taken off too, unless only the last of the four executions found it zero.
\<close>

lemma sem_wait_repeats:
  assumes pr: "sem_call_at SYS_SEM_WAIT a0 a1 (p, r)" and xs: "length xs = 6" and w: "sem_wait_mask_r (sem_of a0 r) = 0"
    and c: "c = unat (count_r (sem_of a0 r))" "c \<noteq> 0"
  shows "sem_answered xs (p, r) (\<lambda>r'. sem_of a0 r' = (sem_of a0 r)\<lparr>count_r := of_nat (c - 4),
      sem_wait_mask_r := if 4 \<le> c then 0 else 2 ^ current_task_id_r r\<rparr>
    \<and> (if 3 \<le> c then fsm_state r' = FSM_IDLE else fsm_state r' = FSM_SCAN_READY \<and> \<not> task_active_r r'))"
proof -
  obtain x0 x1 x2 x3 x4 x5 where x: "xs = [x0, x1, x2, x3, x4, x5]" using six_inputs [OF xs] by blast
  let ?i = "unat a0 mod 8" and ?u = "sem_u r" and ?t = "current_task_id_r r"
  define dn where "dn = sem_taken ?u ?i ?t c"
  note f = sem_call_facts [OF pr]
  have c8: "c < 256" using c(1) unsigned_less [of "count_r (sem_of a0 r)", where 'a = nat] by simp
  have dn: "sem_exec_to 2 ?i ?t 0 w' (dn m)" if "sems w' = sems (dn k)" "m = k + 1" for w' k m
    using hw_sem_wait [OF _ f(2) _ c8, of w' ?t k] that w by (auto simp: sem_exec_to_def sem_of_def dn_def)
  have "sems (sem_nop ?u) = sems (dn 0)"
    using sem_counted_start(2) [of ?u ?i ?t] c(1) by (simp add: dn_def sem_of_def)
  then have e: "sem_exec_to 2 ?i ?t 0 (sem_nop ?u) (dn 1)" "sem_exec_to 2 ?i ?t 0 (dn 1) (dn 2)"
    "sem_exec_to 2 ?i ?t 0 (sem_nop (dn 2)) (dn 3)" "sem_exec_to 2 ?i ?t 0 (dn 3) (dn 4)"
    by (intro dn [of _ 0] dn [of _ 1] dn [of _ 2] dn [of _ 3]; simp)+
  have four: "sems (dn 4) ! ?i = (sem_of a0 r)\<lparr>count_r := of_nat (c - 4), sem_wait_mask_r := if 4 \<le> c then 0 else 2 ^ ?t\<rparr>"
    using f(2) w by (auto simp: dn_def sem_taken_def sem_counted_def sem_waited_def sem_of_def)
  show ?thesis
    using e sem_cmd_calls(2) [OF f(1) refl] c four
    by (intro sem_answeredI [OF pr sem_num_calls(2) x _ _ _ refl, where op = 2 and v = 0
          and ?u2.0 = "dn 1" and ?u3.0 = "dn 2" and ?u5.0 = "dn 3" and ?u6.0 = "dn 4"])
      (auto simp: sem_of_def dn_def)
qed

text \<open>The second initialisation finds the value zero on its input.\<close>

lemma sem_init_zero:
  assumes pr: "sem_call_at SYS_SEM_INIT a0 a1 (p, r)" and xs: "length xs = 6"
  shows "sem_answered xs (p, r) (\<lambda>r'. fsm_state r' = FSM_IDLE
    \<and> sem_of a0 r' = \<lparr>count_r = 0, max_count_r = 0xFF, sem_wait_mask_r = 0\<rparr>)"
proof -
  obtain x0 x1 x2 x3 x4 x5 where x: "xs = [x0, x1, x2, x3, x4, x5]" using six_inputs [OF xs] by blast
  have c: "sem_call S_SEM_OP (ucast SYS_SEM_INIT) a0 a1 p" "unat a0 mod 8 < length (sems (sem_u r))"
    using pr by (simp_all add: sem_call_at_def sem_wf_def NUM_SEMS_def)
  define u1 where "u1 = (\<lambda>v. \<lparr>sems = (sems (sem_u r))[unat a0 mod 8 := \<lparr>count_r = v, max_count_r = 0xFF, sem_wait_mask_r = 0\<rparr>],
    sem_success = True, sem_block = False, sem_wake_task_id = 0, sem_wake_valid = False\<rparr>)"
  have "sem_exec_to 1 (unat a0 mod 8) (current_task_id_r r) v w (u1 v)"
    if "sems w = sems (sem_u r) \<or> sems w = sems (u1 v')" for w v v'
    using that by (auto simp: sem_exec_to_def hw_semaphore_def Let_def wake_id_def u1_def)
  note ex = this [OF disjI1] this [OF disjI2]
  show ?thesis
    using sem_cmd_calls(1) [OF c(1) refl] c(2)
    by (intro sem_answeredI [OF pr sem_num_calls(1) x _ _ _ refl, where op = 1 and v = "ucast a1"
          and ?u2.0 = "u1 (ucast a1)" and ?u3.0 = "u1 (ucast a1)" and ?u5.0 = "u1 0" and ?u6.0 = "u1 0"] ex)
      (simp_all add: sem_of_def u1_def)
qed

section \<open>Mutexes\<close>

text \<open>
  The layer asks for operation 1 to create a mutex, 2 to lock it and 3 to unlock it; the unit takes 1 for
  LOCK, 2 for UNLOCK, and nothing else. \<open>mutex_at\<close> is a moment of such a request, of the layer and the
  RTOS together.
\<close>

definition mutex_at ::
  "posix_state_t \<Rightarrow> rtos_fsm_t \<Rightarrow> nat \<Rightarrow> bool \<Rightarrow> bool \<Rightarrow> u32 \<Rightarrow> u32 \<Rightarrow> nat \<Rightarrow> mutex_unit \<Rightarrow> posix \<times> hw_rtos \<Rightarrow> bool"
  where
  "mutex_at ps st op pend done num a0 t u pr \<longleftrightarrow> (case pr of (p, r) \<Rightarrow>
     state_r p = ps \<and> latched_syscall_num p = ucast num \<and> latched_arg0 p = a0
     \<and> fsm_state r = st \<and> mutex_op_int r = op \<and> mutex_op_pending r = pend \<and> mutex_done_r r = done
     \<and> (done \<longrightarrow> mutex_result_r r) \<and> (op \<noteq> 0 \<longrightarrow> mutex_id_int r = unat a0 mod 8)
     \<and> current_task_id_r r = t \<and> mutex_u r = u
     \<and> \<not> task_create_pending r \<and> \<not> wake_pending r \<and> \<not> sem_op_pending r \<and> \<not> msgq_op_pending r
     \<and> sem_op_int r = 0 \<and> msgq_op_int r = 0 \<and> \<not> sem_wake_valid (sem_u r) \<and> \<not> msgq_wake_valid (msgq_u r))"

definition mutex_op_of :: "u32 \<Rightarrow> nat" where
  "mutex_op_of num = rtos_mutex_op (mutex_cmd (posix_reset\<lparr>latched_syscall_num := ucast num\<rparr>))"

text \<open>The number of a call on a mutex that waits for the RTOS.\<close>

definition mutex_num :: "u32 \<Rightarrow> bool" where
  "mutex_num num \<longleftrightarrow> unat (ucast num :: byte) div 16 = 1 \<and> unat (ucast num :: byte) mod 16 < 5"

lemma mutex_request:
  assumes "latched_syscall_num p = ucast num" and "mutex_num num" and "state_r p = S_MUTEX_OP \<or> state_r p = S_WAIT_RTOS"
  shows "rtos_out p = mutex_cmd p" "rtos_mutex_op (mutex_cmd p) = mutex_op_of num"
    "rtos_mutex_id (mutex_cmd p) = unat (latched_arg0 p) mod 8"
    "\<not> rtos_task_create (mutex_cmd p)" "\<not> rtos_task_exit (mutex_cmd p)" "\<not> rtos_task_join (mutex_cmd p)"
    "\<not> rtos_task_yield (mutex_cmd p)" "rtos_sem_op (mutex_cmd p) = 0" "rtos_msgq_op (mutex_cmd p) = 0"
  using assms
  by (auto simp: rtos_out_def mutex_num_def syscall_category_def mutex_cmd_def mutex_op_of_def syscall_subop_def
      rtos_none_def Let_def)

lemma mutex_op_nonzero: "mutex_num num \<Longrightarrow> 0 < mutex_op_of num"
  by (auto simp: mutex_num_def mutex_op_of_def mutex_cmd_def syscall_subop_def Let_def)

lemma sem_nop_wake [simp]: "\<not> sem_wake_valid (sem_nop u)"
  by (simp add: sem_nop_def)

lemmas mutex_path = rtos_defs mutex_at_def pair_clock_def hw_msgqueue_nop rtos_port_of_def mutex_request mutex_op_nonzero
  posix_step_latched

lemma mutex_num_done:
  assumes "latched_syscall_num p = ucast num" and "mutex_num num"
  shows "state_r p = S_MUTEX_OP \<Longrightarrow> state_next c k d p = S_WAIT_RTOS"
    and "state_r p = S_WAIT_RTOS \<Longrightarrow> state_next c k d p = (if rtos_mutex_done k then S_COMPLETE else S_WAIT_RTOS)"
    and "state_r p = S_WAIT_RTOS \<Longrightarrow> rtos_mutex_done k \<Longrightarrow> rtos_mutex_result k \<Longrightarrow> result_next k d p = 0"
  using assms
  by (simp_all add: state_next_def result_next_def rtos_answer_def rtos_done_def mutex_num_def syscall_category_def
      syscall_subop_def Let_def)

definition mutex_low :: "mutex_unit \<Rightarrow> bool" where
  "mutex_low u \<longleftrightarrow> \<not> mutex_success u \<and> \<not> mutex_block u \<and> \<not> mutex_wake_valid u"

lemma mutex_issue:
  assumes "mutex_at S_MUTEX_OP FSM_IDLE 0 False False num a0 t u pr" "mutex_num num" "mutex_low u"
  shows "mutex_at S_WAIT_RTOS FSM_BLOCK_TASK (mutex_op_of num) True False num a0 t
    (hw_mutex 0 (mutex_id_int (snd pr)) t (task_prios (snd pr)) u) (pair_clock x pr)"
  using assms by (cases pr) (simp add: mutex_path mutex_num_done mutex_low_def)

lemma mutex_exec:
  assumes "mutex_at S_WAIT_RTOS FSM_BLOCK_TASK op True False num a0 t u pr" "mutex_num num" "mutex_low u"
    and "op = mutex_op_of num"
  shows "mutex_at S_WAIT_RTOS FSM_BLOCK_TASK op True False num a0 t
    (hw_mutex op (unat a0 mod 8) t (task_prios (snd pr)) u) (pair_clock x pr)"
  using assms by (cases pr) (simp add: mutex_path mutex_num_done mutex_low_def)

lemma mutex_finish:
  assumes "mutex_at S_WAIT_RTOS FSM_BLOCK_TASK op True False num a0 t u pr" "mutex_num num"
    and "mutex_success u" "\<not> mutex_block u" "\<not> mutex_wake_valid u" and "op = mutex_op_of num"
  shows "mutex_at S_WAIT_RTOS FSM_IDLE 0 False True num a0 t
    (hw_mutex op (unat a0 mod 8) t (task_prios (snd pr)) u) (pair_clock x pr)"
  using assms by (cases pr) (simp add: mutex_path mutex_num_done)

lemma mutex_done:
  assumes "mutex_at S_WAIT_RTOS FSM_IDLE 0 False True num a0 t u pr" "mutex_num num" "\<not> mutex_wake_valid u"
  shows "result_r (fst (pair_clock x pr)) = 0
    \<and> mutex_at S_COMPLETE FSM_BLOCK_TASK (mutex_op_of num) True False num a0 t
        (hw_mutex 0 (mutex_id_int (snd pr)) t (task_prios (snd pr)) u) (pair_clock x pr)"
  using assms by (cases pr) (simp add: mutex_path mutex_num_done)

lemma mutex_nums:
  "mutex_num SYS_MUTEX_LOCK" "mutex_op_of SYS_MUTEX_LOCK = 2" "mutex_num SYS_MUTEX_UNLOCK" "mutex_op_of SYS_MUTEX_UNLOCK = 3"
  by (simp_all add: mutex_num_def mutex_op_of_def mutex_cmd_def syscall_subop_def posix_defs)

lemma hw_mutex_nop_unit:
  "mutexes (hw_mutex op i t prio u) = mutexes u" "mutex_low (hw_mutex op i t prio u)" if "op \<noteq> 1" "op \<noteq> 2"
  using that by (simp_all add: hw_mutex_def Let_def mutex_low_def)

text \<open>A mutex nobody waits for, after an UNLOCK by task \<open>t\<close>.\<close>

definition unlocked_by :: "nat \<Rightarrow> mutex \<Rightarrow> mutex" where
  "unlocked_by t m = (if locked_r m \<and> owner_id_r m = t then m\<lparr>locked_r := False, owner_id_r := 0\<rparr> else m)"

lemma unlocked_by_simps [simp]:
  "\<not> (locked_r (unlocked_by t m) \<and> owner_id_r (unlocked_by t m) = t)" "unlocked_by t (unlocked_by t m) = unlocked_by t m"
  "mutex_wait_mask_r (unlocked_by t m) = mutex_wait_mask_r m"
  by (auto simp: unlocked_by_def)

lemma hw_mutex_unlock:
  assumes "i < length (mutexes u)" and "mutex_wait_mask_r (mutexes u ! i) = 0"
  shows "mutex_success (hw_mutex 2 i t prio u)" "\<not> mutex_block (hw_mutex 2 i t prio u)"
    "\<not> mutex_wake_valid (hw_mutex 2 i t prio u)"
    "mutexes (hw_mutex 2 i t prio u) = (mutexes u)[i := unlocked_by t (mutexes u ! i)]"
  using assms by (auto simp: hw_mutex_def Let_def unlocked_by_def)

theorem mutex_lock_unlocks:
  assumes at: "mutex_at S_MUTEX_OP FSM_IDLE 0 False False SYS_MUTEX_LOCK a0 a1 u pr" "mutex_low u"
    and m: "length (mutexes u) = NUM_MUTEXES" "mutex_wait_mask_r (mutexes u ! (unat a0 mod 8)) = 0"
    and xs: "xs = [x0, x1, x2, x3]"
  shows "case pair_run xs pr of (p, r) \<Rightarrow> state_r p = S_COMPLETE \<and> result_r p = 0
    \<and> mutexes (mutex_u r) = (mutexes u)[unat a0 mod 8 := unlocked_by a1 (mutexes u ! (unat a0 mod 8))]"
proof -
  let ?i = "unat a0 mod 8"
  note n = mutex_nums(1,2)
  have i: "?i < length (mutexes u)" using m(1) by (simp add: NUM_MUTEXES_def)
  define pr1 where "pr1 = pair_clock x0 pr"
  obtain u1 where 1: "mutex_at S_WAIT_RTOS FSM_BLOCK_TASK 2 True False SYS_MUTEX_LOCK a0 a1 u1 pr1"
    "mutexes u1 = mutexes u" "mutex_low u1"
    using mutex_issue [OF at(1) n(1) at(2), of x0] hw_mutex_nop_unit [of 0] n(2) by (auto simp: pr1_def)
  define u2 where "u2 = hw_mutex 2 ?i a1 (task_prios (snd pr1)) u1"
  define pr2 where "pr2 = pair_clock x1 pr1"
  have 2: "mutex_at S_WAIT_RTOS FSM_BLOCK_TASK 2 True False SYS_MUTEX_LOCK a0 a1 u2 pr2"
    using mutex_exec [OF 1(1) n(1) 1(3), of x1] n(2) by (simp add: u2_def pr2_def)
  have u2: "mutex_success u2" "\<not> mutex_block u2" "\<not> mutex_wake_valid u2"
    "mutexes u2 = (mutexes u)[?i := unlocked_by a1 (mutexes u ! ?i)]"
    using hw_mutex_unlock [of ?i u1] i m(2) 1(2) by (simp_all add: u2_def)
  define u3 where "u3 = hw_mutex 2 ?i a1 (task_prios (snd pr2)) u2"
  define pr3 where "pr3 = pair_clock x2 pr2"
  have 3: "mutex_at S_WAIT_RTOS FSM_IDLE 0 False True SYS_MUTEX_LOCK a0 a1 u3 pr3"
    using mutex_finish [OF 2 n(1) u2(1-3), of x2] n(2) by (simp add: u3_def pr3_def)
  have u3: "\<not> mutex_wake_valid u3" "mutexes u3 = mutexes u2"
    using hw_mutex_unlock [of ?i u2] i m(2) u2(4) by (simp_all add: u3_def)
  have "state_r (fst (pair_clock x3 pr3)) = S_COMPLETE" "result_r (fst (pair_clock x3 pr3)) = 0"
    "mutexes (mutex_u (snd (pair_clock x3 pr3))) = mutexes u3"
    using mutex_done [OF 3 n(1) u3(1), of x3] hw_mutex_nop_unit [of 0] by (auto simp: mutex_at_def)
  then show ?thesis using u2(4) u3(2) by (simp add: xs pr1_def pr2_def pr3_def split_beta)
qed

text \<open>An operation the unit does not know is never answered.\<close>

theorem mutex_unlock_hangs:
  assumes at: "mutex_at S_MUTEX_OP FSM_IDLE 0 False False SYS_MUTEX_UNLOCK a0 t u pr" "mutex_low u"
  shows "case pair_run (x # xs) pr of (p, r) \<Rightarrow> state_r p = S_WAIT_RTOS \<and> mutexes (mutex_u r) = mutexes u"
proof -
  note n = mutex_nums(3,4)
  have hang: "case pair_run xs pr of (p, r) \<Rightarrow> state_r p = S_WAIT_RTOS \<and> mutexes (mutex_u r) = mutexes v"
    if "mutex_at S_WAIT_RTOS FSM_BLOCK_TASK 3 True False SYS_MUTEX_UNLOCK a0 t v pr" "mutex_low v" for v pr xs
    using that
  proof (induction xs arbitrary: v pr)
    case Nil
    then show ?case by (auto simp: mutex_at_def split: prod.splits)
  next
    case (Cons x xs)
    let ?v = "hw_mutex 3 (unat a0 mod 8) t (task_prios (snd pr)) v"
    have "mutex_at S_WAIT_RTOS FSM_BLOCK_TASK 3 True False SYS_MUTEX_UNLOCK a0 t ?v (pair_clock x pr)"
      using mutex_exec [OF Cons.prems(1) n(1) Cons.prems(2), of x] n(2) by simp
    with Cons.IH [of ?v "pair_clock x pr"] hw_mutex_nop_unit [of 3] show ?case by simp
  qed
  show ?thesis
    using mutex_issue [OF at(1) n(1) at(2), of x] n(2) hw_mutex_nop_unit [of 0]
      hang [of "hw_mutex 0 (mutex_id_int (snd pr)) t (task_prios (snd pr)) u" "pair_clock x pr" xs]
    by simp
qed

section \<open>One layer, one RTOS\<close>

text \<open>
  The layer with the call \<open>num\<close> decoded, an RTOS just after reset whose first semaphore has the count
  \<open>c\<close>, and inputs on which nothing happens.
\<close>

definition layer_with :: "posix_state_t \<Rightarrow> u32 \<Rightarrow> posix" where
  "layer_with st num = posix_reset\<lparr>state_r := st, latched_syscall_num := ucast num\<rparr>"

definition rtos_with :: "byte \<Rightarrow> hw_rtos" where
  "rtos_with c = rtos_reset\<lparr>sem_u := sem_reset\<lparr>sems := (sems sem_reset)
     [0 := \<lparr>count_r = c, max_count_r = 0xFF, sem_wait_mask_r = 0\<rparr>]\<rparr>\<rparr>"

definition no_input :: pair_in where
  "no_input = \<lparr>in_rtos = \<lparr>timer_tick = False, core_ack = False, core_reg_data = 0, core_pc = 0,
       axi_wr_time_slice = None, axi_wr_reschedule_req = False\<rparr>,
     in_ecall = \<lparr>ecall_req = False, syscall_num = 0, syscall_arg0 = 0, syscall_arg1 = 0, syscall_arg2 = 0\<rparr>,
     in_periph = \<lparr>periph_rdata = 0, periph_ready = False\<rparr>\<rparr>"

lemma sem_call_ready:
  "sem_call_at num 0 0 (layer_with S_SEM_OP num, rtos_with c)"
  "sem_of 0 (rtos_with c) = \<lparr>count_r = c, max_count_r = 0xFF, sem_wait_mask_r = 0\<rparr>"
proof -
  have "length (sems sem_reset) = 8" "\<forall>s \<in> set (sems sem_reset). sem_ok s" "\<not> sem_wake_valid sem_reset"
    using sem_reset_wf by (simp_all add: sem_wf_def NUM_SEMS_def) (simp add: sem_reset_def)
  then show "sem_call_at num 0 0 (layer_with S_SEM_OP num, rtos_with c)"
    "sem_of 0 (rtos_with c) = \<lparr>count_r = c, max_count_r = 0xFF, sem_wait_mask_r = 0\<rparr>"
    by (auto simp: sem_call_at_def sem_call_def sem_at_def others_quiet_def layer_with_def rtos_with_def rtos_reset_def
        posix_reset_def sem_of_def sem_wf_def NUM_SEMS_def sem_ok_def mutex_reset_def msgq_reset_def
        dest!: set_update_subset_insert [THEN subsetD])
qed

lemma mutex_call_ready:
  "mutex_at S_MUTEX_OP FSM_IDLE 0 False False num 0 0 u
     (layer_with S_MUTEX_OP num, rtos_reset\<lparr>mutex_u := u\<rparr>)"
  by (simp add: mutex_at_def layer_with_def rtos_reset_def posix_reset_def sem_reset_def msgq_reset_def)

end
