(* ===== verification/Rtos_Wf.thy ===== *)
theory Rtos_Wf
  imports Rtos_Sched Rtos_Ops
begin

text \<open>
  The states the layer and the RTOS reach together from reset: every task number is one of the sixteen,
  every index is inside its table, and the semaphores, mutexes and queues are consistent.
\<close>

section \<open>Well-formed\<close>

definition task_no :: "nat \<Rightarrow> bool" where
  "task_no t \<longleftrightarrow> t < NUM_TASKS"

definition opt_no :: "nat option \<Rightarrow> bool" where
  "opt_no x \<longleftrightarrow> (\<forall>t. x = Some t \<longrightarrow> task_no t)"

definition ports_wf :: "tcb_ports \<Rightarrow> bool" where
  "ports_wf p \<longleftrightarrow> opt_no (map_option fst (create_port p)) \<and> opt_no (delete_port p)
     \<and> opt_no (map_option fst (state_port p)) \<and> opt_no (map_option fst (reload_port p))"

definition sched_wf :: "sched_unit \<Rightarrow> bool" where
  "sched_wf s \<longleftrightarrow> task_no (scan_idx s) \<and> task_no (best_task_id s) \<and> task_no (next_task_id_reg s)"

definition ctx_wf :: "ctx_unit \<Rightarrow> bool" where
  "ctx_wf u \<longleftrightarrow> length (reg_banks u) = NUM_TASKS \<and> (\<forall>b \<in> set (reg_banks u). length b = 32)
     \<and> length (saved_pc u) = NUM_TASKS \<and> 1 \<le> reg_idx u \<and> reg_idx u < 32 \<and> task_no (old_id_latched u)
     \<and> task_no (new_id_latched u)"

definition owners_wf :: "mutex_unit \<Rightarrow> bool" where
  "owners_wf u \<longleftrightarrow> (\<forall>m \<in> set (mutexes u). task_no (owner_id_r m)) \<and> task_no (mutex_wake_task_id u)
     \<and> opt_no (map_option fst (prio_boost u))"

definition units_wf :: "hw_rtos \<Rightarrow> bool" where
  "units_wf r \<longleftrightarrow> sched_wf (sched_u r) \<and> ctx_wf (ctx_u r) \<and> sem_wf (sem_u r) \<and> task_no (sem_wake_task_id (sem_u r))
     \<and> mutex_wf (mutex_u r) \<and> owners_wf (mutex_u r) \<and> msgq_wf (msgq_u r) \<and> task_no (msgq_wake_task_id (msgq_u r))"

definition regs_wf :: "hw_rtos \<Rightarrow> bool" where
  "regs_wf r \<longleftrightarrow> task_no (current_task_id_r r) \<and> task_no (next_task_id_r r) \<and> task_no (cs_old_task_id r)
     \<and> task_no (cs_new_task_id r) \<and> task_no (tcb_rd_id r) \<and> task_no (prio_boost_id_r r) \<and> task_no (create_id_r r)
     \<and> task_no (wake_target_id r) \<and> ports_wf (ports r) \<and> length (tcbs r) = NUM_TASKS
     \<and> length (join_on r) = NUM_TASKS \<and> (\<forall>x \<in> set (join_on r). opt_no x)
     \<and> sem_id_int r < NUM_SEMS \<and> mutex_id_int r < NUM_MUTEXES \<and> msgq_queue_id r < NUM_QUEUES"

definition rtos_wf :: "hw_rtos \<Rightarrow> bool" where
  "rtos_wf r \<longleftrightarrow> regs_wf r \<and> units_wf r"

section \<open>The units\<close>

lemma task_no_zero [simp]: "task_no 0"
  by (simp add: task_no_def NUM_TASKS_def)

lemma task_no_word [simp]: "task_no (unat (w :: 4 word))"
  using unsigned_less [of w, where 'a = nat] by (simp add: task_no_def NUM_TASKS_def)

lemma opt_no_simps [simp]: "opt_no None" "opt_no (Some t) = task_no t"
  by (simp_all add: opt_no_def)

lemma wake_id_best [simp]: "task_no (wake_id (best_wake prio ws))"
  using best_wake_Some [of prio ws] by (cases "best_wake prio ws") (simp_all add: wake_id_def task_no_def NUM_TASKS_def)

lemma wake_id_first [simp]: "task_no (wake_id (first_waiting ws))"
  by (auto simp: first_waiting_def wake_id_def task_no_def NUM_TASKS_def split: list.split dest: filter_ConsD)

lemma wake_id_None [simp]: "wake_id None = 0"
  by (simp add: wake_id_def)

lemma sem_wake_no: "task_no (sem_wake_task_id (hw_semaphore op i t v m prio u))"
  using wake_id_best [of prio "sem_wait_mask_r (sems u ! i)"]
  by (cases "best_wake prio (sem_wait_mask_r (sems u ! i))") (simp_all add: hw_semaphore_def Let_def)

lemma msgq_wake_no: "task_no (msgq_wake_task_id (hw_msgqueue op i d t u))"
  by (simp add: hw_msgqueue_def Let_def)

lemma sched_wf_clock:
  assumes "sched_wf s" and "task_no cur"
  shows "sched_wf (task_scheduler tr cur ts s)"
  using assms
  by (cases "sched_state s")
    (auto simp: sched_wf_def task_scheduler_def scan_entry_def task_no_def NUM_TASKS_def Let_def)

lemma ctx_wf_clock:
  assumes "ctx_wf u" and "opt_no (map_option fst req)" "opt_no (map_option snd req)"
  shows "ctx_wf (context_switch req d pc u)"
proof (cases "ctx_state u")
  case CTX_SAVE
  have "\<forall>b \<in> set ((reg_banks u)[old_id_latched u := (reg_banks u ! old_id_latched u)[reg_idx u := d]]). length b = 32"
    using assms(1) by (auto simp: ctx_wf_def task_no_def dest!: set_update_subset_insert [THEN subsetD])
  with CTX_SAVE assms(1) show ?thesis by (simp add: ctx_wf_def context_switch_def Let_def)
qed (use assms in \<open>auto simp: ctx_wf_def context_switch_def split: option.split\<close>)

lemma owners_wf_clock:
  assumes "owners_wf u" and "task_no t" and "i < length (mutexes u)"
  shows "owners_wf (hw_mutex op i t prio u)"
proof -
  let ?m = "mutexes u ! i"
  have m: "task_no (owner_id_r ?m)" "\<forall>m \<in> set (mutexes u). task_no (owner_id_r m)" using assms by (simp_all add: owners_wf_def)
  have best: "task_no j" if "best_wake prio (mutex_wait_mask_r ?m) = Some j" for j
    using wake_id_best [of prio "mutex_wait_mask_r ?m"] that by (simp add: wake_id_def)
  show ?thesis
    using m assms(2) best
    by (cases "best_wake prio (mutex_wait_mask_r ?m)")
      (auto simp: hw_mutex_def owners_wf_def wake_id_def Let_def dest!: set_update_subset_insert [THEN subsetD])
qed

lemma units_wf_clock:
  assumes "rtos_wf r"
  shows "units_wf (rtos_clock i c r)"
proof -
  have u: "units_wf r" and w: "regs_wf r" using assms by (simp_all add: rtos_wf_def)
  have "length (mutexes (mutex_u r)) = NUM_MUTEXES" using u by (simp add: units_wf_def mutex_wf_def)
  with u w show ?thesis
    by (simp add: units_wf_def regs_wf_def sched_wf_clock ctx_wf_clock hw_semaphore_wf sem_wake_no hw_mutex_wf owners_wf_clock
        hw_msgqueue_wf msgq_wake_no)
qed

section \<open>The registers\<close>

text \<open>The commands of the layer name semaphores, mutexes and queues that exist.\<close>

definition cmd_wf :: "rtos_cmd \<Rightarrow> bool" where
  "cmd_wf c \<longleftrightarrow> rtos_sem_id c < NUM_SEMS \<and> rtos_mutex_id c < NUM_MUTEXES \<and> rtos_msgq_id c < NUM_QUEUES"

lemma rtos_out_wf: "cmd_wf (rtos_out p)"
  by (cases "state_r p")
    (simp_all add: rtos_out_def cmd_wf_def thread_cmd_def mutex_cmd_def sem_cmd_def msgq_cmd_def rtos_none_def NUM_SEMS_def
      NUM_MUTEXES_def NUM_QUEUES_def Let_def)

lemma free_task_no: "free_task_id valid = Some i \<Longrightarrow> task_no i"
  using free_task_id_Some by (simp add: task_no_def)

lemma boost_no:
  assumes "units_wf r" and "task_no (tcb_rd_id r')" "task_no (prio_boost_id_r r')"
  shows "task_no (tcb_rd_id (rtos_boost r r')) \<and> task_no (prio_boost_id_r (rtos_boost r r'))"
  using assms by (cases "prio_boost (mutex_u r)") (auto simp: rtos_boost_def units_wf_def owners_wf_def)

lemma latch_wake_no:
  assumes "rtos_wf r"
  shows "task_no (wake_target_id (rtos_latch i c r))"
  using assms by (simp add: rtos_latch_def rtos_wf_def regs_wf_def units_wf_def owners_wf_def Let_def)

lemma no_ports_wf [simp]: "ports_wf no_ports"
  by (simp add: ports_wf_def no_ports_def)

lemma last_joiner_no: "filter P [0..<NUM_TASKS] \<noteq> [] \<Longrightarrow> task_no (last (filter P [0..<NUM_TASKS]))"
  using last_in_set [of "filter P [0..<NUM_TASKS]"] by (simp add: task_no_def)

definition update_wf :: "hw_rtos \<Rightarrow> bool" where
  "update_wf r \<longleftrightarrow> task_no (current_task_id_r r) \<and> task_no (next_task_id_r r) \<and> task_no (cs_old_task_id r)
     \<and> task_no (cs_new_task_id r) \<and> task_no (tcb_rd_id r) \<and> task_no (prio_boost_id_r r) \<and> task_no (create_id_r r)
     \<and> task_no (wake_target_id r) \<and> ports_wf (ports r)
     \<and> length (join_on r) = NUM_TASKS \<and> (\<forall>x \<in> set (join_on r). opt_no x)
     \<and> sem_id_int r < NUM_SEMS \<and> mutex_id_int r < NUM_MUTEXES \<and> msgq_queue_id r < NUM_QUEUES"

lemma latch_wf: "rtos_wf r \<Longrightarrow> update_wf (rtos_latch i c r)"
  using latch_wake_no [of r i c] by (simp add: update_wf_def rtos_wf_def regs_wf_def)

lemma join_on_upd:
  "\<lbrakk>\<forall>x \<in> set js. opt_no x; opt_no y\<rbrakk> \<Longrightarrow> \<forall>x \<in> set (js[i := y]). opt_no x"
  using set_update_subset_insert [of js i y] by blast

lemma state_update_wf:
  assumes r: "rtos_wf r" and c: "cmd_wf c" and u: "update_wf r'" and p: "ports r' = no_ports"
  shows "update_wf (rtos_state_update c r r')"
proof -
  have now: "task_no (current_task_id_r r)" "task_no (next_task_id_r r)" "task_no (wake_target_id r)"
      "task_no (next_task_id_reg (sched_u r))" "\<forall>x \<in> set (join_on r). opt_no x" "length (join_on r) = NUM_TASKS"
    using r by (simp_all add: rtos_wf_def regs_wf_def units_wf_def sched_wf_def)
  note facts = now c u p
  show ?thesis
  proof (cases "fsm_state r")
    case FSM_IDLE
    then show ?thesis using facts
      by (simp add: state_updates update_wf_def cmd_wf_def ports_wf_def no_ports_def)
  next
    case FSM_TIMER_UPDATE
    then show ?thesis using facts
      by (simp add: state_updates update_wf_def ports_wf_def no_ports_def)
  next
    case FSM_TASK_CREATE
    then show ?thesis using facts
      by (cases "free_task_id (all_valid r)")
        (simp_all add: state_updates update_wf_def ports_wf_def no_ports_def free_task_no)
  next
    case FSM_TASK_EXIT
    then show ?thesis using facts last_joiner_no [of "\<lambda>i. join_on r ! i = Some (current_task_id_r r)"]
      by (simp add: state_updates update_wf_def ports_wf_def no_ports_def) (auto simp: opt_no_def)
  next
    case FSM_BLOCK_TASK
    then show ?thesis using facts
      by (simp add: state_updates update_wf_def ports_wf_def no_ports_def)
  next
    case FSM_TASK_JOIN
    then show ?thesis using facts join_on_upd [of "join_on r" "Some (unat (rtos_task_target_id c))" "current_task_id_r r"]
      by (simp add: state_updates update_wf_def ports_wf_def no_ports_def)
  qed (use facts in \<open>simp_all add: state_updates update_wf_def ports_wf_def no_ports_def\<close>)
qed

lemma regs_wf_clock:
  assumes r: "rtos_wf r" and c: "cmd_wf c"
  shows "regs_wf (rtos_clock i c r)"
proof -
  have "update_wf (rtos_state_update c r (rtos_latch i c r))"
    using r c by (simp add: state_update_wf latch_wf)
  moreover have "length (tcbs (rtos_clock i c r)) = NUM_TASKS"
    using r by (simp add: rtos_wf_def regs_wf_def)
  ultimately show ?thesis
    using boost_no [of r "rtos_state_update c r (rtos_latch i c r)"] r
    by (simp add: regs_wf_def update_wf_def rtos_wf_def)
qed

lemma rtos_wf_clock: "\<lbrakk>rtos_wf r; cmd_wf c\<rbrakk> \<Longrightarrow> rtos_wf (rtos_clock i c r)"
  unfolding rtos_wf_def [of "rtos_clock i c r"] by (simp add: regs_wf_clock units_wf_clock)

section \<open>The states reached from reset\<close>

inductive reached :: "posix \<Rightarrow> hw_rtos \<Rightarrow> bool" where
  start: "reached posix_reset rtos_reset"
| clock: "reached p r \<Longrightarrow> reached (fst (pair_clock x (p, r))) (snd (pair_clock x (p, r)))"

lemma unit_resets:
  "task_no (sem_wake_task_id sem_reset)" "owners_wf mutex_reset" "task_no (msgq_wake_task_id msgq_reset)"
  "sched_wf sched_reset" "ctx_wf ctx_reset"
  by (simp_all add: sem_reset_def mutex_reset_def msgq_reset_def owners_wf_def sched_reset_def sched_wf_def ctx_reset_def
      ctx_wf_def)

lemma rtos_wf_reset: "rtos_wf rtos_reset"
  by (simp add: rtos_wf_def regs_wf_def units_wf_def rtos_reset_def unit_resets sem_reset_wf mutex_reset_wf msgq_reset_wf
      tcb_reset_def NUM_SEMS_def NUM_MUTEXES_def NUM_QUEUES_def)

lemma reached_wf: "reached p r \<Longrightarrow> rtos_wf r"
  by (induction rule: reached.induct) (simp_all add: rtos_wf_reset pair_clock_def rtos_wf_clock rtos_out_wf)

lemma pair_run_reached:
  assumes "reached (fst pr) (snd pr)"
  shows "reached (fst (pair_run xs pr)) (snd (pair_run xs pr))"
  using assms
proof (induction xs arbitrary: pr)
  case (Cons x xs)
  have "reached (fst (pair_clock x pr)) (snd (pair_clock x pr))" using reached.clock [OF Cons.prems, of x] by simp
  with Cons.IH show ?case by simp
qed simp

lemma reached_files: "reached p r \<Longrightarrow> fd_wf p \<and> std_open p"
  by (induction rule: reached.induct) (simp_all add: posix_reset_table pair_clock_def posix_step_table)

lemma reached_by_run: "reached p r \<longleftrightarrow> (\<exists>xs. pair_run xs (posix_reset, rtos_reset) = (p, r))"
proof
  assume "reached p r"
  then show "\<exists>xs. pair_run xs (posix_reset, rtos_reset) = (p, r)"
  proof (induction rule: reached.induct)
    case (clock p r x)
    then obtain xs where "pair_run xs (posix_reset, rtos_reset) = (p, r)" by blast
    then have "pair_run (xs @ [x]) (posix_reset, rtos_reset) = pair_clock x (p, r)" by simp
    then show ?case by (metis prod.collapse)
  qed (metis pair_run_simps(1))
next
  show "\<exists>xs. pair_run xs (posix_reset, rtos_reset) = (p, r) \<Longrightarrow> reached p r"
    using pair_run_reached [of "(posix_reset, rtos_reset)"] reached.start by (metis fst_conv snd_conv)
qed

end
