(* ===== verification/Rtos_Free.thy ===== *)
theory Rtos_Free
  imports Rtos_Wf
begin

text \<open>
  The RTOS before a program has made a task: whatever the timer, the core and the register writes do, it
  comes back to its idle state, and serves a call that waits for it. Shown for every state in which
  there is no task, not only for a resting one.
\<close>

section \<open>No task\<close>

definition no_choice :: "sched_unit \<Rightarrow> bool" where
  "no_choice s \<longleftrightarrow> next_task_id_reg s = 0 \<and> sched_state s \<noteq> SCHED_SWITCH
     \<and> (sched_state s \<in> {SCHED_SCAN, SCHED_PREEMPT} \<longrightarrow> \<not> found_ready s)"

definition invalid :: "tcb list \<Rightarrow> bool" where
  "invalid ts \<longleftrightarrow> (\<forall>t \<in> set ts. \<not> task_valid t)"

definition no_tasks :: "hw_rtos \<Rightarrow> bool" where
  "no_tasks r \<longleftrightarrow> rtos_wf r \<and> invalid (tcbs r) \<and> create_port (ports r) = None \<and> no_choice (sched_u r)
     \<and> \<not> task_active_r r \<and> current_task_id_r r = 0
     \<and> fsm_state r \<in> {FSM_IDLE, FSM_SCAN_READY, FSM_COMPARE_PRIORITY, FSM_TIMER_UPDATE, FSM_TASK_EXIT,
         FSM_BLOCK_TASK, FSM_UNBLOCK_TASK, FSM_TASK_JOIN, FSM_EXIT_SETTLE}"

lemma no_choice_clock:
  assumes "no_choice s" and "invalid ts" "length ts = NUM_TASKS" and "scan_idx s < NUM_TASKS"
  shows "no_choice (task_scheduler tr 0 ts s)"
proof -
  have "\<not> ready ts (scan_idx s)" using assms by (simp add: ready_def invalid_def)
  then have "scan_entry ts s = s" by (simp add: scan_entry_def Let_def)
  then show ?thesis
    using assms(1) by (cases "sched_state s") (auto simp: no_choice_def task_scheduler_def Let_def)
qed

lemma invalid_upd: "\<lbrakk>invalid ts; \<not> task_valid t\<rbrakk> \<Longrightarrow> invalid (ts[i := t])"
  unfolding invalid_def by (auto dest!: set_update_subset_insert [THEN subsetD])

lemma invalid_change:
  assumes "invalid ts" and "task_valid (f (ts ! i)) = task_valid (ts ! i)"
  shows "invalid (ts[i := f (ts ! i)])"
proof (cases "i < length ts")
  case True
  then show ?thesis using assms by (intro invalid_upd) (simp_all add: invalid_def)
qed (use assms in \<open>simp add: not_less list_update_beyond\<close>)

lemma invalid_array:
  assumes "invalid ts" and "create_port p = None" and "\<And>i t. w = Some (i, t) \<Longrightarrow> \<not> task_valid t"
  shows "invalid (tcb_array p w ts)"
proof -
  have "invalid (tcb_create p (map slice_tick ts))" using assms(1,2) by (simp add: tcb_create_def invalid_def)
  then have "invalid (tcb_delete p (tcb_create p (map slice_tick ts)))"
    by (simp add: tcb_delete_def invalid_upd split: option.split)
  then have "invalid (tcb_write w (tcb_delete p (tcb_create p (map slice_tick ts))))"
    using assms(3) by (auto simp: tcb_write_def invalid_upd split: option.split)
  then have "invalid (tcb_set_state p (tcb_write w (tcb_delete p (tcb_create p (map slice_tick ts)))))"
    by (auto simp: tcb_set_state_def intro: invalid_change [where f = "task_state_update _"] split: option.split)
  then show ?thesis
    by (auto simp: tcb_array_def tcb_reload_def intro: invalid_change [where f = "time_slice_update _"] split: option.split)
qed

lemma invalid_wr:
  assumes "rtos_wf r" and "invalid (tcbs r)" and "tcb_wr r = Some (i, t)"
  shows "\<not> task_valid t"
proof -
  have "tcbs r ! tcb_rd_id r \<in> set (tcbs r)" using assms(1) by (simp add: rtos_wf_def regs_wf_def task_no_def)
  then show ?thesis using assms(2,3) by (auto simp: tcb_wr_def invalid_def Let_def split: if_split_asm)
qed

text \<open>What the updates of the registers keep.\<close>

definition taskless :: "hw_rtos \<Rightarrow> bool" where
  "taskless r \<longleftrightarrow> create_port (ports r) = None \<and> \<not> task_active_r r \<and> current_task_id_r r = 0"

lemma taskless_update:
  assumes r: "\<not> task_active_r r" and "taskless r'" and "fsm_state r \<noteq> FSM_TASK_CREATE" "fsm_state r \<noteq> FSM_DISPATCH"
  shows "taskless (rtos_state_update c r r')"
proof (cases "fsm_state r")
  case FSM_TASK_EXIT
  then show ?thesis using assms by (simp add: rtos_exit_def Let_def)
next
  case FSM_TASK_JOIN
  then show ?thesis using assms by (simp add: taskless_def rtos_join_def Let_def)
qed (use assms in \<open>simp_all add: taskless_def state_updates\<close>)

lemma no_tasks_clock:
  assumes r: "no_tasks r" and c: "cmd_wf c" and nc: "fsm_state r = FSM_IDLE \<Longrightarrow> \<not> rtos_task_create c \<and> \<not> task_create_pending r"
  shows "no_tasks (rtos_clock i c r)"
proof -
  have wf: "rtos_wf r" and ts: "invalid (tcbs r)" "create_port (ports r) = None" "length (tcbs r) = NUM_TASKS"
    and s: "no_choice (sched_u r)" "scan_idx (sched_u r) < NUM_TASKS" and act: "\<not> task_active_r r" "current_task_id_r r = 0"
    using r by (simp_all add: no_tasks_def rtos_wf_def regs_wf_def units_wf_def sched_wf_def task_no_def)
  have next0: "next_task_id_reg (sched_u r) = 0" using s(1) by (simp add: no_choice_def)
  have regs: "create_port (ports (rtos_clock i c r)) = None \<and> \<not> task_active_r (rtos_clock i c r)
      \<and> current_task_id_r (rtos_clock i c r) = 0"
    using taskless_update [of r "rtos_latch i c r" c] r act by (auto simp: no_tasks_def taskless_def no_ports_def)
  have fsm: "fsm_next i c r \<in> {FSM_IDLE, FSM_SCAN_READY, FSM_COMPARE_PRIORITY, FSM_TIMER_UPDATE, FSM_TASK_EXIT,
         FSM_BLOCK_TASK, FSM_UNBLOCK_TASK, FSM_TASK_JOIN, FSM_EXIT_SETTLE}"
    using r act nc next0
    by (cases "fsm_state r")
      (simp_all add: no_tasks_def fsm_next_def idle_next_def compare_next_def block_next_def after_op_def Let_def)
  show ?thesis
    using rtos_wf_clock [OF wf c] invalid_array [OF ts(1,2) invalid_wr [OF wf ts(1)]] no_choice_clock [OF s(1) ts(1,3) s(2)]
      regs fsm act(2)
    by (simp add: no_tasks_def del: rtos_clock_regs)
qed

section \<open>Operations in progress\<close>

text \<open>
  While the RTOS serves an operation its unit is about to execute it, or has just done so. The operations
  meant are those that the unit always completes: INIT and WAIT of a semaphore, LOCK and UNLOCK of a
  mutex, SEND and RECV of a queue.
\<close>

definition sem_serving :: "hw_rtos \<Rightarrow> bool" where
  "sem_serving r \<longleftrightarrow> sem_op_pending r \<and> \<not> mutex_op_pending r \<and> \<not> msgq_op_pending r
     \<and> mutex_op_int r = 0 \<and> msgq_op_int r = 0
     \<and> (sem_success (sem_u r) \<or> sem_block (sem_u r) \<or> sem_op_int r \<in> {1, 2})"

definition mutex_serving :: "hw_rtos \<Rightarrow> bool" where
  "mutex_serving r \<longleftrightarrow> \<not> sem_op_pending r \<and> mutex_op_pending r \<and> \<not> msgq_op_pending r
     \<and> sem_op_int r = 0 \<and> msgq_op_int r = 0
     \<and> (mutex_success (mutex_u r) \<or> mutex_block (mutex_u r) \<or> mutex_op_int r \<in> {1, 2})"

definition msgq_serving :: "hw_rtos \<Rightarrow> bool" where
  "msgq_serving r \<longleftrightarrow> \<not> sem_op_pending r \<and> \<not> mutex_op_pending r \<and> msgq_op_pending r
     \<and> sem_op_int r = 0 \<and> mutex_op_int r = 0
     \<and> (msgq_success (msgq_u r) \<or> msgq_block (msgq_u r) \<or> msgq_op_int r \<in> {1, 2})"

lemmas serving_defs = sem_serving_def mutex_serving_def msgq_serving_def

definition none_pending :: "hw_rtos \<Rightarrow> bool" where
  "none_pending r \<longleftrightarrow> \<not> sem_op_pending r \<and> \<not> mutex_op_pending r \<and> \<not> msgq_op_pending r
     \<and> sem_op_int r = 0 \<and> mutex_op_int r = 0 \<and> msgq_op_int r = 0"

definition rtos_empty :: "hw_rtos \<Rightarrow> bool" where
  "rtos_empty r \<longleftrightarrow> no_tasks r \<and> \<not> create_done_r r
     \<and> (if fsm_state r = FSM_BLOCK_TASK then sem_serving r \<or> mutex_serving r \<or> msgq_serving r else none_pending r)"

definition rtos_free :: "hw_rtos \<Rightarrow> bool" where
  "rtos_free r \<longleftrightarrow> rtos_empty r \<and> \<not> task_create_pending r"

text \<open>The commands a unit always completes, and no creation.\<close>

definition sure_cmd :: "rtos_cmd \<Rightarrow> bool" where
  "sure_cmd c \<longleftrightarrow> cmd_wf c \<and> \<not> rtos_task_create c \<and> rtos_sem_op c \<le> 2 \<and> rtos_mutex_op c \<le> 2 \<and> rtos_msgq_op c \<le> 2"

lemma unit_completes:
  "op \<in> {1, 2} \<Longrightarrow> sem_success (hw_semaphore op i t v m prio u) \<or> sem_block (hw_semaphore op i t v m prio u)"
  "op \<in> {1, 2} \<Longrightarrow> mutex_success (hw_mutex op i t prio w) \<or> mutex_block (hw_mutex op i t prio w)"
  "op \<in> {1, 2} \<Longrightarrow> msgq_success (hw_msgqueue op i d t q) \<or> msgq_block (hw_msgqueue op i d t q)"
  by (auto simp: hw_semaphore_def hw_mutex_def hw_msgqueue_def Let_def split: option.split)

lemma block_clock:
  assumes r: "rtos_empty r" and st: "fsm_state r = FSM_BLOCK_TASK"
  shows "if fsm_next i c r = FSM_BLOCK_TASK
    then sem_serving (rtos_clock i c r) \<or> mutex_serving (rtos_clock i c r) \<or> msgq_serving (rtos_clock i c r)
    else none_pending (rtos_clock i c r)"
proof -
  note path = fsm_next_def block_next_def after_op_def rtos_collect_def rtos_block_def put_state_def none_pending_def Let_def
  have "sem_serving r \<or> mutex_serving r \<or> msgq_serving r" using assms by (simp add: rtos_empty_def)
  then consider (sem) "sem_serving r" | (mutex) "mutex_serving r" | (msgq) "msgq_serving r" by blast
  then show ?thesis
  proof cases
    case sem
    let ?flag = "sem_success (sem_u r) \<or> sem_block (sem_u r)"
    show ?thesis
    proof (cases "\<not> rtos_task_exit c \<and> \<not> ?flag")
      case True
      moreover from True sem have "sem_op_int r \<in> {1, 2}" by (auto simp: sem_serving_def)
      ultimately show ?thesis
        using sem st unit_completes(1) [of "sem_op_int r"] by (simp add: sem_serving_def fsm_next_def block_next_def rtos_collect_def)
    next
      case False
      then have "fsm_next i c r \<noteq> FSM_BLOCK_TASK" "none_pending (rtos_clock i c r)"
        using sem st by (auto simp: sem_serving_def path)
      then show ?thesis by simp
    qed
  next
    case mutex
    let ?flag = "mutex_success (mutex_u r) \<or> mutex_block (mutex_u r)"
    show ?thesis
    proof (cases "\<not> rtos_task_exit c \<and> \<not> ?flag")
      case True
      moreover from True mutex have "mutex_op_int r \<in> {1, 2}" by (auto simp: mutex_serving_def)
      ultimately show ?thesis
        using mutex st unit_completes(2) [of "mutex_op_int r"] by (simp add: mutex_serving_def fsm_next_def block_next_def rtos_collect_def)
    next
      case False
      then have "fsm_next i c r \<noteq> FSM_BLOCK_TASK" "none_pending (rtos_clock i c r)"
        using mutex st by (auto simp: mutex_serving_def path)
      then show ?thesis by simp
    qed
  next
    case msgq
    let ?flag = "msgq_success (msgq_u r) \<or> msgq_block (msgq_u r)"
    show ?thesis
    proof (cases "\<not> rtos_task_exit c \<and> \<not> ?flag")
      case True
      moreover from True msgq have "msgq_op_int r \<in> {1, 2}" by (auto simp: msgq_serving_def)
      ultimately show ?thesis
        using msgq st unit_completes(3) [of "msgq_op_int r"] by (simp add: msgq_serving_def fsm_next_def block_next_def rtos_collect_def)
    next
      case False
      then have "fsm_next i c r \<noteq> FSM_BLOCK_TASK" "none_pending (rtos_clock i c r)"
        using msgq st by (auto simp: msgq_serving_def path)
      then show ?thesis by simp
    qed
  qed
qed

lemma issue_clock:
  assumes r: "rtos_empty r" and st: "fsm_state r = FSM_IDLE" and c: "\<not> task_create_pending r \<and> sure_cmd c"
  shows "if fsm_next i c r = FSM_BLOCK_TASK
    then sem_serving (rtos_clock i c r) \<or> mutex_serving (rtos_clock i c r) \<or> msgq_serving (rtos_clock i c r)
    else none_pending (rtos_clock i c r)"
proof -
  have np: "none_pending r" "\<not> task_active_r r" using r st by (simp_all add: rtos_empty_def no_tasks_def)
  have nc: "\<not> rtos_task_create c" using c by (simp add: sure_cmd_def)
  note path = st c nc np(2) np(1) [unfolded none_pending_def] fsm_next_def idle_next_def rtos_issue_def
  consider (task) "rtos_task_exit c \<or> rtos_task_join c \<or> rtos_task_yield c
      \<or> rtos_sem_op c = 0 \<and> rtos_mutex_op c = 0 \<and> rtos_msgq_op c = 0"
    | (op) "\<not> rtos_task_exit c" "\<not> rtos_task_join c" "\<not> rtos_task_yield c"
      "rtos_sem_op c \<noteq> 0 \<or> rtos_mutex_op c \<noteq> 0 \<or> rtos_msgq_op c \<noteq> 0" by blast
  then show ?thesis
  proof cases
    case task
    then have "fsm_next i c r \<noteq> FSM_BLOCK_TASK" "none_pending (rtos_clock i c r)"
      by (auto simp: path none_pending_def)
    then show ?thesis by simp
  next
    case op
    have "rtos_sem_op c \<in> {0, 1, 2}" "rtos_mutex_op c \<in> {0, 1, 2}" "rtos_msgq_op c \<in> {0, 1, 2}"
      using c by (auto simp: sure_cmd_def)
    with op show ?thesis
      by (cases "rtos_sem_op c = 0"; cases "rtos_mutex_op c = 0") (simp_all add: path serving_defs)
  qed
qed

lemma other_clock:
  assumes "rtos_empty r" and "fsm_state r \<noteq> FSM_IDLE" "fsm_state r \<noteq> FSM_BLOCK_TASK"
  shows "fsm_next i c r \<noteq> FSM_BLOCK_TASK" "none_pending (rtos_clock i c r)"
  using assms
  by (cases "fsm_state r"; simp add: rtos_empty_def no_tasks_def none_pending_def fsm_next_def compare_next_def state_updates)+

lemma empty_clock:
  assumes r: "rtos_empty r" and c: "cmd_wf c" and st: "fsm_state r \<noteq> FSM_IDLE \<or> \<not> task_create_pending r \<and> sure_cmd c"
  shows "rtos_empty (rtos_clock i c r)"
proof -
  have r': "no_tasks r" "\<not> create_done_r r" using r by (simp_all add: rtos_empty_def)
  have c': "fsm_state r = FSM_IDLE \<Longrightarrow> \<not> task_create_pending r \<and> sure_cmd c" using st by blast
  have "\<not> create_done_r (rtos_clock i c r)"
    using r'(1) by (cases "fsm_state r") (simp_all add: no_tasks_def state_updates)
  moreover have "if fsm_next i c r = FSM_BLOCK_TASK
      then sem_serving (rtos_clock i c r) \<or> mutex_serving (rtos_clock i c r) \<or> msgq_serving (rtos_clock i c r)
      else none_pending (rtos_clock i c r)"
    using issue_clock [OF r] c' block_clock [OF r] other_clock [OF r]
    by (cases "fsm_state r = FSM_IDLE"; cases "fsm_state r = FSM_BLOCK_TASK") (simp_all del: rtos_clock_regs rtos_clock_units)
  ultimately show ?thesis
    using no_tasks_clock [OF r'(1) c] c' by (simp add: rtos_empty_def sure_cmd_def del: rtos_clock_regs)
qed

lemma free_clock:
  assumes r: "rtos_free r" and c: "sure_cmd c"
  shows "rtos_free (rtos_clock i c r)"
proof -
  have "no_tasks r" "\<not> task_create_pending r" "\<not> rtos_task_create c"
    using r c by (simp_all add: rtos_free_def rtos_empty_def sure_cmd_def)
  then have "\<not> task_create_pending (rtos_clock i c r)" by (cases "fsm_state r") (simp_all add: no_tasks_def state_updates)
  with empty_clock [of r c i] r c show ?thesis by (simp add: rtos_free_def sure_cmd_def del: rtos_clock_regs)
qed

section \<open>The way back to the idle state\<close>

text \<open>Clocks left at most until the scheduler is done, until an operation is answered, and until \<open>FSM_IDLE\<close>.\<close>

definition sched_left :: "hw_rtos \<Rightarrow> nat" where
  "sched_left r = (case sched_state (sched_u r) of
       SCHED_IDLE \<Rightarrow> if sched_trigger r then NUM_TASKS + 3 else NUM_TASKS + 4
     | SCHED_SCAN \<Rightarrow> NUM_TASKS + 2 - scan_idx (sched_u r)
     | SCHED_PREEMPT \<Rightarrow> 2 | SCHED_SWITCH \<Rightarrow> 2 | SCHED_DONE \<Rightarrow> 1)"

definition op_left :: "hw_rtos \<Rightarrow> nat" where
  "op_left r = (if sem_op_pending r \<and> (sem_success (sem_u r) \<or> sem_block (sem_u r))
       \<or> mutex_op_pending r \<and> (mutex_success (mutex_u r) \<or> mutex_block (mutex_u r))
       \<or> msgq_op_pending r \<and> (msgq_success (msgq_u r) \<or> msgq_block (msgq_u r)) then 1 else 2)"

definition idle_left :: "hw_rtos \<Rightarrow> nat" where
  "idle_left r = (case fsm_state r of
       FSM_IDLE \<Rightarrow> 0 | FSM_COMPARE_PRIORITY \<Rightarrow> 1 | FSM_SCAN_READY \<Rightarrow> 1 + sched_left r
     | FSM_TASK_EXIT \<Rightarrow> NUM_TASKS + 7 | FSM_BLOCK_TASK \<Rightarrow> NUM_TASKS + 7 + op_left r | _ \<Rightarrow> NUM_TASKS + 6)"

lemma sched_left_bounds: "1 \<le> sched_left r" "sched_left r \<le> NUM_TASKS + 4" if "scan_idx (sched_u r) < NUM_TASKS"
  using that by (auto simp: sched_left_def split: sched_state_t.split)

lemma sched_left_clock:
  assumes r: "no_tasks r" and st: "fsm_state r = FSM_SCAN_READY" "\<not> sched_done (sched_u r)"
  shows "sched_left (rtos_clock i c r) < sched_left r"
proof -
  have s: "no_choice (sched_u r)" "scan_idx (sched_u r) < NUM_TASKS" "current_task_id_r r = 0"
    "invalid (tcbs r)" "length (tcbs r) = NUM_TASKS"
    using r by (simp_all add: no_tasks_def rtos_wf_def regs_wf_def units_wf_def sched_wf_def task_no_def)
  then have "\<not> ready (tcbs r) (scan_idx (sched_u r))" by (simp add: ready_def invalid_def)
  then have "scan_entry (tcbs r) (sched_u r) = sched_u r" by (simp add: scan_entry_def Let_def)
  with s st show ?thesis
    by (cases "sched_state (sched_u r)")
      (auto simp: sched_left_def task_scheduler_def no_choice_def sched_done_def sched_busy_def rtos_scan_def Let_def)
qed

lemma op_left_bounds: "1 \<le> op_left r" "op_left r \<le> 2"
  by (simp_all add: op_left_def)

lemma op_left_clock:
  assumes r: "rtos_empty r" and st: "fsm_state r = FSM_BLOCK_TASK" and nx: "fsm_next i c r = FSM_BLOCK_TASK"
  shows "op_left (rtos_clock i c r) < op_left r"
proof -
  note path = fsm_next_def block_next_def after_op_def rtos_collect_def Let_def
  have "sem_serving r \<or> mutex_serving r \<or> msgq_serving r" using r st by (simp add: rtos_empty_def)
  then consider (sem) "sem_serving r" | (mutex) "mutex_serving r" | (msgq) "msgq_serving r" by blast
  then show ?thesis
  proof cases
    case sem
    then have "\<not> rtos_task_exit c" "\<not> sem_success (sem_u r)" "\<not> sem_block (sem_u r)"
      using st nx by (auto simp: sem_serving_def path split: if_split_asm)
    with sem st unit_completes(1) [of "sem_op_int r"] show ?thesis by (simp add: op_left_def sem_serving_def rtos_collect_def)
  next
    case mutex
    then have "\<not> rtos_task_exit c" "\<not> mutex_success (mutex_u r)" "\<not> mutex_block (mutex_u r)"
      using st nx by (auto simp: mutex_serving_def path split: if_split_asm)
    with mutex st unit_completes(2) [of "mutex_op_int r"] show ?thesis by (simp add: op_left_def mutex_serving_def rtos_collect_def)
  next
    case msgq
    then have "\<not> rtos_task_exit c" "\<not> msgq_success (msgq_u r)" "\<not> msgq_block (msgq_u r)"
      using st nx by (auto simp: msgq_serving_def path split: if_split_asm)
    with msgq st unit_completes(3) [of "msgq_op_int r"] show ?thesis by (simp add: op_left_def msgq_serving_def rtos_collect_def)
  qed
qed

lemma sched_left_after:
  assumes "no_tasks r" and "cmd_wf c"
  shows "sched_left (rtos_clock i c r) \<le> NUM_TASKS + 4"
proof -
  have "sched_wf (sched_u (rtos_clock i c r))"
    using assms rtos_wf_clock [of r c i] by (simp add: no_tasks_def rtos_wf_def units_wf_def)
  then show ?thesis by (intro sched_left_bounds(2)) (simp add: sched_wf_def task_no_def)
qed

lemma idle_left_clock:
  assumes r: "rtos_empty r" and c: "cmd_wf c" and st: "fsm_state r \<noteq> FSM_IDLE"
  shows "idle_left (rtos_clock i c r) < idle_left r"
proof -
  have r': "no_tasks r" and next0: "next_task_id_reg (sched_u r) = 0" and idx: "scan_idx (sched_u r) < NUM_TASKS"
    using r by (simp_all add: rtos_empty_def no_tasks_def no_choice_def rtos_wf_def units_wf_def sched_wf_def task_no_def)
  note after = sched_left_after [OF r' c, of i] and bounds = sched_left_bounds [OF idx] op_left_bounds [of r]
  have st': "fsm_state (rtos_clock i c r) = fsm_next i c r" by simp
  note left = idle_left_def [of "rtos_clock i c r", unfolded st'] idle_left_def [of r]
  show ?thesis
  proof (cases "fsm_state r")
    case FSM_SCAN_READY
    then show ?thesis using sched_left_clock [OF r' FSM_SCAN_READY, of i c] bounds
      by (simp add: left fsm_next_def del: rtos_clock_units rtos_clock_regs)
  next
    case FSM_BLOCK_TASK
    have "fsm_next i c r \<in> {FSM_IDLE, FSM_SCAN_READY, FSM_UNBLOCK_TASK, FSM_TASK_EXIT, FSM_BLOCK_TASK}"
      using FSM_BLOCK_TASK by (simp add: fsm_next_def block_next_def after_op_def)
    then show ?thesis using FSM_BLOCK_TASK op_left_clock [OF r FSM_BLOCK_TASK, of i c] after bounds
      by (auto simp: left simp del: rtos_clock_units rtos_clock_regs)
  qed (use st r' after next0 in \<open>simp_all add: left no_tasks_def fsm_next_def compare_next_def Let_def del: rtos_clock_units rtos_clock_regs\<close>)
qed

section \<open>A request is answered\<close>

text \<open>A request of the layer to wait for, whether it is answered, and whether the RTOS is serving one of its kind.\<close>

definition request :: "rtos_cmd \<Rightarrow> bool" where
  "request c \<longleftrightarrow> sure_cmd c \<and> \<not> rtos_task_exit c \<and> \<not> rtos_task_yield c
     \<and> (rtos_task_join c \<or> rtos_sem_op c \<noteq> 0 \<or> rtos_mutex_op c \<noteq> 0 \<or> rtos_msgq_op c \<noteq> 0)"

definition answered :: "rtos_cmd \<Rightarrow> hw_rtos \<Rightarrow> bool" where
  "answered c r \<longleftrightarrow> (if rtos_task_join c then join_done_r r else if rtos_sem_op c \<noteq> 0 then sem_done_r r
     else if rtos_mutex_op c \<noteq> 0 then mutex_done_r r else msgq_done_r r)"

definition in_service :: "rtos_cmd \<Rightarrow> hw_rtos \<Rightarrow> bool" where
  "in_service c r \<longleftrightarrow> (if rtos_task_join c then fsm_state r = FSM_TASK_JOIN else fsm_state r = FSM_BLOCK_TASK
     \<and> (if rtos_sem_op c \<noteq> 0 then sem_op_pending r else if rtos_mutex_op c \<noteq> 0 then mutex_op_pending r else msgq_op_pending r))"

definition answer_left :: "rtos_cmd \<Rightarrow> hw_rtos \<Rightarrow> nat" where
  "answer_left c r = (if answered c r then 0 else if in_service c r then op_left r else 3 + idle_left r)"

lemma request_starts:
  assumes "request c" and "rtos_free r" and "fsm_state r = FSM_IDLE"
  shows "in_service c (rtos_clock i c r)"
  using assms
  by (auto simp: request_def sure_cmd_def rtos_free_def rtos_empty_def in_service_def fsm_next_def idle_next_def rtos_issue_def)

lemma request_ends:
  assumes "request c" and "rtos_free r" and "in_service c r"
  shows "answered c (rtos_clock i c r) \<or> (in_service c (rtos_clock i c r) \<and> fsm_state r = FSM_BLOCK_TASK)"
proof (cases "rtos_task_join c")
  case True
  then have "fsm_state r = FSM_TASK_JOIN" "\<not> task_active_r r"
    using assms by (simp_all add: in_service_def rtos_free_def rtos_empty_def no_tasks_def)
  with True show ?thesis by (simp add: answered_def rtos_join_def Let_def)
next
  case False
  then have st: "fsm_state r = FSM_BLOCK_TASK" using assms(3) by (simp add: in_service_def)
  then have "sem_serving r \<or> mutex_serving r \<or> msgq_serving r" using assms(2) by (simp add: rtos_free_def rtos_empty_def)
  with False st assms(1,3) show ?thesis
    by (auto simp: answered_def in_service_def request_def serving_defs fsm_next_def block_next_def rtos_collect_def
        rtos_block_def put_state_def Let_def split: if_split_asm)
qed

lemma answer_left_clock:
  assumes c: "request c" and r: "rtos_free r" and na: "\<not> answered c r"
  shows "answer_left c (rtos_clock i c r) < answer_left c r"
proof -
  let ?r = "rtos_clock i c r"
  have r': "rtos_empty r" using r by (simp add: rtos_free_def)
  have sure: "cmd_wf c" using c by (simp add: request_def sure_cmd_def)
  note b = op_left_bounds [of r] op_left_bounds [of ?r]
  consider (idle) "fsm_state r = FSM_IDLE" | (serves) "in_service c r" | (busy) "fsm_state r \<noteq> FSM_IDLE" "\<not> in_service c r" by blast
  then show ?thesis
  proof cases
    case idle
    then have "\<not> in_service c r" by (simp add: in_service_def)
    with request_starts [OF c r idle, of i] na b show ?thesis
      by (simp add: answer_left_def del: rtos_clock_units rtos_clock_regs)
  next
    case serves
    have "op_left ?r < op_left r" if "in_service c ?r" "\<not> answered c ?r"
    proof -
      have st: "fsm_state r = FSM_BLOCK_TASK" using request_ends [OF c r serves, of i] that(2) by blast
      then have nj: "\<not> rtos_task_join c" using serves by (auto simp: in_service_def)
      then have "fsm_state ?r = FSM_BLOCK_TASK" using that(1) by (simp add: in_service_def del: rtos_clock_units)
      then show ?thesis using op_left_clock [OF r' st, of i c] by simp
    qed
    with request_ends [OF c r serves, of i] serves na b show ?thesis
      by (auto simp: answer_left_def simp del: rtos_clock_units rtos_clock_regs)
  next
    case busy
    with idle_left_clock [OF r' sure busy(1), of i] na b show ?thesis
      by (auto simp: answer_left_def simp del: rtos_clock_units rtos_clock_regs)
  qed
qed

section \<open>A creation is answered\<close>

text \<open>
  The stages of the first creation: kept for later, begun, answered with the number 1; and the clocks
  left at most until the answer.
\<close>

definition creating :: "hw_rtos \<Rightarrow> bool" where
  "creating r \<longleftrightarrow> rtos_empty r \<and> task_create_pending r
     \<or> fsm_state r = FSM_TASK_CREATE \<and> invalid (tcbs r) \<and> length (tcbs r) = NUM_TASKS \<and> \<not> create_done_r r
     \<or> create_done_r r \<and> create_id_r r = 1"

definition create_left :: "hw_rtos \<Rightarrow> nat" where
  "create_left r = (if create_done_r r then 0 else if fsm_state r = FSM_TASK_CREATE then 1 else 2 + idle_left r)"

lemma first_task: "invalid ts \<Longrightarrow> length ts = NUM_TASKS \<Longrightarrow> free_task_id (map task_valid ts) = Some 1"
  by (simp add: free_task_id_def invalid_def NUM_TASKS_def upt_conv_Cons)

lemma to_create:
  assumes e: "rtos_empty r" and st: "fsm_state r = FSM_IDLE" "rtos_task_create c \<or> task_create_pending r"
  shows "creating (rtos_clock i c r)" "fsm_state (rtos_clock i c r) = FSM_TASK_CREATE" "\<not> create_done_r (rtos_clock i c r)"
proof -
  have ts: "invalid (tcbs r)" "length (tcbs r) = NUM_TASKS" "create_port (ports r) = None" "rtos_wf r" "\<not> task_active_r r"
    using e by (simp_all add: rtos_empty_def no_tasks_def rtos_wf_def regs_wf_def)
  show st': "fsm_state (rtos_clock i c r) = FSM_TASK_CREATE"
    using st by (simp add: fsm_next_def idle_next_def)
  show nd: "\<not> create_done_r (rtos_clock i c r)" using st(1) by (simp add: rtos_issue_def put_state_def)
  show "creating (rtos_clock i c r)"
    using invalid_array [OF ts(1,3) invalid_wr [OF ts(4,1)]] ts(2) st' nd
    by (simp add: creating_def del: rtos_clock_regs)
qed

lemma create_begins:
  assumes r: "rtos_free r" and c: "rtos_task_create c" "cmd_wf c"
  shows "creating (rtos_clock i c r)"
proof (cases "fsm_state r = FSM_IDLE")
  case True
  then show ?thesis using to_create(1) r c(1) by (simp add: rtos_free_def)
next
  case False
  have e: "rtos_empty r" using r by (simp add: rtos_free_def)
  have "task_create_pending (rtos_clock i c r)"
    using False c(1) e by (cases "fsm_state r") (simp_all add: rtos_empty_def no_tasks_def state_updates)
  then show ?thesis using empty_clock [OF e c(2)] False by (simp add: creating_def del: rtos_clock_regs)
qed

lemma creating_clock:
  assumes r: "creating r" and na: "\<not> create_done_r r" and c: "cmd_wf c"
  shows "creating (rtos_clock i c r) \<and> create_left (rtos_clock i c r) < create_left r"
proof (cases "fsm_state r = FSM_TASK_CREATE")
  case True
  then have "\<not> rtos_empty r" by (simp add: rtos_empty_def no_tasks_def)
  with r na have "invalid (tcbs r)" "length (tcbs r) = NUM_TASKS" by (simp_all add: creating_def)
  with True na first_task [of "tcbs r"] show ?thesis
    by (simp add: creating_def create_left_def rtos_create_def all_valid_def put_reload_def Let_def)
next
  case False
  then have e: "rtos_empty r" "task_create_pending r" using r na by (simp_all add: creating_def)
  show ?thesis
  proof (cases "fsm_state r = FSM_IDLE")
    case True
    with to_create [OF e(1) True disjI2 [OF e(2)], of i c] na show ?thesis
      by (simp add: create_left_def del: rtos_clock_regs rtos_clock_units)
  next
    case idle: False
    then have e': "rtos_empty (rtos_clock i c r)" using empty_clock [OF e(1) c] by blast
    then have "fsm_state (rtos_clock i c r) \<noteq> FSM_TASK_CREATE"
      by (auto simp: rtos_empty_def no_tasks_def simp del: rtos_clock_regs rtos_clock_units)
    moreover have "task_create_pending (rtos_clock i c r)"
      using idle e by (cases "fsm_state r") (simp_all add: rtos_empty_def no_tasks_def state_updates)
    ultimately show ?thesis
      using idle_left_clock [OF e(1) c idle, of i] na False e'
      by (simp add: creating_def create_left_def del: rtos_clock_regs rtos_clock_units)
  qed
qed

section \<open>A request that is lost\<close>

text \<open>No operation is in progress or being answered. Without a request it comes to this in three clocks.\<close>

definition no_answer :: "hw_rtos \<Rightarrow> bool" where
  "no_answer r \<longleftrightarrow> \<not> sem_done_r r \<and> \<not> mutex_done_r r \<and> \<not> msgq_done_r r"

definition settled :: "hw_rtos \<Rightarrow> bool" where
  "settled r \<longleftrightarrow> rtos_free r \<and> none_pending r \<and> no_answer r"

definition settle_left :: "hw_rtos \<Rightarrow> nat" where
  "settle_left r = (if fsm_state r = FSM_BLOCK_TASK then 1 + op_left r else if no_answer r then 0 else 1)"

lemma settled_iff: "settled r \<longleftrightarrow> rtos_free r \<and> settle_left r = 0"
  by (auto simp: settled_def settle_left_def rtos_free_def rtos_empty_def serving_defs none_pending_def split: if_split_asm)

lemma no_answer_clock: "fsm_state r \<noteq> FSM_BLOCK_TASK \<Longrightarrow> no_answer (rtos_clock i c r)"
  by (cases "fsm_state r") (simp_all add: no_answer_def state_updates split: option.split)

lemma settle_clock:
  assumes r: "rtos_free r"
  shows "settle_left (rtos_clock i rtos_none r) \<le> settle_left r - 1"
proof (cases "fsm_state r = FSM_BLOCK_TASK")
  case True
  then show ?thesis
    using op_left_clock [of r i rtos_none] op_left_bounds [of r] r by (auto simp: settle_left_def rtos_free_def simp del: rtos_clock_regs)
next
  case False
  then have "fsm_next i rtos_none r \<noteq> FSM_BLOCK_TASK"
    using other_clock(1) [of r i rtos_none] r
    by (cases "fsm_state r = FSM_IDLE") (auto simp: rtos_free_def fsm_next_def idle_next_def)
  then show ?thesis using no_answer_clock [OF False, of i rtos_none] by (simp add: settle_left_def del: rtos_clock_regs)
qed

text \<open>A request for an operation its unit does not know.\<close>

definition unknown :: "rtos_cmd \<Rightarrow> bool" where
  "unknown c \<longleftrightarrow> cmd_wf c \<and> \<not> rtos_task_create c \<and> \<not> rtos_task_exit c \<and> \<not> rtos_task_join c \<and> \<not> rtos_task_yield c
     \<and> rtos_sem_op c = 0 \<and> (rtos_mutex_op c = 3 \<or> rtos_mutex_op c = 0 \<and> rtos_msgq_op c = 3)"

definition stuck :: "hw_rtos \<Rightarrow> bool" where
  "stuck r \<longleftrightarrow> fsm_state r = FSM_BLOCK_TASK \<and> no_answer r \<and> \<not> sem_op_pending r
     \<and> (mutex_op_pending r \<and> mutex_op_int r = 3 \<and> \<not> mutex_success (mutex_u r) \<and> \<not> mutex_block (mutex_u r)
          \<and> \<not> msgq_op_pending r
        \<or> \<not> mutex_op_pending r \<and> msgq_op_pending r \<and> msgq_op_int r = 3
          \<and> \<not> msgq_success (msgq_u r) \<and> \<not> msgq_block (msgq_u r))"

lemma unit_refuses:
  "op \<noteq> 1 \<Longrightarrow> op \<noteq> 2 \<Longrightarrow> \<not> mutex_success (hw_mutex op i t prio w) \<and> \<not> mutex_block (hw_mutex op i t prio w)"
  "op \<noteq> 1 \<Longrightarrow> op \<noteq> 2 \<Longrightarrow> \<not> msgq_success (hw_msgqueue op i d t q) \<and> \<not> msgq_block (hw_msgqueue op i d t q)"
  by (auto simp: hw_mutex_def hw_msgqueue_def Let_def)

lemma stuck_clock:
  assumes r: "stuck r" and c: "\<not> rtos_task_exit c"
  shows "stuck (rtos_clock i c r)"
proof -
  note path = stuck_def no_answer_def fsm_next_def block_next_def rtos_collect_def unit_refuses Let_def
  have st: "fsm_state r = FSM_BLOCK_TASK" "\<not> sem_op_pending r" using r by (simp_all add: stuck_def)
  consider "mutex_op_pending r" | "msgq_op_pending r" "\<not> mutex_op_pending r" using r by (auto simp: stuck_def)
  then show ?thesis
  proof cases
    case 1
    with r have "mutex_op_int r = 3" "\<not> mutex_success (mutex_u r)" "\<not> mutex_block (mutex_u r)" "\<not> msgq_op_pending r"
      by (simp_all add: stuck_def)
    with 1 st c show ?thesis by (simp add: path)
  next
    case 2
    with r have "msgq_op_int r = 3" "\<not> msgq_success (msgq_u r)" "\<not> msgq_block (msgq_u r)"
      by (simp_all add: stuck_def)
    with 2 st c show ?thesis by (simp add: path)
  qed
qed

lemma settled_other:
  assumes r: "settled r" and c: "cmd_wf c" "\<not> rtos_task_create c" and st: "fsm_state r \<noteq> FSM_IDLE"
  shows "settled (rtos_clock i c r)"
proof -
  have e: "rtos_empty r" "\<not> task_create_pending r" "none_pending r" using r by (simp_all add: settled_def rtos_free_def)
  have nb: "fsm_state r \<noteq> FSM_BLOCK_TASK"
    using e(1,3) by (auto simp: rtos_empty_def serving_defs none_pending_def)
  have "\<not> task_create_pending (rtos_clock i c r)"
    using e st c(2) by (cases "fsm_state r") (simp_all add: rtos_empty_def no_tasks_def state_updates)
  then show ?thesis
    using empty_clock [OF e(1) c(1), of i] other_clock(2) [OF e(1) st nb] no_answer_clock [OF nb] st
    by (simp add: settled_def rtos_free_def del: rtos_clock_regs)
qed

lemma unknown_clock:
  assumes r: "settled r" and c: "unknown c"
  shows "settled (rtos_clock i c r) \<or> stuck (rtos_clock i c r)"
proof (cases "fsm_state r = FSM_IDLE")
  case True
  have ops: "mutex_op_int r = 0" "msgq_op_int r = 0" "\<not> sem_op_pending r" "\<not> mutex_op_pending r" "\<not> msgq_op_pending r"
    "\<not> task_create_pending r"
    using r by (simp_all add: settled_def rtos_free_def none_pending_def)
  have cs: "\<not> rtos_task_create c" "\<not> rtos_task_exit c" "\<not> rtos_task_join c" "\<not> rtos_task_yield c" "rtos_sem_op c = 0"
    using c by (simp_all add: unknown_def)
  have "no_answer (rtos_clock i c r)" using no_answer_clock [of r i c] True by simp
  moreover consider "rtos_mutex_op c = 3" | "rtos_mutex_op c = 0" "rtos_msgq_op c = 3" using c by (auto simp: unknown_def)
  then have "no_answer (rtos_clock i c r) \<Longrightarrow> stuck (rtos_clock i c r)"
    using True ops cs by cases (simp_all add: stuck_def fsm_next_def idle_next_def rtos_issue_def unit_refuses)
  ultimately show ?thesis by blast
next
  case False
  then show ?thesis using settled_other [OF r _ _ False] c by (simp add: unknown_def)
qed

lemma lost:
  assumes r: "settled r \<or> stuck r" and c: "unknown c"
  shows "\<not> answered c r" "settled (rtos_clock i c r) \<or> stuck (rtos_clock i c r)"
proof -
  have "no_answer r" "\<not> rtos_task_join c" "rtos_sem_op c = 0" "\<not> rtos_task_exit c"
    using r c by (auto simp: settled_def stuck_def unknown_def)
  then show "\<not> answered c r" by (simp add: answered_def no_answer_def)
  show "settled (rtos_clock i c r) \<or> stuck (rtos_clock i c r)"
    using r unknown_clock [OF _ c] stuck_clock [OF _ \<open>\<not> rtos_task_exit c\<close>] by blast
qed

section \<open>A post that is lost\<close>

text \<open>A semaphore at its maximum, as each is before it is initialised, and nobody waits for it.\<close>

definition sem_full :: "semaphore \<Rightarrow> bool" where
  "sem_full s \<longleftrightarrow> sem_wait_mask_r s = 0 \<and> max_count_r s \<le> count_r s"

definition post_of :: "nat \<Rightarrow> rtos_cmd \<Rightarrow> bool" where
  "post_of j c \<longleftrightarrow> cmd_wf c \<and> \<not> rtos_task_create c \<and> \<not> rtos_task_exit c \<and> \<not> rtos_task_join c \<and> \<not> rtos_task_yield c
     \<and> rtos_sem_op c = 3 \<and> rtos_sem_id c = j"

definition full_settled :: "nat \<Rightarrow> hw_rtos \<Rightarrow> bool" where
  "full_settled j r \<longleftrightarrow> settled r \<and> j < NUM_SEMS \<and> sem_full (sems (sem_u r) ! j)"

definition full_stuck :: "nat \<Rightarrow> hw_rtos \<Rightarrow> bool" where
  "full_stuck j r \<longleftrightarrow> fsm_state r = FSM_BLOCK_TASK \<and> no_answer r \<and> sem_op_pending r \<and> \<not> mutex_op_pending r
     \<and> \<not> msgq_op_pending r \<and> sem_op_int r = 3 \<and> sem_id_int r = j \<and> \<not> sem_success (sem_u r) \<and> \<not> sem_block (sem_u r)
     \<and> sem_full (sems (sem_u r) ! j)"

lemma full_post:
  assumes "sem_full (sems u ! j)"
  shows "\<not> sem_success (hw_semaphore 3 j t v m prio u)" "\<not> sem_block (hw_semaphore 3 j t v m prio u)"
    "sems (hw_semaphore 3 j t v m prio u) = sems u"
  using assms by (auto simp: sem_full_def hw_semaphore_def Let_def dest: leD)

lemma full_stuck_clock:
  assumes r: "full_stuck j r" and c: "\<not> rtos_task_exit c"
  shows "full_stuck j (rtos_clock i c r)"
proof -
  have "sem_full (sems (sem_u r) ! j)" using r by (simp add: full_stuck_def)
  note f = full_post [OF this]
  have "fsm_state r = FSM_BLOCK_TASK" using r by (simp add: full_stuck_def)
  with r c f show ?thesis
    by (simp add: full_stuck_def no_answer_def fsm_next_def block_next_def rtos_collect_def Let_def)
qed

lemma full_keeps: "settled r \<Longrightarrow> sems (sem_u (rtos_clock i c r)) = sems (sem_u r)"
  by (simp add: settled_def none_pending_def sem_nop_def)

lemma post_clock:
  assumes r: "full_settled j r" and c: "post_of j c"
  shows "full_settled j (rtos_clock i c r) \<or> full_stuck j (rtos_clock i c r)"
proof (cases "fsm_state r = FSM_IDLE")
  case True
  have ops: "sem_op_int r = 0" "\<not> mutex_op_pending r" "\<not> msgq_op_pending r" "\<not> task_create_pending r"
    and s: "settled r" "sem_full (sems (sem_u r) ! j)"
    using r by (simp_all add: full_settled_def settled_def rtos_free_def none_pending_def)
  have cs: "\<not> rtos_task_create c" "\<not> rtos_task_exit c" "\<not> rtos_task_join c" "\<not> rtos_task_yield c" "rtos_sem_op c = 3"
    "rtos_sem_id c = j"
    using c by (simp_all add: post_of_def)
  have "no_answer (rtos_clock i c r)" using no_answer_clock [of r i c] True by simp
  moreover have "no_answer (rtos_clock i c r) \<Longrightarrow> full_stuck j (rtos_clock i c r)"
    using True ops cs s(2) by (simp add: full_stuck_def fsm_next_def idle_next_def rtos_issue_def sem_nop_def)
  ultimately show ?thesis by blast
next
  case False
  have s: "settled r" "j < NUM_SEMS" "sem_full (sems (sem_u r) ! j)" using r by (simp_all add: full_settled_def)
  then have "settled (rtos_clock i c r)" using settled_other [OF s(1) _ _ False] c by (simp add: post_of_def)
  then show ?thesis using s full_keeps [OF s(1)] by (simp add: full_settled_def del: rtos_clock_units)
qed

lemma lost_post:
  assumes r: "full_settled j r \<or> full_stuck j r" and c: "post_of j c"
  shows "\<not> answered c r" "full_settled j (rtos_clock i c r) \<or> full_stuck j (rtos_clock i c r)"
proof -
  have "no_answer r" "\<not> rtos_task_join c" "rtos_sem_op c = 3" "\<not> rtos_task_exit c"
    using r c by (auto simp: full_settled_def settled_def full_stuck_def post_of_def)
  then show "\<not> answered c r" by (simp add: answered_def no_answer_def)
  show "full_settled j (rtos_clock i c r) \<or> full_stuck j (rtos_clock i c r)"
    using r post_clock [OF _ c] full_stuck_clock [OF _ \<open>\<not> rtos_task_exit c\<close>] by blast
qed

text \<open>Any other semaphore takes the post.\<close>

definition posting :: "nat \<Rightarrow> hw_rtos \<Rightarrow> bool" where
  "posting j r \<longleftrightarrow> sem_done_r r \<or> settled r \<and> \<not> sem_full (sems (sem_u r) ! j)
     \<or> fsm_state r = FSM_BLOCK_TASK \<and> sem_op_pending r \<and> \<not> mutex_op_pending r \<and> \<not> msgq_op_pending r
        \<and> (sem_success (sem_u r) \<or> sem_block (sem_u r)
            \<or> sem_op_int r = 3 \<and> sem_id_int r = j \<and> \<not> sem_full (sems (sem_u r) ! j))"

definition post_left :: "hw_rtos \<Rightarrow> nat" where
  "post_left r = (if sem_done_r r then 0 else if fsm_state r = FSM_BLOCK_TASK then op_left r else 3 + idle_left r)"

lemma open_post: "\<not> sem_full (sems u ! j) \<Longrightarrow> sem_success (hw_semaphore 3 j t v m prio u)"
  by (auto simp: sem_full_def hw_semaphore_def Let_def not_le split: option.split)

lemma posting_clock:
  assumes r: "posting j r" and nd: "\<not> sem_done_r r" and c: "post_of j c"
  shows "posting j (rtos_clock i c r) \<and> post_left (rtos_clock i c r) < post_left r"
proof (cases "fsm_state r = FSM_BLOCK_TASK")
  case True
  then have "\<not> settled r" by (auto simp: settled_def rtos_free_def rtos_empty_def serving_defs none_pending_def)
  with r nd True have b: "sem_op_pending r" "\<not> mutex_op_pending r" "\<not> msgq_op_pending r"
    and p: "sem_success (sem_u r) \<or> sem_block (sem_u r)
      \<or> sem_op_int r = 3 \<and> sem_id_int r = j \<and> \<not> sem_full (sems (sem_u r) ! j)"
    by (auto simp: posting_def)
  have ne: "\<not> rtos_task_exit c" using c by (simp add: post_of_def)
  show ?thesis
  proof (cases "sem_success (sem_u r) \<or> sem_block (sem_u r)")
    case flag: True
    then have "sem_done_r (rtos_clock i c r)" using True b ne by (auto simp: rtos_collect_def rtos_block_def put_state_def Let_def)
    then show ?thesis using nd op_left_bounds(1) [of r] by (simp add: posting_def post_left_def del: rtos_clock_regs)
  next
    case False
    then have "\<not> sem_done_r (rtos_clock i c r)" "sem_success (sem_u (rtos_clock i c r))" "fsm_next i c r = FSM_BLOCK_TASK"
      "sem_op_pending (rtos_clock i c r)" "\<not> mutex_op_pending (rtos_clock i c r)" "\<not> msgq_op_pending (rtos_clock i c r)"
      using p True b ne open_post [of "sem_u r" j] by (simp_all add: fsm_next_def block_next_def rtos_collect_def Let_def)
    then show ?thesis using nd True False b
      by (simp add: posting_def post_left_def op_left_def del: rtos_clock_regs)
  qed
next
  case nb: False
  then have s: "settled r" "\<not> sem_full (sems (sem_u r) ! j)" using r nd by (simp_all add: posting_def)
  have nd': "\<not> sem_done_r (rtos_clock i c r)" using no_answer_clock [OF nb, of i c] by (simp add: no_answer_def)
  show ?thesis
  proof (cases "fsm_state r = FSM_IDLE")
    case True
    have ops: "\<not> mutex_op_pending r" "\<not> msgq_op_pending r" "\<not> task_create_pending r"
      using s(1) by (simp_all add: settled_def rtos_free_def none_pending_def)
    have "fsm_next i c r = FSM_BLOCK_TASK" "sem_op_pending (rtos_clock i c r)" "\<not> mutex_op_pending (rtos_clock i c r)"
      "\<not> msgq_op_pending (rtos_clock i c r)" "sem_op_int (rtos_clock i c r) = 3" "sem_id_int (rtos_clock i c r) = j"
      using True ops c by (simp_all add: post_of_def fsm_next_def idle_next_def rtos_issue_def)
    then show ?thesis
      using nd nd' nb s(2) full_keeps [OF s(1), of i c] op_left_bounds(2) [of "rtos_clock i c r"]
      by (simp add: posting_def post_left_def del: rtos_clock_regs)
  next
    case False
    have c': "cmd_wf c" "\<not> rtos_task_create c" using c by (simp_all add: post_of_def)
    note s' = settled_other [OF s(1) c' False, of i]
    have "fsm_state (rtos_clock i c r) \<noteq> FSM_BLOCK_TASK"
      using s' by (auto simp: settled_def rtos_free_def rtos_empty_def serving_defs none_pending_def simp del: rtos_clock_regs rtos_clock_units)
    moreover have "idle_left (rtos_clock i c r) < idle_left r"
      using idle_left_clock [OF _ c'(1) False] s(1) by (simp add: settled_def rtos_free_def)
    ultimately show ?thesis
      using nd nd' nb s' s(2) full_keeps [OF s(1), of i c]
      by (simp add: posting_def post_left_def del: rtos_clock_regs rtos_clock_units)
  qed
qed

section \<open>After reset\<close>

lemma rtos_free_reset: "rtos_free rtos_reset"
  by (simp add: rtos_free_def rtos_empty_def no_tasks_def rtos_wf_reset)
    (simp add: rtos_reset_def none_pending_def no_choice_def sched_reset_def no_ports_def invalid_def tcb_reset_def)

end
