(* ===== verification/Soc_Rtos.thy ===== *)
theory Soc_Rtos
  imports Soc_Safety Rtos_Free
begin

text \<open>
  The calls that the layer hands to the hardware RTOS, on the SoC, before the program has made a task:
  which return, and which never do. The timer, the core and the AXI bus may do what they like.
\<close>

section \<open>The SoC runs the layer and the RTOS as a pair\<close>

definition pair_input :: "env \<Rightarrow> ecall_port \<Rightarrow> soc \<Rightarrow> pair_in" where
  "pair_input E c w = \<lparr>in_rtos = rtos_inputs E w, in_ecall = c, in_periph = periph_in w\<rparr>"

lemma soc_pair:
  "(soc_posix (soc_clock E q c w), soc_rtos (soc_clock E q c w))
     = pair_clock (pair_input E c w) (soc_posix w, soc_rtos w)"
  by (simp add: pair_clock_def pair_input_def)

section \<open>Any call\<close>

text \<open>A state in which the program may make a call.\<close>

definition calm :: "soc \<Rightarrow> bool" where
  "calm w \<longleftrightarrow> idle_ctl w \<and> uart_wf (soc_uart w)"

lemma wait_calm:
  assumes "syscall_wait E c v = Some x" and "lockstep v" and "uart_wf (soc_uart v)"
  shows "calm (snd x) \<and> now v < now (snd x)"
  using assms
proof (induction rule: syscall_wait.raw_induct [rotated, consumes 1])
  case (1 loop E c v x)
  show ?case
  proof (cases "syscall_done (soc_posix v)")
    case True
    then have st: "state_r (soc_posix v) = S_COMPLETE" by (simp add: syscall_done_def)
    then have "periph_state (soc_bridge v) = PERIPH_IDLE" using 1(3) by (simp add: lockstep_def)
    with call_end(2) [OF st this 1(4), of E c] 1(2,4) True show ?thesis
      by (auto simp: calm_def uart_wf_step)
  next
    case False
    then have "loop E c (tick E c v) = Some x" using 1(2) by simp
    from 1(1) [OF this] lockstep_clock [OF 1(3)] 1(4) show ?thesis by (auto simp: uart_wf_step)
  qed
qed

lemma after_wait:
  assumes "calm w"
  shows "calm (latency E (idle E n w))" "now w \<le> now (latency E (idle E n w))"
  using after_call [of w E n] passes_now [OF passes_trans [OF passes_latency passes_idle]] assms
  by (auto simp: calm_def undisturbed_wf)

lemma calm_start:
  assumes "calm w"
  shows "\<exists>v. now w \<le> now v \<and> uart_wf (soc_uart v) \<and> lockstep v
    \<and> soc_syscall E num args w = do { (r, w') \<leftarrow> syscall_wait E (ecall_for E num args w) v;
          Some (r, latency E (idle E 1 w')) }"
proof -
  let ?c = "ecall_for E num args w" and ?w0 = "idle E 5 (latency E w)"
  have w: "idle_ctl w" "uart_wf (soc_uart w)" using assms by (simp_all add: calm_def)
  note l = idle_passes(4-6) [OF w, of E]
  note i = idle_passes(1-3) [OF l(1) undisturbed_wf [OF l(3)], of E 5]
  have "decode_state (with_args ?c (soc_posix ?w0)) = call_state num" by (rule decode_call) simp
  note c = call_start [OF i(1) undisturbed_wf [OF i(3)] ecall_for_simps(1) this, of E]
  have "now w \<le> now ?w0" using passes_now [OF passes_trans [OF passes_idle passes_latency]] .
  moreover have "lockstep (tick E ?c (tick E ?c ?w0))"
    using c(2) call_state_cases [of num] by (auto simp: op_state_def lockstep_def)
  moreover have "uart_wf (soc_uart (tick E ?c (tick E ?c ?w0)))"
    using c(2) by (simp add: op_state_def undisturbed_def)
  ultimately show ?thesis unfolding soc_syscall_def
    by (intro exI [of _ "tick E ?c (tick E ?c ?w0)"]) (simp add: c)
qed

lemma call_keeps_calm:
  assumes "calm w" and "soc_syscall E num args w = Some (r, w')"
  shows "calm w' \<and> now w < now w'"
proof -
  let ?c = "ecall_for E num args w"
  obtain v where v: "now w \<le> now v" "uart_wf (soc_uart v)" "lockstep v"
    and s: "soc_syscall E num args w = do { (r, w') \<leftarrow> syscall_wait E ?c v; Some (r, latency E (idle E 1 w')) }"
    using calm_start [OF assms(1), of E num args] by blast
  obtain w2 where w2: "syscall_wait E ?c v = Some (r, w2)" "w' = latency E (idle E 1 w2)"
    using assms(2) [unfolded s] by (auto simp: Option.bind_eq_Some_conv)
  from wait_calm [OF w2(1) v(3,2)] after_wait [of w2 E 1] v(1) w2(2) show ?thesis by auto
qed

section \<open>The command of a call\<close>

text \<open>The command the layer gives for the call \<open>num\<close>, up to its arguments.\<close>

definition call_cmd :: "u32 \<Rightarrow> rtos_cmd" where
  "call_cmd num = rtos_out (posix_reset\<lparr>state_r := call_state num, latched_syscall_num := ucast num\<rparr>)"

definition same_kind :: "rtos_cmd \<Rightarrow> rtos_cmd \<Rightarrow> bool" where
  "same_kind c d \<longleftrightarrow> rtos_task_create c = rtos_task_create d \<and> rtos_task_exit c = rtos_task_exit d
     \<and> rtos_task_join c = rtos_task_join d \<and> rtos_task_yield c = rtos_task_yield d \<and> rtos_sem_op c = rtos_sem_op d
     \<and> rtos_mutex_op c = rtos_mutex_op d \<and> rtos_msgq_op c = rtos_msgq_op d"

lemma same_kind_eqs:
  assumes "same_kind c d" and "cmd_wf c" "cmd_wf d"
  shows "request c = request d" "unknown c = unknown d" "answered c = answered d" "answer_left c = answer_left d"
  using assms
  by (auto simp: same_kind_def request_def sure_cmd_def unknown_def answered_def in_service_def answer_left_def fun_eq_iff)

lemma call_cmd_wf: "cmd_wf (call_cmd num)"
  by (simp add: call_cmd_def rtos_out_wf)

lemma thread_cmd_fields:
  "rtos_task_create (thread_cmd p) \<longleftrightarrow> syscall_subop p = 0 \<or> state_r p \<noteq> S_WAIT_RTOS \<and> syscall_subop p \<in> {6, 7}"
  "rtos_task_exit (thread_cmd p) \<longleftrightarrow> state_r p \<noteq> S_WAIT_RTOS \<and> syscall_subop p = 1"
  "rtos_task_join (thread_cmd p) \<longleftrightarrow> syscall_subop p = 2"
  "rtos_task_yield (thread_cmd p) \<longleftrightarrow> state_r p \<noteq> S_WAIT_RTOS \<and> syscall_subop p = 5"
  "rtos_sem_op (thread_cmd p) = 0" "rtos_mutex_op (thread_cmd p) = 0" "rtos_msgq_op (thread_cmd p) = 0"
  by (auto simp: thread_cmd_def rtos_none_def Let_def)

lemma unit_cmd_fields:
  "\<not> rtos_task_create (mutex_cmd p)" "\<not> rtos_task_exit (mutex_cmd p)" "\<not> rtos_task_join (mutex_cmd p)"
  "\<not> rtos_task_yield (mutex_cmd p)" "rtos_sem_op (mutex_cmd p) = 0" "rtos_msgq_op (mutex_cmd p) = 0"
  "\<not> rtos_task_create (sem_cmd p)" "\<not> rtos_task_exit (sem_cmd p)" "\<not> rtos_task_join (sem_cmd p)"
  "\<not> rtos_task_yield (sem_cmd p)" "rtos_mutex_op (sem_cmd p) = 0" "rtos_msgq_op (sem_cmd p) = 0"
  "\<not> rtos_task_create (msgq_cmd p)" "\<not> rtos_task_exit (msgq_cmd p)" "\<not> rtos_task_join (msgq_cmd p)"
  "\<not> rtos_task_yield (msgq_cmd p)" "rtos_sem_op (msgq_cmd p) = 0" "rtos_mutex_op (msgq_cmd p) = 0"
  by (simp_all add: mutex_cmd_def sem_cmd_def msgq_cmd_def rtos_none_def Let_def)

lemma unit_op_fields:
  "rtos_mutex_op (mutex_cmd p) = (let op = syscall_subop p in
     if op = 0 \<or> op = 4 then 1 else if op = 1 \<or> op = 2 then 2 else if op = 3 then 3 else 0)"
  "rtos_sem_op (sem_cmd p) = (let op = syscall_subop p in
     if op = 0 \<or> op = 5 \<or> op = 6 then 1 else if op = 1 \<or> op = 2 \<or> op = 3 then 2 else if op = 4 then 3 else 0)"
  "rtos_msgq_op (msgq_cmd p) = (let op = syscall_subop p in
     if op = 0 \<or> op = 3 then 1 else if op = 1 \<or> op = 5 then 2 else if op = 2 \<or> op = 4 then 3 else 0)"
  by (simp_all add: mutex_cmd_def sem_cmd_def msgq_cmd_def Let_def)

lemma subop_simps [simp]:
  "syscall_subop (p\<lparr>state_r := st\<rparr>) = syscall_subop p"
  "syscall_subop (p\<lparr>latched_syscall_num := n\<rparr>) = unat n mod 16"
  by (simp_all add: syscall_subop_def)

lemma cmd_wfs: "cmd_wf (thread_cmd p)" "cmd_wf (mutex_cmd p)" "cmd_wf (sem_cmd p)" "cmd_wf (msgq_cmd p)"
  by (simp_all add: cmd_wf_def thread_cmd_def mutex_cmd_def sem_cmd_def msgq_cmd_def rtos_none_def NUM_SEMS_def
      NUM_MUTEXES_def NUM_QUEUES_def Let_def)

lemmas cmd_fields = thread_cmd_fields unit_cmd_fields unit_op_fields

text \<open>The calls that wait for the RTOS, by the state of the layer, the category and the operation.\<close>

lemma rtos_calls:
  assumes "needs_rtos num"
  obtains (thread) "call_state num = S_THREAD_OP" "unat (ucast num :: byte) div 16 = 0" "unat (ucast num :: byte) mod 16 \<in> {0, 2, 6, 7}"
  | (mutex) "call_state num = S_MUTEX_OP" "unat (ucast num :: byte) div 16 = 1" "unat (ucast num :: byte) mod 16 < 5"
  | (sem) "call_state num = S_SEM_OP" "unat (ucast num :: byte) div 16 = 2" "unat (ucast num :: byte) mod 16 < 7"
  | (msgq) "call_state num = S_MSGQ_OP" "unat (ucast num :: byte) div 16 = 3" "unat (ucast num :: byte) mod 16 < 6"
proof -
  have c: "call_state num \<in> {S_THREAD_OP, S_MUTEX_OP, S_SEM_OP, S_MSGQ_OP}"
    "waits_for_rtos (call_state num) (unat (ucast num :: byte) mod 16)"
    using assms by (auto simp: needs_rtos_def waits_for_rtos_def)
  then have "unat (ucast num :: byte) div 16 = (case call_state num of S_THREAD_OP \<Rightarrow> 0 | S_MUTEX_OP \<Rightarrow> 1 | S_SEM_OP \<Rightarrow> 2 | _ \<Rightarrow> 3)"
    by (auto simp: call_state_def decode_state_def syscall_category_def Let_def split: if_split_asm)
  with c that show thesis by (auto simp: waits_for_rtos_def)
qed

text \<open>The layer has the call and gives the command; or it waits for the answer.\<close>

definition asked :: "u32 \<Rightarrow> soc \<Rightarrow> bool" where
  "asked num w \<longleftrightarrow> state_r (soc_posix w) = call_state num \<and> latched_syscall_num (soc_posix w) = ucast num"

definition waiting :: "u32 \<Rightarrow> soc \<Rightarrow> bool" where
  "waiting num w \<longleftrightarrow> state_r (soc_posix w) = S_WAIT_RTOS \<and> latched_syscall_num (soc_posix w) = ucast num"

lemma call_cmd_cases:
  assumes "needs_rtos num"
  defines "p \<equiv> posix_reset\<lparr>state_r := call_state num, latched_syscall_num := ucast num\<rparr>"
  shows "call_cmd num = (case call_state num of S_THREAD_OP \<Rightarrow> thread_cmd p | S_MUTEX_OP \<Rightarrow> mutex_cmd p
      | S_SEM_OP \<Rightarrow> sem_cmd p | _ \<Rightarrow> msgq_cmd p)"
  using assms(1) by (cases rule: rtos_calls) (simp_all add: p_def call_cmd_def rtos_out_def)

lemma asked_cmd:
  assumes "needs_rtos num" and "asked num w"
  shows "same_kind (rtos_out (soc_posix w)) (call_cmd num)"
proof -
  have w: "syscall_subop (soc_posix w) = unat (ucast num :: byte) mod 16" "state_r (soc_posix w) = call_state num"
    using assms(2) by (simp_all add: asked_def syscall_subop_def)
  show ?thesis
    using assms(1)
    by (cases rule: rtos_calls)
      (simp_all add: w rtos_out_def same_kind_def call_cmd_cases [OF assms(1)] cmd_fields)
qed

lemma waiting_facts:
  assumes "waiting num w"
  shows "syscall_subop (soc_posix w) = unat (ucast num :: byte) mod 16"
    "syscall_category (soc_posix w) = unat (ucast num :: byte) div 16" "state_r (soc_posix w) = S_WAIT_RTOS"
  using assms by (simp_all add: waiting_def syscall_subop_def syscall_category_def)

lemma waiting_cmd:
  assumes "needs_rtos num" and "waiting num w" and "\<not> rtos_task_create (call_cmd num)"
  shows "same_kind (rtos_out (soc_posix w)) (call_cmd num)"
  using assms(1)
  by (cases rule: rtos_calls)
    (use assms(3) in \<open>auto simp: waiting_facts [OF assms(2)] rtos_out_def same_kind_def call_cmd_cases [OF assms(1)] cmd_fields\<close>)

lemma call_cmd_kinds:
  assumes "needs_rtos num"
  shows "rtos_task_create (call_cmd num) \<or> request (call_cmd num) \<or> unknown (call_cmd num) \<or> rtos_sem_op (call_cmd num) = 3"
  using assms
  by (cases rule: rtos_calls)
    (use call_cmd_wf [of num] in
      \<open>auto simp: call_cmd_cases [OF assms] cmd_fields request_def sure_cmd_def unknown_def Let_def\<close>)

text \<open>The answer the layer waits for.\<close>

definition told :: "u32 \<Rightarrow> hw_rtos \<Rightarrow> bool" where
  "told num r \<longleftrightarrow> (if rtos_task_create (call_cmd num) then create_done_r r else answered (call_cmd num) r)"

lemma waiting_done:
  assumes "needs_rtos num" and "waiting num w"
  shows "rtos_done (soc_posix w) (rtos_port_of (soc_rtos w)) = told num (soc_rtos w)"
  using assms(1)
  by (cases rule: rtos_calls)
    (auto simp: waiting_facts [OF assms(2)] told_def answered_def rtos_done_def rtos_port_of_def
      call_cmd_cases [OF assms(1)] cmd_fields Let_def)

section \<open>The RTOS while the layer asks for nothing\<close>

lemma quiet_layer: "state_r p \<in> {S_IDLE, S_DECODE, S_COMPLETE} \<Longrightarrow> rtos_out p = rtos_none"
  by (auto simp: rtos_out_def)

lemma sure_none: "sure_cmd rtos_none"
  by (simp add: sure_cmd_def cmd_wf_def rtos_none_def NUM_SEMS_def NUM_MUTEXES_def NUM_QUEUES_def)

lemma idle_clock_rtos: "idle_ctl w \<Longrightarrow> soc_rtos (soc_clock E q c w) = rtos_clock (rtos_inputs E w) rtos_none (soc_rtos w)"
  by (simp add: quiet_layer idle_ctl_def)

lemma idle_free:
  assumes "idle_ctl w" and "rtos_free (soc_rtos w)"
  shows "idle_ctl (idle E n w) \<and> rtos_free (soc_rtos (idle E n w)) \<and> settle_left (soc_rtos (idle E n w)) \<le> settle_left (soc_rtos w) - n"
proof (induction n)
  case (Suc n)
  let ?w = "idle E n w"
  have w: "idle_ctl ?w" "rtos_free (soc_rtos ?w)" "settle_left (soc_rtos ?w) \<le> settle_left (soc_rtos w) - n" using Suc by auto
  have "idle E (Suc n) w = soc_clock E apb_none ecall_none ?w" by (simp add: idle_def)
  with idle_clock_rtos [OF w(1)] idle_ctl_clock(1) [OF w(1)] free_clock [OF w(2) sure_none] settle_clock [OF w(2)] w(3) show ?case
    by (fastforce simp del: soc_rtos_clock intro: order_trans)
qed (use assms in \<open>simp add: idle_def\<close>)

lemma settle_left_bound: "settle_left r \<le> 3"
  using op_left_bounds(2) [of r] by (simp add: settle_left_def)

lemma settled_clock: "settled r \<Longrightarrow> settled (rtos_clock i rtos_none r)"
  using settle_clock [of r i] free_clock [OF _ sure_none, of r i] by (simp add: settled_iff)

section \<open>The way of a call to the RTOS\<close>

text \<open>What the RTOS keeps while nobody asks for anything, it keeps until the layer has the call.\<close>

lemma idle_keeps:
  assumes "\<And>i r. K r \<Longrightarrow> K (rtos_clock i rtos_none r)" and "idle_ctl w" "K (soc_rtos w)"
  shows "K (soc_rtos (idle E n w))"
proof (induction n)
  case (Suc n)
  have "idle_ctl (idle E n w)"
    by (induction n) (use assms(2) idle_ctl_clock(1) in \<open>simp_all add: idle_def\<close>)
  with Suc assms(1) idle_clock_rtos show ?case by (simp add: idle_def)
qed (use assms in \<open>simp add: idle_def\<close>)

lemma call_begins:
  assumes w: "calm w" and r: "rtos_free (soc_rtos w)"
    and K: "\<And>i r. K r \<Longrightarrow> K (rtos_clock i rtos_none r)" "K (soc_rtos w)"
  shows "\<exists>v. asked num v \<and> latched_arg0 (soc_posix v) = syscall_arg0 (ecall_for E num args w)
    \<and> settled (soc_rtos v) \<and> K (soc_rtos v) \<and> uart_wf (soc_uart v) \<and> lockstep v
    \<and> soc_syscall E num args w = do { (r, w') \<leftarrow> syscall_wait E (ecall_for E num args w) v;
          Some (r, latency E (idle E 1 w')) }"
proof -
  let ?c = "ecall_for E num args w" and ?w0 = "idle E 5 (latency E w)"
  let ?w1 = "tick E ?c ?w0" let ?v = "tick E ?c ?w1"
  have w': "idle_ctl w" "uart_wf (soc_uart w)" using w by (simp_all add: calm_def)
  note l = idle_passes(4-6) [OF w', of E]
  note i = idle_passes(1-3) [OF l(1) undisturbed_wf [OF l(3)], of E 5]
  have "decode_state (with_args ?c (soc_posix ?w0)) = call_state num" by (rule decode_call) simp
  note c = call_start [OF i(1) undisturbed_wf [OF i(3)] ecall_for_simps(1) this, of E]
  have lat: "rtos_free (soc_rtos (latency E w))" using idle_free [OF w'(1) r] by (simp add: latency_def)
  have "settle_left (soc_rtos ?w0) = 0" "rtos_free (soc_rtos ?w0)"
    using idle_free [OF l(1) lat, of E 5] settle_left_bound [of "soc_rtos (latency E w)"] by auto
  then have s0: "settled (soc_rtos ?w0)" by (simp add: settled_iff)
  have k0: "K (soc_rtos ?w0)"
    using idle_keeps [of K, OF K(1) l(1), of E 5] idle_keeps [of K, OF K(1) w'(1) K(2), of E] by (simp add: latency_def)
  have "state_r (soc_posix ?w0) = S_IDLE" "state_r (soc_posix ?w1) = S_DECODE"
    using i(1) by (simp_all add: idle_ctl_def state_next_def)
  then have "settled (soc_rtos ?v)" "K (soc_rtos ?v)"
    using settled_clock [OF settled_clock [OF s0]] K(1) [OF K(1) [OF k0]] by (simp_all add: quiet_layer)
  moreover have "asked num ?v" "latched_arg0 (soc_posix ?v) = syscall_arg0 ?c" "lockstep ?v" "uart_wf (soc_uart ?v)"
    using c(2) call_state_cases [of num]
    by (auto simp: op_state_def asked_def lockstep_def undisturbed_def simp del: soc_posix_clock soc_uart_clock soc_bridge_clock)
  ultimately show ?thesis unfolding soc_syscall_def
    by (intro exI [of _ ?v]) (simp add: c del: soc_rtos_clock soc_posix_clock)
qed

lemmas call_begins_free = call_begins [where K = "\<lambda>_. True", OF _ _ TrueI TrueI]

lemma asked_tick:
  assumes "needs_rtos num" and "asked num v"
  shows "waiting num (tick E c v)" "syscall_wait E c v = syscall_wait E c (tick E c v)"
proof -
  have "waits_for_rtos (state_r (soc_posix v)) (syscall_subop (soc_posix v))"
    using assms by (simp add: asked_def needs_rtos_def syscall_subop_def)
  then show "waiting num (tick E c v)" "syscall_wait E c v = syscall_wait E c (tick E c v)"
    using next_wait_rtos [of "soc_posix v"] call_waits [of v E c] assms(2)
    by (auto simp: waiting_def asked_def posix_step_latched waits_for_rtos_def)
qed

lemma waiting_tick:
  assumes "needs_rtos num" and "waiting num v"
  shows "told num (soc_rtos v) \<Longrightarrow> syscall_wait E c v
      = Some (rtos_answer (soc_posix v) (rtos_port_of (soc_rtos v)), tick E c (tick E c v))"
    and "\<not> told num (soc_rtos v) \<Longrightarrow> waiting num (tick E c v) \<and> syscall_wait E c v = syscall_wait E c (tick E c v)"
proof -
  have st: "state_r (soc_posix v) = S_WAIT_RTOS" using assms(2) by (simp add: waiting_def)
  note dn = waiting_done [OF assms]
  note nxt = call_waits [of v E c]
  show "told num (soc_rtos v) \<Longrightarrow> syscall_wait E c v
      = Some (rtos_answer (soc_posix v) (rtos_port_of (soc_rtos v)), tick E c (tick E c v))"
    using st dn nxt syscall_wait.simps [of E c "tick E c v"] by (simp add: syscall_done_def state_next_def result_next_def)
  show "\<not> told num (soc_rtos v) \<Longrightarrow> waiting num (tick E c v) \<and> syscall_wait E c v = syscall_wait E c (tick E c v)"
    using st dn nxt assms(2) by (simp add: waiting_def state_next_def posix_step_latched)
qed

text \<open>A wait ends when a measure of the states decreases until the answer is there.\<close>

lemma wait_ends:
  assumes num: "needs_rtos num" and v: "waiting num v" "Inv v"
    and step: "\<And>v. \<lbrakk>waiting num v; Inv v; \<not> told num (soc_rtos v)\<rbrakk> \<Longrightarrow> Inv (tick E c v) \<and> m (tick E c v) < (m v :: nat)"
  shows "\<exists>u. waiting num u \<and> Inv u \<and> told num (soc_rtos u)
    \<and> syscall_wait E c v = Some (rtos_answer (soc_posix u) (rtos_port_of (soc_rtos u)), tick E c (tick E c u))"
  using v
proof (induction "m v" arbitrary: v rule: less_induct)
  case less
  show ?case
  proof (cases "told num (soc_rtos v)")
    case True
    then show ?thesis using less.prems waiting_tick(1) [OF num less.prems(1)] by blast
  next
    case False
    note t = waiting_tick(2) [OF num less.prems(1) False, of E c] and s = step [OF less.prems False]
    from less.hyps [OF conjunct2 [OF s] conjunct1 [OF t] conjunct1 [OF s]] t show ?thesis by simp
  qed
qed

section \<open>Which calls return\<close>

text \<open>A request is answered, and no task has been made afterwards.\<close>

lemma calm_after:
  assumes w: "calm w" and r: "rtos_free (soc_rtos w)"
  shows "calm (latency E (idle E n w)) \<and> rtos_free (soc_rtos (latency E (idle E n w)))"
  using after_wait(1) [OF w, of E n] idle_free [of w E n] idle_free [of "idle E n w" E] w r
  by (simp add: latency_def calm_def)

lemma told_free:
  assumes "needs_rtos num" and u: "waiting num u" "told num (soc_rtos u)"
    and r: "rtos_free (soc_rtos u)" "sure_cmd (rtos_out (soc_posix u))"
  shows "rtos_free (soc_rtos (tick E c (tick E c u)))"
proof -
  have "state_r (soc_posix (tick E c u)) = S_COMPLETE"
    using u waiting_done [OF assms(1) u(1)] by (simp add: waiting_def state_next_def)
  then show ?thesis using free_clock [OF free_clock [OF r] sure_none] by (simp add: quiet_layer)
qed

theorem request_returns:
  assumes w: "calm w" "rtos_free (soc_rtos w)" and num: "needs_rtos num" "request (call_cmd num)"
  shows "\<exists>r w'. soc_syscall E num args w = Some (r, w') \<and> calm w' \<and> rtos_free (soc_rtos w')"
proof -
  let ?c = "ecall_for E num args w"
  have nc: "\<not> rtos_task_create (call_cmd num)" using num(2) by (simp add: request_def sure_cmd_def)
  obtain v where v: "asked num v" "settled (soc_rtos v)" "lockstep v" "uart_wf (soc_uart v)"
    and s: "soc_syscall E num args w = do { (r, w') \<leftarrow> syscall_wait E ?c v; Some (r, latency E (idle E 1 w')) }"
    using call_begins_free [OF w, of num E args] by auto
  have sure: "sure_cmd (rtos_out (soc_posix u))" "answer_left (rtos_out (soc_posix u)) = answer_left (call_cmd num)"
    "answered (rtos_out (soc_posix u)) = answered (call_cmd num)" "request (rtos_out (soc_posix u))"
    if "asked num u \<or> waiting num u" for u
  proof -
    have "same_kind (rtos_out (soc_posix u)) (call_cmd num)"
      using that asked_cmd [OF num(1)] waiting_cmd [OF num(1) _ nc] by blast
    note k = same_kind_eqs [OF this rtos_out_wf call_cmd_wf]
    show "request (rtos_out (soc_posix u))" "answer_left (rtos_out (soc_posix u)) = answer_left (call_cmd num)"
      "answered (rtos_out (soc_posix u)) = answered (call_cmd num)" using k num(2) by simp_all
    then show "sure_cmd (rtos_out (soc_posix u))" by (simp add: request_def)
  qed
  note t = asked_tick [OF num(1) v(1), of E ?c]
  have free: "rtos_free (soc_rtos (tick E ?c v))"
    using free_clock [OF _ sure(1)] v(1,2) by (simp add: settled_def)
  have step: "rtos_free (soc_rtos (tick E ?c u)) \<and> answer_left (call_cmd num) (soc_rtos (tick E ?c u)) < answer_left (call_cmd num) (soc_rtos u)"
    if "waiting num u" "rtos_free (soc_rtos u)" "\<not> told num (soc_rtos u)" for u
    using that free_clock [OF that(2) sure(1)] answer_left_clock [OF sure(4) that(2), of u "rtos_inputs E u"] sure(2,3) [of u] nc
    by (simp add: told_def)
  obtain u where u: "waiting num u" "rtos_free (soc_rtos u)" "told num (soc_rtos u)"
    and wt: "syscall_wait E ?c (tick E ?c v) = Some (rtos_answer (soc_posix u) (rtos_port_of (soc_rtos u)), tick E ?c (tick E ?c u))"
    using wait_ends [OF num(1) t(1), of "\<lambda>u. rtos_free (soc_rtos u)" E ?c "\<lambda>u. answer_left (call_cmd num) (soc_rtos u)"] free step by blast
  let ?w = "tick E ?c (tick E ?c u)"
  have "rtos_free (soc_rtos ?w)" using told_free [OF num(1) u(1,3,2) sure(1)] u(1) by blast
  moreover have "calm ?w" using wait_calm [of E ?c v] t(2) wt v(3,4) by fastforce
  ultimately show ?thesis using calm_after [of ?w E 1] s t(2) wt by auto
qed

text \<open>The first creation returns 1.\<close>

theorem create_returns_one:
  assumes w: "calm w" "rtos_free (soc_rtos w)" and num: "needs_rtos num" "rtos_task_create (call_cmd num)"
  shows "\<exists>w'. soc_syscall E num args w = Some (1, w') \<and> calm w'"
proof -
  let ?c = "ecall_for E num args w"
  obtain v where v: "asked num v" "settled (soc_rtos v)" "lockstep v" "uart_wf (soc_uart v)"
    and s: "soc_syscall E num args w = do { (r, w') \<leftarrow> syscall_wait E ?c v; Some (r, latency E (idle E 1 w')) }"
    using call_begins_free [OF w, of num E args] by auto
  note t = asked_tick [OF num(1) v(1), of E ?c]
  have "rtos_task_create (rtos_out (soc_posix v))"
    using asked_cmd [OF num(1) v(1)] num(2) by (simp add: same_kind_def)
  then have "creating (soc_rtos (tick E ?c v))"
    using create_begins rtos_out_wf v(2) by (simp add: settled_def)
  moreover have "creating (soc_rtos (tick E ?c u)) \<and> create_left (soc_rtos (tick E ?c u)) < create_left (soc_rtos u)"
    if "creating (soc_rtos u)" "\<not> told num (soc_rtos u)" for u
    using that creating_clock [OF that(1) _ rtos_out_wf] num(2) by (simp add: told_def)
  ultimately obtain u where u: "waiting num u" "creating (soc_rtos u)" "told num (soc_rtos u)"
    and wt: "syscall_wait E ?c (tick E ?c v) = Some (rtos_answer (soc_posix u) (rtos_port_of (soc_rtos u)), tick E ?c (tick E ?c u))"
    using wait_ends [OF num(1) t(1), of "\<lambda>u. creating (soc_rtos u)" E ?c "\<lambda>u. create_left (soc_rtos u)"] by blast
  have "create_id_r (soc_rtos u) = 1"
    using u num(2) by (auto simp: told_def creating_def rtos_empty_def)
  moreover have "syscall_category (soc_posix u) = 0" "syscall_subop (soc_posix u) \<noteq> 2"
    using num(1)
    by (cases rule: rtos_calls;
        use num(2) in \<open>auto simp: waiting_facts [OF u(1)] call_cmd_cases [OF num(1)] cmd_fields\<close>)+
  ultimately have one: "rtos_answer (soc_posix u) (rtos_port_of (soc_rtos u)) = 1"
    by (simp add: rtos_answer_def rtos_port_of_def)
  let ?w = "tick E ?c (tick E ?c u)"
  have "calm ?w" using wait_calm [of E ?c v] t(2) wt v(3,4) by fastforce
  then show ?thesis using after_wait(1) [of ?w E 1] s t(2) wt one by auto
qed

text \<open>A call does not return when there is an invariant under which it is not told.\<close>

lemma never_told:
  assumes "syscall_wait E c v = Some r" and "needs_rtos num" "waiting num v" "Inv v"
    and "\<And>E c v. \<lbrakk>waiting num v; Inv v\<rbrakk> \<Longrightarrow> \<not> told num (soc_rtos v) \<and> Inv (tick E c v)"
  shows False
  using assms(1-4)
proof (induction rule: syscall_wait.raw_induct [rotated, consumes 1])
  case (1 loop E c v r)
  have "\<not> told num (soc_rtos v)" "Inv (tick E c v)" using assms(5) [OF 1(4,5)] by auto
  moreover from this have "waiting num (tick E c v)" using waiting_tick(2) [OF 1(3,4)] by blast
  moreover have "loop E c (tick E c v) = Some r" using 1(2,4) by (simp add: waiting_def syscall_done_def)
  ultimately show ?case using 1(1,3) by blast
qed

lemma call_hangs:
  assumes num: "needs_rtos num" and v: "asked num v" and inv: "Inv (tick E c v)"
    and step: "\<And>E c v. \<lbrakk>waiting num v; Inv v\<rbrakk> \<Longrightarrow> \<not> told num (soc_rtos v) \<and> Inv (tick E c v)"
  shows "syscall_wait E c v = None"
  using never_told [OF _ num asked_tick(1) [OF num v] inv step] asked_tick(2) [OF num v, of E c]
  by (cases "syscall_wait E c (tick E c v)") auto

text \<open>A request for an operation its unit does not know is never answered.\<close>

theorem unknown_hangs:
  assumes w: "calm w" "rtos_free (soc_rtos w)" and num: "needs_rtos num" "unknown (call_cmd num)"
  shows "soc_syscall E num args w = None"
proof -
  let ?c = "ecall_for E num args w"
  obtain v where v: "asked num v" "settled (soc_rtos v)"
    and s: "soc_syscall E num args w = do { (r, w') \<leftarrow> syscall_wait E ?c v; Some (r, latency E (idle E 1 w')) }"
    using call_begins_free [OF w, of num E args] by auto
  have nc: "\<not> rtos_task_create (call_cmd num)" using num(2) by (simp add: unknown_def)
  let ?Inv = "\<lambda>v. settled (soc_rtos v) \<or> stuck (soc_rtos v)"
  have "unknown (rtos_out (soc_posix v))"
    using same_kind_eqs(2) [OF asked_cmd [OF num(1) v(1)] rtos_out_wf call_cmd_wf] num(2) by simp
  then have "?Inv (tick E ?c v)" using lost(2) v(2) by simp
  moreover have "\<not> told num (soc_rtos v) \<and> ?Inv (tick E c v)" if "waiting num v" "?Inv v" for E c v
  proof -
    note k = same_kind_eqs [OF waiting_cmd [OF num(1) that(1) nc] rtos_out_wf call_cmd_wf]
    from lost [OF that(2), of "rtos_out (soc_posix v)", unfolded k(2,3), OF num(2)] show ?thesis
      using nc by (simp add: told_def)
  qed
  ultimately show ?thesis using call_hangs [OF num(1) v(1), of ?Inv E ?c] s by simp
qed

text \<open>Nor is a post of a semaphore that is at its maximum.\<close>

lemma post_cmd:
  assumes "state_r p = S_SEM_OP \<or> state_r p = S_WAIT_RTOS" and "latched_syscall_num p = ucast SYS_SEM_POST"
  shows "post_of (unat (latched_arg0 p) mod 8) (rtos_out p)"
proof -
  have "rtos_out p = sem_cmd p" "syscall_subop p = 4" "rtos_sem_id (sem_cmd p) = unat (latched_arg0 p) mod 8"
    using assms by (auto simp: rtos_out_def syscall_category_def syscall_subop_def sem_cmd_def posix_defs Let_def)
  then show ?thesis using rtos_out_wf [of p] by (simp add: post_of_def cmd_fields)
qed

lemma post_call: "needs_rtos SYS_SEM_POST" "call_state SYS_SEM_POST = S_SEM_OP" "\<not> rtos_task_create (call_cmd SYS_SEM_POST)"
proof -
  show "needs_rtos SYS_SEM_POST" and st: "call_state SYS_SEM_POST = S_SEM_OP"
    by (simp_all add: needs_rtos_def waits_for_rtos_def call_state_def decode_state_def syscall_category_def posix_defs)
  show "\<not> rtos_task_create (call_cmd SYS_SEM_POST)" by (simp add: call_cmd_def st rtos_out_def cmd_fields)
qed

theorem post_hangs:
  assumes w: "calm w" "settled (soc_rtos w)" and full: "sem_full (sems (sem_u (soc_rtos w)) ! (unat a mod 8))"
  shows "soc_syscall E SYS_SEM_POST (a # args) w = None"
proof -
  let ?c = "ecall_for E SYS_SEM_POST (a # args) w" and ?j = "unat a mod 8"
  have free: "rtos_free (soc_rtos w)" and fs: "full_settled ?j (soc_rtos w)"
    using w full by (simp_all add: settled_def full_settled_def NUM_SEMS_def)
  have keep: "full_settled ?j (rtos_clock i rtos_none r)" if "full_settled ?j r" for i r
    using that settled_clock [of r i] full_keeps [of r i rtos_none] by (simp add: full_settled_def del: rtos_clock_units)
  obtain v where v: "asked SYS_SEM_POST v" "latched_arg0 (soc_posix v) = a" "full_settled ?j (soc_rtos v)"
    and s: "soc_syscall E SYS_SEM_POST (a # args) w = do { (r, w') \<leftarrow> syscall_wait E ?c v; Some (r, latency E (idle E 1 w')) }"
    using call_begins [OF w(1) free keep fs, of SYS_SEM_POST E "a # args"] by auto
  let ?Inv = "\<lambda>v. latched_arg0 (soc_posix v) = a \<and> (full_settled ?j (soc_rtos v) \<or> full_stuck ?j (soc_rtos v))"
  have arg: "latched_arg0 (soc_posix (tick E c v)) = latched_arg0 (soc_posix v)" if "state_r (soc_posix v) \<noteq> S_IDLE" for E c v
    using that by (simp add: posix_step_latched)
  have "post_of ?j (rtos_out (soc_posix v))"
    using post_cmd [of "soc_posix v"] v(1,2) by (simp add: asked_def post_call)
  then have "?Inv (tick E ?c v)" using lost_post(2) v arg [of v] by (simp add: asked_def post_call)
  moreover have "\<not> told SYS_SEM_POST (soc_rtos v) \<and> ?Inv (tick E c v)" if "waiting SYS_SEM_POST v" "?Inv v" for E c v
  proof -
    have c: "post_of ?j (rtos_out (soc_posix v))"
      using post_cmd [of "soc_posix v"] that by (simp add: waiting_def)
    have k: "answered (rtos_out (soc_posix v)) = answered (call_cmd SYS_SEM_POST)"
      by (rule same_kind_eqs(3) [OF waiting_cmd [OF post_call(1) that(1) post_call(3)] rtos_out_wf call_cmd_wf])
    from lost_post [OF conjunct2 [OF that(2)] c] show ?thesis
      using k post_call(3) arg [of v] that by (simp add: told_def waiting_def)
  qed
  ultimately show ?thesis using call_hangs [OF post_call(1) v(1), of ?Inv E ?c] s by simp
qed

lemma post_arg:
  "waiting SYS_SEM_POST v \<Longrightarrow> latched_arg0 (soc_posix (tick E c v)) = latched_arg0 (soc_posix v)"
  "asked SYS_SEM_POST v \<Longrightarrow> latched_arg0 (soc_posix (tick E c v)) = latched_arg0 (soc_posix v)"
  by (simp_all add: waiting_def asked_def post_call posix_step_latched)

theorem post_returns:
  assumes w: "calm w" "settled (soc_rtos w)" and full: "\<not> sem_full (sems (sem_u (soc_rtos w)) ! (unat a mod 8))"
  shows "soc_syscall E SYS_SEM_POST (a # args) w \<noteq> None"
proof -
  let ?c = "ecall_for E SYS_SEM_POST (a # args) w" and ?j = "unat a mod 8"
  let ?K = "\<lambda>r. settled r \<and> \<not> sem_full (sems (sem_u r) ! ?j)"
  have free: "rtos_free (soc_rtos w)" using w(2) by (simp add: settled_def)
  have keep: "?K (rtos_clock i rtos_none r)" if "?K r" for i r
    using that settled_clock [of r i] full_keeps [of r i rtos_none] by (simp del: rtos_clock_units)
  obtain v where v: "asked SYS_SEM_POST v" "latched_arg0 (soc_posix v) = a" "?K (soc_rtos v)"
    and s: "soc_syscall E SYS_SEM_POST (a # args) w = do { (r, w') \<leftarrow> syscall_wait E ?c v; Some (r, latency E (idle E 1 w')) }"
    using call_begins [of w ?K, OF w(1) free keep conjI [OF w(2) full], of SYS_SEM_POST E "a # args"] by auto
  note t = asked_tick [OF post_call(1) v(1), of E ?c]
  have cmd: "post_of ?j (rtos_out (soc_posix u))" if "latched_arg0 (soc_posix u) = a" "asked SYS_SEM_POST u \<or> waiting SYS_SEM_POST u" for u
    using post_cmd [of "soc_posix u"] that by (auto simp: waiting_def asked_def post_call)
  let ?Inv = "\<lambda>u. latched_arg0 (soc_posix u) = a \<and> posting ?j (soc_rtos u)"
  have told: "told SYS_SEM_POST r = sem_done_r r" for r
    using post_call(2,3) by (simp add: told_def answered_def call_cmd_def rtos_out_def cmd_fields posix_defs)
  have "posting ?j (soc_rtos v)" "\<not> sem_done_r (soc_rtos v)"
    using v(3) by (simp_all add: posting_def settled_def no_answer_def)
  then have "?Inv (tick E ?c v)"
    using posting_clock cmd v(1,2) post_arg(2) [OF v(1)] by simp
  moreover have "?Inv (tick E ?c u) \<and> post_left (soc_rtos (tick E ?c u)) < post_left (soc_rtos u)"
    if "waiting SYS_SEM_POST u" "?Inv u" "\<not> told SYS_SEM_POST (soc_rtos u)" for u
    using that posting_clock [OF _ _ cmd] post_arg(1) [OF that(1)] told by simp
  ultimately have "syscall_wait E ?c (tick E ?c v) \<noteq> None"
    using wait_ends [OF post_call(1) t(1), of ?Inv E ?c "\<lambda>u. post_left (soc_rtos u)"] by auto
  then show ?thesis using s t(2) by auto
qed

text \<open>A call that does not wait for the RTOS makes no task either.\<close>

lemma local_cmd:
  assumes "\<not> needs_rtos num" and "asked num v"
  shows "sure_cmd (rtos_out (soc_posix v))"
proof -
  have op: "syscall_subop (soc_posix v) = unat (ucast num :: byte) mod 16" "state_r (soc_posix v) = call_state num"
    using assms(2) by (simp_all add: asked_def syscall_subop_def)
  have "\<not> waits_for_rtos (call_state num) (unat (ucast num :: byte) mod 16)" using assms(1) by (simp add: needs_rtos_def)
  then show ?thesis
    using rtos_out_wf [of "soc_posix v"] sure_none op call_state_cases [of num]
    by (cases "call_state num") (simp_all add: rtos_out_def sure_cmd_def waits_for_rtos_def cmd_fields Let_def)
qed

definition local_call :: "u32 \<Rightarrow> soc \<Rightarrow> bool" where
  "local_call num v \<longleftrightarrow> asked num v \<or> state_r (soc_posix v) \<in> {S_PERIPH_WAIT, S_COMPLETE}"

lemma local_tick:
  assumes "\<not> needs_rtos num" and "local_call num v" "state_r (soc_posix v) \<noteq> S_COMPLETE" and "rtos_free (soc_rtos v)"
  shows "local_call num (tick E c v) \<and> rtos_free (soc_rtos (tick E c v))"
proof -
  have "local_call num (tick E c v)"
  proof (cases "asked num v")
    case True
    then have "\<not> waits_for_rtos (state_r (soc_posix v)) (syscall_subop (soc_posix v))"
      "state_r (soc_posix v) \<notin> {S_IDLE, S_DECODE, S_WAIT_RTOS, S_COMPLETE}"
      using assms(1,3) call_state_cases [of num] by (auto simp: asked_def needs_rtos_def syscall_subop_def)
    with next_not_idle show ?thesis by (simp add: local_call_def)
  next
    case False
    then show ?thesis using assms(2,3) by (auto simp: local_call_def state_next_def)
  qed
  moreover have "sure_cmd (rtos_out (soc_posix v))"
    using assms(2,3) local_cmd [OF assms(1)] sure_none by (auto simp: local_call_def rtos_out_def)
  ultimately show ?thesis using free_clock [OF assms(4)] by simp
qed

lemma local_wait:
  assumes "syscall_wait E c v = Some x" and "\<not> needs_rtos num" "local_call num v" "rtos_free (soc_rtos v)"
  shows "rtos_free (soc_rtos (snd x))"
  using assms
proof (induction rule: syscall_wait.raw_induct [rotated, consumes 1])
  case (1 loop E c v x)
  show ?case
  proof (cases "state_r (soc_posix v) = S_COMPLETE")
    case True
    then show ?thesis using 1(2,5) free_clock [OF 1(5) sure_none] by (auto simp: syscall_done_def quiet_layer)
  next
    case False
    then have "loop E c (tick E c v) = Some x" using 1(2) by (simp add: syscall_done_def)
    from 1(1) [OF this 1(3)] local_tick [OF 1(3,4) False 1(5)] show ?thesis by blast
  qed
qed

theorem local_call_returns:
  assumes w: "calm w" "rtos_free (soc_rtos w)" and num: "\<not> needs_rtos num"
  shows "\<exists>r w'. soc_syscall E num args w = Some (r, w') \<and> calm w' \<and> rtos_free (soc_rtos w')"
proof -
  let ?c = "ecall_for E num args w"
  obtain v where v: "asked num v" "settled (soc_rtos v)" "lockstep v" "uart_wf (soc_uart v)"
    and s: "soc_syscall E num args w = do { (r, w') \<leftarrow> syscall_wait E ?c v; Some (r, latency E (idle E 1 w')) }"
    using call_begins_free [OF w, of num E args] by auto
  obtain r w' where c: "soc_syscall E num args w = Some (r, w')" using call_returns [OF _ _ num] w(1) by (fastforce simp: calm_def)
  then obtain w2 where w2: "syscall_wait E ?c v = Some (r, w2)" "w' = latency E (idle E 1 w2)"
    using s by (auto simp: Option.bind_eq_Some_conv)
  have "rtos_free (soc_rtos w2)" using local_wait [OF w2(1) num] v(1,2) by (simp add: local_call_def settled_def)
  moreover have "calm w2" using wait_calm [OF w2(1) v(3,4)] by simp
  ultimately show ?thesis using calm_after [of w2 E 1] c w2(2) by blast
qed

text \<open>The kinds of calls by their numbers.\<close>

lemma call_numbers:
  assumes "needs_rtos num"
  shows "(unknown (call_cmd num) \<longleftrightarrow> ucast num \<in> {0x13, 0x32, 0x34 :: byte})
    \<and> (rtos_task_create (call_cmd num) \<longleftrightarrow> ucast num \<in> {0x00, 0x06, 0x07 :: byte})
    \<and> (request (call_cmd num) \<longleftrightarrow> ucast num \<notin> {0x00, 0x06, 0x07, 0x13, 0x24, 0x32, 0x34 :: byte})"
proof -
  let ?b = "ucast num :: byte"
  define m where "m = unat ?b mod 16"
  have b: "unat ?b = 16 * (unat ?b div 16) + m" and m: "m < 16" by (simp_all add: m_def)
  have eq: "?b = n \<longleftrightarrow> unat ?b = unat n" for n :: byte by (simp add: word_unat_eq_iff)
  note c = call_cmd_cases [OF assms] m_def [symmetric]
  note facts = c cmd_fields request_def sure_cmd_def unknown_def Let_def eq cmd_wfs
  from assms show ?thesis
  proof (cases rule: rtos_calls)
    case thread
    then have "unat ?b = m" "m \<in> {0, 2, 6, 7}" using b by (simp_all add: m_def)
    with thread(1) show ?thesis by (auto simp: facts)
  next
    case mutex
    then have "unat ?b = 16 + m" "m < 5" using b by (simp_all add: m_def)
    with mutex(1) m show ?thesis by (auto simp: facts)
  next
    case sem
    then have "unat ?b = 32 + m" "m < 7" "(32 + m) mod 16 = m" using b m by (simp_all add: m_def)
    with sem(1) show ?thesis by (auto simp: facts)
  next
    case msgq
    then have "unat ?b = 48 + m" "m < 6" "(48 + m) mod 16 = m" using b m by (simp_all add: m_def)
    with msgq(1) show ?thesis by (auto simp: facts)
  qed
qed

text \<open>So the calls that certainly return, and leave a machine on which this can be said again.\<close>

definition sure_call :: "u32 \<Rightarrow> bool" where
  "sure_call num \<longleftrightarrow> \<not> needs_rtos num \<or> request (call_cmd num)"

theorem sure_call_returns:
  assumes "calm w" "rtos_free (soc_rtos w)" and "sure_call num"
  shows "\<exists>r w'. soc_syscall E num args w = Some (r, w') \<and> calm w' \<and> rtos_free (soc_rtos w')"
  using assms local_call_returns request_returns by (cases "needs_rtos num") (auto simp: sure_call_def)

text \<open>Together: before a task has been made exactly three calls hang, the post of a semaphore apart.\<close>

theorem rtos_calls_end:
  assumes w: "calm w" "rtos_free (soc_rtos w)" and num: "needs_rtos num" "ucast num \<noteq> (0x24 :: byte)"
  shows "soc_syscall E num args w = None \<longleftrightarrow> ucast num \<in> {0x13, 0x32, 0x34 :: byte}"
proof -
  note n = call_numbers [OF num(1)]
  consider "unknown (call_cmd num)" | "rtos_task_create (call_cmd num)" | "request (call_cmd num)"
    using n num(2) by blast
  then show ?thesis
  proof cases
    case 1
    then show ?thesis using unknown_hangs [OF w num(1)] n by simp
  next
    case 2
    then have "soc_syscall E num args w \<noteq> None" using create_returns_one [OF w num(1)] by fastforce
    then show ?thesis using 2 n by auto
  next
    case 3
    then have "soc_syscall E num args w \<noteq> None" using request_returns [OF w num(1)] by fastforce
    then show ?thesis using 3 n by auto
  qed
qed

theorem post_ends:
  assumes "calm w" "settled (soc_rtos w)"
  shows "soc_syscall E SYS_SEM_POST (a # args) w = None \<longleftrightarrow> sem_full (sems (sem_u (soc_rtos w)) ! (unat a mod 8))"
  using post_hangs [OF assms] post_returns [OF assms] by blast

section \<open>The states the SoC reaches\<close>

lemma powered_reached: "powered E w \<Longrightarrow> reached (soc_posix w) (soc_rtos w)"
proof (induction rule: powered.induct)
  case (reset ks)
  then show ?case using reached.start by (simp add: soc_reset_def)
next
  case (clock w q c)
  from reached.clock [OF clock.IH, of "pair_input E c w"] show ?case by (simp only: soc_pair [of E q c w, symmetric] fst_conv snd_conv)
qed

lemma powered_rtos_wf: "powered E w \<Longrightarrow> rtos_wf (soc_rtos w)"
  by (rule reached_wf [OF powered_reached])

lemma soc_reset_free: "rtos_free (soc_rtos (soc_reset ks))"
  by (simp add: soc_reset_def rtos_free_reset)

lemma soc_reset_settled: "settled (soc_rtos (soc_reset ks))"
  using soc_reset_free [of ks]
  by (simp add: settled_iff) (simp add: soc_reset_def settle_left_def no_answer_def rtos_reset_def)

lemma soc_reset_full: "j < NUM_SEMS \<Longrightarrow> sem_full (sems (sem_u (soc_rtos (soc_reset ks))) ! j)"
  by (simp add: soc_reset_def rtos_reset_def sem_reset_def sem_full_def)

end
