(* ===== verification/Soc_Multitask.thy ===== *)
theory Soc_Multitask
  imports Soc_Files Examples Soc_Rtos
begin

text \<open>
  sw/examples/multitask.c on the SoC, from a machine without tasks: the first creation returns 1, which
  the program takes as a failure. Its calls run through the POSIX layer and the hardware RTOS of the
  model; nothing is assumed of the answers.
\<close>

section \<open>The calls of the program\<close>

text \<open>A machine on which the program may make a call, and no task has been made.\<close>

definition taskfree :: "soc \<Rightarrow> bool" where
  "taskfree w \<longleftrightarrow> calm w \<and> rtos_free (soc_rtos w)"

text \<open>A call that returns whenever \<open>K\<close> holds, and keeps it.\<close>

definition keeps :: "env \<Rightarrow> u32 \<Rightarrow> (soc \<Rightarrow> bool) \<Rightarrow> bool" where
  "keeps E num K \<longleftrightarrow> (\<forall>w args. K w \<longrightarrow> (\<exists>r w'. soc_syscall E num args w = Some (r, w') \<and> K w'))"

lemma keeps_taskfree: "sure_call num \<Longrightarrow> keeps E num taskfree"
  using sure_call_returns by (fastforce simp: keeps_def taskfree_def)

lemma keeps_calm: "\<not> needs_rtos num \<Longrightarrow> keeps E num calm"
  unfolding keeps_def
proof (intro allI impI)
  fix w args assume "\<not> needs_rtos num" "calm w"
  moreover from this obtain r w' where "soc_syscall E num args w = Some (r, w')"
    using call_returns by (fastforce simp: calm_def)
  ultimately show "\<exists>r w'. soc_syscall E num args w = Some (r, w') \<and> calm w'" using call_keeps_calm by blast
qed

lemma ecall_keeps:
  assumes "keeps E num K" and "K (hw s)"
  shows "returns (\<lambda>(r, s'). K (hw s')) (ecall (soc_platform E) num args s)"
proof -
  obtain r w' where "soc_syscall E num args (hw s) = Some (r, w')" "K w'" using assms unfolding keeps_def by blast
  then show ?thesis by (simp add: ecall_def soc_platform_def)
qed

lemma program_calls:
  "\<not> needs_rtos SYS_OPEN" "\<not> needs_rtos SYS_WRITE" "needs_rtos SYS_SEM_INIT" "request (call_cmd SYS_SEM_INIT)"
  "needs_rtos SYS_PTHREAD_CREATE" "rtos_task_create (call_cmd SYS_PTHREAD_CREATE)"
proof -
  show "\<not> needs_rtos SYS_OPEN" "\<not> needs_rtos SYS_WRITE" "needs_rtos SYS_SEM_INIT" "needs_rtos SYS_PTHREAD_CREATE"
    by (simp_all add: needs_rtos_def waits_for_rtos_def call_state_def decode_state_def syscall_category_def posix_defs)
  have cmd: "call_cmd SYS_SEM_INIT = sem_cmd (posix_reset\<lparr>state_r := S_SEM_OP, latched_syscall_num := ucast SYS_SEM_INIT\<rparr>)"
    "call_cmd SYS_PTHREAD_CREATE
      = thread_cmd (posix_reset\<lparr>state_r := S_THREAD_OP, latched_syscall_num := ucast SYS_PTHREAD_CREATE\<rparr>)"
    by (simp_all add: call_cmd_def call_state_def decode_state_def syscall_category_def rtos_out_def posix_defs)
  show "request (call_cmd SYS_SEM_INIT)"
    using call_cmd_wf [of SYS_SEM_INIT] unfolding cmd request_def sure_cmd_def by (simp add: cmd_fields posix_defs)
  show "rtos_task_create (call_cmd SYS_PTHREAD_CREATE)" unfolding cmd by (simp add: cmd_fields posix_defs)
qed

lemma write_loop_keeps:
  assumes K: "keeps E SYS_WRITE K" and "K (hw s)" and "unat count \<le> length p" and "i \<le> count"
  shows "returns (\<lambda>(r, s'). K (hw s')) (write_loop (soc_platform E) fd p count i s)"
  using assms(2-4)
proof (induction "unat count - unat i" arbitrary: i s)
  case 0
  then have "i = count" by (simp add: word_le_nat_alt word_unat_eq_iff)
  with 0 show ?case by (simp add: write_loop.simps)
next
  case (Suc n)
  then have i: "i < count" "unat i < length p" by (simp_all add: word_less_nat_alt)
  note n = unat_less_Suc_word [OF i(1)]
  have le: "i + 1 \<le> count" "n = unat count - unat (i + 1)"
    using i(1) n Suc.hyps(2) by (simp_all add: word_less_nat_alt word_le_nat_alt)
  obtain r s1 where s1: "syscall3 (soc_platform E) SYS_WRITE fd (ucast (p ! unat i)) 1 s = Some (r, s1)" "K (hw s1)"
    using ecall_keeps [OF K Suc.prems(1), of "[fd, ucast (p ! unat i), 1]"] by (auto simp: syscall3_def elim!: returnsE)
  show ?case
    using Suc.hyps(1) [OF le(2) s1(2) Suc.prems(2) le(1)] i s1
    by (auto simp: write_loop.simps [of _ _ _ _ i] elim!: returns_mono)
qed

lemma puts_keeps:
  assumes "keeps E SYS_WRITE K" and "K (hw s)" and "0 \<notin> set bs"
  shows "returns (\<lambda>s'. K (hw s')) (uart_puts (soc_platform E) fd (lit bs) s)"
proof -
  have "unat (of_nat (length bs) :: u32) \<le> length bs" by (simp add: unat_of_nat)
  then have "unat (of_nat (length bs) :: u32) \<le> length (lit bs)" by (simp add: lit_def)
  from write_loop_keeps [OF assms(1,2) this, of 0 fd] show ?thesis
    using strlen_simple_eq [OF c_string_lit [OF assms(3)]]
    by (auto simp: uart_puts_def posix_write_def elim!: returnsE)
qed

section \<open>multitask.c\<close>

lemma create_one:
  assumes "taskfree (hw s)"
  shows "returns (\<lambda>(r, s'). calm (hw s') \<and> r = 1 \<and> trace s' = trace s @ [Ecall SYS_PTHREAD_CREATE [thread, attr, start, x] 1])
    (pthread_create (soc_platform E) thread attr start x s)"
  using create_returns_one [OF _ _ program_calls(5,6), of "hw s" E "[thread, attr, start, x]"] assms
  by (auto simp: taskfree_def pthread_create_def syscall4_def ecall_def soc_platform_def)

lemma multitask_stops:
  assumes w: "serving (hw s)" "lowest_free (soc_table (hw s)) \<noteq> None" "rtos_free (soc_rtos (hw s))"
  shows "returns (\<lambda>(r, s'). r = -1 \<and> Ecall SYS_PTHREAD_CREATE [addr_task1 obj, 0, task1_entry obj, 0] 1 \<in> set (trace s'))
    (multitask_main (soc_platform E) obj s)"
proof -
  note wr = keeps_taskfree [of SYS_WRITE E] keeps_calm [OF program_calls(2), of E]
  have sure: "sure_call SYS_OPEN" "sure_call SYS_WRITE" "sure_call SYS_SEM_INIT" using program_calls by (simp_all add: sure_call_def)
  have free: "taskfree (hw s)" using w by (simp add: taskfree_def calm_def serving_def)
  obtain i where i: "lowest_free (soc_table (hw s)) = Some i" using w(2) by blast
  have dev: "FD_TYPE_UART AND 7 = FD_TYPE_UART" "FD_TYPE_UART \<le> 4" by (simp_all add: posix_defs)
  note spec = open_close_spec [OF i, of FD_TYPE_UART, unfolded dev(1), OF dev(2)]
  have "i < 16" using lowest_free_SomeD [OF i] by (simp add: MAX_FD_def)
  note n = small_descriptor [OF this]
  let ?fd = "of_nat i :: u32"
  have "returns (\<lambda>(r, s'). taskfree (hw s')) (posix_open (soc_platform E) FD_TYPE_UART 0 s)"
    using ecall_keeps [OF keeps_taskfree [OF sure(1)] free] by (simp add: posix_open_def syscall2_def)
  then obtain s1 where s1: "posix_open (soc_platform E) FD_TYPE_UART 0 s = Some (?fd, s1)" "taskfree (hw s1)"
    using open_refines [OF w(1), of FD_TYPE_UART 0 E] spec by (auto simp: sys_returns_def elim!: returnsE)
  obtain s2 where s2: "uart_puts (soc_platform E) ?fd (lit (ascii ''Main: VSync Multitask Demo'' @ [10])) s1 = Some s2"
    "taskfree (hw s2)"
    using puts_keeps [OF wr(1) [OF sure(2)] s1(2), of "ascii ''Main: VSync Multitask Demo'' @ [10]" ?fd]
    by (auto simp: ascii_def elim!: returnsE)
  obtain q s3 where s3: "sem_init (soc_platform E) (addr_sync_sem obj) 0 0 s2 = Some (q, s3)" "taskfree (hw s3)"
    using ecall_keeps [OF keeps_taskfree [OF sure(3)] s2(2)] by (fastforce simp: sem_init_def syscall3_def elim!: returnsE)
  obtain s4 where s4: "pthread_create (soc_platform E) (addr_task1 obj) 0 (task1_entry obj) 0 s3 = Some (1, s4)" "calm (hw s4)"
    and tr: "Ecall SYS_PTHREAD_CREATE [addr_task1 obj, 0, task1_entry obj, 0] 1 \<in> set (trace s4)"
    using create_one [OF s3(2), of "addr_task1 obj" 0 "task1_entry obj" 0] by (fastforce elim!: returnsE)
  obtain s5 where s5: "uart_puts (soc_platform E) ?fd (lit (ascii ''Main: Failed to create Task1'' @ [10])) s4 = Some s5"
    using puts_keeps [OF wr(2) s4(2), of "ascii ''Main: Failed to create Task1'' @ [10]" ?fd]
    by (auto simp: ascii_def elim!: returnsE)
  have "set (trace s4) \<subseteq> set (trace s5)"
    using s5 by (auto simp: uart_puts_def Option.bind_eq_Some_conv dest!: posix_write_trace)
  with s1(1) s2(1) s3(1) s4(1) s5 tr n(2) show ?thesis
    by (auto simp: multitask_main_def)
qed

section \<open>One machine\<close>

definition demo_objects :: multitask_objects where
  "demo_objects = \<lparr>addr_sync_sem = 0x10000, addr_task1 = 0x10004, addr_task2 = 0x10008, addr_delay = 0x1000C,
     task1 = 0, task2 = 0, task1_entry = 0x100, task2_entry = 0x200\<rparr>"

end
