(* ===== verification/Uart_Line.thy ===== *)
theory Uart_Line
  imports Uart_Apb
begin

text \<open>
  The serial line: what the transmitter of rtl/peripherals/uart_apb.sv puts on \<open>uart_tx\<close> while no
  register is written. A byte becomes a frame of ten bits, each held for \<open>baud_div_r\<close> clocks.
\<close>

text \<open>The UART over a number of clocks without an APB access, with what the receiver completes.\<close>

definition uart_run :: "byte option list \<Rightarrow> uart \<Rightarrow> uart" where
  "uart_run rxs u = fold (uart_step apb_none) rxs u"

lemma uart_run_simps [simp]:
  "uart_run [] u = u" "uart_run (rx # rxs) u = uart_run rxs (uart_step apb_none rx u)"
  "uart_run (rxs @ [rx]) u = uart_step apb_none rx (uart_run rxs u)"
  by (simp_all add: uart_run_def)

lemma uart_run_append: "uart_run (rxs @ rxs') u = uart_run rxs' (uart_run rxs u)"
  by (simp add: uart_run_def)

text \<open>A frame: start bit, the bits of the byte from the lowest on, stop bit.\<close>

definition frame :: "byte \<Rightarrow> bool list" where
  "frame b = False # map (bit b) [0..<8] @ [True]"

definition bit_time :: "uart \<Rightarrow> nat" where
  "bit_time u = unat (baud_div_r u)"

text \<open>\<open>sending st c b u\<close>: the transmitter is in the state \<open>st\<close>, \<open>c\<close> clocks into it, with the byte \<open>b\<close>.\<close>

definition sending :: "tx_state_t \<Rightarrow> nat \<Rightarrow> byte \<Rightarrow> uart \<Rightarrow> bool" where
  "sending st c b u \<longleftrightarrow> tx_state u = st \<and> st \<noteq> TX_IDLE \<and> unat (tx_baud_cnt u) = c \<and> tx_shift_reg u = b
     \<and> c < bit_time u"

lemma bit_time_step [simp]: "bit_time (uart_step apb_none rx u) = bit_time u"
  by (simp add: bit_time_def uart_step_quiet)

lemma last_count:
  assumes "sending st c b u"
  shows "unat (baud_div_r u - 1) = bit_time u - 1"
    and "tx_baud_cnt u = baud_div_r u - 1 \<longleftrightarrow> c = bit_time u - 1"
    and "tx_baud_cnt u \<ge> baud_div_r u - 1 \<longleftrightarrow> c = bit_time u - 1"
proof -
  have "baud_div_r u \<noteq> 0" using assms by (auto simp: sending_def bit_time_def)
  then show n: "unat (baud_div_r u - 1) = bit_time u - 1"
    by (simp add: bit_time_def unat_minus_one)
  show "tx_baud_cnt u = baud_div_r u - 1 \<longleftrightarrow> c = bit_time u - 1"
    using assms by (simp add: word_unat_eq_iff n sending_def)
  show "tx_baud_cnt u \<ge> baud_div_r u - 1 \<longleftrightarrow> c = bit_time u - 1"
    using assms by (auto simp: word_le_nat_alt n sending_def)
qed

text \<open>One clock: the count goes up, and at its end the state moves on.\<close>

lemma sending_step:
  assumes "sending st c b u"
  shows "Suc c < bit_time u \<Longrightarrow> sending st (Suc c) b (uart_step apb_none rx u)"
    and "Suc c = bit_time u \<Longrightarrow> st \<noteq> TX_STOP \<Longrightarrow> sending (tx_after_tick st) 0 b (uart_step apb_none rx u)"
    and "Suc c = bit_time u \<Longrightarrow> st = TX_STOP \<Longrightarrow> tx_state (uart_step apb_none rx u) = TX_IDLE"
    and "uart_tx (uart_step apb_none rx u) = tx_line st b"
proof -
  note l = last_count [OF assms]
  have st: "tx_state u = st" "st \<noteq> TX_IDLE" "unat (tx_baud_cnt u) = c" "tx_shift_reg u = b" "c < bit_time u"
    using assms by (simp_all add: sending_def)
  have np: "\<not> tx_fifo_pop u" using st by (simp add: tx_fifo_pop_def)
  note step = uart_step_def Let_def tx_state_next_def tx_baud_tick_def tx_baud_next_def np st(1,2,4)
  { assume c: "Suc c < bit_time u"
    then have "c \<noteq> bit_time u - 1" by simp
    then have "tx_baud_cnt u < baud_div_r u - 1" using l(3) by (simp only: not_le [symmetric] simp_thms)
    then have "unat (tx_baud_cnt u + 1) = Suc c" using st(3) by (simp add: unat_less_Suc_word)
    then show "sending st (Suc c) b (uart_step apb_none rx u)"
      using c l st(2) by (simp add: sending_def bit_time_def step) }
  { assume c: "Suc c = bit_time u" and "st \<noteq> TX_STOP"
    then have "tx_after_tick st \<noteq> TX_IDLE" using st(2) by (cases st) simp_all
    moreover from c have e: "tx_baud_cnt u = baud_div_r u - 1" using l(2) by simp
    ultimately show "sending (tx_after_tick st) 0 b (uart_step apb_none rx u)"
      using c st(2) by (simp add: sending_def bit_time_def step e) }
  { assume "Suc c = bit_time u" and "st = TX_STOP"
    moreover from this have e: "tx_baud_cnt u = baud_div_r u - 1" using l(2) by simp
    ultimately show "tx_state (uart_step apb_none rx u) = TX_IDLE" using st by (simp add: step e) }
  show "uart_tx (uart_step apb_none rx u) = tx_line st b" by (simp add: step)
qed

text \<open>The \<open>k\<close>-th state of a frame.\<close>

definition frame_state :: "nat \<Rightarrow> tx_state_t" where
  "frame_state k = (tx_after_tick ^^ k) TX_START"

lemma frame_states:
  "map frame_state [0..<10] = [TX_START, TX_DATA0, TX_DATA1, TX_DATA2, TX_DATA3, TX_DATA4, TX_DATA5,
     TX_DATA6, TX_DATA7, TX_STOP]"
  by (simp add: frame_state_def upt_rec numeral_eq_Suc)

lemma frame_state_nth:
  assumes "k < 10"
  shows "frame_state k = [TX_START, TX_DATA0, TX_DATA1, TX_DATA2, TX_DATA3, TX_DATA4, TX_DATA5,
     TX_DATA6, TX_DATA7, TX_STOP] ! k"
proof -
  have "frame_state k = map frame_state [0..<10] ! k" using assms by simp
  then show ?thesis by (simp only: frame_states)
qed

lemma frame_line: "map (\<lambda>k. tx_line (frame_state k) b) [0..<10] = frame b"
proof -
  have "map (\<lambda>k. tx_line (frame_state k) b) [0..<10] = map (\<lambda>st. tx_line st b) (map frame_state [0..<10])"
    by simp
  moreover have "[0..<8] = [0, 1, 2, 3, 4, 5, 6, 7 :: nat]" by (simp add: upt_rec)
  ultimately show ?thesis by (simp only: frame_states frame_def list.map tx_line.simps append.simps)
qed

lemma frame_nth: "k < 10 \<Longrightarrow> tx_line (frame_state k) b = frame b ! k"
  by (simp add: frame_line [symmetric])

lemma frame_state_cases: "k < 10 \<Longrightarrow> frame_state k \<noteq> TX_IDLE" "k < 9 \<Longrightarrow> frame_state k \<noteq> TX_STOP"
proof -
  have "k < 10 \<longrightarrow> frame_state k \<noteq> TX_IDLE" and "k < 9 \<longrightarrow> frame_state k \<noteq> TX_STOP"
    by (auto simp: frame_state_nth nth_Cons split: nat.splits)
  then show "k < 10 \<Longrightarrow> frame_state k \<noteq> TX_IDLE" "k < 9 \<Longrightarrow> frame_state k \<noteq> TX_STOP" by simp_all
qed

text \<open>After \<open>n\<close> clocks of a frame, the transmitter is \<open>n mod B\<close> clocks into its \<open>n div B\<close>-th bit.\<close>

lemma frame_progress:
  assumes "sending TX_START 0 b u" and "length rxs < 10 * bit_time u"
  shows "sending (frame_state (length rxs div bit_time u)) (length rxs mod bit_time u) b (uart_run rxs u)
    \<and> bit_time (uart_run rxs u) = bit_time u"
  using assms(2)
proof (induction rxs rule: rev_induct)
  case Nil
  then show ?case using assms(1) by (simp add: frame_state_def)
next
  case (snoc rx rxs)
  let ?B = "bit_time u" and ?n = "length rxs" and ?v = "uart_run rxs u"
  have s: "sending (frame_state (?n div ?B)) (?n mod ?B) b ?v" and B: "bit_time ?v = ?B"
    using snoc by simp_all
  have k: "Suc ?n < 10 * ?B" using snoc.prems by simp
  note step = sending_step [OF s, of rx, unfolded B]
  show ?case
  proof (cases "Suc (?n mod ?B) = ?B")
    case True
    then have d: "Suc ?n mod ?B = 0" "Suc ?n div ?B = Suc (?n div ?B)"
      by (simp_all add: mod_Suc div_Suc)
    then have "Suc (?n div ?B) < 10" using k by (metis div_less_iff_less_mult mult.commute
        mult_0 less_nat_zero_code not_gr_zero mult_zero_right)
    then have "frame_state (?n div ?B) \<noteq> TX_STOP" using frame_state_cases(2) by simp
    with step(2) True d B show ?thesis by (simp add: frame_state_def)
  next
    case False
    then have d: "Suc ?n mod ?B = Suc (?n mod ?B)" "Suc ?n div ?B = ?n div ?B"
      by (simp_all add: mod_Suc div_Suc)
    have "0 < ?B" using k by (cases ?B) simp_all
    then have "Suc (?n mod ?B) < ?B" using False mod_less_divisor [of ?B ?n] by linarith
    with step(1) d B show ?thesis by simp
  qed
qed

theorem frame_on_line:
  assumes "sending TX_START 0 b u" and "length rxs = Suc n" and "n < 10 * bit_time u"
  shows "uart_tx (uart_run rxs u) = frame b ! (n div bit_time u)"
proof -
  obtain rxs' rx where rxs: "rxs = rxs' @ [rx]" "length rxs' = n"
    using assms(2) by (cases rxs rule: rev_cases) auto
  have "sending (frame_state (n div bit_time u)) (n mod bit_time u) b (uart_run rxs' u)"
    using frame_progress [OF assms(1)] rxs(2) assms(3) by blast
  moreover have "n div bit_time u < 10"
    using assms(3) by (metis div_less_iff_less_mult mult_zero_right not_gr_zero not_less_zero)
  ultimately show ?thesis using sending_step(4) frame_nth rxs(1) by simp
qed

text \<open>After the stop bit the transmitter is idle again, ready for the next byte of the FIFO.\<close>

theorem frame_ends:
  assumes "sending TX_START 0 b u" and "length rxs = 10 * bit_time u"
  shows "tx_state (uart_run rxs u) = TX_IDLE"
proof -
  have B: "0 < bit_time u" using assms(1) by (simp add: sending_def)
  obtain m where m: "10 * bit_time u = Suc m" "m = 9 * bit_time u + (bit_time u - 1)" using B by (cases "bit_time u") auto
  obtain rxs' rx where rxs: "rxs = rxs' @ [rx]" "length rxs' = m"
    using assms(2) m(1) by (cases rxs rule: rev_cases) auto
  have d: "m div bit_time u = 9" "m mod bit_time u = bit_time u - 1"
  proof -
    show d: "m div bit_time u = 9" using B m(2) by (intro div_nat_eqI) simp_all
    have "(9 * bit_time u + r) mod bit_time u = r mod bit_time u" for r by simp
    from this [of "bit_time u - 1"] show "m mod bit_time u = bit_time u - 1"
      unfolding m(2) using B by (simp only: mod_less diff_less zero_less_one)
  qed
  have st: "frame_state 9 = TX_STOP" by (simp add: frame_state_nth)
  have "length rxs' < 10 * bit_time u" using rxs(2) m(1) by simp
  from frame_progress [OF assms(1) this]
  have "sending TX_STOP (bit_time u - 1) b (uart_run rxs' u)" "bit_time (uart_run rxs' u) = bit_time u"
    by (simp_all only: rxs(2) d st)
  with sending_step(3) [OF this(1), of rx] B rxs(1) show ?thesis by simp
qed

text \<open>The idle transmitter starts the frame of the first waiting byte.\<close>

theorem frame_starts:
  assumes "uart_wf u" and "tx_state u = TX_IDLE" and "ctrl_tx_en u" and "fifo_items (tx_ring u) = b # bs"
    and "0 < bit_time u"
  shows "sending TX_START 0 b (uart_step apb_none rx u)"
    and "fifo_items (tx_ring (uart_step apb_none rx u)) = bs"
proof -
  have wf: "fifo_wf (tx_ring u)" using assms(1) by (simp add: uart_wf_def)
  have pop: "tx_fifo_pop u" using assms ring.empty_iff [OF wf] by (simp add: tx_fifo_pop_def)
  show "sending TX_START 0 b (uart_step apb_none rx u)"
    using assms pop ring.items_front [OF wf]
    by (simp add: sending_def bit_time_def uart_step_def Let_def tx_state_next_def tx_baud_next_def)
  show "fifo_items (tx_ring (uart_step apb_none rx u)) = bs"
    using assms(4) pop ring.items_pop [OF wf] by (simp add: uart_step_def Let_def tx_fifo_push_def)
qed

end
