(* ===== verification/Uart_Rx.thy ===== *)
theory Uart_Rx
  imports Uart_Line
begin

text \<open>
  The receiver of rtl/peripherals/uart_apb.sv at the level of clock edges: the input synchroniser, the
  fractional divider for sixteen ticks a bit, the sample counter and the state machine. The
  theorems say at which clock each bit is sampled, that a frame at the nominal bit time is
  received, and that a frame whose bits are one clock longer is not.
\<close>

section \<open>The receiver\<close>

datatype rx_state_t = RX_IDLE | RX_START_DET | RX_SAMPLE nat | RX_STOP_CHECK

text \<open>\<open>RX_SAMPLE k\<close> stands for the eight states \<open>RX_SAMPLE0\<close> to \<open>RX_SAMPLE7\<close>.\<close>

record receiver =
  rx_state :: rx_state_t
  rx_baud_cnt :: nat
  rx_frac_acc :: nat
  rx_sample_cnt :: nat
  rx_shift_reg :: byte
  uart_rx_sync1 :: bool
  uart_rx_sync2 :: bool

definition rx_reset :: receiver where
  "rx_reset = \<lparr>rx_state = RX_IDLE, rx_baud_cnt = 0, rx_frac_acc = 0, rx_sample_cnt = 0, rx_shift_reg = 0,
     uart_rx_sync1 = True, uart_rx_sync2 = True\<rparr>"

text \<open>
  The divider: \<open>d\<close> is the divisor register, its low four bits are sixteenths of a clock per tick.
\<close>

definition rx_frac_sum :: "nat \<Rightarrow> receiver \<Rightarrow> nat" where
  "rx_frac_sum d r = rx_frac_acc r + d mod 16"

definition rx_tick_limit :: "nat \<Rightarrow> receiver \<Rightarrow> nat" where
  "rx_tick_limit d r = (if rx_frac_sum d r \<ge> 16 then d div 16 else (d div 16 + (2 ^ 32 - 1)) mod 2 ^ 32)"

definition rx_baud_tick :: "nat \<Rightarrow> receiver \<Rightarrow> bool" where
  "rx_baud_tick d r \<longleftrightarrow> rx_state r \<noteq> RX_IDLE \<and> rx_baud_cnt r = rx_tick_limit d r"

definition rx_mid_sample :: "nat \<Rightarrow> receiver \<Rightarrow> bool" where
  "rx_mid_sample d r \<longleftrightarrow> rx_baud_tick d r \<and> rx_sample_cnt r = 7"

definition rx_bit_done :: "nat \<Rightarrow> receiver \<Rightarrow> bool" where
  "rx_bit_done d r \<longleftrightarrow> rx_baud_tick d r \<and> rx_sample_cnt r = 15"

definition rx_state_next :: "nat \<Rightarrow> bool \<Rightarrow> receiver \<Rightarrow> rx_state_t" where
  "rx_state_next d en r = (case rx_state r of
       RX_IDLE \<Rightarrow> if \<not> uart_rx_sync2 r \<and> en then RX_START_DET else RX_IDLE
     | RX_START_DET \<Rightarrow>
         if rx_mid_sample d r then (if \<not> uart_rx_sync2 r then RX_SAMPLE 0 else RX_IDLE) else RX_START_DET
     | RX_SAMPLE k \<Rightarrow>
         if rx_bit_done d r then (if k < 7 then RX_SAMPLE (k + 1) else RX_STOP_CHECK) else RX_SAMPLE k
     | RX_STOP_CHECK \<Rightarrow> if rx_mid_sample d r then RX_IDLE else RX_STOP_CHECK)"

text \<open>The byte pushed into the receive FIFO at this clock.\<close>

definition rx_done :: "nat \<Rightarrow> receiver \<Rightarrow> byte option" where
  "rx_done d r = (if rx_state r = RX_STOP_CHECK \<and> rx_mid_sample d r then Some (rx_shift_reg r) else None)"

definition rx_step :: "nat \<Rightarrow> bool \<Rightarrow> bool \<Rightarrow> receiver \<Rightarrow> receiver" where
  "rx_step d en pin r =
     \<lparr>rx_state = rx_state_next d en r,
      rx_baud_cnt =
        (if rx_state r = RX_IDLE then 0
         else if rx_baud_cnt r \<ge> rx_tick_limit d r then 0 else (rx_baud_cnt r + 1) mod 2 ^ 32),
      rx_frac_acc =
        (if rx_state r = RX_IDLE then 0
         else if rx_baud_cnt r \<ge> rx_tick_limit d r then rx_frac_sum d r mod 16 else rx_frac_acc r),
      rx_sample_cnt =
        (if rx_state r = RX_IDLE then 0
         else if rx_state r = RX_START_DET \<and> rx_mid_sample d r \<and> \<not> uart_rx_sync2 r then 0
         else if rx_baud_tick d r then (rx_sample_cnt r + 1) mod 16 else rx_sample_cnt r),
      rx_shift_reg =
        (case rx_state r of
           RX_SAMPLE k \<Rightarrow>
             if rx_mid_sample d r then
               (if uart_rx_sync2 r then set_bit k (rx_shift_reg r) else unset_bit k (rx_shift_reg r))
             else rx_shift_reg r
         | _ \<Rightarrow> rx_shift_reg r),
      uart_rx_sync1 = pin,
      uart_rx_sync2 = uart_rx_sync1 r\<rparr>"

section \<open>The ticks\<close>

text \<open>The clock at which the \<open>n\<close>-th tick ends: the divider never drifts.\<close>

definition tick_end :: "nat \<Rightarrow> nat \<Rightarrow> nat" where
  "tick_end d n = n * d div 16"

lemma tick_end_Suc: "tick_end d (Suc n) = tick_end d n + d div 16 + (if n * d mod 16 + d mod 16 \<ge> 16 then 1 else 0)"
proof -
  have s: "(n * d mod 16 + d mod 16) div 16 = (if n * d mod 16 + d mod 16 \<ge> 16 then 1 else 0)"
    using mod_less_divisor [of 16 d] mod_less_divisor [of 16 "n * d"] by (auto intro: div_nat_eqI)
  have "tick_end d (Suc n) = (n * d + d) div 16" by (simp add: tick_end_def add.commute)
  also have "\<dots> = n * d div 16 + d div 16 + (n * d mod 16 + d mod 16) div 16" by (rule div_add1_eq)
  finally show ?thesis by (simp add: s tick_end_def)
qed

lemma tick_end_bit [simp]: "tick_end d (16 * k) = k * d"
  by (simp add: tick_end_def mult.assoc)

text \<open>
  \<open>at_tick d t n r\<close>: \<open>t\<close> clocks after the start bit was noticed, \<open>n\<close> ticks have ended.
\<close>

definition at_tick :: "nat \<Rightarrow> nat \<Rightarrow> nat \<Rightarrow> receiver \<Rightarrow> bool" where
  "at_tick d t n r \<longleftrightarrow> tick_end d n \<le> t \<and> t < tick_end d (Suc n) \<and> rx_baud_cnt r = t - tick_end d n
     \<and> rx_frac_acc r = n * d mod 16"

definition divisor_ok :: "nat \<Rightarrow> bool" where
  "divisor_ok d \<longleftrightarrow> 16 \<le> d \<and> d < 2 ^ 32"

lemma limit_at:
  assumes "at_tick d t n r" and "divisor_ok d"
  shows "rx_tick_limit d r = tick_end d (Suc n) - tick_end d n - 1"
proof -
  have "0 < d div 16" "d div 16 < 2 ^ 28" using assms(2) by (auto simp: divisor_ok_def div_less_iff_less_mult)
  then have "(d div 16 + (2 ^ 32 - 1)) mod 2 ^ 32 = d div 16 - 1"
    by (simp add: mod_if)
  then show ?thesis using assms(1) by (simp add: rx_tick_limit_def rx_frac_sum_def at_tick_def tick_end_Suc)
qed

lemma tick_at:
  assumes "at_tick d t n r" and "divisor_ok d"
  shows "rx_baud_cnt r = rx_tick_limit d r \<longleftrightarrow> Suc t = tick_end d (Suc n)"
    and "rx_baud_cnt r \<ge> rx_tick_limit d r \<longleftrightarrow> Suc t = tick_end d (Suc n)"
  using assms(1) limit_at [OF assms] by (auto simp: at_tick_def)

lemma at_tick_step:
  assumes "at_tick d t n r" and "divisor_ok d" and "rx_state r \<noteq> RX_IDLE"
  shows "at_tick d (Suc t) (if Suc t = tick_end d (Suc n) then Suc n else n) (rx_step d en pin r)"
proof (cases "Suc t = tick_end d (Suc n)")
  case True
  have "tick_end d (Suc n) < tick_end d (Suc (Suc n))"
    using assms(2) by (subst (2) tick_end_Suc) (simp add: divisor_ok_def div_greater_zero_iff)
  moreover have "(n * d mod 16 + d mod 16) mod 16 = Suc n * d mod 16"
    by (simp add: mod_add_eq add.commute)
  ultimately show ?thesis
    using True assms(1,3) tick_at [OF assms(1,2)]
    by (simp add: at_tick_def rx_step_def rx_frac_sum_def)
next
  case False
  have "rx_tick_limit d r < 2 ^ 32" using assms(2)
    by (auto simp: rx_tick_limit_def divisor_ok_def div_less_iff_less_mult)
  moreover have "rx_baud_cnt r < rx_tick_limit d r" using False tick_at(2) [OF assms(1,2)] by (simp add: not_le)
  ultimately have "(rx_baud_cnt r + 1) mod 2 ^ 32 = rx_baud_cnt r + 1" by simp
  then show ?thesis
    using False assms(1,3) tick_at [OF assms(1,2)] by (auto simp: at_tick_def rx_step_def Suc_diff_le)
qed

section \<open>A frame on the line\<close>

text \<open>The state and the sample counter after \<open>n\<close> ticks.\<close>

definition state_at :: "nat \<Rightarrow> receiver \<Rightarrow> bool" where
  "state_at n r \<longleftrightarrow>
     (if n < 8 then rx_state r = RX_START_DET \<and> rx_sample_cnt r = n
      else if n < 136 then rx_state r = RX_SAMPLE ((n - 8) div 16) \<and> rx_sample_cnt r = (n - 8) mod 16
      else rx_state r = RX_STOP_CHECK \<and> rx_sample_cnt r = n - 136)"

definition bits_at :: "nat \<Rightarrow> (nat \<Rightarrow> bool) \<Rightarrow> nat \<Rightarrow> receiver \<Rightarrow> bool" where
  "bits_at d line n r \<longleftrightarrow> (\<forall>k < 8. 16 * (k + 1) \<le> n \<longrightarrow> bit (rx_shift_reg r) k = line ((k + 1) * d))"

definition receiving :: "nat \<Rightarrow> (nat \<Rightarrow> bool) \<Rightarrow> nat \<Rightarrow> nat \<Rightarrow> receiver \<Rightarrow> bool" where
  "receiving d line t n r \<longleftrightarrow> at_tick d t n r \<and> n < 144 \<and> state_at n r \<and> bits_at d line n r"

lemma state_no_tick:
  assumes "state_at n r" and "\<not> rx_baud_tick d r" and "n < 144"
  shows "state_at n (rx_step d en pin r)" and "rx_shift_reg (rx_step d en pin r) = rx_shift_reg r"
  using assms
  by (auto simp: state_at_def rx_step_def rx_state_next_def rx_mid_sample_def rx_bit_done_def
      split: if_split_asm rx_state_t.splits)

lemma sample_index:
  assumes "8 \<le> n" and "n < 136"
  shows "(n - 8) div 16 < 8"
    and "Suc n - 8 = Suc (n - 8)"
    and "(n - 8) mod 16 = 15 \<Longrightarrow> Suc (n - 8) div 16 = Suc ((n - 8) div 16) \<and> Suc (n - 8) mod 16 = 0
      \<and> (Suc n < 136 \<longleftrightarrow> (n - 8) div 16 < 7)"
    and "(n - 8) mod 16 \<noteq> 15 \<Longrightarrow> Suc (n - 8) div 16 = (n - 8) div 16 \<and> Suc (n - 8) mod 16 = Suc ((n - 8) mod 16)
      \<and> Suc n < 136"
proof -
  show "(n - 8) div 16 < 8" "Suc n - 8 = Suc (n - 8)" using assms by (simp_all add: div_less_iff_less_mult)
  define m where "m = n - 8"
  have m: "n = m + 8" "m < 128" using assms by (simp_all add: m_def)
  have e: "m = m div 16 * 16 + m mod 16" by simp
  { assume "(n - 8) mod 16 = 15"
    then show "Suc (n - 8) div 16 = Suc ((n - 8) div 16) \<and> Suc (n - 8) mod 16 = 0
      \<and> (Suc n < 136 \<longleftrightarrow> (n - 8) div 16 < 7)"
      using e m by (auto simp: div_Suc mod_Suc m) }
  { assume "(n - 8) mod 16 \<noteq> 15"
    moreover from this have "m \<noteq> 127" by (auto simp: m)
    ultimately show "Suc (n - 8) div 16 = (n - 8) div 16 \<and> Suc (n - 8) mod 16 = Suc ((n - 8) mod 16) \<and> Suc n < 136"
      using m by (simp add: div_Suc mod_Suc) }
qed

lemma state_tick:
  assumes "state_at n r" and "rx_baud_tick d r" and "Suc n < 144"
    and "n = 7 \<Longrightarrow> \<not> uart_rx_sync2 r"
  shows "state_at (Suc n) (rx_step d en pin r)"
proof -
  consider "n < 8" | "8 \<le> n" "n < 136" | "136 \<le> n" by linarith
  then show ?thesis
  proof cases
    case 1
    then show ?thesis
      using assms by (auto simp: state_at_def rx_step_def rx_state_next_def rx_mid_sample_def)
  next
    case 2
    note i = sample_index [OF 2]
    show ?thesis
      using assms(1,2) 2 i
      by (cases "(n - 8) mod 16 = 15")
        (auto simp: state_at_def rx_step_def rx_state_next_def rx_bit_done_def)
  next
    case 3
    then show ?thesis
      using assms by (auto simp: state_at_def rx_step_def rx_state_next_def rx_mid_sample_def)
  qed
qed

text \<open>Only the tick that ends the \<open>16 * (k + 1)\<close>-th period samples, and it samples the bit \<open>k\<close>.\<close>

lemma shift_tick:
  assumes "state_at n r" and "rx_baud_tick d r" and "n < 144" and "k < 8"
  shows "bit (rx_shift_reg (rx_step d en pin r)) k
    = (if Suc n = 16 * (k + 1) then uart_rx_sync2 r else bit (rx_shift_reg r) k)"
proof (cases "8 \<le> n \<and> n < 136")
  case True
  let ?j = "(n - 8) div 16"
  have st: "rx_state r = RX_SAMPLE ?j" "rx_sample_cnt r = (n - 8) mod 16" using assms(1) True by (auto simp: state_at_def)
  define q s where "q = ?j" and "s = (n - 8) mod 16"
  have "n - 8 = q * 16 + s" unfolding q_def s_def by (rule div_mult_mod_eq [symmetric])
  then have "n = q * 16 + s + 8" using True [THEN conjunct1] by linarith
  then have "s = 7 \<longleftrightarrow> Suc n = 16 * (q + 1)" by auto
  then have "(n - 8) mod 16 = 7 \<longleftrightarrow> Suc n = 16 * (?j + 1)" by (simp only: q_def s_def)
  then have mid: "rx_mid_sample d r \<longleftrightarrow> Suc n = 16 * (?j + 1)"
    using assms(2) st(2) by (simp add: rx_mid_sample_def)
  have "Suc n = 16 * (k + 1) \<Longrightarrow> k = ?j" using True by simp
  then show ?thesis
    using st(1) mid assms(4) by (auto simp: rx_step_def bit_set_bit_iff bit_unset_bit_iff)
next
  case False
  then have "rx_state r = RX_START_DET \<or> rx_state r = RX_STOP_CHECK" "Suc n \<noteq> 16 * (k + 1)"
    using assms by (auto simp: state_at_def split: if_split_asm)
  then show ?thesis by (auto simp: rx_step_def)
qed

lemma receiving_step:
  assumes r: "receiving d line t n r" and d: "divisor_ok d" and l: "uart_rx_sync2 r = line (Suc t)"
    and start: "\<not> line (d div 2)" and more: "Suc t < 9 * d"
  shows "\<exists>n'. receiving d line (Suc t) n' (rx_step d en pin r)"
proof -
  have a: "at_tick d t n r" "n < 144" "state_at n r" "bits_at d line n r" using r by (simp_all add: receiving_def)
  have busy: "rx_state r \<noteq> RX_IDLE" using a(2,3) by (auto simp: state_at_def split: if_split_asm)
  have tick: "rx_baud_tick d r \<longleftrightarrow> Suc t = tick_end d (Suc n)"
    using tick_at(1) [OF a(1) d] busy by (simp add: rx_baud_tick_def)
  note s = at_tick_step [OF a(1) d busy, of en pin]
  show ?thesis
  proof (cases "Suc t = tick_end d (Suc n)")
    case False
    then have nt: "\<not> rx_baud_tick d r" using tick by simp
    have "bits_at d line n (rx_step d en pin r)"
      using a(4) state_no_tick(2) [OF a(3) nt a(2)] by (simp add: bits_at_def)
    with s False a(2) state_no_tick(1) [OF a(3) nt a(2)] show ?thesis
      unfolding receiving_def by auto
  next
    case True
    then have tk: "rx_baud_tick d r" using tick by simp
    have n: "Suc n < 144"
    proof (rule ccontr)
      assume "\<not> Suc n < 144"
      then have "Suc n = 16 * 9" using a(2) by simp
      with True more show False by (simp only: tick_end_bit)
    qed
    have "\<not> uart_rx_sync2 r" if "n = 7"
    proof -
      have "tick_end d 8 = d div 2" by (simp add: tick_end_def)
      then show ?thesis using True that l start by simp
    qed
    note st = state_tick [OF a(3) tk n this]
    have "bits_at d line (Suc n) (rx_step d en pin r)"
      unfolding bits_at_def
    proof (intro allI impI)
      fix k :: nat assume k: "k < 8" "16 * (k + 1) \<le> Suc n"
      show "bit (rx_shift_reg (rx_step d en pin r)) k = line ((k + 1) * d)"
      proof (cases "Suc n = 16 * (k + 1)")
        case now: True
        have "Suc t = (k + 1) * d" using True unfolding now by (simp only: tick_end_bit)
        then show ?thesis using shift_tick [OF a(3) tk a(2) k(1)] now l by simp
      next
        case False
        then show ?thesis
          using shift_tick [OF a(3) tk a(2) k(1)] k a(4) by (simp add: bits_at_def)
      qed
    qed
    with s True n st show ?thesis unfolding receiving_def by auto
  qed
qed

section \<open>From the pin to the byte\<close>

definition rx_run :: "nat \<Rightarrow> bool list \<Rightarrow> receiver \<Rightarrow> receiver" where
  "rx_run d pins r = fold (rx_step d True) pins r"

lemma rx_run_simps [simp]:
  "rx_run d [] r = r" "rx_run d (pin # pins) r = rx_run d pins (rx_step d True pin r)" "rx_run d (pins @ [pin]) r = rx_step d True pin (rx_run d pins r)"
  by (simp_all add: rx_run_def)

text \<open>What the state machine sees of the pin, two clocks late.\<close>

definition seen :: "bool list \<Rightarrow> receiver \<Rightarrow> nat \<Rightarrow> bool" where
  "seen pins r t = ([uart_rx_sync2 r, uart_rx_sync1 r] @ pins) ! t"

lemma seen_append: "t < length pins + 2 \<Longrightarrow> seen (pins @ ys) r t = seen pins r t"
  by (simp add: seen_def nth_append nth_Cons split: nat.splits)

lemma seen_end: "seen (pins @ [pin]) r (Suc (Suc (length pins))) = pin"
  by (simp add: seen_def)

lemma sync_run:
  "uart_rx_sync2 (rx_run d pins r) = seen pins r (length pins)
   \<and> uart_rx_sync1 (rx_run d pins r) = seen pins r (Suc (length pins))"
proof (induction pins rule: rev_induct)
  case Nil
  show ?case by (simp add: seen_def)
next
  case (snoc pin pins)
  then show ?case by (simp only: rx_run_simps length_append_singleton seen_end) (simp add: rx_step_def seen_append)
qed

text \<open>A start bit is noticed.\<close>

definition noticed :: "receiver \<Rightarrow> bool" where
  "noticed r \<longleftrightarrow> rx_state r = RX_IDLE \<and> \<not> uart_rx_sync2 r"

lemma receiving_run:
  assumes "noticed r" and "divisor_ok d" and "\<not> line (d div 2)"
    and "length pins = Suc t" and "t < 9 * d" and "\<forall>i \<le> Suc t. seen pins r i = line i"
  shows "\<exists>n. receiving d line t n (rx_run d pins r)"
  using assms(4-)
proof (induction t arbitrary: pins)
  case 0
  then obtain pin where pins: "pins = [] @ [pin]" by (cases pins) auto
  have t: "tick_end d 0 = 0" "0 < tick_end d (Suc 0)"
    using assms(2) by (auto simp: tick_end_def divisor_ok_def div_greater_zero_iff)
  have "receiving d line 0 0 (rx_run d pins r)"
    unfolding pins using assms(1) t
    by (simp add: receiving_def at_tick_def state_at_def bits_at_def rx_step_def noticed_def rx_state_next_def)
  then show ?case ..
next
  case (Suc t)
  obtain ys pin where pins: "pins = ys @ [pin]" "length ys = Suc t"
    using Suc.prems(1) by (cases pins rule: rev_cases) auto
  have "\<forall>i \<le> Suc t. seen ys r i = line i"
    using Suc.prems(3) pins by (metis seen_append le_Suc_eq less_Suc_eq_le add_2_eq_Suc' le_SucI)
  with Suc.IH [OF pins(2)] Suc.prems(2) obtain n where n: "receiving d line t n (rx_run d ys r)" by auto
  have "uart_rx_sync2 (rx_run d ys r) = line (Suc t)"
    using sync_run [of d ys r] \<open>\<forall>i \<le> Suc t. seen ys r i = line i\<close> pins(2) by simp
  from receiving_step [OF n assms(2) this assms(3) Suc.prems(2)]
  show ?case by (simp add: pins(1))
qed

text \<open>
  The receiver samples the bit \<open>k\<close> of the byte \<open>(k + 1) * d\<close> clocks after it noticed the start bit,
  and delivers the byte after \<open>9 * d\<close> clocks.
\<close>

theorem rx_samples:
  assumes r: "noticed r" and d: "divisor_ok d" and pins: "length pins = 9 * d"
    and start: "\<not> seen pins r (d div 2)"
  shows "\<exists>b. rx_done d (rx_run d pins r) = Some b \<and> (\<forall>k < 8. bit b k = seen pins r ((k + 1) * d))"
proof -
  have d0: "0 < d" using d by (simp add: divisor_ok_def)
  define t where "t = 9 * d - 1"
  have t: "length pins = Suc t" "t < 9 * d" "Suc t = 9 * d" using d0 pins by (simp_all add: t_def)
  obtain n where n: "receiving d (seen pins r) t n (rx_run d pins r)"
    using receiving_run [where line = "seen pins r", OF r d start t(1,2)] by auto
  then have a: "at_tick d t n (rx_run d pins r)" "n < 144" by (simp_all add: receiving_def)
  have "n = 143"
  proof (rule ccontr)
    assume "n \<noteq> 143"
    then have "Suc n \<le> 143" using a(2) by simp
    then have "tick_end d (Suc n) \<le> tick_end d 143"
      unfolding tick_end_def by (intro div_le_mono mult_le_mono1)
    also have "\<dots> < tick_end d 144"
      using tick_end_Suc [of d 143] d by (simp add: divisor_ok_def div_greater_zero_iff)
    also have "\<dots> = 9 * d" using tick_end_bit [of d 9] by simp
    finally show False using a(1) t by (simp add: at_tick_def)
  qed
  moreover have "tick_end d 144 = 9 * d" using tick_end_bit [of d 9] by simp
  ultimately have tick: "Suc t = tick_end d (Suc n)" using t(3) by simp
  let ?r = "rx_run d pins r"
  have st: "rx_state ?r = RX_STOP_CHECK" "rx_sample_cnt ?r = 7"
    using n \<open>n = 143\<close> by (simp_all add: receiving_def state_at_def)
  then have "rx_done d ?r = Some (rx_shift_reg ?r)"
    using tick_at(1) [OF a(1) d] tick by (simp add: rx_done_def rx_mid_sample_def rx_baud_tick_def)
  moreover have "\<forall>k < 8. bit (rx_shift_reg ?r) k = seen pins r ((k + 1) * d)"
    using n \<open>n = 143\<close> by (auto simp: receiving_def bits_at_def)
  ultimately show ?thesis by blast
qed

lemma frame_bits: "frame b ! 0 = False" "k < 8 \<Longrightarrow> frame b ! Suc k = bit b k"
  by (simp_all add: frame_def nth_append)

text \<open>The line of a frame whose bits last \<open>m\<close> clocks.\<close>

definition frame_line_at :: "nat \<Rightarrow> byte \<Rightarrow> nat \<Rightarrow> bool" where
  "frame_line_at m b t = frame b ! (t div m)"

theorem rx_receives:
  assumes r: "noticed r" and d: "divisor_ok d" and pins: "length pins = 9 * d"
    and line: "\<forall>t \<le> 9 * d. seen pins r t = frame_line_at d b t"
  shows "rx_done d (rx_run d pins r) = Some b"
proof -
  have d0: "0 < d" using d by (simp add: divisor_ok_def)
  have "\<not> seen pins r (d div 2)"
    using line d0 by (simp add: frame_line_at_def frame_bits)
  from rx_samples [OF r d pins this] obtain c where
    c: "rx_done d (rx_run d pins r) = Some c" "\<forall>k < 8. bit c k = seen pins r ((k + 1) * d)" by blast
  have "bit c k = bit b k" if k: "k < 8" for k
  proof -
    have "(k + 1) * d \<le> 9 * d" using k by simp
    then show ?thesis using c(2) line k d0 by (simp add: frame_line_at_def frame_bits)
  qed
  then have "c = b" by (intro bit_word_eqI) simp
  with c(1) show ?thesis by simp
qed

text \<open>
  The samples lie at the first clock of a bit, not in its middle: with bits that last one clock more
  each sample still sees the bit before, and the byte arrives shifted by one place.
\<close>

theorem rx_slow_sender:
  assumes r: "noticed r" and d: "divisor_ok d" and pins: "length pins = 9 * d"
    and line: "\<forall>t \<le> 9 * d. seen pins r t = frame_line_at (d + 1) b t"
  shows "rx_done d (rx_run d pins r) = Some (push_bit 1 b)"
proof -
  have d0: "16 \<le> d" using d by (simp add: divisor_ok_def)
  have "\<not> seen pins r (d div 2)"
    using line d0 by (simp add: frame_line_at_def frame_bits)
  from rx_samples [OF r d pins this] obtain c where
    c: "rx_done d (rx_run d pins r) = Some c" "\<forall>k < 8. bit c k = seen pins r ((k + 1) * d)" by blast
  have "bit c k = bit (push_bit 1 b) k" if k: "k < 8" for k
  proof -
    have i: "(k + 1) * d div (d + 1) = k"
      using k d0 by (intro div_nat_eqI) (auto simp: algebra_simps)
    have "(k + 1) * d \<le> 9 * d" using k by simp
    then have "bit c k = frame b ! k" using c(2) line k i by (simp add: frame_line_at_def)
    moreover have "bit (push_bit 1 b) k \<longleftrightarrow> 1 \<le> k \<and> bit b (k - 1)"
      using k by (simp only: bit_push_bit_iff) (simp add: bit_word_iff_drop_bit_and)
    ultimately show ?thesis using k by (cases k) (simp_all only: frame_bits, simp_all add: frame_bits)
  qed
  then have "c = push_bit 1 b" by (intro bit_word_eqI) simp
  with c(1) show ?thesis by simp
qed

end
