(* ===== verification/Uart_Loop.thy ===== *)
theory Uart_Loop
  imports Uart_Rx
begin

text \<open>
  Transmitter and receiver of two UARTs with the same divisor, connected by a line: what one sends,
  the other receives.
\<close>

text \<open>The levels of the line at the next \<open>n\<close> clocks, as the transmitter drives it.\<close>

definition line_of :: "byte option list \<Rightarrow> uart \<Rightarrow> nat \<Rightarrow> bool list" where
  "line_of rxs u n = map (\<lambda>i. uart_tx (uart_run (take (Suc i) rxs) u)) [0..<n]"

lemma line_of_frame:
  assumes "sending TX_START 0 b u" and "n \<le> 10 * bit_time u" and "n \<le> length rxs"
  shows "line_of rxs u n = map (frame_line_at (bit_time u) b) [0..<n]"
  unfolding line_of_def frame_line_at_def
proof (rule map_cong [OF refl])
  fix i assume "i \<in> set [0..<n]"
  then show "uart_tx (uart_run (take (Suc i) rxs) u) = frame b ! (i div bit_time u)"
    using frame_on_line [OF assms(1), of "take (Suc i) rxs" i] assms(2,3) by simp
qed

text \<open>A receiver that has seen nothing but the idle line.\<close>

definition listening :: "receiver \<Rightarrow> bool" where
  "listening r \<longleftrightarrow> rx_state r = RX_IDLE \<and> uart_rx_sync1 r \<and> uart_rx_sync2 r"

lemma listening_reset: "listening rx_reset"
  by (simp add: listening_def rx_reset_def)

text \<open>Two clocks later the start bit has come through the synchroniser.\<close>

lemma listening_noticed:
  assumes "listening r" and "\<not> p0"
  shows "noticed (rx_run d [p0, p1] r)" and "seen pins (rx_run d [p0, p1] r) t = (p0 # p1 # pins) ! t"
  using assms by (simp_all add: noticed_def listening_def rx_step_def rx_state_next_def seen_def)

lemma loopback:
  assumes tx: "sending TX_START 0 b u" and d: "16 \<le> bit_time u" and rxs: "9 * bit_time u + 2 \<le> length rxs"
    and rx: "listening r"
  shows "rx_done (bit_time u) (rx_run (bit_time u) (line_of rxs u (9 * bit_time u + 2)) r) = Some b"
proof -
  let ?d = "bit_time u"
  have ok: "divisor_ok ?d" using d u32_bound [of "baud_div_r u"] by (simp add: divisor_ok_def bit_time_def)
  define pins where "pins = map (\<lambda>i. frame_line_at ?d b (i + 2)) [0..<9 * ?d]"
  have "line_of rxs u (9 * ?d + 2) = map (frame_line_at ?d b) [0..<2 + 9 * ?d]"
    using line_of_frame [OF tx _ rxs] d by (simp add: add.commute)
  also have "\<dots> = frame_line_at ?d b 0 # frame_line_at ?d b 1 # pins"
  proof -
    have "[0..<2 + n] = 0 # 1 # map (\<lambda>i. i + 2) [0..<n]" for n :: nat
      by (induction n) (simp_all add: numeral_2_eq_2)
    then show ?thesis by (simp add: pins_def del: upt_Suc)
  qed
  finally have l: "line_of rxs u (9 * ?d + 2) = [frame_line_at ?d b 0, frame_line_at ?d b 1] @ pins" by simp
  let ?r = "rx_run ?d [frame_line_at ?d b 0, frame_line_at ?d b 1] r"
  have low: "\<not> frame_line_at ?d b 0" by (simp add: frame_line_at_def frame_bits)
  note n = listening_noticed [OF rx low]
  have "seen pins ?r t = frame_line_at ?d b t" if "t \<le> 9 * ?d" for t
    unfolding n(2) pins_def using that by (auto simp: nth_Cons split: nat.split)
  then have "rx_done ?d (rx_run ?d pins ?r) = Some b"
    by (intro rx_receives n ok) (simp_all add: pins_def)
  then show ?thesis unfolding l by (simp add: rx_run_def)
qed

text \<open>A transmitter with default settings that has just taken a byte from its FIFO.\<close>

definition uart_with_byte :: "byte \<Rightarrow> uart" where
  "uart_with_byte b = uart_step (\<lparr>apb_psel = True, apb_penable = True, apb_pwrite = True,
     apb_paddr = UART_BASE, apb_pwdata = ucast b\<rparr>) None uart_reset"

lemma uart_with_byte_items: "fifo_items (tx_ring (uart_with_byte b)) = [b]" "uart_wf (uart_with_byte b)"
  "tx_state (uart_with_byte b) = TX_IDLE" "ctrl_tx_en (uart_with_byte b)" "bit_time (uart_with_byte b) = 217"
proof -
  have wf: "fifo_wf (tx_ring uart_reset)" "fifo_items (tx_ring uart_reset) = []" "\<not> fifo_full (tx_ring uart_reset)"
    by (simp_all add: uart_reset_def fifo_reset_wf) (simp add: fifo_full_def fifo_reset_def FIFO_DEPTH_def)
  show "uart_wf (uart_with_byte b)" by (simp add: uart_with_byte_def uart_wf_step uart_reset_wf)
  have "tx_fifo_push \<lparr>apb_psel = True, apb_penable = True, apb_pwrite = True, apb_paddr = UART_BASE, apb_pwdata = ucast b\<rparr>"
    "\<not> tx_fifo_pop uart_reset"
    by (simp add: tx_fifo_push_def apb_write_en_def reg_offset_def hw_defs)
      (simp add: tx_fifo_pop_def uart_reset_def fifo_empty_def fifo_reset_def)
  then show "fifo_items (tx_ring (uart_with_byte b)) = [b]"
    using wf ring.items_push [OF wf(1,3)] by (simp add: uart_with_byte_def uart_step_def Let_def)
  show "tx_state (uart_with_byte b) = TX_IDLE" "ctrl_tx_en (uart_with_byte b)" "bit_time (uart_with_byte b) = 217"
    by (simp_all add: uart_with_byte_def uart_step_def Let_def uart_reset_def tx_state_next_def tx_fifo_pop_def
        fifo_empty_def fifo_reset_def reg_offset_def hw_defs bit_time_def DEFAULT_BAUD_DIV_def)
qed

lemma uart_with_byte_sends: "sending TX_START 0 b (uart_step apb_none None (uart_with_byte b))"
    "bit_time (uart_step apb_none None (uart_with_byte b)) = 217"
  using frame_starts(1) [OF uart_with_byte_items(2-4,1)] uart_with_byte_items(5) by simp_all

end
