(* ===== verification/Rtos_Create.thy ===== *)
theory Rtos_Create
  imports Rtos_Sched Rtos_Ops
begin

text \<open>
  \<open>pthread_create\<close> from the POSIX layer to the task control blocks. The layer still asks for the task in the
  clock in which it sees that the task has been created; the RTOS, which is no longer idle then, remembers
  this second request and creates a second task from it.
\<close>

section \<open>A request that waits\<close>

definition requested :: "u32 \<Rightarrow> u32 \<Rightarrow> 4 word \<Rightarrow> hw_rtos \<Rightarrow> bool" where
  "requested pc sp prio r \<longleftrightarrow> task_create_pending r \<and> task_create_pc_r r = pc \<and> task_create_sp_r r = sp
     \<and> task_create_prio_r r = prio"

definition create_cmd :: "u32 \<Rightarrow> u32 \<Rightarrow> 4 word \<Rightarrow> rtos_cmd" where
  "create_cmd pc sp prio = rtos_none\<lparr>rtos_task_create := True, rtos_task_create_pc := pc, rtos_task_create_sp := sp,
     rtos_task_create_prio := prio\<rparr>"

lemma latch_request [simp]:
  "task_create_pc_r (rtos_latch i c r) = (if rtos_task_create c \<and> fsm_state r \<noteq> FSM_IDLE then rtos_task_create_pc c else task_create_pc_r r)"
  "task_create_sp_r (rtos_latch i c r) = (if rtos_task_create c \<and> fsm_state r \<noteq> FSM_IDLE then rtos_task_create_sp c else task_create_sp_r r)"
  "task_create_prio_r (rtos_latch i c r) = (if rtos_task_create c \<and> fsm_state r \<noteq> FSM_IDLE then rtos_task_create_prio c else task_create_prio_r r)"
  by (simp_all add: rtos_latch_def Let_def)

lemma request_latched:
  assumes "fsm_state r = FSM_SCAN_READY"
  shows "requested pc sp prio (rtos_clock i (create_cmd pc sp prio) r)"
  using assms by (simp add: requested_def create_cmd_def rtos_scan_def)

lemma request_kept:
  assumes "requested pc sp prio r" and "\<not> rtos_task_create c" and "fsm_state r \<in> {FSM_IDLE, FSM_SCAN_READY, FSM_COMPARE_PRIORITY, FSM_DISPATCH}"
  shows "requested pc sp prio (rtos_clock i c r)"
  using assms by (auto simp: requested_def state_updates)

text \<open>The states on the way from a trigger to a dispatch.\<close>

lemma trigger_path:
  assumes e: "entering ts r" and n: "dispatches (schedule (current_task_id_r r) ts) r"
    and xs: "length xs < sched_clocks (current_task_id_r r) ts + 3"
  shows "fsm_state (rtos_run xs r) \<in> {FSM_SCAN_READY, FSM_COMPARE_PRIORITY, FSM_DISPATCH}"
proof -
  let ?k = "sched_clocks (current_task_id_r r) ts"
  consider "xs = []" | "0 < length xs" "length xs \<le> ?k" | "length xs = ?k + 1" | "length xs = ?k + 2" using xs by fastforce
  then show ?thesis
  proof cases
    case 1
    then show ?thesis using e by (simp add: entering_def)
  next
    case 2
    then obtain i c ys where x: "xs = (i, c) # ys" by (metis length_greater_0_conv list.exhaust prod.exhaust)
    note s = entering_step [OF e, of i c]
    have "1 + length ys \<le> sched_clocks (current_task_id_r (rtos_clock i c r)) ts"
      using 2 same_task_cur [OF s(2)] x by (simp del: rtos_clock_regs)
    from at_work_run [OF s(1) zero_less_one this] show ?thesis by (simp add: x at_work_def)
  next
    case 3
    from scan_decides [OF e 3] show ?thesis by (simp add: decided_def)
  next
    case 4
    then obtain ys i c where x: "xs = ys @ [(i, c)]" by (metis append_butlast_last_id length_0_conv add_is_0 prod.exhaust zero_neq_numeral)
    then have d: "decided ts (rtos_run ys r)" "same_task r (rtos_run ys r)" using scan_decides [OF e, of ys] 4 by simp_all
    then show ?thesis
      using n by (auto simp: x decided_def fsm_next_def compare_next_def dispatches_def same_task_def split: if_split_asm)
  qed
qed

lemma trigger_keeps_request:
  assumes "entering ts r" and "dispatches (schedule (current_task_id_r r) ts) r"
    and "length xs \<le> sched_clocks (current_task_id_r r) ts + 3" and "requested pc sp prio (rtos_clock i c r)"
    and "\<forall>x \<in> set xs. \<not> rtos_task_create (snd x)" "xs' = (i, c) # xs" "length xs' \<le> sched_clocks (current_task_id_r r) ts + 3"
  shows "requested pc sp prio (rtos_run xs' r)"
proof -
  have "requested pc sp prio (rtos_run ((i, c) # ys) r)" if "ys @ zs = xs" for ys zs
    using that
  proof (induction ys arbitrary: zs rule: rev_induct)
    case Nil
    then show ?case using assms(4) by simp
  next
    case (snoc y ys)
    obtain j d where y: "y = (j, d)" by (cases y)
    have req: "requested pc sp prio (rtos_run ((i, c) # ys) r)" using snoc.IH [of "y # zs"] snoc.prems by simp
    have "length ((i, c) # ys) < length xs'" using snoc.prems assms(6) by auto
    then have "fsm_state (rtos_run ((i, c) # ys) r) \<in> {FSM_SCAN_READY, FSM_COMPARE_PRIORITY, FSM_DISPATCH}"
      using assms(7) by (intro trigger_path [OF assms(1,2)]) simp
    moreover have "\<not> rtos_task_create d" using assms(5) snoc.prems y by auto
    ultimately show ?case using request_kept [OF req, of d j] by (simp add: y)
  qed
  from this [of xs "[]"] show ?thesis by (simp add: assms(6))
qed

section \<open>Back in the idle state\<close>

text \<open>No command that would start an operation.\<close>

definition no_op :: "rtos_cmd \<Rightarrow> bool" where
  "no_op c \<longleftrightarrow> rtos_task_create c \<or> \<not> rtos_task_exit c \<and> \<not> rtos_task_join c \<and> \<not> rtos_task_yield c
     \<and> rtos_sem_op c = 0 \<and> rtos_mutex_op c = 0 \<and> rtos_msgq_op c = 0"

lemma no_op_simps [simp]: "no_op rtos_none" "no_op (create_cmd pc sp prio)"
  by (simp_all add: no_op_def create_cmd_def rtos_none_def)

lemma no_op_issue [simp]: "no_op c \<Longrightarrow> rtos_issue c r r' = r'"
  unfolding no_op_def rtos_issue_def by (elim disjE conjE) simp_all

lemma idle_issue:
  assumes "fsm_state r = FSM_IDLE" "quiet r" "ctx_rests r" "no_op c" and "sched_state (sched_u r) = SCHED_IDLE" "\<not> sched_trigger r"
  shows "quiet (rtos_clock i c r)" "ctx_rests (rtos_clock i c r)" "sched_state (sched_u (rtos_clock i c r)) = SCHED_IDLE"
    "\<not> sched_trigger (rtos_clock i c r)" "ports (rtos_clock i c r) = no_ports" "tcbs (rtos_clock i c r) = blocks r"
    "current_task_id_r (rtos_clock i c r) = current_task_id_r r" "task_active_r (rtos_clock i c r) = task_active_r r"
    "\<not> create_done_r (rtos_clock i c r)"
  using assms
  by (simp_all add: quiet_def any_wake_def unit_nops ctx_rests_def context_switch_def task_scheduler_def blocks_def
      rtos_boost_def)

section \<open>Twice the same task\<close>

text \<open>The valid blocks are those from 1 to \<open>n\<close>, all of the same task; the first is in state \<open>st\<close>.\<close>

definition copies :: "nat \<Rightarrow> task_state_t \<Rightarrow> u32 \<Rightarrow> u32 \<Rightarrow> 4 word \<Rightarrow> tcb list \<Rightarrow> bool" where
  "copies n st pc sp prio ts \<longleftrightarrow> length ts = NUM_TASKS
     \<and> (\<forall>j < NUM_TASKS. task_valid (ts ! j) \<longleftrightarrow> 1 \<le> j \<and> j \<le> n)
     \<and> (\<forall>j < NUM_TASKS. 1 \<le> j \<and> j \<le> n \<longrightarrow> task_pc (ts ! j) = pc \<and> task_sp (ts ! j) = sp \<and> prio_level (ts ! j) = prio
          \<and> task_state (ts ! j) = (if j = 1 then st else TASK_READY))"

lemma copies_status: "copies n st pc sp prio ts \<Longrightarrow> same_status ts ts' \<Longrightarrow> copies n st pc sp prio ts'"
  using same_statusD [of ts ts'] by (simp add: copies_def same_status_length)

lemma copies_new:
  assumes "copies n st pc sp prio ts" and "Suc n < NUM_TASKS" and "n = 0 \<longrightarrow> st' = TASK_READY" "n \<noteq> 0 \<longrightarrow> st' = st"
  shows "copies (Suc n) st' pc sp prio (ts[Suc n := new_task (Suc n) pc sp prio])"
  using assms by (auto simp: copies_def nth_list_update new_task_def le_Suc_eq)

lemma copies_run:
  assumes "copies n st pc sp prio ts"
  shows "copies n TASK_RUNNING pc sp prio (set_state 1 TASK_RUNNING ts)"
  using assms by (auto simp: copies_def set_state_def nth_list_update NUM_TASKS_def)

lemma copies_free:
  assumes "copies n st pc sp prio (tcbs r)" and "Suc n < NUM_TASKS"
  shows "free_task_id (all_valid r) = Some (Suc n)"
proof -
  have v: "all_valid r ! j \<longleftrightarrow> 1 \<le> j \<and> j \<le> n" if "j < NUM_TASKS" for j
    using assms(1) that by (auto simp: copies_def all_valid_def)
  have "[1..<NUM_TASKS] = [1..<Suc n] @ Suc n # [Suc (Suc n)..<NUM_TASKS]"
    using assms(2) by (metis One_nat_def le_add1 less_imp_add_positive plus_1_eq_Suc upt_add_eq_append upt_conv_Cons less_imp_le_nat le_add_diff_inverse)
  moreover have "filter (\<lambda>i. \<not> all_valid r ! i) [1..<Suc n] = []" using v assms(2) by (auto simp: filter_empty_conv)
  moreover have "\<not> all_valid r ! Suc n" using v assms(2) by simp
  ultimately show ?thesis by (simp add: free_task_id_def)
qed

lemma copies_schedule:
  assumes "copies 1 TASK_READY pc sp prio ts" and "task_state (ts ! 0) \<noteq> TASK_RUNNING"
  shows "schedule 0 ts = 1"
proof -
  have r: "ready ts j \<longleftrightarrow> j = 1" if "j < NUM_TASKS" for j using assms(1) that by (auto simp: ready_def copies_def)
  then have "best_ready ts \<noteq> None" by (auto simp: best_ready_None NUM_TASKS_def)
  then obtain b where b: "best_ready ts = Some b" by blast
  then have "b = 1" using best_ready_Some [OF b] r by (auto simp: is_best_def)
  with b assms(2) show ?thesis by (simp add: schedule_def)
qed

lemma copies_no_preemption:
  assumes "copies 2 TASK_RUNNING pc sp prio ts"
  shows "schedule 1 ts = 1"
proof -
  have c: "prio_level (ts ! j) = prio" if "1 \<le> j" "j \<le> 2" for j
    using assms that by (simp add: copies_def NUM_TASKS_def)
  have run: "task_state (ts ! 1) = TASK_RUNNING" using assms by (simp add: copies_def NUM_TASKS_def)
  have "b = 2" if "best_ready ts = Some b" for b
  proof -
    have b: "b < NUM_TASKS" "task_valid (ts ! b)" "task_state (ts ! b) = TASK_READY"
      using best_ready_Some [OF that] by (simp_all add: is_best_def ready_def)
    then have "1 \<le> b" "b \<le> 2" using assms by (simp_all add: copies_def)
    moreover have "b \<noteq> 1" using b(3) run by auto
    ultimately show ?thesis by simp
  qed
  then show ?thesis using c run by (auto simp: schedule_def split: option.split)
qed

text \<open>Nothing is in progress.\<close>

definition resting :: "hw_rtos \<Rightarrow> bool" where
  "resting r \<longleftrightarrow> fsm_state r = FSM_IDLE \<and> quiet r \<and> ctx_rests r \<and> sched_state (sched_u r) = SCHED_IDLE
     \<and> \<not> sched_trigger r \<and> \<not> task_create_pending r \<and> ports r = no_ports \<and> length (tcbs r) = NUM_TASKS
     \<and> \<not> create_done_r r"

lemma resting_reset: "resting rtos_reset"
  by (simp add: resting_def rtos_reset_def quiet_def any_wake_def ctx_rests_def ctx_reset_def sched_reset_def sem_reset_def
      mutex_reset_def msgq_reset_def tcb_reset_def)

text \<open>No task has ever been created; the program runs outside all tasks.\<close>

definition before_tasks :: "hw_rtos \<Rightarrow> bool" where
  "before_tasks r \<longleftrightarrow> resting r \<and> current_task_id_r r = 0 \<and> \<not> task_active_r r
     \<and> (\<forall>j < NUM_TASKS. \<not> task_valid (tcbs r ! j)) \<and> task_state (tcbs r ! 0) \<noteq> TASK_RUNNING"

text \<open>From an idle state to the entry into the scan.\<close>

lemma create_twice_half:
  assumes r: "fsm_state r = FSM_IDLE" "quiet r" "ctx_rests r" "sched_state (sched_u r) = SCHED_IDLE" "\<not> sched_trigger r"
    and cur: "current_task_id_r r < NUM_TASKS" and n: "Suc n < NUM_TASKS"
    and ts: "same_status ts (blocks r)" "copies n st pc sp prio ts" and st: "n = 0 \<longrightarrow> st' = TASK_READY" "n \<noteq> 0 \<longrightarrow> st' = st"
    and c: "no_op c" "no_op d"
    and req: "\<not> task_create_pending r \<and> c = create_cmd pc sp prio \<and> d = c \<or> requested pc sp prio r \<and> \<not> rtos_task_create c"
  shows "\<exists>ts'. entering ts' (rtos_run [(i, c), (j, d)] r)
    \<and> same_status (ts[Suc n := new_task (Suc n) pc sp prio]) ts' \<and> copies (Suc n) st' pc sp prio ts'
    \<and> create_done_r (rtos_run [(i, c), (j, d)] r) \<and> create_id_r (rtos_run [(i, c), (j, d)] r) = Suc n
    \<and> \<not> create_done_r (rtos_run [(i, c)] r)
    \<and> current_task_id_r (rtos_run [(i, c), (j, d)] r) = current_task_id_r r
    \<and> task_active_r (rtos_run [(i, c), (j, d)] r) = task_active_r r"
proof -
  define r1 where "r1 = rtos_clock i c r"
  note s = idle_issue [OF r(1-3) c(1) r(4,5), of i, folded r1_def]
  have fsm: "fsm_state r1 = FSM_TASK_CREATE"
    using r(1) req by (auto simp: r1_def fsm_next_def idle_next_def create_cmd_def requested_def)
  have pend: "(pc, sp, prio) = (if task_create_pending r1 then (task_create_pc_r r1, task_create_sp_r r1, task_create_prio_r r1)
      else (rtos_task_create_pc d, rtos_task_create_sp d, rtos_task_create_prio d))"
    using req r(1) c(1) by (auto simp: r1_def requested_def create_cmd_def)
  have len: "length (tcbs r1) = NUM_TASKS" using same_status_length [OF ts(1)] s(6) by simp
  have b: "same_status ts (blocks r1)"
    using same_status_tick [OF ts(1)] s(5,6) quiet_no_write [OF s(1)] by (simp add: blocks_def)
  have free: "free_task_id (all_valid r1) = Some (Suc n)"
    using copies_status [OF ts(2,1)] s(6) n by (intro copies_free) simp_all
  have cur1: "current_task_id_r r1 < NUM_TASKS" using cur s(7) by simp
  obtain ts' where e: "entering ts' (rtos_clock j d r1)" "same_status (ts[Suc n := new_task (Suc n) pc sp prio]) ts'"
    "create_done_r (rtos_clock j d r1)" "create_id_r (rtos_clock j d r1) = Suc n" "same_task r1 (rtos_clock j d r1)"
    using create_enters [OF fsm s(1-4) cur1 free b pend] by blast
  have "copies (Suc n) st' pc sp prio ts'" by (rule copies_status [OF copies_new [OF ts(2) n st] e(2)])
  with e s(7-9) show ?thesis
    by (intro exI [of _ ts']) (simp add: r1_def [symmetric] same_task_def del: rtos_clock_regs)
qed

theorem create_cmd_twice:
  assumes r: "before_tasks r" and c: "c = create_cmd pc sp prio" and xs: "length xs = 45"
  shows "case rtos_run ([(i, c), (j, c), (k, c)] @ map (\<lambda>x. (x, rtos_none)) xs) r of r' \<Rightarrow>
    current_task_id_r r' = 1 \<and> task_active_r r' \<and> copies 2 TASK_RUNNING pc sp prio (tcbs r')"
proof -
  let ?none = "map (\<lambda>x. (x, rtos_none))"
  have r0: "fsm_state r = FSM_IDLE" "quiet r" "ctx_rests r" "sched_state (sched_u r) = SCHED_IDLE" "\<not> sched_trigger r"
    "\<not> task_create_pending r" "current_task_id_r r = 0" "\<not> task_active_r r" "task_state (tcbs r ! 0) \<noteq> TASK_RUNNING"
    using r by (simp_all add: before_tasks_def resting_def)
  have b0: "same_status (tcbs r) (blocks r)"
    using r quiet_no_write [OF r0(2)] same_status_tick [OF same_status_refl] by (simp add: before_tasks_def resting_def blocks_def)
  have c0: "copies 0 TASK_READY pc sp prio (tcbs r)" using r by (auto simp: before_tasks_def resting_def copies_def)
  define r2 where "r2 = rtos_run [(i, c), (j, c)] r"
  obtain ts1 where e1: "entering ts1 r2" "copies 1 TASK_READY pc sp prio ts1" "current_task_id_r r2 = 0" "\<not> task_active_r r2"
    "same_status ((tcbs r)[Suc 0 := new_task (Suc 0) pc sp prio]) ts1"
    using create_twice_half [OF r0(1-5) _ _ b0 c0, of TASK_READY c c i j] r0(6-8) c
    by (auto simp: r2_def NUM_TASKS_def)
  have "task_state (ts1 ! 0) \<noteq> TASK_RUNNING" using same_statusD(3) [OF e1(5), of 0] r0(9) by (simp add: NUM_TASKS_def)
  note n1 = copies_schedule [OF e1(2) this]
  have d1: "dispatches (schedule (current_task_id_r r2) ts1) r2" using n1 e1(3,4) by (simp add: dispatches_def)
  have k1: "sched_clocks (current_task_id_r r2) ts1 = 19" using n1 e1(3) by (simp add: sched_clocks_def NUM_TASKS_def)
  obtain as x y bs z where split: "xs = as @ [x, y] @ bs @ [z]" "length as = 21" "length bs = 21"
  proof -
    have "length (drop 21 xs) = Suc (Suc 22)" using xs by simp
    then obtain x y cs where cs: "drop 21 xs = x # y # cs" "length cs = 22" by (auto simp only: length_Suc_conv)
    then obtain bs z where "cs = bs @ [z]" by (cases cs rule: rev_cases) auto
    moreover from this cs have "xs = take 21 xs @ [x, y] @ bs @ [z]" "length bs = 21"
      using append_take_drop_id [of 21 xs] by simp_all
    ultimately show ?thesis using that [of "take 21 xs" x y bs z] xs by simp
  qed
  define ys where "ys = (k, c) # ?none as"
  define r24 where "r24 = rtos_run ys r2"
  have ys: "length ys = 22" using split by (simp add: ys_def)
  have disp1: "dispatched 1 (set_state 1 TASK_RUNNING ts1) r24"
    unfolding r24_def using n1 e1(3) d1 k1 ys by (intro trigger_dispatches [OF e1(1)]) simp_all
  have req: "requested pc sp prio r24"
    unfolding r24_def
    by (rule trigger_keeps_request [OF e1(1) d1, of "?none as" _ _ _ k c ys, unfolded k1])
      (use e1(1) split ys in \<open>auto simp: ys_def c entering_def request_latched simp del: rtos_clock_regs\<close>)
  have c2: "copies 1 TASK_RUNNING pc sp prio (set_state 1 TASK_RUNNING ts1)" by (rule copies_run [OF e1(2)])
  have r24: "fsm_state r24 = FSM_IDLE" "quiet r24" "ctx_rests r24" "sched_state (sched_u r24) = SCHED_IDLE" "\<not> sched_trigger r24"
    "same_status (set_state 1 TASK_RUNNING ts1) (blocks r24)" "current_task_id_r r24 = 1" "task_active_r r24"
    using disp1 by (simp_all add: dispatched_def)
  define r26 where "r26 = rtos_run [(x, rtos_none), (y, rtos_none)] r24"
  obtain ts3 where e3: "entering ts3 r26" "copies 2 TASK_RUNNING pc sp prio ts3" "current_task_id_r r26 = 1" "task_active_r r26"
    using create_twice_half [OF r24(1-5) _ _ r24(6) c2, of TASK_RUNNING rtos_none rtos_none x y] r24(7,8) req
    by (auto simp: r26_def NUM_TASKS_def numeral_2_eq_2)
  note n3 = copies_no_preemption [OF e3(2)]
  define r47 where "r47 = rtos_run (?none bs) r26"
  have disp3: "dispatched 1 (set_state 1 TASK_RUNNING ts3) r47"
    unfolding r47_def using n3 e3(3,4) split
    by (intro trigger_dispatches [OF e3(1)]) (simp_all add: dispatches_def sched_clocks_def NUM_TASKS_def)
  then have r47: "fsm_state r47 = FSM_IDLE" "quiet r47" "ctx_rests r47" "sched_state (sched_u r47) = SCHED_IDLE" "\<not> sched_trigger r47"
    "same_status (set_state 1 TASK_RUNNING ts3) (blocks r47)" "current_task_id_r r47 = 1" "task_active_r r47"
    by (simp_all add: dispatched_def)
  note fin = idle_issue [OF r47(1-3) no_op_simps(1) r47(4,5), of z]
  have "rtos_run ([(i, c), (j, c), (k, c)] @ ?none xs) r = rtos_clock z rtos_none r47"
    by (simp add: split(1) r47_def r26_def r24_def r2_def ys_def)
  moreover have "copies 2 TASK_RUNNING pc sp prio (tcbs (rtos_clock z rtos_none r47))"
    unfolding fin(6) by (rule copies_status [OF copies_run [OF e3(2)] r47(6)])
  ultimately show ?thesis using fin(7,8) r47(7,8) by (simp del: rtos_clock_regs rtos_clock_units)
qed

section \<open>With the layer\<close>

lemma layer_rests:
  assumes "state_r p = S_COMPLETE \<or> state_r p = S_IDLE \<and> \<not> ecall_req (in_ecall (hd xs))"
    and "\<forall>x \<in> set (tl xs). \<not> ecall_req (in_ecall x)" and "xs \<noteq> []"
  shows "pair_run xs (p, r) = (fst (pair_run xs (p, r)), rtos_run (map (\<lambda>x. (in_rtos x, rtos_none)) xs) r)
    \<and> state_r (fst (pair_run xs (p, r))) = S_IDLE"
  using assms
proof (induction xs arbitrary: p r)
  case (Cons x xs)
  define q where "q = posix_step (in_ecall x) (rtos_port_of r) (in_periph x) p"
  have p: "rtos_out p = rtos_none" "state_r q = S_IDLE"
    using Cons.prems by (auto simp: rtos_out_def q_def state_next_def)
  have "pair_clock x (p, r) = (q, rtos_clock (in_rtos x) rtos_none r)" using p(1) by (simp add: pair_clock_def q_def)
  moreover have "\<not> ecall_req (in_ecall (hd xs))" "\<forall>x \<in> set (tl xs). \<not> ecall_req (in_ecall x)" if "xs \<noteq> []"
    using Cons.prems(2) that list.set_sel [of xs] by auto
  ultimately show ?case using Cons.IH [of q "rtos_clock (in_rtos x) rtos_none r"] p(2) by (cases "xs = []") simp_all
qed simp

lemma create_call:
  assumes "state_r p = S_THREAD_OP \<or> state_r p = S_WAIT_RTOS" and "latched_syscall_num p = ucast SYS_PTHREAD_CREATE"
  shows "rtos_out p = create_cmd (latched_arg0 p) (latched_arg1 p) (ucast (latched_arg2 p))"
    and "state_r p = S_THREAD_OP \<Longrightarrow> state_r (posix_step c k d p) = S_WAIT_RTOS"
    and "state_r p = S_WAIT_RTOS \<Longrightarrow> state_r (posix_step c k d p) = (if rtos_task_create_done k then S_COMPLETE else S_WAIT_RTOS)"
    and "state_r p = S_WAIT_RTOS \<Longrightarrow> rtos_task_create_done k \<Longrightarrow> result_r (posix_step c k d p) = ucast (rtos_task_create_id k)"
    and "latched_syscall_num (posix_step c k d p) = ucast SYS_PTHREAD_CREATE"
    and "latched_arg0 (posix_step c k d p) = latched_arg0 p" "latched_arg1 (posix_step c k d p) = latched_arg1 p"
      "latched_arg2 (posix_step c k d p) = latched_arg2 p"
  using assms
  by (auto simp: rtos_out_def syscall_category_def syscall_subop_def thread_cmd_def create_cmd_def state_next_def rtos_done_def
      result_next_def rtos_answer_def posix_step_latched posix_defs Let_def)

theorem create_call_twice:
  assumes p: "state_r p = S_THREAD_OP" "latched_syscall_num p = ucast SYS_PTHREAD_CREATE" and r: "before_tasks r"
    and xs: "length xs = 48" "\<forall>x \<in> set (drop 4 xs). \<not> ecall_req (in_ecall x)"
  shows "(case pair_run (take 3 xs) (p, r) of (p', r') \<Rightarrow> state_r p' = S_COMPLETE \<and> result_r p' = 1)
    \<and> (case pair_run xs (p, r) of (p', r') \<Rightarrow> state_r p' = S_IDLE \<and> current_task_id_r r' = 1 \<and> task_active_r r'
        \<and> copies 2 TASK_RUNNING (latched_arg0 p) (latched_arg1 p) (ucast (latched_arg2 p)) (tcbs r'))"
proof -
  obtain x0 x1 x2 ys where x: "xs = x0 # x1 # x2 # ys" "length ys = 45"
  proof -
    have "length xs = Suc (Suc (Suc 45))" using xs(1) by simp
    then show ?thesis using that by (auto simp only: length_Suc_conv)
  qed
  define c where "c = create_cmd (latched_arg0 p) (latched_arg1 p) (ucast (latched_arg2 p))"
  define r1 where "r1 = rtos_clock (in_rtos x0) c r"
  define r2 where "r2 = rtos_clock (in_rtos x1) c r1"
  define r3 where "r3 = rtos_clock (in_rtos x2) c r2"
  have r0: "fsm_state r = FSM_IDLE" "quiet r" "ctx_rests r" "sched_state (sched_u r) = SCHED_IDLE" "\<not> sched_trigger r"
    "\<not> task_create_pending r" "current_task_id_r r = 0" "length (tcbs r) = NUM_TASKS" "ports r = no_ports"
    using r by (simp_all add: before_tasks_def resting_def)
  have b0: "same_status (tcbs r) (blocks r)"
    using quiet_no_write [OF r0(2)] same_status_tick [OF same_status_refl [OF r0(8)]] r0(9) by (simp add: blocks_def)
  have c0: "copies 0 TASK_READY (latched_arg0 p) (latched_arg1 p) (ucast (latched_arg2 p)) (tcbs r)"
    using r by (auto simp: before_tasks_def resting_def copies_def)
  have dn: "\<not> create_done_r r1" "create_done_r r2" "create_id_r r2 = 1"
    using create_twice_half [OF r0(1-5) _ _ b0 c0, of TASK_READY c c "in_rtos x0" "in_rtos x1"] r0(6,7)
    by (auto simp: r1_def r2_def c_def NUM_TASKS_def simp del: rtos_clock_regs)
  define p1 where "p1 = posix_step (in_ecall x0) (rtos_port_of r) (in_periph x0) p"
  define p2 where "p2 = posix_step (in_ecall x1) (rtos_port_of r1) (in_periph x1) p1"
  define p3 where "p3 = posix_step (in_ecall x2) (rtos_port_of r2) (in_periph x2) p2"
  note s0 = create_call [OF disjI1 [OF p(1)] p(2)]
  have p1: "state_r p1 = S_WAIT_RTOS" "latched_syscall_num p1 = ucast SYS_PTHREAD_CREATE" "rtos_out p = c"
    using s0(1,2,5) p(1) by (simp_all add: p1_def c_def)
  note s1 = create_call [OF disjI2 [OF p1(1)] p1(2)]
  have p2: "state_r p2 = S_WAIT_RTOS" "latched_syscall_num p2 = ucast SYS_PTHREAD_CREATE" "rtos_out p1 = c"
    using s1(1,3,5) p1(1) dn(1) s0(6-8) by (simp_all add: p2_def rtos_port_of_def c_def p1_def del: posix_step_simps)
  note s2 = create_call [OF disjI2 [OF p2(1)] p2(2)]
  have p3: "state_r p3 = S_COMPLETE" "result_r p3 = 1" "rtos_out p2 = c"
    using s2(1,3,4) p2(1) dn(2,3) s1(6-8) s0(6-8)
    by (simp_all add: p3_def p2_def p1_def rtos_port_of_def c_def del: posix_step_simps)
  have run3: "pair_run [x0, x1, x2] (p, r) = (p3, r3)"
    using p1(3) p2(3) p3(3) by (simp add: pair_clock_def p1_def [symmetric] r1_def [symmetric] p2_def [symmetric]
        r2_def [symmetric] p3_def [symmetric] r3_def [symmetric])
  have ne: "ys \<noteq> []" "\<forall>x \<in> set (tl ys). \<not> ecall_req (in_ecall x)" using x xs(2) by (auto simp: drop_Suc)
  have "rtos_run (map (\<lambda>x. (in_rtos x, rtos_none)) ys) r3
      = rtos_run ([(in_rtos x0, c), (in_rtos x1, c), (in_rtos x2, c)] @ map (\<lambda>x. (x, rtos_none)) (map in_rtos ys)) r"
    by (simp add: r1_def r2_def r3_def comp_def)
  with create_cmd_twice [OF r c_def, of "map in_rtos ys" "in_rtos x0" "in_rtos x1" "in_rtos x2"] x(2)
    layer_rests [of p3 ys r3] p3(1) ne
  have "case pair_run ys (p3, r3) of (p', r') \<Rightarrow> state_r p' = S_IDLE \<and> current_task_id_r r' = 1 \<and> task_active_r r'
      \<and> copies 2 TASK_RUNNING (latched_arg0 p) (latched_arg1 p) (ucast (latched_arg2 p)) (tcbs r')"
    by (cases "pair_run ys (p3, r3)") simp
  moreover have "pair_run xs (p, r) = pair_run ys (p3, r3)" "take 3 xs = [x0, x1, x2]"
    using run3 by (simp_all add: x(1) numeral_3_eq_3)
  ultimately show ?thesis using run3 p3(1,2) by (simp del: pair_run_simps(2))
qed

end
