(* ===== verification/Rtos_Wait.thy ===== *)
theory Rtos_Wait
  imports Rtos_Create
begin

text \<open>
  What it means to wait: a \<open>sem\_wait\<close> for which the count is zero, from the request of the layer to the
  dispatch of the next task. No context is switched, because hw\_rtos.sv only switches from a task that is
  active, and the one that waits no longer is.
\<close>

section \<open>The dispatch keeps the units\<close>

lemma dispatch_same_units:
  assumes r: "decided ts r" "dispatches (schedule (current_task_id_r r) ts) r" and xs: "length xs = 2"
  shows "ctx_u (rtos_run xs r) = ctx_u r" "sems (sem_u (rtos_run xs r)) = sems (sem_u r)"
proof -
  obtain i c j d where x: "xs = [(i, c), (j, d)]" using xs by (auto simp: numeral_2_eq_2 length_Suc_conv)
  have a: "fsm_state r = FSM_COMPARE_PRIORITY" "quiet r" "ctx_rests r"
    "next_task_id_reg (sched_u r) = schedule (current_task_id_r r) ts"
    using r(1) by (simp_all add: decided_def)
  define s where "s = rtos_clock i c r"
  have s: "same_task r s" "quiet s" "ctx_rests s" "fsm_state s = FSM_DISPATCH"
    unfolding s_def
    using a r(2) scan_same_task [of r i c] quiet_clock [OF a(2), of i c]
    by (auto simp: passing_def fsm_next_def compare_next_def dispatches_def ctx_rests_def context_switch_def split: if_split_asm)
  have "sems (hw_semaphore 0 k t v m prio u) = sems u" for k t v m prio u by (simp add: hw_semaphore_def Let_def)
  then show "ctx_u (rtos_run xs r) = ctx_u r" "sems (sem_u (rtos_run xs r)) = sems (sem_u r)"
    using s by (simp_all add: x s_def [symmetric] same_task_def quiet_def ctx_rests_def context_switch_def)
qed

lemma trigger_same_units:
  assumes "entering ts r" and n: "dispatches (schedule (current_task_id_r r) ts) r"
    and xs: "length xs = sched_clocks (current_task_id_r r) ts + 3"
  shows "ctx_u (rtos_run xs r) = ctx_u r" "sems (sem_u (rtos_run xs r)) = sems (sem_u r)"
proof -
  let ?k = "sched_clocks (current_task_id_r r) ts + 1"
  define s where "s = rtos_run (take ?k xs) r"
  have run: "rtos_run xs r = rtos_run (drop ?k xs) s"
    unfolding s_def rtos_run_simps(3) [symmetric] by (simp only: append_take_drop_id)
  have d: "decided ts s" "same_task r s" using scan_decides [OF assms(1), of "take ?k xs"] xs by (simp_all add: s_def)
  have "dispatches (schedule (current_task_id_r s) ts) s"
    using n d(2) same_task_cur [OF d(2)] by (simp add: dispatches_def same_task_def)
  from dispatch_same_units [OF d(1) this, of "drop ?k xs"] xs d(2)
  show "ctx_u (rtos_run xs r) = ctx_u r" "sems (sem_u (rtos_run xs r)) = sems (sem_u r)"
    unfolding run by (simp_all add: same_task_def)
qed

section \<open>The request\<close>

text \<open>The operation is with the unit, and nothing else is going on.\<close>

definition asking :: "tcb list \<Rightarrow> nat \<Rightarrow> nat \<Rightarrow> hw_rtos \<Rightarrow> bool" where
  "asking ts t i r \<longleftrightarrow> fsm_state r = FSM_BLOCK_TASK \<and> sem_op_int r = 2 \<and> sem_id_int r = i \<and> sem_op_pending r
     \<and> current_task_id_r r = t \<and> \<not> sem_success (sem_u r) \<and> mutex_op_int r = 0 \<and> msgq_op_int r = 0
     \<and> \<not> any_wake r \<and> \<not> wake_pending r \<and> prio_boost (mutex_u r) = None \<and> \<not> prio_boost_wr_pending r
     \<and> \<not> tcb_wr_en r \<and> ctx_rests r \<and> sched_state (sched_u r) = SCHED_IDLE \<and> \<not> sched_trigger r \<and> ports r = no_ports
     \<and> same_status ts (tcbs r) \<and> \<not> sem_done_r r
     \<and> \<not> mutex_op_pending r \<and> \<not> msgq_op_pending r"

definition wait_cmd :: "nat \<Rightarrow> rtos_cmd \<Rightarrow> bool" where
  "wait_cmd i c \<longleftrightarrow> sem_only c \<and> rtos_sem_op c = 2 \<and> rtos_sem_id c = i"

lemma wait_issue:
  assumes r: "resting r" "\<not> mutex_op_pending r" "\<not> msgq_op_pending r" and c: "wait_cmd i c"
  shows "asking (tcbs r) (current_task_id_r r) i (rtos_clock x c r)"
    "ctx_u (rtos_clock x c r) = ctx_u r" "sems (sem_u (rtos_clock x c r)) = sems (sem_u r)"
    "\<not> sem_block (sem_u (rtos_clock x c r))"
proof -
  have q: "fsm_state r = FSM_IDLE" "quiet r" "ctx_rests r" "sched_state (sched_u r) = SCHED_IDLE" "\<not> sched_trigger r"
    "\<not> task_create_pending r" "ports r = no_ports" "length (tcbs r) = NUM_TASKS"
    using r(1) by (simp_all add: resting_def)
  show "asking (tcbs r) (current_task_id_r r) i (rtos_clock x c r)"
    using q r(2,3) c same_status_tick [OF same_status_refl [OF q(8)]] quiet_no_write [OF q(2)]
    by (simp add: asking_def wait_cmd_def sem_only_def fsm_next_def idle_next_def rtos_issue_def rtos_boost_def
        quiet_def any_wake_def unit_nops ctx_rests_def context_switch_def task_scheduler_def sem_nop_def)
  show "ctx_u (rtos_clock x c r) = ctx_u r" "sems (sem_u (rtos_clock x c r)) = sems (sem_u r)"
    "\<not> sem_block (sem_u (rtos_clock x c r))"
    using q by (simp_all add: quiet_def ctx_rests_def context_switch_def sem_nop_def)
qed

text \<open>The unit enters the caller as waiting; the machine stays where it is until it sees that.\<close>

lemma wait_exec:
  assumes r: "asking ts t i r" "\<not> sem_block (sem_u r)" and c: "wait_cmd i c"
    and s: "i < length (sems (sem_u r))" "count_r (sems (sem_u r) ! i) = 0"
  shows "asking ts t i (rtos_clock x c r)" "ctx_u (rtos_clock x c r) = ctx_u r" "sem_block (sem_u (rtos_clock x c r))"
    "count_r (sems (sem_u (rtos_clock x c r)) ! i) = 0" "length (sems (sem_u (rtos_clock x c r))) = length (sems (sem_u r))"
    "bit (sem_wait_mask_r (sems (sem_u (rtos_clock x c r)) ! i)) t \<or> 16 \<le> t"
proof -
  have u: "sem_u (rtos_clock x c r) = \<lparr>sems = (sems (sem_u r))[i := (sems (sem_u r) ! i)\<lparr>sem_wait_mask_r :=
        set_bit t (sem_wait_mask_r (sems (sem_u r) ! i))\<rparr>], sem_success = False, sem_block = True,
      sem_wake_task_id = 0, sem_wake_valid = False\<rparr>"
    using r s by (simp add: asking_def hw_semaphore_def Let_def wake_id_def)
  have w: "tcb_wr r = None" using r(1) by (simp add: asking_def tcb_wr_def Let_def)
  show "asking ts t i (rtos_clock x c r)"
    using r c w same_status_tick [of ts "tcbs r"] u
    by (simp add: asking_def wait_cmd_def sem_only_def fsm_next_def block_next_def rtos_collect_def rtos_boost_def
        any_wake_def unit_nops ctx_rests_def context_switch_def task_scheduler_def del: rtos_clock_units(5))
  show "ctx_u (rtos_clock x c r) = ctx_u r" using r by (simp add: asking_def ctx_rests_def context_switch_def)
  show "sem_block (sem_u (rtos_clock x c r))" "count_r (sems (sem_u (rtos_clock x c r)) ! i) = 0"
    "length (sems (sem_u (rtos_clock x c r))) = length (sems (sem_u r))"
    "bit (sem_wait_mask_r (sems (sem_u (rtos_clock x c r)) ! i)) t \<or> 16 \<le> t"
    unfolding u using s by (auto simp: bit_set_bit_iff)
qed

text \<open>The answer is given, and the caller taken off.\<close>

lemma wait_collect:
  assumes r: "asking ts t i r" "sem_block (sem_u r)" and c: "wait_cmd i c" and t: "t < NUM_TASKS"
    and s: "i < length (sems (sem_u r))" "count_r (sems (sem_u r) ! i) = 0"
  shows "\<exists>ts'. entering ts' (rtos_clock x c r) \<and> same_status (set_state t TASK_BLOCKED ts) ts'"
    "\<not> task_active_r (rtos_clock x c r)" "current_task_id_r (rtos_clock x c r) = t"
    "sem_done_r (rtos_clock x c r)" "\<not> sem_result_r (rtos_clock x c r)" "ctx_u (rtos_clock x c r) = ctx_u r"
    "bit (sem_wait_mask_r (sems (sem_u (rtos_clock x c r)) ! i)) t"
proof -
  let ?r = "rtos_clock x c r"
  have u: "sem_u ?r = \<lparr>sems = (sems (sem_u r))[i := (sems (sem_u r) ! i)\<lparr>sem_wait_mask_r :=
        set_bit t (sem_wait_mask_r (sems (sem_u r) ! i))\<rparr>], sem_success = False, sem_block = True,
      sem_wake_task_id = 0, sem_wake_valid = False\<rparr>"
    using r s by (simp add: asking_def hw_semaphore_def Let_def wake_id_def)
  have w: "tcb_wr r = None" using r(1) by (simp add: asking_def tcb_wr_def Let_def)
  have st: "same_status ts (map slice_tick (tcbs r))" using r(1) same_status_tick by (simp add: asking_def)
  have ports: "ports ?r = no_ports\<lparr>state_port := Some (t, TASK_BLOCKED), reload_port := None\<rparr>"
    using r c by (simp add: asking_def wait_cmd_def sem_only_def state_updates no_ports_def)
  note status = state_port_status [OF st t disjI1 [OF refl], of TASK_BLOCKED, folded ports]
  have tcbs: "tcbs ?r = map slice_tick (tcbs r)" using r(1) w by (simp add: asking_def)
  have quiet: "quiet ?r"
    using r c u by (simp add: quiet_def asking_def wait_cmd_def sem_only_def state_updates rtos_boost_def any_wake_def unit_nops
        del: rtos_clock_units(5))
  have "fsm_state ?r = FSM_SCAN_READY" "sched_trigger ?r" "sched_state (sched_u ?r) = SCHED_IDLE" "ctx_rests ?r"
    using r c by (simp_all add: asking_def wait_cmd_def sem_only_def fsm_next_def block_next_def after_op_def state_updates
        ctx_rests_def context_switch_def task_scheduler_def)
  moreover have cur: "current_task_id_r ?r = t"
    using r c by (simp add: asking_def wait_cmd_def sem_only_def state_updates)
  ultimately have "entering (tcb_array (ports ?r) None (tcbs ?r)) ?r"
    using quiet t same_status_length [OF status] tcbs
    by (simp add: entering_def del: rtos_clock_regs rtos_clock_units)
  then show "\<exists>ts'. entering ts' ?r \<and> same_status (set_state t TASK_BLOCKED ts) ts'"
    using status tcbs by auto
  show "\<not> task_active_r ?r" "current_task_id_r ?r = t" "sem_done_r ?r" "\<not> sem_result_r ?r"
    using r c by (simp_all add: asking_def wait_cmd_def sem_only_def state_updates)
  show "ctx_u ?r = ctx_u r" using r by (simp add: asking_def ctx_rests_def context_switch_def)
  show "bit (sem_wait_mask_r (sems (sem_u ?r) ! i)) t"
    unfolding u using s t by (simp add: bit_set_bit_iff NUM_TASKS_def)
qed

lemma wait_rtos:
  assumes r: "resting r" "\<not> mutex_op_pending r" "\<not> msgq_op_pending r" and c: "wait_cmd i c" "wait_cmd i d" "wait_cmd i e" and t: "current_task_id_r r < NUM_TASKS"
    and s: "i < length (sems (sem_u r))" "count_r (sems (sem_u r) ! i) = 0"
  shows "case rtos_run [(x, c), (y, d), (z, e)] r of r' \<Rightarrow>
      (\<exists>ts. entering ts r' \<and> same_status (set_state (current_task_id_r r) TASK_BLOCKED (tcbs r)) ts)
      \<and> \<not> task_active_r r' \<and> current_task_id_r r' = current_task_id_r r \<and> sem_done_r r' \<and> \<not> sem_result_r r'
      \<and> ctx_u r' = ctx_u r \<and> bit (sem_wait_mask_r (sems (sem_u r') ! i)) (current_task_id_r r)"
    "\<not> sem_done_r (rtos_run [(x, c)] r)" "\<not> sem_done_r (rtos_run [(x, c), (y, d)] r)"
proof -
  define r1 where "r1 = rtos_clock x c r"
  define r2 where "r2 = rtos_clock y d r1"
  note 1 = wait_issue [OF r c(1), of x, folded r1_def]
  have s1: "i < length (sems (sem_u r1))" "count_r (sems (sem_u r1) ! i) = 0" using s 1(3) by simp_all
  note 2 = wait_exec [OF 1(1,4) c(2) s1, of y, folded r2_def]
  have s2: "i < length (sems (sem_u r2))" using s1(1) 2(5) by simp
  note 3 = wait_collect [OF 2(1,3) c(3) t s2 2(4), of z]
  have run: "rtos_run [(x, c), (y, d), (z, e)] r = rtos_clock z e r2" by (simp add: r1_def r2_def)
  show "case rtos_run [(x, c), (y, d), (z, e)] r of r' \<Rightarrow>
      (\<exists>ts. entering ts r' \<and> same_status (set_state (current_task_id_r r) TASK_BLOCKED (tcbs r)) ts)
      \<and> \<not> task_active_r r' \<and> current_task_id_r r' = current_task_id_r r \<and> sem_done_r r' \<and> \<not> sem_result_r r'
      \<and> ctx_u r' = ctx_u r \<and> bit (sem_wait_mask_r (sems (sem_u r') ! i)) (current_task_id_r r)"
    unfolding run using 3 1(2) 2(2) by (simp del: rtos_clock_regs rtos_clock_units)
  show "\<not> sem_done_r (rtos_run [(x, c)] r)" "\<not> sem_done_r (rtos_run [(x, c), (y, d)] r)"
    using 1(1) 2(1) by (simp_all add: asking_def r1_def [symmetric] r2_def [symmetric] del: rtos_clock_regs)
qed

section \<open>With the layer\<close>

lemma pair_rtos_run: "\<exists>ys. length ys = length xs \<and> snd (pair_run xs pr) = rtos_run ys (snd pr)"
proof (induction xs arbitrary: pr)
  case (Cons x xs)
  obtain p r where pr: "pr = (p, r)" by (cases pr)
  obtain ys where "length ys = length xs" "snd (pair_run xs (pair_clock x pr)) = rtos_run ys (snd (pair_clock x pr))"
    using Cons.IH [of "pair_clock x pr"] by blast
  then have "length ((in_rtos x, rtos_out p) # ys) = length (x # xs)
      \<and> snd (pair_run (x # xs) pr) = rtos_run ((in_rtos x, rtos_out p) # ys) (snd pr)"
    by (simp add: pr pair_clock_def)
  then show ?case by blast
qed simp

lemma best_ready_status:
  assumes "same_status ts ts'"
  shows "best_ready ts' = best_ready ts"
proof (cases "best_ready ts")
  case None
  then have "\<forall>i < NUM_TASKS. \<not> ready ts' i" using same_statusD(1) [OF assms] by (simp add: best_ready_None)
  with None show ?thesis by (simp add: best_ready_None [symmetric])
next
  case (Some b)
  have "\<not> (\<forall>i < NUM_TASKS. \<not> ready ts i)" using Some best_ready_None [of ts] by auto
  then have "best_ready ts' \<noteq> None" using same_statusD(1) [OF assms] by (auto simp: best_ready_None)
  then obtain c where c: "best_ready ts' = Some c" by auto
  have "is_best ts NUM_TASKS c"
    using best_ready_Some [OF c] same_statusD(1,2) [OF assms] by (auto simp: is_best_def)
  with c show ?thesis using best_ready_Some [OF Some] is_best_unique Some by auto
qed

lemma schedule_status:
  assumes "same_status ts ts'" and "cur < NUM_TASKS"
  shows "schedule cur ts' = schedule cur ts"
  using same_statusD(2,3) [OF assms(1)] assms(2) best_ready_less
  by (auto simp: schedule_def best_ready_status [OF assms(1)] split: option.split)

lemma set_state_status:
  assumes "same_status ts ts'" and "i < NUM_TASKS"
  shows "same_status (set_state i st ts) (set_state i st ts')"
proof -
  have "status ts i = status ts' i" using assms by (simp add: same_status_def)
  then have "(ts ! i)\<lparr>task_state := st, time_slice := 0\<rparr> = (ts' ! i)\<lparr>task_state := st, time_slice := 0\<rparr>"
    unfolding status_def by (cases "ts ! i"; cases "ts' ! i") simp
  then show ?thesis
    using assms(1) unfolding set_state_def by (intro status_update) (simp_all add: same_status_def)
qed

lemma wait_call:
  assumes p: "sem_call S_SEM_OP (ucast SYS_SEM_WAIT) a0 a1 p" and r: "resting r" "\<not> mutex_op_pending r" "\<not> msgq_op_pending r"
    and t: "current_task_id_r r < NUM_TASKS" and s: "unat a0 mod 8 < length (sems (sem_u r))" "count_r (sem_of a0 r) = 0"
  shows "case pair_run [x0, x1, x2] (p, r) of (p', r') \<Rightarrow>
    state_r (posix_step c (rtos_port_of r') d p') = S_COMPLETE \<and> result_r (posix_step c (rtos_port_of r') d p') = POSIX_EAGAIN
      \<and> (\<exists>ts. entering ts r' \<and> same_status (set_state (current_task_id_r r) TASK_BLOCKED (tcbs r)) ts)
      \<and> \<not> task_active_r r' \<and> current_task_id_r r' = current_task_id_r r \<and> ctx_u r' = ctx_u r
      \<and> bit (sem_wait_mask_r (sem_of a0 r')) (current_task_id_r r)"
proof -
  note num = sem_num_calls(2)
  have cmd: "wait_cmd (unat a0 mod 8) (rtos_out q)" if "sem_call st (ucast SYS_SEM_WAIT) a0 a1 q" "st = S_SEM_OP \<or> st = S_WAIT_RTOS" for st q
    using sem_call_cmd [OF that num] sem_cmd_calls(2) [OF that(1) refl] by (simp add: wait_cmd_def)
  define r1 where "r1 = rtos_run [(in_rtos x0, rtos_out p)] r"
  define p1 where "p1 = posix_step (in_ecall x0) (rtos_port_of r) (in_periph x0) p"
  define r2 where "r2 = rtos_run [(in_rtos x0, rtos_out p), (in_rtos x1, rtos_out p1)] r"
  define p2 where "p2 = posix_step (in_ecall x1) (rtos_port_of r1) (in_periph x1) p1"
  define r3 where "r3 = rtos_run [(in_rtos x0, rtos_out p), (in_rtos x1, rtos_out p1), (in_rtos x2, rtos_out p2)] r"
  define p3 where "p3 = posix_step (in_ecall x2) (rtos_port_of r2) (in_periph x2) p2"
  have p1: "sem_call S_WAIT_RTOS (ucast SYS_SEM_WAIT) a0 a1 p1" unfolding p1_def by (rule sem_call_step(1) [OF p num refl])
  note k = wait_rtos [OF r cmd [OF p disjI1 [OF refl]] cmd [OF p1 disjI2 [OF refl]] _ t s(1) s(2) [unfolded sem_of_def]]
  have "\<not> rtos_sem_done (rtos_port_of r1)"
    using k(2) [OF cmd [OF p1 disjI2 [OF refl]]] by (simp add: rtos_port_of_def r1_def del: rtos_run_simps)
  then have p2: "sem_call S_WAIT_RTOS (ucast SYS_SEM_WAIT) a0 a1 p2"
    unfolding p2_def by (rule sem_call_step(2) [OF p1 num refl])
  note c2 = cmd [OF p2 disjI2 [OF refl]]
  have "\<not> rtos_sem_done (rtos_port_of r2)"
    using k(3) [OF c2] by (simp add: rtos_port_of_def r2_def del: rtos_run_simps)
  then have p3: "sem_call S_WAIT_RTOS (ucast SYS_SEM_WAIT) a0 a1 p3"
    unfolding p3_def by (rule sem_call_step(2) [OF p2 num refl])
  have run: "pair_run [x0, x1, x2] (p, r) = (p3, r3)"
    by (simp add: pair_clock_def p3_def p2_def p1_def r3_def r2_def r1_def del: rtos_clock_regs rtos_clock_units)
  note e = k(1) [OF c2, of "in_rtos x0" "in_rtos x1" "in_rtos x2", folded r3_def]
  have ans: "rtos_sem_done (rtos_port_of r3)" "\<not> rtos_sem_result (rtos_port_of r3)"
    using e by (simp_all add: rtos_port_of_def)
  have "state_r (posix_step c (rtos_port_of r3) d p3) = S_COMPLETE" "result_r (posix_step c (rtos_port_of r3) d p3) = POSIX_EAGAIN"
    using p3 ans by (simp_all add: sem_call_def state_next_def result_next_def rtos_answer_def rtos_done_def
        syscall_category_def syscall_subop_def posix_defs Let_def)
  with e show ?thesis unfolding run prod.case by (simp add: sem_of_def)
qed

theorem wait_dispatches_another:
  assumes p: "sem_call S_SEM_OP (ucast SYS_SEM_WAIT) a0 a1 p" and r: "resting r" "\<not> mutex_op_pending r" "\<not> msgq_op_pending r"
    and t: "t = current_task_id_r r" "t < NUM_TASKS" and s: "unat a0 mod 8 < length (sems (sem_u r))" "count_r (sem_of a0 r) = 0"
    and ts: "ts = set_state t TASK_BLOCKED (tcbs r)" and n: "n = schedule t ts"
    and xs: "length xs = sched_clocks t ts + 6"
  shows "(case pair_run (take 4 xs) (p, r) of (p', _) \<Rightarrow> state_r p' = S_COMPLETE \<and> result_r p' = POSIX_EAGAIN)
    \<and> (if n \<noteq> 0 then (case pair_run xs (p, r) of (_, r') \<Rightarrow> dispatched n (set_state n TASK_RUNNING ts) r'
        \<and> ctx_u r' = ctx_u r \<and> bit (sem_wait_mask_r (sem_of a0 r')) t)
      else (case pair_run (butlast xs) (p, r) of (_, r') \<Rightarrow> fsm_state r' = FSM_IDLE \<and> \<not> task_active_r r'
        \<and> current_task_id_r r' = t \<and> same_status ts (tcbs r')
        \<and> ctx_u r' = ctx_u r \<and> bit (sem_wait_mask_r (sem_of a0 r')) t))"
proof -
  have "length xs = Suc (Suc (Suc (Suc (sched_clocks t ts + 2))))" using xs by simp
  then obtain x0 x1 x2 x3 ys where x: "xs = x0 # x1 # x2 # x3 # ys" by (auto simp only: length_Suc_conv)
  obtain p3 r3 where run: "pair_run [x0, x1, x2] (p, r) = (p3, r3)" by (cases "pair_run [x0, x1, x2] (p, r)")
  note w = wait_call [OF p r t(2) [unfolded t(1)] s, where ?x0.0 = x0 and ?x1.0 = x1 and ?x2.0 = x2, unfolded run prod.case, folded t(1), folded ts]
  from w obtain ts' where e: "entering ts' r3" "same_status ts ts'" "\<not> task_active_r r3" "current_task_id_r r3 = t"
    "ctx_u r3 = ctx_u r" "bit (sem_wait_mask_r (sem_of a0 r3)) t" by blast
  have n': "schedule (current_task_id_r r3) ts' = n" and k: "sched_clocks (current_task_id_r r3) ts' = sched_clocks t ts"
    using schedule_status [OF e(2) t(2)] n e(4) by (simp_all add: sched_clocks_def)
  have prefix: "pair_run (x0 # x1 # x2 # zs) (p, r) = pair_run zs (p3, r3)" for zs
    using pair_run_simps(3) [of "[x0, x1, x2]" zs "(p, r)"] by (simp add: run del: pair_run_simps)
  have "case pair_run xs (p, r) of (_, r') \<Rightarrow> dispatched n (set_state n TASK_RUNNING ts) r'
        \<and> ctx_u r' = ctx_u r \<and> bit (sem_wait_mask_r (sem_of a0 r')) t" if nz: "n \<noteq> 0"
  proof -
    have dn: "dispatches n r3" using nz e(3) by (simp add: dispatches_def)
    obtain zs where zs: "length zs = length (x3 # ys)" "snd (pair_run (x3 # ys) (p3, r3)) = rtos_run zs r3"
      using pair_rtos_run [of "x3 # ys" "(p3, r3)"] by auto
    have len: "length zs = sched_clocks (current_task_id_r r3) ts' + 3" using zs(1) xs x k by simp
    have "dispatched n (set_state n TASK_RUNNING ts') (rtos_run zs r3)"
      using trigger_dispatches [OF e(1) n' [symmetric] dn len] .
    moreover have "same_status (set_state n TASK_RUNNING ts) (set_state n TASK_RUNNING ts')"
      using set_state_status [OF e(2)] schedule_less [OF t(2)] n by simp
    ultimately have "dispatched n (set_state n TASK_RUNNING ts) (rtos_run zs r3)"
      using same_status_trans by (auto simp: dispatched_def)
    with trigger_same_units [OF e(1) dn [folded n'] len] zs(2) e(5,6) show ?thesis
      by (simp add: x prefix sem_of_def split_beta del: pair_run_simps)
  qed
  moreover have "case pair_run (butlast xs) (p, r) of (_, r') \<Rightarrow> fsm_state r' = FSM_IDLE \<and> \<not> task_active_r r'
        \<and> current_task_id_r r' = t \<and> same_status ts (tcbs r')
        \<and> ctx_u r' = ctx_u r \<and> bit (sem_wait_mask_r (sem_of a0 r')) t" if z: "n = 0"
  proof -
    have ne: "ys \<noteq> []" using xs x by auto
    obtain zs where zs: "length zs = length (x3 # butlast ys)" "snd (pair_run (x3 # butlast ys) (p3, r3)) = rtos_run zs r3"
      using pair_rtos_run [of "x3 # butlast ys" "(p3, r3)"] by auto
    have len: "length zs = sched_clocks (current_task_id_r r3) ts' + 2" using zs(1) xs x k by simp
    note i = trigger_idles [OF e(1) n' [unfolded z] e(3) len]
    with zs(2) ne e(2-6) same_status_trans [OF e(2) i(3)] show ?thesis
      by (simp add: x prefix sem_of_def split_beta same_task_def del: pair_run_simps)
  qed
  moreover have "pair_run (take 4 xs) (p, r) = pair_clock x3 (p3, r3)"
    using prefix [of "[x3]"] by (simp add: x)
  ultimately show ?thesis using w by (simp add: pair_clock_def)
qed

end
