(* ===== verification/Rtos_Preempt.thy ===== *)
theory Rtos_Preempt
  imports Rtos_Sched Rtos_Ops
begin

text \<open>
  The layer, the RTOS and the context switch machine of the core wired together. A scheduler that wants
  to replace a running task never gets over it: hw\_rtos.sv expects the answer of context\_switch.sv after
  the answer of the core, which comes later.
\<close>

section \<open>Three machines\<close>

record cpu_in =
  of_pair :: pair_in
  of_core :: core_in

type_synonym cpu = "(posix \<times> hw_rtos) \<times> core_ctx"

text \<open>The wires from the core to the RTOS.\<close>

definition wired :: "hw_rtos \<Rightarrow> core_ctx \<Rightarrow> cpu_in \<Rightarrow> pair_in" where
  "wired r k x = (of_pair x)\<lparr>in_rtos := (in_rtos (of_pair x))\<lparr>core_ack := ctx_switch_ack k,
     core_reg_data := ctx_save_reg_data (cpu_reg_write (ctx_u r)) (of_core x) k, core_pc := fetch_pc (of_core x)\<rparr>\<rparr>"

definition cpu_clock :: "cpu_in \<Rightarrow> cpu \<Rightarrow> cpu" where
  "cpu_clock x s = (case s of ((p, r), k) \<Rightarrow>
     (pair_clock (wired r k x) (p, r),
      core_ctx_clock (stall_pipeline (ctx_u r)) (cpu_reg_write (ctx_u r)) (of_core x) k))"

definition cpu_run :: "cpu_in list \<Rightarrow> cpu \<Rightarrow> cpu" where
  "cpu_run xs s = fold cpu_clock xs s"

lemma cpu_run_simps [simp]:
  "cpu_run [] s = s" "cpu_run (x # xs) s = cpu_run xs (cpu_clock x s)"
  "cpu_run (xs @ ys) s = cpu_run ys (cpu_run xs s)"
  by (simp_all add: cpu_run_def)

abbreviation the_layer :: "cpu \<Rightarrow> posix" where "the_layer s \<equiv> fst (fst s)"
abbreviation the_rtos :: "cpu \<Rightarrow> hw_rtos" where "the_rtos s \<equiv> snd (fst s)"
abbreviation the_core :: "cpu \<Rightarrow> core_ctx" where "the_core s \<equiv> snd s"

lemma cpu_rtos_run: "\<exists>ys. length ys = length xs \<and> the_rtos (cpu_run xs s) = rtos_run ys (the_rtos s)"
proof (induction xs rule: rev_induct)
  case (snoc x xs)
  then obtain ys where ys: "length ys = length xs" "the_rtos (cpu_run xs s) = rtos_run ys (the_rtos s)" by blast
  obtain p r k where s: "cpu_run xs s = ((p, r), k)" by (metis prod.exhaust)
  have "the_rtos (cpu_run (xs @ [x]) s) = rtos_run (ys @ [(in_rtos (wired r k x), rtos_out p)]) (the_rtos s)"
    using ys(2) s by (simp add: cpu_clock_def pair_clock_def)
  then show ?case using ys(1) by (intro exI [of _ "ys @ [(in_rtos (wired r k x), rtos_out p)]"]) simp
qed simp

section \<open>A preemption\<close>

text \<open>
  From \<open>S_PREEMPT_CHECK\<close> on: the unit is asked for one switch; when the core is done, the unit has been
  done before.
\<close>

definition unanswered :: "hw_rtos \<Rightarrow> bool" where
  "unanswered r \<longleftrightarrow> \<not> create_done_r r \<and> \<not> join_done_r r \<and> \<not> sem_done_r r \<and> \<not> mutex_done_r r \<and> \<not> msgq_done_r r"

definition switching :: "hw_rtos \<Rightarrow> core_ctx \<Rightarrow> bool" where
  "switching r k \<longleftrightarrow> task_active_r r \<and> unanswered r \<and> (let cs = ctx_state (ctx_u r); st = core_state k in
     case fsm_state r of
       FSM_PREEMPT_CHECK \<Rightarrow> ctx_rests r \<and> st = CORE_IDLE
     | FSM_WAIT_CTX_ACK \<Rightarrow>
         (cs_switch_req r \<longrightarrow> cs = CTX_IDLE \<and> st = CORE_IDLE)
         \<and> (st = CORE_RESUME \<longrightarrow> cs = CTX_IDLE)
         \<and> (st = CORE_RESTORE_REGS \<longrightarrow> cs \<noteq> CTX_SAVE)
     | FSM_CONTEXT_SAVE \<Rightarrow> ctx_rests r
     | _ \<Rightarrow> False)"

lemma switching_clock:
  assumes "switching r k"
  shows "switching (rtos_clock (in_rtos (wired r k x)) c r)
    (core_ctx_clock (stall_pipeline (ctx_u r)) (cpu_reg_write (ctx_u r)) y k)"
proof -
  consider "fsm_state r = FSM_PREEMPT_CHECK" | "fsm_state r = FSM_WAIT_CTX_ACK" | "fsm_state r = FSM_CONTEXT_SAVE"
    using assms by (cases "fsm_state r") (simp_all add: switching_def Let_def)
  then show ?thesis
  proof cases
    case 1
    then show ?thesis
      using assms by (simp add: switching_def unanswered_def fsm_next_def state_updates ctx_rests_def context_switch_def
          core_ctx_clock_def core_ctx_state_def stall_pipeline_def)
  next
    case 2
    then have r: "task_active_r r" "unanswered r" "cs_switch_req r \<Longrightarrow> ctx_state (ctx_u r) = CTX_IDLE \<and> core_state k = CORE_IDLE"
      "core_state k = CORE_RESUME \<Longrightarrow> ctx_state (ctx_u r) = CTX_IDLE" "core_state k = CORE_RESTORE_REGS \<Longrightarrow> ctx_state (ctx_u r) \<noteq> CTX_SAVE"
      using assms by (simp_all add: switching_def Let_def)
    show ?thesis
    proof (cases "core_state k")
      case CORE_RESUME
      then show ?thesis
        using 2 r by (cases "cs_switch_req r") (simp_all add: switching_def unanswered_def fsm_next_def wired_def ctx_switch_ack_def ctx_rests_def context_switch_def)
    qed (use 2 r in \<open>cases "ctx_state (ctx_u r)"; auto simp: switching_def unanswered_def fsm_next_def wired_def
          ctx_switch_ack_def context_switch_def core_ctx_clock_def core_ctx_state_def stall_pipeline_def cpu_reg_write_def Let_def\<close>)+
  next
    case 3
    then show ?thesis
      using assms by (simp add: switching_def unanswered_def fsm_next_def state_updates ctx_rests_def context_switch_def switch_done_def)
  qed
qed

lemma switching_run:
  assumes "switching (the_rtos s) (the_core s)"
  shows "switching (the_rtos (cpu_run xs s)) (the_core (cpu_run xs s))"
  using assms
proof (induction xs arbitrary: s)
  case (Cons x xs)
  obtain p r k where s: "s = ((p, r), k)" by (metis prod.exhaust)
  have "switching (the_rtos (cpu_clock x s)) (the_core (cpu_clock x s))"
    using switching_clock [of r k x "rtos_out p" "of_core x"] Cons.prems by (simp add: s cpu_clock_def pair_clock_def)
  from Cons.IH [OF this] show ?case by simp
qed simp

section \<open>It never ends\<close>

text \<open>The core is not asked for anything until then.\<close>

lemma core_waits:
  assumes "ctx_state (ctx_u r) = CTX_IDLE" and "core_state k = CORE_IDLE"
  shows "core_state (core_ctx_clock (stall_pipeline (ctx_u r)) (cpu_reg_write (ctx_u r)) x k) = CORE_IDLE"
  using assms by (simp add: core_ctx_clock_def core_ctx_state_def stall_pipeline_def)

lemma core_idle_run:
  assumes "entering ts (the_rtos s)" and "core_state (the_core s) = CORE_IDLE"
    and "length xs \<le> sched_clocks (current_task_id_r (the_rtos s)) ts + 2"
  shows "core_state (the_core (cpu_run xs s)) = CORE_IDLE"
  using assms(3)
proof (induction xs rule: rev_induct)
  case (snoc x xs)
  obtain ys where ys: "length ys = length xs" "the_rtos (cpu_run xs s) = rtos_run ys (the_rtos s)" using cpu_rtos_run by blast
  have "same_task (the_rtos s) (rtos_run ys (the_rtos s))" using snoc.prems ys(1) by (intro scan_keeps [OF assms(1)]) simp
  then have "ctx_state (ctx_u (the_rtos (cpu_run xs s))) = CTX_IDLE"
    using assms(1) by (simp add: same_task_def entering_def ctx_rests_def ys(2))
  moreover have "core_state (the_core (cpu_run xs s)) = CORE_IDLE" using snoc by simp
  moreover obtain p r k where "cpu_run xs s = ((p, r), k)" by (metis prod.exhaust)
  ultimately show ?case using core_waits [of r k "of_core x"] by (simp add: cpu_clock_def)
qed (use assms(2) in simp)

lemma decided_preempt:
  assumes "decided ts r" and "task_active_r r" "schedule (current_task_id_r r) ts \<noteq> current_task_id_r r"
    and "core_state k = CORE_IDLE"
  shows "switching (rtos_clock i c r) k"
proof -
  have r: "fsm_state r = FSM_COMPARE_PRIORITY" "ctx_rests r" "next_task_id_reg (sched_u r) \<noteq> current_task_id_r r"
    using assms by (simp_all add: decided_def)
  show ?thesis
    using assms(2,4) r
    by (simp add: switching_def unanswered_def fsm_next_def compare_next_def ctx_rests_def context_switch_def)
qed

text \<open>A call that waits for the RTOS.\<close>

definition waits_for_answer :: "posix \<Rightarrow> bool" where
  "waits_for_answer p \<longleftrightarrow> state_r p = S_WAIT_RTOS \<and> syscall_category p < 4"

lemma waits_clock:
  assumes "waits_for_answer p" and "unanswered r"
  shows "waits_for_answer (posix_step c (rtos_port_of r) d p)"
  using assms
  by (auto simp: waits_for_answer_def unanswered_def state_next_def rtos_done_def rtos_port_of_def syscall_category_def
      posix_step_latched Let_def)

lemma waits_run:
  assumes "switching (the_rtos s) (the_core s)" and "waits_for_answer (the_layer s)"
  shows "waits_for_answer (the_layer (cpu_run xs s))"
  using assms
proof (induction xs arbitrary: s)
  case (Cons x xs)
  obtain p r k where s: "s = ((p, r), k)" by (metis prod.exhaust)
  have "switching (the_rtos (cpu_clock x s)) (the_core (cpu_clock x s))"
    using switching_run [OF Cons.prems(1), of "[x]"] by simp
  moreover have "unanswered r" using Cons.prems(1) by (simp add: s switching_def)
  then have "waits_for_answer (the_layer (cpu_clock x s))"
    using Cons.prems(2) waits_clock [of p r] by (simp add: s cpu_clock_def pair_clock_def)
  ultimately show ?case using Cons.IH by simp
qed simp

theorem preemption_never_ends:
  assumes r: "entering ts (the_rtos s)" "task_active_r (the_rtos s)"
    and pre: "schedule (current_task_id_r (the_rtos s)) ts \<noteq> current_task_id_r (the_rtos s)"
    and k: "core_state (the_core s) = CORE_IDLE"
    and xs: "sched_clocks (current_task_id_r (the_rtos s)) ts + 2 \<le> length xs"
  shows "fsm_state (the_rtos (cpu_run xs s)) \<in> {FSM_PREEMPT_CHECK, FSM_WAIT_CTX_ACK, FSM_CONTEXT_SAVE}
    \<and> unanswered (the_rtos (cpu_run xs s))
    \<and> (waits_for_answer (the_layer (cpu_run xs s)) \<longrightarrow> waits_for_answer (the_layer (cpu_run (xs @ ys) s)))"
proof -
  let ?n = "sched_clocks (current_task_id_r (the_rtos s)) ts"
  define s1 where "s1 = cpu_run (take (?n + 1) xs) s"
  obtain zs where zs: "length zs = ?n + 1" "the_rtos s1 = rtos_run zs (the_rtos s)"
    using cpu_rtos_run [of "take (?n + 1) xs" s] xs by (auto simp: s1_def)
  have d: "decided ts (the_rtos s1)" "same_task (the_rtos s) (the_rtos s1)"
    using scan_decides [OF r(1) zs(1)] by (simp_all add: zs(2))
  obtain x xs' where x: "drop (?n + 1) xs = x # xs'" using xs by (cases "drop (?n + 1) xs") auto
  obtain p1 r1 k1 where s1: "s1 = ((p1, r1), k1)" by (metis prod.exhaust)
  have c1: "core_state (the_core (cpu_clock x s1)) = CORE_IDLE"
  proof -
    have "cpu_clock x s1 = cpu_run (take (?n + 1) xs @ [x]) s" by (simp add: s1_def)
    moreover have "core_state (the_core (cpu_run (take (?n + 1) xs @ [x]) s)) = CORE_IDLE"
      using xs by (intro core_idle_run [OF r(1) k]) simp
    ultimately show ?thesis by simp
  qed
  have r1: "task_active_r r1" "schedule (current_task_id_r r1) ts \<noteq> current_task_id_r r1" "decided ts r1"
    using d r(2) pre s1 by (simp_all add: same_task_def)
  have "switching (the_rtos (cpu_clock x s1)) (the_core (cpu_clock x s1))"
    using decided_preempt [OF r1(3,1,2) c1, of "in_rtos (wired r1 k1 x)" "rtos_out p1"]
    by (simp add: s1 cpu_clock_def pair_clock_def)
  from switching_run [OF this, of xs'] have sw: "switching (the_rtos (cpu_run xs s)) (the_core (cpu_run xs s))"
    using append_take_drop_id [of "?n + 1" xs, symmetric] by (metis cpu_run_simps(2,3) s1_def x)
  then have "fsm_state (the_rtos (cpu_run xs s)) \<in> {FSM_PREEMPT_CHECK, FSM_WAIT_CTX_ACK, FSM_CONTEXT_SAVE}"
    by (cases "fsm_state (the_rtos (cpu_run xs s))") (simp_all add: switching_def Let_def)
  with sw waits_run [OF sw, of ys] show ?thesis by (simp add: switching_def)
qed

end
