(* ===== verification/Rtos_Prio.thy ===== *)
theory Rtos_Prio
  imports Rtos_Sched Rtos_Ops
begin

text \<open>
  Priority inheritance in the RTOS: what becomes of the priority that hw\_mutex.sv asks for. hw\_rtos.sv
  enables the write of a whole task control block one clock after it has taken the number and the
  priority from the registers meant for it, unless the mutex unit asks again.
\<close>

section \<open>The delayed write\<close>

lemma update_keeps_boost [simp]:
  "tcb_wr_en (rtos_state_update c r (rtos_latch i c r)) = prio_boost_wr_pending r"
  "tcb_rd_id (rtos_state_update c r (rtos_latch i c r)) = tcb_rd_id r"
  "\<not> prio_boost_wr_pending (rtos_state_update c r (rtos_latch i c r))"
  by (cases "fsm_state r"; simp add: state_updates split: option.split)+

lemma boost_asked:
  assumes "prio_boost (mutex_u r) = Some (j, v)"
  shows "prio_boost_wr_pending (rtos_clock i c r)" "tcb_rd_id (rtos_clock i c r) = j"
    "prio_boost_id_r (rtos_clock i c r) = j" "prio_boost_val_r (rtos_clock i c r) = v"
  using assms by (simp_all add: rtos_boost_def)

text \<open>Asked for once, the write goes to block 0, without the new priority.\<close>

lemma boost_once:
  assumes "prio_boost_wr_pending r" and "prio_boost (mutex_u r) = None"
  shows "tcb_wr (rtos_clock i c r) = Some (0, tcbs (rtos_clock i c r) ! tcb_rd_id r)"
  using assms by (simp add: tcb_wr_def rtos_boost_def Let_def del: rtos_clock_units)

text \<open>Asked for twice in a row, it goes where it should.\<close>

lemma boost_twice:
  assumes "prio_boost_wr_pending r" and "prio_boost (mutex_u r) = Some (j, v)"
  shows "tcb_wr (rtos_clock i c r) = Some (j, (tcbs (rtos_clock i c r) ! j)\<lparr>prio_level := v\<rparr>)"
  using assms by (simp add: tcb_wr_def rtos_boost_def Let_def del: rtos_clock_units)

section \<open>An unlock by the owner\<close>

text \<open>No task control block is being written.\<close>

definition tcbs_rest :: "hw_rtos \<Rightarrow> bool" where
  "tcbs_rest r \<longleftrightarrow> ports r = no_ports \<and> \<not> tcb_wr_en r \<and> \<not> prio_boost_wr_pending r \<and> length (tcbs r) = NUM_TASKS"

lemma mutex_ports:
  assumes "mutex_at ps st op pend dn num a0 t u pr" and "mutex_num num" and "ps \<in> {S_MUTEX_OP, S_WAIT_RTOS}"
    and "st = FSM_IDLE \<or> st = FSM_BLOCK_TASK" and "\<not> mutex_block u" "st = FSM_BLOCK_TASK \<longrightarrow> pend"
  shows "ports (snd (pair_clock x pr)) = no_ports"
proof -
  obtain p r where pr: "pr = (p, r)" by (cases pr)
  have "latched_syscall_num p = ucast num" "state_r p = S_MUTEX_OP \<or> state_r p = S_WAIT_RTOS"
    using assms(1,3) pr by (auto simp: mutex_at_def)
  note req = mutex_request [OF this(1) assms(2) this(2)]
  show ?thesis
    using assms(1,4-6) req pr
    by (elim disjE) (simp_all add: mutex_at_def pair_clock_def rtos_issue_def rtos_collect_def Let_def)
qed

lemma tcbs_rest_clock:
  assumes "tcbs_rest r" and "ports (rtos_clock i c r) = no_ports" and "prio_boost (mutex_u r) = None"
  shows "tcbs_rest (rtos_clock i c r)" "tcbs (rtos_clock i c r) = map slice_tick (tcbs r)"
  using assms by (simp_all add: tcbs_rest_def tcb_wr_def rtos_boost_def Let_def del: rtos_clock_regs(8))

text \<open>What the unit does in an UNLOCK by the owner, and in the one that follows.\<close>

lemma owner_unlocks:
  fixes u :: mutex_unit and prio :: task_prio
  assumes "locked_r (mutexes u ! i)" "owner_id_r (mutexes u ! i) = t"
  defines "w \<equiv> best_wake prio (mutex_wait_mask_r (mutexes u ! i))" and "u' \<equiv> hw_mutex 2 i t prio u"
  shows "mutex_success u'" "\<not> mutex_block u'" "mutex_wake_valid u' \<longleftrightarrow> w \<noteq> None" "mutex_wake_task_id u' = wake_id w"
    "prio_boost u' = Some (t, original_prio_r (mutexes u ! i))"
    and "\<not> bit (mutex_wait_mask_r (mutexes u ! i)) t \<Longrightarrow> i < length (mutexes u)
      \<Longrightarrow> \<not> (locked_r (mutexes u' ! i) \<and> owner_id_r (mutexes u' ! i) = t)"
  using assms by (auto simp: hw_mutex_def Let_def wake_id_def split: option.split dest: best_wake_Some)

lemma other_unlocks:
  assumes "\<not> (locked_r (mutexes u ! i) \<and> owner_id_r (mutexes u ! i) = t)"
  shows "prio_boost (hw_mutex 2 i t prio u) = None" "\<not> mutex_wake_valid (hw_mutex 2 i t prio u)"
    "\<not> mutex_block (hw_mutex 2 i t prio u)"
  using assms by (auto simp: hw_mutex_def Let_def)

lemma nop_boost: "prio_boost (hw_mutex 0 i t prio u) = None" "\<not> mutex_wake_valid (hw_mutex 0 i t prio u)"
  by (simp_all add: hw_mutex_def Let_def)

text \<open>The request reaches the unit, which executes it.\<close>

lemma unlock_starts:
  fixes x0 x1 :: pair_in and a0 :: u32 and pr :: "posix \<times> hw_rtos"
  assumes at: "mutex_at S_MUTEX_OP FSM_IDLE 0 False False SYS_MUTEX_LOCK a0 t u pr" "mutex_low u" "prio_boost u = None"
    and r: "tcbs_rest (snd pr)"
  defines "i \<equiv> unat a0 mod 8" and "pr2 \<equiv> pair_clock x1 (pair_clock x0 pr)"
  shows "\<exists>u1 prio. mutexes u1 = mutexes u \<and> (\<forall>j < NUM_TASKS. prio j = task_prios (snd pr) j)
    \<and> mutex_at S_WAIT_RTOS FSM_BLOCK_TASK 2 True False SYS_MUTEX_LOCK a0 t (hw_mutex 2 i t prio u1) pr2
    \<and> tcbs_rest (snd pr2) \<and> same_status (tcbs (snd pr)) (tcbs (snd pr2))"
proof -
  note n = mutex_nums(1,2)
  define pr1 where "pr1 = pair_clock x0 pr"
  define u1 where "u1 = hw_mutex 0 (mutex_id_int (snd pr)) t (task_prios (snd pr)) u"
  have u1: "mutexes u1 = mutexes u" "mutex_low u1" "prio_boost u1 = None"
    using hw_mutex_nop_unit [of 0] nop_boost(1) by (simp_all add: u1_def)
  have a1: "mutex_at S_WAIT_RTOS FSM_BLOCK_TASK 2 True False SYS_MUTEX_LOCK a0 t u1 pr1"
    using mutex_issue [OF at(1) n(1) at(2), of x0] n(2) by (simp add: pr1_def u1_def)
  have a2: "mutex_at S_WAIT_RTOS FSM_BLOCK_TASK 2 True False SYS_MUTEX_LOCK a0 t (hw_mutex 2 i t (task_prios (snd pr1)) u1) pr2"
    using mutex_exec [OF a1 n(1) u1(2), of x1] n(2) by (simp add: pr2_def pr1_def i_def)
  have ports: "ports (snd pr1) = no_ports" "ports (snd pr2) = no_ports"
    using mutex_ports [OF at(1) n(1), of x0] mutex_ports [OF a1 n(1), of x1] at(2) u1(2)
    by (simp_all add: pr1_def [symmetric] pr2_def mutex_low_def)
  have units: "mutex_u (snd pr) = u" "mutex_u (snd pr1) = u1" using at(1) a1 by (auto simp: mutex_at_def)
  have clk: "\<exists>i c. snd (pair_clock x q) = rtos_clock i c (snd q)" for x q
    by (cases q) (auto simp: pair_clock_def)
  have t1: "tcbs_rest (snd pr1)" "tcbs (snd pr1) = map slice_tick (tcbs (snd pr))"
    using clk [of x0 pr] tcbs_rest_clock [OF r] ports(1) at(3) units(1) unfolding pr1_def by metis+
  have t2: "tcbs_rest (snd pr2)" "tcbs (snd pr2) = map slice_tick (tcbs (snd pr1))"
    using clk [of x1 pr1] tcbs_rest_clock [OF t1(1)] ports(2) u1(3) units(2) unfolding pr2_def pr1_def by metis+
  have len: "length (tcbs (snd pr)) = NUM_TASKS" using r by (simp add: tcbs_rest_def)
  have "task_prios (snd pr1) j = task_prios (snd pr) j" if "j < NUM_TASKS" for j
    using that len t1(2) by (simp add: task_prios_def slice_tick_def)
  moreover have "same_status (tcbs (snd pr)) (tcbs (snd pr2))"
    unfolding t2(2) t1(2) by (intro same_status_tick same_status_refl len)
  ultimately show ?thesis using u1(1) a2 t2(1) by blast
qed

text \<open>The three clocks after that, in the RTOS.\<close>

lemma latch_wake [simp]:
  "wake_target_id (rtos_latch i c r) =
     (if sem_wake_valid (sem_u r) then sem_wake_task_id (sem_u r)
      else if mutex_wake_valid (mutex_u r) then mutex_wake_task_id (mutex_u r)
      else if msgq_wake_valid (msgq_u r) then msgq_wake_task_id (msgq_u r) else wake_target_id r)"
  by (simp add: rtos_latch_def Let_def)

lemma unlock_ends:
  assumes r: "fsm_state r = FSM_BLOCK_TASK" "mutex_op_pending r" "\<not> sem_op_pending r" "mutex_op_int r = 2" "mutex_id_int r = i"
      "current_task_id_r r = t" "\<not> wake_pending r" "sem_op_int r = 0" "msgq_op_int r = 0"
      "\<not> sem_wake_valid (sem_u r)" "\<not> msgq_wake_valid (msgq_u r)"
    and u: "mutex_success (mutex_u r)" "\<not> mutex_block (mutex_u r)" "mutex_wake_valid (mutex_u r) \<longleftrightarrow> w \<noteq> None"
      "mutex_wake_task_id (mutex_u r) = wake_id w" "prio_boost (mutex_u r) = Some (t, v)"
      "\<not> (locked_r (mutexes (mutex_u r) ! i) \<and> owner_id_r (mutexes (mutex_u r) ! i) = t)"
    and ts: "tcbs_rest r" and c: "\<not> rtos_task_exit c" "\<not> rtos_task_create c'" "\<not> rtos_task_yield c'" and t: "t < NUM_TASKS"
  shows "tcbs (rtos_clock k'' c'' (rtos_clock k' c' (rtos_clock k c r)))
    = (let ts = map slice_tick (map slice_tick (map slice_tick (tcbs r))); ts = ts[0 := map slice_tick (map slice_tick (tcbs r)) ! t]
       in case w of None \<Rightarrow> ts | Some j \<Rightarrow> ts[j := (ts ! j)\<lparr>task_state := TASK_READY\<rparr>])"
proof -
  define r1 where "r1 = rtos_clock k c r"
  define r2 where "r2 = rtos_clock k' c' r1"
  have b1: "prio_boost_wr_pending r1" "tcb_rd_id r1 = t" using boost_asked [OF u(5)] by (simp_all add: r1_def)
  have u1: "prio_boost (mutex_u r1) = None" "\<not> mutex_wake_valid (mutex_u r1)"
    using r(4-6) other_unlocks [OF u(6)] by (simp_all add: r1_def)
  have r1: "ports r1 = no_ports" "tcbs r1 = map slice_tick (tcbs r)" "tcb_wr r1 = None"
    "fsm_state r1 = (if w = None then FSM_IDLE else FSM_UNBLOCK_TASK)"
    "w \<noteq> None \<longrightarrow> wake_pending r1 \<and> wake_target_id r1 = wake_id w"
    using r u ts c(1)
    by (auto simp: r1_def fsm_next_def block_next_def after_op_def any_wake_def rtos_collect_def tcbs_rest_def tcb_wr_def Let_def)
  have r2: "tcbs r2 = map slice_tick (map slice_tick (tcbs r))" "tcb_wr r2 = Some (0, map slice_tick (map slice_tick (tcbs r)) ! t)"
    using r1(1-3) boost_once [OF b1(1) u1(1), of k' c'] b1(2) by (simp_all add: r2_def)
  have "ports r2 = no_ports\<lparr>state_port := map_option (\<lambda>j. (j, TASK_READY)) w\<rparr>"
    using r1(4,5) c(2,3) by (cases w) (auto simp: r2_def wake_id_def rtos_issue_def rtos_unblock_def put_state_def no_ports_def)
  then show ?thesis
    using r2 by (simp add: r1_def [symmetric] r2_def [symmetric] tcb_array_def tcb_port_defs no_ports_def Let_def split: option.split)
qed

theorem unlock_overwrites_block:
  assumes at: "mutex_at S_MUTEX_OP FSM_IDLE 0 False False SYS_MUTEX_LOCK a0 t u pr" "mutex_low u" "prio_boost u = None"
    and m: "length (mutexes u) = NUM_MUTEXES" "m = mutexes u ! (unat a0 mod 8)" "locked_r m" "owner_id_r m = t"
      "\<not> bit (mutex_wait_mask_r m) t"
    and r: "tcbs_rest (snd pr)" "t < NUM_TASKS" and xs: "length xs = 5" and j: "j < NUM_TASKS"
  shows "status (tcbs (snd (pair_run xs pr))) j = (let b = status (tcbs (snd pr)) (if j = 0 then t else j) in
    if best_wake (task_prios (snd pr)) (mutex_wait_mask_r m) = Some j then b\<lparr>task_state := TASK_READY\<rparr> else b)"
proof -
  let ?i = "unat a0 mod 8"
  obtain x0 x1 x2 x3 x4 where x: "xs = [x0, x1, x2, x3, x4]"
    using xs by (auto simp: numeral_eq_Suc length_Suc_conv)
  define w where "w = best_wake (task_prios (snd pr)) (mutex_wait_mask_r m)"
  define pr2 where "pr2 = pair_clock x1 (pair_clock x0 pr)"
  obtain u1 prio where u1: "mutexes u1 = mutexes u" "\<forall>j < NUM_TASKS. prio j = task_prios (snd pr) j"
    and a2: "mutex_at S_WAIT_RTOS FSM_BLOCK_TASK 2 True False SYS_MUTEX_LOCK a0 t (hw_mutex 2 ?i t prio u1) pr2"
    and t2: "tcbs_rest (snd pr2)" "same_status (tcbs (snd pr)) (tcbs (snd pr2))"
    using unlock_starts [OF at r(1), of x1 x0] unfolding pr2_def by blast
  have "best_wake prio (mutex_wait_mask_r m) = w"
    unfolding w_def by (rule best_wake_cong) (use u1(2) in \<open>simp add: NUM_TASKS_def\<close>)
  note o = owner_unlocks [of u1 ?i t prio, unfolded u1(1), folded m(2), OF m(3,4), unfolded this]
  have i: "?i < length (mutexes u)" using m(1) by (simp add: NUM_MUTEXES_def)
  obtain p2 r2 where pr2: "pr2 = (p2, r2)" by (cases pr2)
  have num: "latched_syscall_num p2 = ucast SYS_MUTEX_LOCK" "state_r p2 = S_MUTEX_OP \<or> state_r p2 = S_WAIT_RTOS"
    using a2 by (simp_all add: mutex_at_def pr2)
  note req = mutex_request [OF num(1) mutex_nums(1) num(2)]
  have r2: "fsm_state r2 = FSM_BLOCK_TASK" "mutex_op_pending r2" "\<not> sem_op_pending r2" "mutex_op_int r2 = 2" "mutex_id_int r2 = ?i"
    "current_task_id_r r2 = t" "\<not> wake_pending r2" "sem_op_int r2 = 0" "msgq_op_int r2 = 0"
    "\<not> sem_wake_valid (sem_u r2)" "\<not> msgq_wake_valid (msgq_u r2)" "mutex_u r2 = hw_mutex 2 ?i t prio u1" "\<not> mutex_done_r r2"
    using a2 by (simp_all add: mutex_at_def pr2)
  define p3 where "p3 = posix_step (in_ecall x2) (rtos_port_of r2) (in_periph x2) p2"
  have "state_r p3 = S_WAIT_RTOS" "latched_syscall_num p3 = ucast SYS_MUTEX_LOCK"
    using num mutex_num_done [OF num(1) mutex_nums(1)] a2 r2(13)
    by (auto simp: p3_def mutex_at_def pr2 posix_step_latched rtos_port_of_def)
  note req3 = mutex_request [OF this(2) mutex_nums(1) disjI2 [OF this(1)]]
  define r3 where "r3 = rtos_clock (in_rtos x2) (rtos_out p2) r2"
  obtain p4 where 4: "pair_clock x3 (p3, r3) = (p4, rtos_clock (in_rtos x3) (rtos_out p3) r3)"
    by (simp add: pair_clock_def)
  have "pair_clock x2 pr2 = (p3, r3)" by (simp add: pr2 pair_clock_def p3_def r3_def)
  then have "pair_run xs pr = pair_clock x4 (p4, rtos_clock (in_rtos x3) (rtos_out p3) r3)"
    by (simp add: x pr2_def [symmetric] 4)
  then have last: "snd (pair_run xs pr) = rtos_clock (in_rtos x4) (rtos_out p4) (rtos_clock (in_rtos x3) (rtos_out p3)
      (rtos_clock (in_rtos x2) (rtos_out p2) r2))"
    by (simp add: pair_clock_def r3_def)
  have "tcbs (snd (pair_run xs pr)) = (let ts = map slice_tick (map slice_tick (map slice_tick (tcbs r2)));
        ts = ts[0 := map slice_tick (map slice_tick (tcbs r2)) ! t]
       in case w of None \<Rightarrow> ts | Some j \<Rightarrow> ts[j := (ts ! j)\<lparr>task_state := TASK_READY\<rparr>])"
    unfolding last
    by (rule unlock_ends [where i = ?i and t = t]) (use r2 o m(5) i t2(1) r(2) req req3 in \<open>simp_all add: u1(1) pr2\<close>)
  moreover have len: "length (tcbs r2) = NUM_TASKS" using t2(1) by (simp add: tcbs_rest_def pr2)
  moreover have "\<forall>j < NUM_TASKS. status (tcbs (snd pr)) j = status (tcbs r2) j" using t2(2) by (simp add: same_status_def pr2)
  moreover have "j' < NUM_TASKS" if "w = Some j'" for j' using best_wake_Some [of _ _ j'] that by (auto simp: w_def NUM_TASKS_def)
  ultimately show ?thesis
    using j r(2) unfolding w_def [symmetric]
    by (auto simp: Let_def status_def nth_list_update slice_tick_def split: option.split)
qed

end
