(* ===== verification/Rtos_Demo.thy ===== *)
theory Rtos_Demo
  imports Rtos_Wait Rtos_Preempt Rtos_Prio Rtos_Wf
begin

text \<open>
  Concrete states of the RTOS and the core, at which the properties of the RTOS are instantiated.
\<close>

text \<open>Two tasks, with their priorities, of which the first may run.\<close>

definition two_tasks :: "4 word \<Rightarrow> 4 word \<Rightarrow> tcb list" where
  "two_tasks a b = tcb_reset[1 := new_task 1 0 0 a, 2 := new_task 2 0 0 b]"

definition running_first :: "4 word \<Rightarrow> 4 word \<Rightarrow> tcb list" where
  "running_first a b = set_state 1 TASK_RUNNING (two_tasks a b)"

lemma two_tasks_length [simp]: "length (two_tasks a b) = NUM_TASKS" "length (running_first a b) = NUM_TASKS"
  by (simp_all add: two_tasks_def running_first_def set_state_def tcb_reset_def)

lemmas demo_tasks = two_tasks_def running_first_def set_state_def new_task_def tcb_reset_def NUM_TASKS_def

lemma demo_schedule:
  "schedule 0 (two_tasks 3 7) = 2" "schedule (Suc 0) (running_first 3 7) = 2"
  "schedule (Suc 0) (set_state (Suc 0) TASK_BLOCKED (running_first 3 2)) = 2"
  by (simp_all add: demo_tasks schedule_def best_ready_def ready_def upt_rec)

text \<open>Task 1 runs, and nothing is going on; or a timer tick has just asked for the scheduler.\<close>

definition idle_with :: "tcb list \<Rightarrow> hw_rtos" where
  "idle_with ts = rtos_reset\<lparr>task_active_r := True, current_task_id_r := 1, tcbs := ts\<rparr>"

definition tick_with :: "tcb list \<Rightarrow> hw_rtos" where
  "tick_with ts = (idle_with ts)\<lparr>fsm_state := FSM_SCAN_READY, sched_trigger := True\<rparr>"

lemma idle_with_rests: "length ts = NUM_TASKS \<Longrightarrow> resting (idle_with ts)"
  using resting_reset by (simp add: resting_def idle_with_def quiet_def any_wake_def ctx_rests_def)

lemma tick_enters: "length ts = NUM_TASKS \<Longrightarrow> entering (map slice_tick ts) (tick_with ts)"
  using resting_reset
  by (simp add: resting_def entering_def tick_with_def idle_with_def quiet_def any_wake_def ctx_rests_def)
    (simp add: NUM_TASKS_def)

lemma before_tasks_reset: "before_tasks rtos_reset"
  unfolding before_tasks_def using resting_reset by (simp add: rtos_reset_def tcb_reset_def NUM_TASKS_def)

text \<open>A core whose registers hold their numbers.\<close>

definition numbered_core :: core_ctx where
  "numbered_core = \<lparr>core_state = CORE_IDLE, ctx_reg_counter = 0, regs = map of_nat [0..<32]\<rparr>"

definition still_input :: core_in where
  "still_input = \<lparr>other_rs1 = 0, fetch_pc = 0, syscall_active = False, wb_write = None\<rparr>"

text \<open>Task 1, of priority 3, holds mutex 0 at the priority 5 of task 2, which waits for it.\<close>

definition owner_unit :: mutex_unit where
  "owner_unit = mutex_reset\<lparr>mutexes := (mutexes mutex_reset)[0 := \<lparr>locked_r = True, owner_id_r = 1, original_prio_r = 3,
     mutex_wait_mask_r = 4\<rparr>]\<rparr>"

definition owner_rtos :: hw_rtos where
  "owner_rtos = (idle_with (set_state 2 TASK_BLOCKED (running_first 5 5)))\<lparr>mutex_u := owner_unit\<rparr>"

lemma owner_ready:
  "mutex_at S_MUTEX_OP FSM_IDLE 0 False False SYS_MUTEX_LOCK 0 1 owner_unit (layer_with S_MUTEX_OP SYS_MUTEX_LOCK, owner_rtos)"
  "mutex_low owner_unit" "prio_boost owner_unit = None" "length (mutexes owner_unit) = NUM_MUTEXES"
  "locked_r (mutexes owner_unit ! (unat (0 :: u32) mod 8))" "owner_id_r (mutexes owner_unit ! (unat (0 :: u32) mod 8)) = 1"
  "\<not> bit (mutex_wait_mask_r (mutexes owner_unit ! (unat (0 :: u32) mod 8))) 1"
  "tcbs_rest owner_rtos" "best_wake prio (mutex_wait_mask_r (mutexes owner_unit ! 0)) = Some 2"
  by (simp_all add: owner_unit_def owner_rtos_def idle_with_def mutex_reset_def NUM_MUTEXES_def mutex_low_def mutex_at_def
      layer_with_def rtos_reset_def posix_reset_def sem_reset_def msgq_reset_def tcbs_rest_def set_state_def best_wake_def upt_rec)

text \<open>The core asks for the creation of a task.\<close>

definition create_request :: pair_in where
  "create_request = no_input\<lparr>in_ecall := \<lparr>ecall_req = True, syscall_num = ucast SYS_PTHREAD_CREATE, syscall_arg0 = 0,
     syscall_arg1 = 0, syscall_arg2 = 0\<rparr>\<rparr>"

end
