(* ===== verification/Spec2Isabelle.thy ===== *)
theory Spec2Isabelle
  imports Soc_Shell Soc_Bus Soc_Gpio Soc_Multitask Uart_Loop Rtos_Demo
begin

text \<open>
  VSync is a RISC-V system on chip: an RV32IM core with a hardware RTOS and a POSIX layer in hardware
  (rtl/), and bare-metal C software that runs on it (sw/): a small C library whose functions are
  \<open>ecall\<close> stubs, a monitor shell and three example programs. This development models all of the C code,
  and of the hardware what the C code talks to: the UART, the GPIO, the timer, the POSIX layer, the
  RTOS, the bus and the bridges between them, at the level of clock edges. The properties of this theory are
  about the programs on that hardware, and about the parts.

  \<^bold>\<open>The parts and their theories.\<close>

  \<^item> Vocabulary: \<open>VSync_Prelude\<close>. C strings are byte lists with a NUL; a C function that can spin for
    ever, or could leave an object it works on, has an option result. \<open>None\<close> is that; a theorem
    \<open>returns Q (f x)\<close> states that the function returns, stays in bounds, and that \<open>Q\<close> holds.
  \<^item> sw/lib/vsync\_hw.h: the register map in \<open>VSync_Hw\<close>. Volatile accesses, \<open>ecall\<close>, \<open>csrci\<close> and the final
    jump are operations of a \<open>platform\<close> over a world type, in \<open>Platform\<close>; each appends an event to the
    trace of the \<open>machine\<close>. An observation (\<open>obs\<close>) is what a piece of the trace means at the console.
  \<^item> sw/lib/vsync\_posix.h and vsync\_posix.c: \<open>Posix_Lib\<close>, every stub and the byte-wise \<open>write\<close>; \<open>memcpy\<close>
    and \<open>memset\<close> in \<open>Str_Util\<close>.
  \<^item> sw/examples/shell.c: the conversions in \<open>Num_Conv\<close>, strings in \<open>Str_Util\<close>, \<open>parse_args\<close> in \<open>Arg_Parser\<close>,
    the static variables as the record \<open>shell\<close> and the input and output functions in \<open>Shell_IO\<close>,
    \<open>shell_readline\<close> in \<open>Line_Editor\<close>, \<open>peek\<close>, \<open>poke\<close>, \<open>load\<close> and \<open>go\<close> in \<open>Memory_Commands\<close>, the other
    commands in \<open>Device_Commands\<close>, the command table, the dispatcher and \<open>main\<close> in \<open>Shell_Main\<close>,
    the sessions that never end in \<open>Shell_Hangs\<close>.
  \<^item> sw/examples/hello\_uart.c, gpio\_blink.c and multitask.c: \<open>Examples\<close>.
  \<^item> rtl/peripherals/uart\_apb.sv: the FIFOs in \<open>Ring_Fifo\<close>, registers and transmitter in \<open>Uart_Apb\<close>, the
    frame on the line in \<open>Uart_Line\<close>, the receiver in \<open>Uart_Rx\<close>, both connected in \<open>Uart_Loop\<close>.
  \<^item> rtl/peripherals/gpio\_apb.sv, with the sixteen pins of vsync\_top.sv, in \<open>Gpio_Apb\<close>, rtl/interrupt/clint.sv in \<open>Clint\<close>.
  \<^item> rtl/posix/posix\_hw\_layer.sv in \<open>Posix_Layer\<close>: state machine, descriptor table, results, commands to
    the RTOS.
  \<^item> rtl/rtos/hw\_semaphore.sv, hw\_mutex.sv and hw\_msgqueue.sv in \<open>Rtos_Sync\<close>; tcb\_array.sv and
    task\_scheduler.sv in \<open>Rtos_Tasks\<close>; context\_switch.sv and the part of rtl/core/rv32im\_core.sv it works
    with in \<open>Rtos_Switch\<close>; hw\_rtos.sv, all states of its machine and the units it drives, in \<open>Hw_Rtos\<close>
    (state \<open>hw_rtos\<close>, one clock \<open>rtos_clock\<close>).
  \<^item> What the RTOS does: \<open>Rtos_Ops\<close> (calls on semaphores and mutexes through the POSIX layer), \<open>Rtos_Sched\<close>
    (from a trigger of the scheduler to a dispatch), \<open>Rtos_Create\<close>, \<open>Rtos_Wait\<close>, \<open>Rtos_Preempt\<close>, \<open>Rtos_Prio\<close>,
    and the invariant of all reachable states in \<open>Rtos_Wf\<close>; concrete states for the witnesses in \<open>Rtos_Demo\<close>.
  \<^item> The bus: \<open>Axi_Bus\<close> has rtl/bus/axi4\_master.sv, axi4\_interconnect.sv and axi4\_apb\_bridge.sv, the bridges
    of vsync\_top.sv to the two block memories, rtl/memory/hyperram\_ctrl.sv and the register ports of
    hw\_rtos.sv and posix\_hw\_layer.sv, as one clocked state (\<open>bus\<close>, \<open>bus_clock\<close>). \<open>Axi_Access\<close> follows an
    access from the command to the end, for each kind of address.
  \<^item> rtl/top/vsync\_top.sv and the system call sequence of rtl/core/rv32im\_core.sv in \<open>Soc_Clock\<close>: the state
    \<open>soc\<close>, one clock of all devices (\<open>soc_clock\<close>), and the loads, stores and calls of the core as sequences
    of clocks (\<open>soc_platform\<close>). \<open>Soc_Bus\<close> clocks the bus and the devices together.

  \<^bold>\<open>How they fit together.\<close> What the shell needs of a machine is stated as locales: \<open>output_port\<close> (which accesses
  end, a byte written when there was room is sent, room comes), \<open>terminal\<close> (the keys typed arrive in order, and only
  a read of the receive register takes one) and \<open>timed_terminal\<close> (the two halves of the timer settle).
  Everything about the shell (\<open>Console\<close>, \<open>Line_Editor\<close> and the command theories) is proved once inside
  them, also that a command which makes an access without an end does not return. \<open>Soc_Calls\<close> follows the calls through the layer and the bridge, \<open>Soc\<close> interprets the locales
  on the SoC, and \<open>Soc_Files\<close> shows that the layer implements a table of descriptors. \<open>clocked_queue\<close> is
  what the UART needs of its FIFOs, interpreted on the ring buffer. \<open>Soc_Safety\<close> has the invariants of all
  reachable states; \<open>Soc_Shell\<close>, \<open>Soc_Examples\<close>, \<open>Soc_Gpio\<close> and \<open>Soc_Multitask\<close> put the programs on the SoC.
  \<open>pair_run\<close> (\<open>Rtos_Ops\<close>) runs the POSIX layer and the RTOS side by side, and \<open>cpu_run\<close> (\<open>Rtos_Preempt\<close>) the
  context switch machine of the core as well. A clock of \<open>soc\<close> is a clock of that pair (\<open>Soc_Rtos\<close>, lemma
  \<open>soc_pair\<close>), so that what holds of all states of the pair holds on the SoC. \<open>Rtos_Free\<close> follows the RTOS
  before a program has made a task, under any behaviour of the timer, the core and the bus; \<open>Soc_Rtos\<close>
  concludes which calls return.

  \<^bold>\<open>What the groups of properties show.\<close> The shell on the SoC: from reset to the jump, all that is
  printed is what the session demands. The commands and the console: each function returns and does what
  its specification (\<open>peek_does\<close>, \<open>edit\<close>, ...) says, on every branch, or makes an access that never ends
  and does not return. The bus: which accesses end, and that these are the accesses of \<open>Soc_Clock\<close>,
  values included. The
  system calls: which return, with
  what result, and what they change. The devices: invariants, queues, frames. The RTOS: what the calls on
  semaphores and mutexes do to the units and to the state of the RTOS, that a message queue is a queue, that the scheduler chooses the
  best ready task, what a creation, a wait, a context switch and a preemption come to, and that every
  reachable state is well formed. Numbers and strings: each
  routine against a mathematical definition, with round trips. Examples: the programs on the SoC.

  \<^bold>\<open>Bounds and assumptions.\<close> Time on the bus is a parameter of the properties of the programs: before and
  after each access and each call pass \<open>delay_at\<close> clocks, any number below \<open>2 ^ 16\<close> that may differ at each
  clock; the properties of the bus show that the bus is such a choice, with at most 38 clocks from a command
  to its end. The timer argument uses only that three reads take less than \<open>2 ^ 32\<close> clocks. An access of which
  the bus gives no end has no result in the programs (\<open>load_ends\<close>, \<open>store_ends\<close> of \<open>soc_platform\<close>, justified
  by the same properties). The user types when he likes (\<open>key_at\<close>, fair: again and again), but not into a full
  receive FIFO: a byte that arrives then is lost in the hardware, and nothing is claimed for it. In the
  programs, loads from an address without a device read 0, and those from the memories and the PLIC
  \<open>other_read\<close>, an arbitrary value at each time; the property of the bus says which. Stores are claimed to keep the
  machine only where they cannot change the program or its console (\<open>soc_harmless\<close>): the GPIO, the timer, the
  PLIC, the registers of the RTOS and of the POSIX layer, addresses without a device, and the part of the
  memories that the program leaves free (\<open>spare_ram\<close>); so not the UART and the memory of the program, and
  not the HyperRAM, where no store ends.
  There is no fuel: the loops of the shell are partial functions and are shown to return; the loops of the
  hardware are counted in clocks.

  \<^bold>\<open>Not modelled.\<close> The core beyond its bus commands, the timing of its system calls and its context
  switches, and the contents of the memories (the C semantics stands for them). On the bus, accesses of less
  than a word, bursts and response codes, which the core does not look at. Of the hardware RTOS the PMP unit,
  whose write enables hw\_rtos.sv holds low; the two writes to its registers that reach the state machine
  are inputs of \<open>rtos_clock\<close> in the SoC (\<open>to_rtos\<close>, with the acknowledgement of the core and the register it
  shows), which may come at any clock. The programs are those of one task:
  \<open>soc_platform\<close> does not switch to another program when the RTOS dispatches a task, so that multitask.c is
  followed until it has created its first task, where it stops anyway. Also left out: the
  PLIC and the pins of the HyperRAM; interrupts, which the programs do not
  use; start.S, the linker script, the Makefile, the test benches and the FPGA files.
\<close>

section \<open>The shell on the SoC\<close>

text \<open>
  C1. The shell on the SoC, from reset: \<open>main\<close> opens the UART, prints the banner and runs rounds as
  \<open>session\<close> says until a \<open>go\<close> leaves it; the bytes the UART accepted meanwhile are the banner and the
  texts of the session, all of them and in order. The user may type at any pace. The keys he types must
  come to such a \<open>go\<close>, and to the end of every \<open>load\<close>; on the way there the commands may load from any
  address where the bus ends it, that is not from the registers of the RTOS or of the POSIX layer, before
  the last round also not from the receive register of the UART; and they may store only where
  \<open>soc_harmless\<close> says: not to the UART, to the memory of the program, or to the HyperRAM.
\<close>

theorem shell_runs_on_soc:
  assumes "bootable (hw s)" and "fair E" and "sized s" and "fit s"
    and "leaves (soc_harmless E) bus_answers ks" and "pending (hw s) = ks @ later"
  shows "returns (\<lambda>(r, s'). \<exists>a os rest. r = Jumped a \<and> session ks os a rest
      \<and> soc_sent (hw s') = soc_sent (hw s) @ banner_text @ texts os) (shell_main (soc_platform E) s)"
  by (rule shell_on_soc [OF assms])

theorem shell_runs_on_soc_witness:
  "returns (\<lambda>(r, s'). \<exists>a os rest. r = Jumped a \<and> session go_keys os a rest
      \<and> soc_sent (hw s') = soc_sent (soc_reset go_keys) @ banner_text @ texts os)
    (shell_main (soc_platform bench) (shell_start go_keys))"
  using shell_runs_on_soc [of "shell_start go_keys" bench go_keys "[]"]
  by (simp add: soc_reset_bootable bench_fair go_leaves_shell shell_start_typed)

text \<open>
  C2. One round of the main loop: prompt, line, command. When the keys typed end the line, and the \<open>load\<close> if it
  is one, and its command stores only where \<open>soc_harmless\<close> says (not to the UART, the memory of the program
  or the HyperRAM) and loads nothing from the registers of the RTOS and of the POSIX layer (as \<open>rtos\<close> does),
  the round does what \<open>round_does\<close> says of the keys, and leaves a machine that is ready for another.
\<close>

theorem round_on_soc:
  assumes "shell_ready E s" and "fit s" and "soc_typed (hw s) ks" and "round_ok (soc_harmless E) bus_answers ks"
  shows "returns (\<lambda>(out, s'). \<exists>os rest. round_does ks os out rest \<and> shell_reached E s os s' \<and> fit s'
      \<and> shell_ready E s') (shell_round (soc_platform E) s)"
  using soc.round_said [OF assms]
  by (rule returns_mono) (auto simp: reached_def intro: said_ready)

theorem round_on_soc_witness:
  "returns (\<lambda>(out, s'). \<exists>os rest. round_does go_keys os out rest \<and> shell_reached bench (shell_start go_keys) os s'
      \<and> fit s' \<and> shell_ready bench s') (shell_round (soc_platform bench) (shell_start go_keys))"
  using round_on_soc [of bench "shell_start go_keys" go_keys] go_leaves_shell
  by (auto simp: shell_start_typed elim: leaves.cases)

text \<open>
  C3. The shell stops for ever when the user asks for an access that the bus does not end: \<open>main\<close> does not
  return when the session comes to \<open>rtos\<close>, to a \<open>peek\<close> of a register of the RTOS or of the POSIX layer, to a
  \<open>poke\<close> there or in the HyperRAM, or to a \<open>load\<close> whose stores go to the HyperRAM, or else where
  \<open>soc_harmless\<close> says. Before that the session makes rounds that come back, without stores to the UART or the memory
  of the program, and without a load from the receive register of the UART.
\<close>

theorem shell_stops_on_soc:
  assumes "bootable (hw s)" and "fair E" and "sized s" and "fit s"
    and "sticks (soc_harmless E) (\<lambda>a. \<not> bus_accepts a) bus_answers ks" and "pending (hw s) = ks @ later"
  shows "shell_main (soc_platform E) s = None"
  by (rule shell_sticks [OF assms])

theorem shell_stops_on_soc_witness:
  "shell_main (soc_platform bench) (shell_start rtos_keys) = None"
  using shell_stops_on_soc [of "shell_start rtos_keys" bench rtos_keys "[]"]
  by (simp add: soc_reset_bootable bench_fair rtos_sticks shell_start_typed)

section \<open>The commands\<close>

text \<open>
  C4. \<open>cmd_uptime\<close> returns: the loop that reads the two halves of the 64-bit timer until the high half
  did not change ends, the value is that of a round without a change, and the text is the time in
  days, hours, minutes and seconds of the whole seconds modulo \<open>2 ^ 32\<close>.
\<close>

theorem uptime_on_soc:
  assumes "shell_ready E s"
  shows "returns (\<lambda>s'. \<exists>os. uptime_does os \<and> shell_did E s os s') (cmd_uptime (soc_platform E) s)"
  by (rule soc.uptime_said [OF assms])

theorem uptime_on_soc_witness:
  "returns (\<lambda>s'. \<exists>os. uptime_does os \<and> shell_did bench (shell_start []) os s')
    (cmd_uptime (soc_platform bench) (shell_start []))"
  by (rule uptime_on_soc) simp

text \<open>
  C5. \<open>cmd_load\<close> does what \<open>load_keys\<close> says when the keys typed end the input: one store per valid line, to
  consecutive words from the address on, comments and malformed lines skipped, until an empty line, a
  line with a full stop or a cancelled one; then it prints the count and the range, and returns. If one
  of its stores goes to the HyperRAM it never returns. In both cases every other store must be to an
  address of \<open>soc_harmless\<close>, that is not to the UART nor to the memory of the program.
\<close>

theorem load_on_soc:
  assumes "shell_ready E s" and "args_are s ws" and "soc_typed (hw s) ks" and "length (line_buf s) = 80"
    and "load_does ws ks os rest" and "accesses_ok (\<lambda>a. soc_harmless E a \<or> \<not> bus_accepts a) bus_answers os"
  shows "if accesses_ok (soc_harmless E) bus_answers os
    then returns (\<lambda>s'. \<exists>b. length b = 80 \<and> shell_did E (s\<lparr>line_buf := b\<rparr>) os s') (cmd_load (soc_platform E) s)
    else cmd_load (soc_platform E) s = None"
proof (cases "accesses_ok (soc_harmless E) bus_answers os")
  case True
  from soc.load_said [OF assms(1-5) True] True show ?thesis by (auto simp: soc.loaded_def elim: returns_mono)
next
  case False
  have "accesses_ok (\<lambda>a. soc_harmless E a \<or> soc.never_stores E a) bus_answers os"
    by (rule accesses_ok_mono [OF assms(6)]) (use soc_never in blast)
  from soc.load_hangs [OF assms(1-5) this False] False show ?thesis by simp
qed

theorem load_on_soc_witness:
  "(\<exists>os. Act (Store 0xF000 0xB7) \<in> set os
      \<and> returns (\<lambda>s'. \<exists>b. length b = 80
          \<and> shell_did bench ((with_words load_words (shell_start load_typed))\<lparr>line_buf := b\<rparr>) os s')
        (cmd_load (soc_platform bench) (with_words load_words (shell_start load_typed))))
    \<and> cmd_load (soc_platform bench) (with_words load_hyper_words (shell_start load_typed)) = None"
proof
  have ok: "args_are (with_words load_words (shell_start load_typed)) load_words"
    "args_are (with_words load_hyper_words (shell_start load_typed)) load_hyper_words"
    by (auto intro!: with_words_args simp: literal_simps load_words_def load_hyper_words_def)
  note claim = load_on_soc [OF shell_start_ready(2), where ks = load_typed]
  obtain os where os: "load_does load_words load_typed os []" "accesses_ok (soc_harmless bench) bus_answers os"
    "Act (Store 0xF000 0xB7) \<in> set os" using load_typed_does by blast
  have "accesses_ok (\<lambda>a. soc_harmless bench a \<or> \<not> bus_accepts a) bus_answers os"
    by (rule accesses_ok_mono [OF os(2)]) simp
  with claim [OF ok(1) _ _ os(1)] os(2,3) show "\<exists>os. Act (Store 0xF000 0xB7) \<in> set os
      \<and> returns (\<lambda>s'. \<exists>b. length b = 80
          \<and> shell_did bench ((with_words load_words (shell_start load_typed))\<lparr>line_buf := b\<rparr>) os s')
        (cmd_load (soc_platform bench) (with_words load_words (shell_start load_typed)))"
    by (auto simp: shell_start_typed)
  obtain os where h: "load_does load_hyper_words load_typed os []" "\<not> accesses_ok (soc_harmless bench) bus_answers os"
    "accesses_ok (\<lambda>a. soc_harmless bench a \<or> \<not> bus_accepts a) bus_answers os" using load_hyper_does by blast
  from claim [OF ok(2) _ _ h(1,3)] h(2) show
    "cmd_load (soc_platform bench) (with_words load_hyper_words (shell_start load_typed)) = None"
    by (simp add: shell_start_typed)
qed

text \<open>
  C6. \<open>cmd_peek\<close> prints what it loads: at most sixteen words from the address rounded down to a word, or
  the message for a missing or malformed argument. It returns unless one of the words is a register of
  the RTOS or of the POSIX layer; then it never does.
\<close>

theorem peek_on_soc:
  assumes "shell_ready E s" and "args_are s ws"
  shows "if list_all bus_answers (peek_addrs ws)
    then returns (\<lambda>s'. \<exists>os. peek_does ws os \<and> shell_did E s os s') (cmd_peek (soc_platform E) s)
    else cmd_peek (soc_platform E) s = None"
proof (cases "list_all bus_answers (peek_addrs ws)")
  case True
  with soc.peek_said [OF assms] show ?thesis by simp
next
  case False
  have "list_all (\<lambda>a. bus_answers a \<or> soc.never_loads E a) (peek_addrs ws)" using soc_never by (auto simp: list_all_iff)
  from soc.peek_hangs [OF assms this False] False show ?thesis by simp
qed

theorem peek_on_soc_witness:
  "returns (\<lambda>s'. \<exists>os. peek_does [ascii ''peek'', ascii ''10000008''] os
      \<and> shell_did bench (with_words [ascii ''peek'', ascii ''10000008''] (shell_start [])) os s')
    (cmd_peek (soc_platform bench) (with_words [ascii ''peek'', ascii ''10000008''] (shell_start [])))
    \<and> cmd_peek (soc_platform bench) (with_words [ascii ''peek'', ascii ''11000000''] (shell_start [])) = None"
proof -
  have "peek_addrs [ascii ''peek'', ascii ''10000008''] = [0x10000008]"
    "peek_addrs [ascii ''peek'', ascii ''11000000''] = [0x11000000]"
    by (simp_all add: peek_addrs_def words_to_peek_def ascii_def parse_hex_spec_def is_hex_def hex_val_def
        hex_nibble_def digits_value_def One_nat_def)
  moreover have "bus_answers 0x10000008" "\<not> bus_answers 0x11000000"
    by (simp_all add: bus_answers_def rtos_page_def posix_page_def in_page_def hw_defs)
  ultimately have "list_all bus_answers (peek_addrs [ascii ''peek'', ascii ''10000008''])"
    "\<not> list_all bus_answers (peek_addrs [ascii ''peek'', ascii ''11000000''])" by simp_all
  moreover have "args_are (with_words [ascii ''peek'', ascii x] (shell_start [])) [ascii ''peek'', ascii x]"
    if "CHR 0x00 \<notin> set x" for x
    using that by (auto intro!: with_words_args simp: literal_simps)
  then have "args_are (with_words [ascii ''peek'', ascii ''10000008''] (shell_start [])) [ascii ''peek'', ascii ''10000008'']"
    "args_are (with_words [ascii ''peek'', ascii ''11000000''] (shell_start [])) [ascii ''peek'', ascii ''11000000'']"
    by simp_all
  note peek_on_soc [OF shell_start_ready(2) this(1)] peek_on_soc [OF shell_start_ready(2) this(2)]
  ultimately show ?thesis by (simp only: if_True if_False simp_thms)
qed

text \<open>
  C7. \<open>cmd_poke\<close> stores the value at the address rounded down to a word, reads it back, and prints both;
  with a missing or malformed argument it stores nothing and says so; that is claimed for an address of
  \<open>soc_harmless\<close>, which leaves out the UART and the memory of the program, and where a load ends. It never
  returns when the address is in the HyperRAM, where the store does not end, or in the registers of the
  RTOS or of the POSIX layer, where the readback does not.
\<close>

theorem poke_on_soc:
  assumes "shell_ready E s" and "args_are s ws"
  shows "((\<forall>os. poke_does ws os \<longrightarrow> accesses_ok (soc_harmless E) bus_answers os) \<longrightarrow>
      returns (\<lambda>s'. \<exists>os. poke_does ws os \<and> shell_did E s os s') (cmd_poke (soc_platform E) s))
    \<and> (3 \<le> length ws \<and> parse_hex_spec (ws ! 1) = Parsed a \<and> parse_hex_spec (ws ! 2) = Parsed v
      \<and> (\<not> bus_accepts (a AND NOT 3) \<or> \<not> bus_answers (a AND NOT 3)) \<longrightarrow> cmd_poke (soc_platform E) s = None)"
proof (intro conjI impI)
  show "returns (\<lambda>s'. \<exists>os. poke_does ws os \<and> shell_did E s os s') (cmd_poke (soc_platform E) s)"
    if "\<forall>os. poke_does ws os \<longrightarrow> accesses_ok (soc_harmless E) bus_answers os"
    by (rule soc.poke_said [OF assms]) (use that in blast)
  show "cmd_poke (soc_platform E) s = None"
    if "3 \<le> length ws \<and> parse_hex_spec (ws ! 1) = Parsed a \<and> parse_hex_spec (ws ! 2) = Parsed v
      \<and> (\<not> bus_accepts (a AND NOT 3) \<or> \<not> bus_answers (a AND NOT 3))"
    using that soc_never
    by (intro soc.poke_hangs [OF assms, of a v]) (auto simp: soc_harmless_def bus_answers_def)
qed

theorem poke_on_soc_witness:
  "returns (\<lambda>s'. \<exists>os. poke_does [ascii ''poke'', ascii ''F000'', ascii ''A5''] os
      \<and> shell_did bench (with_words [ascii ''poke'', ascii ''F000'', ascii ''A5''] (shell_start [])) os s')
    (cmd_poke (soc_platform bench) (with_words [ascii ''poke'', ascii ''F000'', ascii ''A5''] (shell_start [])))
    \<and> cmd_poke (soc_platform bench) (with_words [ascii ''poke'', ascii ''20000000'', ascii ''A5''] (shell_start [])) = None"
proof -
  have parse: "parse_hex_spec (ascii ''F000'') = Parsed 0xF000" "parse_hex_spec (ascii ''A5'') = Parsed 0xA5"
    "parse_hex_spec (ascii ''20000000'') = Parsed 0x20000000"
    by (simp_all add: ascii_def parse_hex_spec_def is_hex_def hex_val_def hex_nibble_def digits_value_def)
  then have "\<forall>os. poke_does [ascii ''poke'', ascii ''F000'', ascii ''A5''] os
      \<longrightarrow> accesses_ok (soc_harmless bench) bus_answers os"
    by (auto simp: poke_does_def bench_pages simp del: map_append)
  moreover have args: "args_are (with_words [ascii ''poke'', ascii x, ascii ''A5''] (shell_start []))
      [ascii ''poke'', ascii x, ascii ''A5'']" if "CHR 0x00 \<notin> set x" for x
    using that by (auto intro!: with_words_args simp: literal_simps)
  moreover have "CHR 0x00 \<notin> set ''F000''" "CHR 0x00 \<notin> set ''20000000''" by simp_all
  note poke_on_soc [OF shell_start_ready(2) args [OF this(1)]]
    poke_on_soc [OF shell_start_ready(2) args [OF this(2)], where a = "0x20000000" and v = "0xA5"]
  ultimately show ?thesis using parse bench_pages(4) by simp
qed

text \<open>
  C8. \<open>cmd_go\<close> waits until the transmit FIFO is empty, disables interrupts and jumps to the address, as
  the last thing it does; with a malformed address it says so and comes back.
\<close>

theorem go_on_soc:
  assumes "shell_ready E s" and "args_are s ws"
  shows "returns (\<lambda>(out, s'). \<exists>os. go_does ws os out \<and> shell_did E s os s') (cmd_go (soc_platform E) s)"
  by (rule soc.go_said [OF assms])

theorem go_on_soc_witness:
  "returns (\<lambda>(out, s'). \<exists>os. go_does [ascii ''go'', ascii ''100''] os out
      \<and> shell_did bench (with_words [ascii ''go'', ascii ''100''] (shell_start [])) os s')
    (cmd_go (soc_platform bench) (with_words [ascii ''go'', ascii ''100''] (shell_start [])))"
  by (rule go_on_soc) (auto intro!: with_words_args simp: literal_simps)

section \<open>The console\<close>

text \<open>
  C9. \<open>shell_readline\<close> does what the line editor \<open>edit\<close> says: it echoes, erases, ignores and cancels as
  specified, stops at the key that ends the line, and leaves in the buffer the line typed, with a NUL,
  or for a cancelled line the empty string and the result -1. It never writes outside the buffer.
\<close>

theorem readline_edits:
  assumes "edit n [] ks = Some (os, res, rest)" and "length buf = Suc n"
    and "shell_ready E s" and "soc_typed (hw s) ks"
  shows "returns (\<lambda>(len, buf', s'). shell_did E s os s' \<and> soc_typed (hw s') rest \<and> entered n res len buf')
    (shell_readline (soc_platform E) buf (int n + 1) s)"
  by (rule soc.readline_said [OF assms])

theorem readline_edits_witness:
  "returns (\<lambda>(len, buf', s'). shell_did bench (shell_start [104, 120, 8, 105, 13])
      [Key 104, Text 104, Key 120, Text 120, Key 8, Text 8, Text 32, Text 8, Key 105, Text 105, Key 13, Text 13, Text 10] s'
      \<and> soc_typed (hw s') [] \<and> entered 79 (Some [104, 105]) len buf')
    (shell_readline (soc_platform bench) (replicate 80 0) (int 79 + 1) (shell_start [104, 120, 8, 105, 13]))"
  by (rule readline_edits [where ks = "[104, 120, 8, 105, 13]"]) (simp_all add: after_def CRLF_def shell_start_typed)

text \<open>
  C10. \<open>shell_putchar\<close> returns, whatever the transmitter is busy with, and hands exactly its byte to the
  UART: after polls of the status that found the FIFO full and one that did not.
  \<open>shell_getchar_blocking\<close> returns once the user has typed a key, with that key, and takes no other.
\<close>

theorem console_io_returns:
  assumes "shell_ready E s"
  shows "returns (shell_did E s [Text b]) (shell_putchar (soc_platform E) b s)
    \<and> (soc_typed (hw s) (c # cs) \<longrightarrow>
        returns (\<lambda>(k, s'). k = uint c \<and> shell_did E s [Key c] s' \<and> soc_typed (hw s') cs)
          (shell_getchar_blocking (soc_platform E) s))"
proof (intro conjI impI)
  show "returns (shell_did E s [Text b]) (shell_putchar (soc_platform E) b s)" by (rule soc.putchar_said [OF assms])
  assume typed: "soc_typed (hw s) (c # cs)"
  have "uint c = uint c \<and> shell_did E s [Key c] s' \<and> soc_typed (hw s') cs" if "shell_did E s [Key c] s'" for s'
    using that typed soc.typed_after [of E s c "[]" s' cs] by simp
  with soc.getchar_said [OF assms typed]
  show "returns (\<lambda>(k, s'). k = uint c \<and> shell_did E s [Key c] s' \<and> soc_typed (hw s') cs)
      (shell_getchar_blocking (soc_platform E) s)"
    by (auto elim!: returns_mono)
qed

theorem console_io_returns_witness:
  "returns (shell_did bench (shell_start []) [Text 65]) (shell_putchar (soc_platform bench) 65 (shell_start []))
    \<and> returns (\<lambda>(k, s'). k = uint (3 :: byte) \<and> shell_did bench (shell_start [3]) [Key 3] s' \<and> soc_typed (hw s') [])
      (shell_getchar_blocking (soc_platform bench) (shell_start [3]))"
  using console_io_returns [of bench "shell_start []" 65] console_io_returns [of bench "shell_start [3]" 65 3 "[]"]
  by (simp add: shell_start_typed)

section \<open>The C library and the system calls\<close>

text \<open>
  C11. \<open>open\<close> and \<open>close\<close> implement \<open>open_spec\<close> and \<open>close_spec\<close> on the descriptor table. \<open>open\<close> takes the lowest
  free descriptor from 3 on and returns it, or EMFILE; a device type above 4 gets ENOENT, and the
  descriptor is taken all the same. \<open>close\<close> frees an open descriptor from 3 on, refuses the standard ones
  with EPERM and closed ones with EBADF, and touches no other descriptor.
\<close>

theorem file_calls_implement:
  assumes "serving (hw s)"
  shows "(\<exists>w'. sys_returns SYS_OPEN [t, flags] (fst (open_spec t (soc_table (hw s)))) w' s
        (posix_open (soc_platform E) t flags s)
      \<and> soc_table w' = snd (open_spec t (soc_table (hw s))) \<and> serving w' \<and> undisturbed (hw s) w')
    \<and> (\<exists>w'. sys_returns SYS_CLOSE [fd] (fst (close_spec fd (soc_table (hw s)))) w' s
        (posix_close (soc_platform E) fd s)
      \<and> soc_table w' = snd (close_spec fd (soc_table (hw s))) \<and> serving w' \<and> undisturbed (hw s) w')"
  by (intro conjI open_refines [OF assms] close_refines [OF assms])

theorem file_calls_implement_witness:
  "(\<exists>w'. sys_returns SYS_OPEN [5, 0] POSIX_ENOENT w' (shell_start []) (posix_open (soc_platform bench) 5 0 (shell_start []))
      \<and> soc_table w' 3 = Some 5)
    \<and> (\<exists>w'. sys_returns SYS_CLOSE [1] POSIX_EPERM w' (shell_start []) (posix_close (soc_platform bench) 1 (shell_start []))
      \<and> soc_table w' 1 = Some FD_TYPE_UART)"
proof -
  have "lowest_free (soc_table (soc_reset [])) = Some 3" "soc_table (soc_reset []) 1 = Some FD_TYPE_UART"
    by (simp_all add: lowest_free_def soc_table_def table_of_def soc_reset_def posix_reset_def MAX_FD_def upt_rec nth_append)
  then have "open_spec 5 (soc_table (soc_reset [])) = (POSIX_ENOENT, (soc_table (soc_reset []))(3 \<mapsto> 5))"
    "close_spec 1 (soc_table (soc_reset [])) = (POSIX_EPERM, soc_table (soc_reset []))"
    "soc_table (soc_reset []) 1 = Some FD_TYPE_UART"
    by (simp_all add: open_spec_def close_spec_def)
  with file_calls_implement [of "shell_start []" 5 0 bench 1] show ?thesis
    by (auto simp: soc_reset_serving)
qed

text \<open>
  C12. Which system calls return, whatever their arguments and the state of the devices. One that does not
  wait for the RTOS always does. Of those that wait, while the RTOS is free (\<open>rtos_free\<close>: no task has been
  made, and any operation it is in will be answered; so after reset, but no more after a \<open>sem_post\<close> that
  leaves it waiting because it came one or two below the maximum): all but \<open>mutex_unlock\<close> (0x13), \<open>mq_receive\<close>
  (0x32) and \<open>mq_timedreceive\<close> (0x34), which hang; and \<open>sem_post\<close>, when moreover no operation is in progress,
  exactly unless nobody waits and the semaphore is at its maximum (as it is before it is initialised).
  The timer, the core and the AXI bus may disturb the RTOS at every clock.
\<close>

theorem calls_return:
  assumes "idle_ctl w" and "uart_wf (soc_uart w)"
  shows "(\<not> needs_rtos num \<longrightarrow> soc_syscall E num args w \<noteq> None)
    \<and> (needs_rtos num \<and> rtos_free (soc_rtos w) \<and> ucast num \<noteq> (0x24 :: byte) \<longrightarrow>
        (soc_syscall E num args w = None \<longleftrightarrow> ucast num \<in> {0x13, 0x32, 0x34 :: byte}))
    \<and> (settled (soc_rtos w) \<longrightarrow> (soc_syscall E SYS_SEM_POST (a # args) w = None
        \<longleftrightarrow> sem_full (sems (sem_u (soc_rtos w)) ! (unat a mod 8))))"
  using call_returns [OF assms, of num E args] rtos_calls_end [where w = w and num = num and E = E and args = args]
    post_ends [where w = w and a = a and E = E and args = args] assms
  by (auto simp: calm_def)

theorem calls_return_witness:
  "soc_syscall bench 0x7F [] (soc_reset []) \<noteq> None \<and> soc_syscall bench SYS_SEM_WAIT [0] (soc_reset []) \<noteq> None
    \<and> soc_syscall bench SYS_MUTEX_UNLOCK [0] (soc_reset []) = None \<and> soc_syscall bench SYS_SEM_POST [0] (soc_reset []) = None"
proof -
  have n: "\<not> needs_rtos 0x7F" "needs_rtos SYS_SEM_WAIT" "needs_rtos SYS_MUTEX_UNLOCK"
    by (simp_all add: needs_rtos_def waits_for_rtos_def call_state_def decode_state_def syscall_category_def posix_defs)
  have b: "ucast SYS_SEM_WAIT = (0x21 :: byte)" "ucast SYS_MUTEX_UNLOCK = (0x13 :: byte)" by (simp_all add: posix_defs)
  note r = calls_return [OF soc_reset_idle(1,2) [of "[]"], where E = bench] and free = soc_reset_free [of "[]"]
  show ?thesis
    using r [where num = "0x7F" and args = "[]"] r [where num = SYS_SEM_WAIT and args = "[0]"]
      r [where num = SYS_MUTEX_UNLOCK and args = "[0]"] r [where a = 0 and args = "[]"] n b free
      soc_reset_settled [of "[]"] soc_reset_full [of 0 "[]"] by (simp add: NUM_SEMS_def)
qed

text \<open>
  C13. A \<open>read\<close> from a descriptor on the UART returns 0 whatever was received, and takes the next
  received byte from the UART: the byte is lost.
\<close>

theorem read_loses_byte:
  assumes "idle_ctl w" and "uart_wf (soc_uart w)" and "unat fd < 16" and "fd_valid (soc_posix w) ! unat fd"
    and "fd_base_addr (soc_posix w) ! unat fd = UART_BASE" and "fd_type_r (soc_posix w) ! unat fd = FD_TYPE_UART"
    and "fifo_items (rx_ring (soc_uart w)) \<noteq> []"
  shows "\<exists>w'. soc_syscall E SYS_READ [fd, buf, n] w = Some (0, w') \<and> idle_ctl w' \<and> uart_wf (soc_uart w')
    \<and> pending w' = tl (pending w) \<and> accepted (soc_uart w') = accepted (soc_uart w)"
  by (rule read_call [OF assms])

theorem read_loses_byte_witness:
  "\<exists>w'. soc_syscall bench SYS_READ [0, 0x10000, 1] (soc_clock bench apb_none ecall_none (soc_reset [65, 66])) = Some (0, w')
    \<and> idle_ctl w' \<and> uart_wf (soc_uart w') \<and> pending w' = [66]"
proof -
  let ?w = "soc_clock bench apb_none ecall_none (soc_reset [65, 66])"
  note c = idle_ctl_clock(1,2) [OF soc_reset_idle(1) [of "[65, 66]"] ecall_none_simps, where E = bench and q = apb_none]
  have p: "pending ?w = [65, 66]" and i: "fifo_items (rx_ring (soc_uart ?w)) \<noteq> []" and wf: "uart_wf (soc_uart ?w)"
    using reset_receives [of 65 "[66]"] by simp_all
  have "fd_valid (soc_posix ?w) ! 0" "fd_base_addr (soc_posix ?w) ! 0 = UART_BASE"
    "fd_type_r (soc_posix ?w) ! 0 = FD_TYPE_UART"
    using c(2) posix_reset_table(2) by (simp_all add: same_fds_def std_open_def soc_reset_def)
  with read_loses_byte [OF c(1) wf, of 0 bench "0x10000" 1] i p show ?thesis by auto
qed

text \<open>
  C14. Every clock and timer call returns 0 and changes no descriptor and nothing of the UART:
  \<open>clock_gettime\<close> delivers no time and \<open>nanosleep\<close> does not wait for any.
\<close>

theorem timer_calls_return_zero:
  assumes "idle_ctl w" and "uart_wf (soc_uart w)" and "call_state num = S_TIMER_OP"
  shows "\<exists>w'. soc_syscall E num args w = Some (0, w') \<and> idle_ctl w' \<and> same_fds w w' \<and> undisturbed w w'"
  by (rule timer_call [OF assms])

theorem timer_calls_return_zero_witness:
  "\<exists>w'. soc_syscall bench SYS_NANOSLEEP [0x10000, 0] (soc_reset []) = Some (0, w') \<and> idle_ctl w'
    \<and> same_fds (soc_reset []) w' \<and> undisturbed (soc_reset []) w'"
  by (rule timer_calls_return_zero [OF soc_reset_idle])
    (simp add: call_state_def decode_state_def syscall_category_def posix_defs)

section \<open>The bus\<close>

text \<open>
  C15. Which accesses of the core the bus ends, from an idle bus, whatever the memories and the registers
  answer: every load but those from the registers of the RTOS and of the POSIX layer, and every store but
  those to the HyperRAM. The others are never done: the interconnect shows the address of a load for one
  clock only, and never the address and the data of a store together.
\<close>

theorem bus_ends_accesses:
  assumes "commanded wr a d ins b" and "idle_ctl w"
  shows "(\<exists>n. bus_done (fst (soc_bus_run E ins n (b, w))))
    \<longleftrightarrow> (if wr then \<not> hyperram_page a else \<not> rtos_page a \<and> \<not> posix_page a)"
  using bus_access_iff [OF assms, of E] by (simp add: access_ends_def bus_accepts_def bus_answers_def)

theorem bus_ends_accesses_witness:
  "(\<exists>n. bus_done (fst (soc_bus_run bench (one_access False 0x20000000 0) n (bus_reset, soc_reset []))))
    \<and> \<not> (\<exists>n. bus_done (fst (soc_bus_run bench (one_access True 0x20000000 0) n (bus_reset, soc_reset []))))"
  using bus_ends_accesses [OF one_access_commanded soc_reset_idle(1), of bench False "0x20000000" 0 "[]"]
    bus_ends_accesses [OF one_access_commanded soc_reset_idle(1), of bench True "0x20000000" 0 "[]"]
  by (simp add: hyperram_page_def rtos_page_def posix_page_def in_page_def hw_defs)

text \<open>
  C16. An access that ends is what \<open>Soc_Clock\<close> says of it: after at most 38 clocks of the master, the
  interconnect, the bridges and the devices together, the devices are in the state that \<open>cpu_load\<close> or
  \<open>cpu_store\<close> leads to with some latency \<open>f\<close>, and the bus is idle again one clock later. A load delivers
  the value of \<open>cpu_load\<close>: for the UART, the GPIO and the timer that of the register in the clocked device,
  for an address without a device 0, and else what the block memory, the HyperRAM or the PLIC shows the bus at the
  clock at which it is read (\<open>memory_read\<close>).
\<close>

theorem bus_implements_accesses:
  assumes "commanded wr a d ins b" and "idle_ctl w" and "access_ends wr a"
  shows "\<exists>n f. n \<le> 38 \<and> bus_done (fst (soc_bus_run E ins n (b, w)))
    \<and> bus_idle (fst (soc_bus_run E ins (Suc n) (b, w)))
    \<and> snd (soc_bus_run E ins n (b, w)) = access_with E f wr a d w
    \<and> (\<not> wr \<longrightarrow> rdata_reg (bus_master (fst (soc_bus_run E ins n (b, w))))
        = fst (cpu_load (E\<lparr>delay_at := f, other_read := \<lambda>_. memory_read ins n\<rparr>) a w))"
  by (rule bus_access_refines [OF assms])

theorem bus_implements_accesses_witness:
  "(\<exists>n f. snd (soc_bus_run bench (one_access True 0x10000000 65) n (bus_reset, soc_reset []))
      = cpu_store (bench\<lparr>delay_at := f\<rparr>) 0x10000000 65 (soc_reset []))
    \<and> (\<exists>n \<le> 38. rdata_reg (bus_master (fst (soc_bus_run bench (one_access False 0x30000000 0) n (bus_reset, soc_reset [])))) = 0)"
proof (rule conjI)
  note claim = bus_implements_accesses [OF one_access_commanded soc_reset_idle(1) [of "[]"], where E = bench]
  have "access_ends True 0x10000000" "access_ends False 0x30000000" "\<not> on_apb 0x30000000" "decode 0x30000000 = None"
    by (simp_all add: access_ends_def bus_accepts_def bus_answers_def decode_def on_apb_def in_page_def dmem_page_def hyperram_page_def
      clint_page_def plic_page_def uart_page_def gpio_page_def rtos_page_def posix_page_def imem_page_def hw_defs)
  note ends = this
  show "\<exists>n f. snd (soc_bus_run bench (one_access True 0x10000000 65) n (bus_reset, soc_reset []))
      = cpu_store (bench\<lparr>delay_at := f\<rparr>) 0x10000000 65 (soc_reset [])"
    using claim [OF ends(1), where d = 65] by (auto simp: access_with_def)
  show "\<exists>n \<le> 38. rdata_reg (bus_master (fst (soc_bus_run bench (one_access False 0x30000000 0) n (bus_reset, soc_reset [])))) = 0"
    using claim [OF ends(2), where d = 0] ends(3,4) by (auto simp: cpu_load_def Let_def)
qed

section \<open>The devices\<close>

text \<open>
  C17. In every state the SoC reaches from reset, whatever the core does on the bus and whatever it calls:
  the FIFOs are well formed and hold at most sixteen bytes, the standard descriptors are open on the
  UART, every open descriptor leads to the device of its type, the bridge is busy exactly while the
  POSIX layer waits for it, and the layer and the RTOS are in a state they reach together (\<open>rtos_well_typed\<close>).
\<close>

theorem soc_invariant:
  assumes "powered E w"
  shows "uart_wf (soc_uart w) \<and> fd_wf (soc_posix w) \<and> std_open (soc_posix w) \<and> fd_based (soc_posix w)
    \<and> lockstep w \<and> Rtos_Wf.reached (soc_posix w) (soc_rtos w) \<and> length (fifo_items (tx_ring (soc_uart w))) \<le> 16 \<and> length (fifo_items (rx_ring (soc_uart w))) \<le> 16"
  using powered_inv [OF assms] powered_bounds [OF assms] powered_reached [OF assms]
  by (simp add: soc_inv_def FIFO_DEPTH_def)

theorem soc_invariant_witness:
  "lockstep (soc_clock bench apb_none (ecall_for bench SYS_CLOSE [0] (soc_reset [])) (soc_reset []))"
  using soc_invariant [OF powered.clock [OF powered.reset]] by blast

text \<open>
  C18. The ring buffer of the UART is a queue of capacity sixteen: with its read and write pointers of five
  bits it pops and pushes at the same clock, refuses a push when full and a pop when empty, and its
  flags and its front are those of the queue.
\<close>

theorem fifo_implements_queue:
  assumes "fifo_wf q"
  shows "fifo_wf (fifo_step push b pop q)
    \<and> fifo_items (fifo_step push b pop q) = queue_step 16 push b pop (fifo_items q)
    \<and> (fifo_full q \<longleftrightarrow> length (fifo_items q) = 16) \<and> (fifo_empty q \<longleftrightarrow> fifo_items q = [])
    \<and> (fifo_items q \<noteq> [] \<longrightarrow> fifo_front q = hd (fifo_items q))"
  using ring.wf_step [OF assms] ring.items_step [OF assms] ring.full_iff [OF assms] ring.empty_iff [OF assms]
    ring.items_front [OF assms] by (simp add: FIFO_DEPTH_def)

theorem fifo_implements_queue_witness:
  "fifo_items (fifo_step True 7 True fifo_reset) = queue_step 16 True 7 True (fifo_items fifo_reset)"
  using fifo_implements_queue [OF fifo_reset_wf(1)] by blast

text \<open>
  C19. The receiver of a UART with the same divisor, of sixteen clocks or more, gets the byte the
  transmitter sends.
\<close>

theorem uart_round_trip:
  assumes "sending TX_START 0 b u" and "16 \<le> bit_time u" and "9 * bit_time u + 2 \<le> length rxs" and "listening r"
  shows "rx_done (bit_time u) (rx_run (bit_time u) (line_of rxs u (9 * bit_time u + 2)) r) = Some b"
  by (rule loopback [OF assms])

theorem uart_round_trip_witness:
  "rx_done 217 (rx_run 217 (line_of (replicate 2000 None) (uart_step apb_none None (uart_with_byte 65)) 1955) rx_reset)
    = Some 65"
  using uart_round_trip [OF uart_with_byte_sends(1) [of 65], of "replicate 2000 None" rx_reset]
  by (simp add: uart_with_byte_items(5) listening_reset)

text \<open>
  C20. After it has noticed a start bit the receiver samples the bit k of the byte exactly \<open>(k + 1) * d\<close>
  clocks later, at the first clock of the bit and not in its middle, and delivers the byte after \<open>9 * d\<close>
  clocks, for every divisor of sixteen or more, also one that is not a multiple of sixteen.
\<close>

theorem receiver_samples:
  assumes "noticed r" and "divisor_ok d" and "length pins = 9 * d" and "\<not> seen pins r (d div 2)"
  shows "\<exists>b. rx_done d (rx_run d pins r) = Some b \<and> (\<forall>k < 8. bit b k = seen pins r ((k + 1) * d))"
  by (rule rx_samples [OF assms])

theorem receiver_samples_witness:
  "\<exists>b. rx_done 217 (rx_run 217 (replicate 1953 False) (rx_reset\<lparr>uart_rx_sync2 := False\<rparr>)) = Some b
    \<and> (\<forall>k < 8. bit b k = seen (replicate 1953 False) (rx_reset\<lparr>uart_rx_sync2 := False\<rparr>) ((k + 1) * 217))"
  by (rule receiver_samples) (simp_all add: noticed_def rx_reset_def divisor_ok_def seen_def nth_Cons')

text \<open>
  C21. The transmitter sends a byte as a frame: a start bit, the eight bits from the lowest on, and a stop
  bit, each for as many clocks as the divisor says; then it is idle.
\<close>

theorem transmitter_sends_frame:
  assumes "sending TX_START 0 b u"
  shows "(\<forall>n < 10 * bit_time u. \<forall>rxs. length rxs = Suc n \<longrightarrow> uart_tx (uart_run rxs u) = frame b ! (n div bit_time u))
    \<and> (\<forall>rxs. length rxs = 10 * bit_time u \<longrightarrow> tx_state (uart_run rxs u) = TX_IDLE)"
  using frame_on_line [OF assms] frame_ends [OF assms] by blast

theorem transmitter_sends_frame_witness:
  "tx_state (uart_run (replicate 2170 None) (uart_step apb_none None (uart_with_byte 65))) = TX_IDLE"
  using transmitter_sends_frame [OF uart_with_byte_sends(1) [of 65]] by (simp add: uart_with_byte_items(5))

section \<open>The hardware RTOS\<close>

text \<open>
  C22. One call on a semaphore is executed four times, whatever reaches the layer and the RTOS meanwhile.
  When nobody waits: \<open>sem_post\<close>, from a count below the maximum, returns 0 and adds 4, but not beyond
  the maximum, and from a count one or two below the maximum it leaves the RTOS in \<open>S_BLOCK_TASK\<close>, where
  it waits for an answer of the unit; \<open>sem_wait\<close>, from a count that is not zero, returns 0 and takes 4,
  but not below zero, and when the count was below 4 the caller, whose call has returned 0, is entered as
  waiting, and when it was 1 or 2 also taken off. \<open>sem_init\<close> returns 0 and leaves the count at 0,
  whatever the value, the maximum at 255 and nobody waiting. The layer has its answer after four clocks,
  the rest holds after six.
\<close>

theorem sem_calls_run_four_times:
  assumes "sem_call_at num a0 a1 (p, r)" and "length xs = 6"
    and "s = sem_of a0 r" "c = unat (count_r s)" "M = unat (max_count_r s)"
  shows "(num = SYS_SEM_POST \<and> sem_wait_mask_r s = 0 \<and> c < M \<longrightarrow>
      sem_answered xs (p, r) (\<lambda>r'. sem_of a0 r' = s\<lparr>count_r := of_nat (min (c + 4) M)\<rparr>
        \<and> fsm_state r' = (if c + 3 \<le> M then FSM_IDLE else FSM_BLOCK_TASK)))
    \<and> (num = SYS_SEM_WAIT \<and> sem_wait_mask_r s = 0 \<and> c \<noteq> 0 \<longrightarrow>
      sem_answered xs (p, r) (\<lambda>r'. sem_of a0 r' = s\<lparr>count_r := of_nat (c - 4),
          sem_wait_mask_r := if 4 \<le> c then 0 else 2 ^ current_task_id_r r\<rparr>
        \<and> (if 3 \<le> c then fsm_state r' = FSM_IDLE else fsm_state r' = FSM_SCAN_READY \<and> \<not> task_active_r r')))
    \<and> (num = SYS_SEM_INIT \<longrightarrow>
      sem_answered xs (p, r) (\<lambda>r'. fsm_state r' = FSM_IDLE
        \<and> sem_of a0 r' = \<lparr>count_r = 0, max_count_r = 0xFF, sem_wait_mask_r = 0\<rparr>))"
  using assms sem_post_repeats [of a0 a1 p r xs M c] sem_wait_repeats [of a0 a1 p r xs c] sem_init_zero [of a0 a1 p r xs]
  by (intro conjI impI) (simp_all only: simp_thms)

theorem sem_calls_run_four_times_witness:
  "sem_answered (replicate 6 no_input) (layer_with S_SEM_OP SYS_SEM_POST, rtos_with 1)
     (\<lambda>r'. count_r (sem_of 0 r') = 5 \<and> fsm_state r' = FSM_IDLE)
   \<and> sem_answered (replicate 6 no_input) (layer_with S_SEM_OP SYS_SEM_POST, rtos_with 254)
     (\<lambda>r'. count_r (sem_of 0 r') = 255 \<and> fsm_state r' = FSM_BLOCK_TASK)"
  using sem_calls_run_four_times [OF sem_call_ready(1) _ refl refl refl, of "replicate 6 no_input" SYS_SEM_POST 1]
    sem_calls_run_four_times [OF sem_call_ready(1) _ refl refl refl, of "replicate 6 no_input" SYS_SEM_POST 254]
  by (auto simp: sem_call_ready(2) elim!: sem_answered_mono)



text \<open>
  C24. A message queue of the RTOS holds its messages in order: SEND appends when there is room, RECV
  takes the oldest and delivers it, everything else leaves the messages as they are; it succeeds exactly
  then, and the other queues do not change.
\<close>

theorem msgqueue_is_queue:
  assumes "msgq_wf u" and "i < NUM_QUEUES" and "ms = messages (queues u ! i)" and "u' = hw_msgqueue op i d task u"
  shows "msgq_wf u' \<and> (\<forall>j. j \<noteq> i \<longrightarrow> queues u' ! j = queues u ! j)
    \<and> messages (queues u' ! i) = (if op = 1 \<and> length ms < QUEUE_DEPTH then ms @ [d] else if op = 2 then tl ms else ms)
    \<and> (op = 2 \<and> ms \<noteq> [] \<longrightarrow> msg_data_out u' = hd ms)
    \<and> (msgq_success u' \<longleftrightarrow> op = 1 \<and> length ms < QUEUE_DEPTH \<or> op = 2 \<and> ms \<noteq> [])"
  using hw_msgqueue_queue [of u i op d task] hw_msgqueue_wf [OF assms(1,2), of op d task]
    hw_msgqueue_others [of _ i op d task u] assms
  by (auto simp: msgq_wf_def split: list.splits)

theorem msgqueue_is_queue_witness:
  "messages (queues (hw_msgqueue 1 2 7 0 msgq_reset) ! 2) = [7]"
proof -
  have "messages (queues msgq_reset ! 2) = []" by (simp add: msgq_reset_def messages_def NUM_QUEUES_def)
  with msgqueue_is_queue [OF msgq_reset_wf, of 2 "[]" "hw_msgqueue 1 2 7 0 msgq_reset" 1 7 0] show ?thesis
    by (simp add: NUM_QUEUES_def QUEUE_DEPTH_def)
qed

text \<open>
  C25. The scheduler of the RTOS, which looks at one task control block per clock, makes the choice of
  \<open>schedule\<close>: the ready task of highest priority, the one with the lowest number among equals, when it
  has a higher priority than the current task or that does not run, and else the current task. It is done
  18 or 19 clocks after its trigger, not earlier, whatever the time slices do meanwhile.
\<close>

theorem scheduler_chooses:
  assumes "sched_state s = SCHED_IDLE" and "length xs = sched_clocks cur ts" and "cur < NUM_TASKS"
    and "\<forall>x \<in> set xs. same_status ts (snd x)" and "fst (hd xs)"
  shows "sched_done (sched_run cur xs s) \<and> next_task_id_reg (sched_run cur xs s) = schedule cur ts
    \<and> (\<forall>k < length xs. \<not> sched_done (sched_run cur (take k xs) s))"
  using sched_run_done [OF assms] sched_run_not_done [OF assms] by blast

theorem scheduler_chooses_witness:
  "next_task_id_reg (sched_run 0 (replicate 19 (True, two_tasks 3 7)) sched_reset) = 2"
  using scheduler_chooses [of sched_reset "replicate 19 (True, two_tasks 3 7)" 0 "two_tasks 3 7"] same_status_refl [of "two_tasks 3 7"]
  by (simp add: demo_schedule sched_reset_def sched_clocks_def NUM_TASKS_def)



text \<open>
  C27. A preemption never ends: when the scheduler wants to replace a task that runs, the RTOS stays in
  \<open>S_PREEMPT_CHECK\<close>, \<open>S_WAIT_CTX_ACK\<close> and \<open>S_CONTEXT_SAVE\<close> for ever, because it waits for the context
  switch unit only after the core has answered, when the unit is idle again. It never answers the POSIX
  layer again, so that the next call on a thread, a mutex, a semaphore or a queue does not return.
\<close>

theorem preemption_hangs:
  assumes "entering ts (the_rtos s)" "task_active_r (the_rtos s)"
    and "schedule (current_task_id_r (the_rtos s)) ts \<noteq> current_task_id_r (the_rtos s)"
    and "core_state (the_core s) = CORE_IDLE"
    and "sched_clocks (current_task_id_r (the_rtos s)) ts + 2 \<le> length xs"
  shows "fsm_state (the_rtos (cpu_run xs s)) \<in> {FSM_PREEMPT_CHECK, FSM_WAIT_CTX_ACK, FSM_CONTEXT_SAVE}
    \<and> unanswered (the_rtos (cpu_run xs s))
    \<and> (waits_for_answer (the_layer (cpu_run xs s)) \<longrightarrow> waits_for_answer (the_layer (cpu_run (xs @ ys) s)))"
  by (rule preemption_never_ends [OF assms])

theorem preemption_hangs_witness:
  "fsm_state (the_rtos (cpu_run (replicate 1000 \<lparr>of_pair = no_input, of_core = still_input\<rparr>)
      ((posix_reset, tick_with (running_first 3 7)), numbered_core)))
    \<in> {FSM_PREEMPT_CHECK, FSM_WAIT_CTX_ACK, FSM_CONTEXT_SAVE}"
proof -
  let ?s = "((posix_reset, tick_with (running_first 3 7)), numbered_core)"
  let ?xs = "replicate 1000 \<lparr>of_pair = no_input, of_core = still_input\<rparr>"
  have "schedule 1 (map slice_tick (running_first 3 7)) = 2"
    using schedule_status [OF same_status_tick [OF same_status_refl [of "running_first 3 7"]], of 1]
    by (simp add: demo_schedule NUM_TASKS_def)
  then show ?thesis
    using preemption_hangs [of "map slice_tick (running_first 3 7)" ?s ?xs] tick_enters [of "running_first 3 7"]
    by (simp add: numbered_core_def tick_with_def idle_with_def sched_clocks_def NUM_TASKS_def del: cpu_run_simps)
qed

text \<open>
  C28. The first \<open>pthread_create\<close> of a program, in an RTOS that rests, makes two tasks, 1 and 2, with the
  same entry, stack and priority, and returns 1 after three clocks: the layer asks for the creation until
  it is answered, and the RTOS keeps the second request it sees. After 48 clocks, in which the core may
  hold the request for the first four, as it does until it has the answer, and makes no other call in the
  rest, the RTOS has dispatched task 1.
\<close>

theorem create_makes_two_tasks:
  assumes "state_r p = S_THREAD_OP" "latched_syscall_num p = ucast SYS_PTHREAD_CREATE" and "before_tasks r"
    and "length xs = 48" "\<forall>x \<in> set (drop 4 xs). \<not> ecall_req (in_ecall x)"
  shows "(case pair_run (take 3 xs) (p, r) of (p', r') \<Rightarrow> state_r p' = S_COMPLETE \<and> result_r p' = 1)
    \<and> (case pair_run xs (p, r) of (p', r') \<Rightarrow> state_r p' = S_IDLE \<and> current_task_id_r r' = 1 \<and> task_active_r r'
        \<and> copies 2 TASK_RUNNING (latched_arg0 p) (latched_arg1 p) (ucast (latched_arg2 p)) (tcbs r'))"
  by (rule create_call_twice [OF assms])

theorem create_makes_two_tasks_witness:
  "case pair_run (replicate 4 create_request @ replicate 44 no_input)
      (layer_with S_THREAD_OP SYS_PTHREAD_CREATE, rtos_reset) of (p', r') \<Rightarrow>
    task_valid (tcbs r' ! 1) \<and> task_valid (tcbs r' ! 2) \<and> \<not> task_valid (tcbs r' ! 3)"
proof -
  show ?thesis
    using before_tasks_reset create_makes_two_tasks [of "layer_with S_THREAD_OP SYS_PTHREAD_CREATE" rtos_reset
        "replicate 4 create_request @ replicate 44 no_input"]
    by (auto simp: layer_with_def no_input_def copies_def NUM_TASKS_def simp del: pair_run_simps)
qed

text \<open>
  C29. \<open>sem_wait\<close> does not wait. When the count is zero it returns EAGAIN after four clocks; the RTOS
  enters the caller as waiting and blocked, and takes it off: it dispatches the task of highest priority
  that is ready, or the caller again when there is none. That is done without a context switch: the
  core goes on with the registers and the program of the caller, under the number of the other task. When
  the choice falls on number 0, as it does when the initial program calls and no task is ready, no task
  is dispatched, and the RTOS is idle, with no task active, one clock earlier.
\<close>

theorem sem_wait_does_not_wait:
  assumes "sem_call S_SEM_OP (ucast SYS_SEM_WAIT) a0 a1 p"
    and "resting r" "\<not> mutex_op_pending r" "\<not> msgq_op_pending r" and "t = current_task_id_r r" "t < NUM_TASKS"
    and "unat a0 mod 8 < length (sems (sem_u r))" "count_r (sem_of a0 r) = 0"
    and "ts = set_state t TASK_BLOCKED (tcbs r)" and "n = schedule t ts"
    and "length xs = sched_clocks t ts + 6"
  shows "(case pair_run (take 4 xs) (p, r) of (p', _) \<Rightarrow> state_r p' = S_COMPLETE \<and> result_r p' = POSIX_EAGAIN)
    \<and> (if n \<noteq> 0 then (case pair_run xs (p, r) of (_, r') \<Rightarrow> dispatched n (set_state n TASK_RUNNING ts) r'
        \<and> ctx_u r' = ctx_u r \<and> bit (sem_wait_mask_r (sem_of a0 r')) t)
      else (case pair_run (butlast xs) (p, r) of (_, r') \<Rightarrow> fsm_state r' = FSM_IDLE \<and> \<not> task_active_r r'
        \<and> current_task_id_r r' = t \<and> same_status ts (tcbs r')
        \<and> ctx_u r' = ctx_u r \<and> bit (sem_wait_mask_r (sem_of a0 r')) t))"
  by (rule wait_dispatches_another [OF assms])

theorem sem_wait_does_not_wait_witness:
  "case pair_run (replicate 25 no_input) (layer_with S_SEM_OP SYS_SEM_WAIT, idle_with (running_first 3 2)) of (_, r') \<Rightarrow>
    current_task_id_r r' = 2 \<and> ctx_u r' = ctx_reset \<and> bit (sem_wait_mask_r (sem_of 0 r')) 1"
proof -
  let ?r = "idle_with (running_first 3 2)"
  have "sem_call S_SEM_OP (ucast SYS_SEM_WAIT) 0 0 (layer_with S_SEM_OP SYS_SEM_WAIT)"
    by (simp add: sem_call_def layer_with_def posix_reset_def)
  then show ?thesis
    using sem_wait_does_not_wait [of 0 0 "layer_with S_SEM_OP SYS_SEM_WAIT" ?r 1 "set_state 1 TASK_BLOCKED (running_first 3 2)" 2
        "replicate 25 no_input"] idle_with_rests [of "running_first 3 2"] demo_schedule(3)
    by (auto simp: idle_with_def rtos_reset_def sem_reset_def sem_of_def sched_clocks_def NUM_TASKS_def NUM_SEMS_def
        dispatched_def simp del: pair_run_simps)
qed

text \<open>
  C30. Priority inheritance writes to the wrong task: when the owner of a mutex unlocks it, which is what
  \<open>pthread_mutex_lock\<close> does, with tasks waiting for it or not (the owner itself not among them) and
  nothing else being done to the control blocks, hw\_rtos.sv means to restore the priority of the owner,
  but overwrites the control block of task 0 with that of the owner; the priority of the owner, raised by
  a waiting task or not, stays. Of the control blocks, only that of the task that is woken changes
  otherwise: it becomes ready.
\<close>

theorem unlock_overwrites_task0:
  assumes "mutex_at S_MUTEX_OP FSM_IDLE 0 False False SYS_MUTEX_LOCK a0 t u pr" "mutex_low u" "prio_boost u = None"
    and "length (mutexes u) = NUM_MUTEXES" "m = mutexes u ! (unat a0 mod 8)" "locked_r m" "owner_id_r m = t"
      "\<not> bit (mutex_wait_mask_r m) t"
    and "tcbs_rest (snd pr)" "t < NUM_TASKS" and "length xs = 5" and "j < NUM_TASKS"
  shows "status (tcbs (snd (pair_run xs pr))) j = (let b = status (tcbs (snd pr)) (if j = 0 then t else j) in
    if best_wake (task_prios (snd pr)) (mutex_wait_mask_r m) = Some j then b\<lparr>task_state := TASK_READY\<rparr> else b)"
  by (rule unlock_overwrites_block [OF assms])

theorem unlock_overwrites_task0_witness:
  "let ts = tcbs (snd (pair_run (replicate 5 no_input) (layer_with S_MUTEX_OP SYS_MUTEX_LOCK, owner_rtos)))
   in status ts 0 = status (tcbs owner_rtos) 1 \<and> status ts 1 = status (tcbs owner_rtos) 1
     \<and> status ts 2 = (status (tcbs owner_rtos) 2)\<lparr>task_state := TASK_READY\<rparr>"
proof -
  note claim = unlock_overwrites_task0 [OF owner_ready(1-4) refl owner_ready(5-7), where xs = "replicate 5 no_input"]
  show ?thesis
    using claim [of 0] claim [of 1] claim [of 2] owner_ready(8,9) by (simp add: NUM_TASKS_def Let_def del: pair_run_simps)
qed

text \<open>
  C31. In every state the POSIX layer and the RTOS reach together from reset, for whatever the core, the timer
  and the bus do, every task number kept anywhere is that of one of the sixteen tasks, every index is
  inside its table, the tables keep their sizes, tasks wait only for a semaphore whose count is zero,
  every queue holds at most eight messages between its pointers, and the descriptors 0 to 2 are open.
\<close>

theorem rtos_well_typed:
  assumes "reached p r"
  shows "rtos_wf r \<and> fd_wf p \<and> std_open p"
  using reached_wf [OF assms] reached_files [OF assms] by blast

theorem rtos_well_typed_witness:
  "rtos_wf (snd (pair_run (replicate 48 no_input) (posix_reset, rtos_reset)))"
  using rtos_well_typed [OF pair_run_reached [of "(posix_reset, rtos_reset)" "replicate 48 no_input"]] reached.start
  by (simp del: pair_run_simps)

section \<open>Numbers and strings\<close>

text \<open>
  C32. \<open>parse_args\<close> splits a line into its words, at most as many as \<open>argv\<close> has slots: it counts them,
  and every entry of \<open>argv\<close> it sets is the offset of a NUL-terminated word in the line buffer. It
  touches nothing outside the two arrays.
\<close>

theorem parse_args_splits:
  assumes "c_string buf = Some line" and "length slots = Suc MAX_ARGS"
  shows "\<exists>buf' n slots'. parse_args buf slots = Some (buf', n, slots')
    \<and> n = length (take (Suc MAX_ARGS) (words_of line))
    \<and> length buf' = length buf \<and> length slots' = Suc MAX_ARGS
    \<and> (\<forall>j < n. slots' ! j < length buf \<and> arg_string buf' slots' j = Some (words_of line ! j))"
  by (rule parse_args_correct [OF assms])

theorem parse_args_splits_witness:
  "\<exists>buf' n slots'. parse_args (lit (ascii ''  peek 10'')) (replicate 5 0) = Some (buf', n, slots')
    \<and> n = length (take (Suc MAX_ARGS) (words_of (ascii ''  peek 10'')))
    \<and> length buf' = length (lit (ascii ''  peek 10'')) \<and> length slots' = Suc MAX_ARGS
    \<and> (\<forall>j < n. slots' ! j < length (lit (ascii ''  peek 10''))
        \<and> arg_string buf' slots' j = Some (words_of (ascii ''  peek 10'') ! j))"
  by (rule parse_args_splits) (simp_all add: literal_simps MAX_ARGS_def)

text \<open>
  C33. \<open>div64by32\<close> computes the low word of the quotient and the remainder of a 64-bit value by any
  divisor from 1 to \<open>2 ^ 31\<close>.
\<close>

theorem div64by32_correct:
  assumes "0 < unat d" and "unat d \<le> 2 ^ 31"
  shows "div64by32 hi lo d =
    (of_nat ((unat hi * 2 ^ 32 + unat lo) div unat d), of_nat ((unat hi * 2 ^ 32 + unat lo) mod unat d))"
  by (rule div64by32_eq [OF assms])

theorem div64by32_correct_witness: "div64by32 1 0 10 = (429496729, 6)"
  using div64by32_correct [of 10 1 0] by simp

text \<open>
  C34. \<open>hex_to_uint32\<close> accepts exactly the strings of one to eight hexadecimal digits, after an optional
  \<open>0x\<close> or \<open>0X\<close>, and returns their value; every other string is an error. It never reads past the
  terminating NUL.
\<close>

theorem hex_to_uint32_correct:
  assumes "c_string s = Some bs"
  shows "hex_to_uint32 s = Some (let ds = strip_0x bs in
    if ds \<noteq> [] \<and> length ds \<le> 8 \<and> (\<forall>d \<in> set ds. is_hex d)
    then Parsed (of_nat (digits_value 16 (map hex_val ds))) else Parse_error)"
  using hex_to_uint32_eq [OF assms] by (simp add: parse_hex_spec_def)

theorem hex_to_uint32_correct_witness:
  "hex_to_uint32 (lit (ascii ''0x1F'')) = Some (Parsed 31)"
proof -
  have "c_string (lit (ascii ''0x1F'')) = Some (ascii ''0x1F'')" by (simp add: literal_simps)
  from hex_to_uint32_correct [OF this] show ?thesis
    by (simp add: ascii_def is_hex_def hex_val_def hex_nibble_def digits_value_def)
qed

text \<open>
  C35. \<open>dec_to_uint32\<close> accepts the nonempty strings of decimal digits whose value fits in 32 bits, and
  returns the value; a string with any other character, and the empty one, is an error whatever its
  length. Whatever it accepts is a nonempty string of digits, and the result is its value modulo
  \<open>2 ^ 32\<close>. The overflow check does not reject every value of more than 32 bits: at the witness the
  ten digits of 5000000000 are accepted as 705032704.
\<close>

theorem dec_to_uint32_reads:
  assumes "c_string s = Some bs" and "v = digits_value 10 (map dec_val bs)"
  shows "(((\<forall>d \<in> set bs. is_dec d) \<longrightarrow> v < 2 ^ 32) \<longrightarrow> dec_to_uint32 s =
      Some (if bs \<noteq> [] \<and> (\<forall>d \<in> set bs. is_dec d) then Parsed (of_nat v) else Parse_error))
    \<and> (dec_to_uint32 s = Some (Parsed x) \<longrightarrow> bs \<noteq> [] \<and> (\<forall>d \<in> set bs. is_dec d) \<and> x = of_nat v)"
  using dec_to_uint32_exact [OF assms(1)] dec_to_uint32_modulo [OF assms(1), of x] assms(2) by blast

theorem dec_to_uint32_reads_witness:
  "dec_to_uint32 (lit (ascii ''4294967295'')) = Some (Parsed (- 1))
    \<and> dec_to_uint32 (lit (ascii ''5000000000'')) = Some (Parsed 705032704)
    \<and> (705032704 :: u32) = of_nat (digits_value 10 (map dec_val (ascii ''5000000000'')))"
proof -
  have s: "c_string (lit (ascii ''4294967295'')) = Some (ascii ''4294967295'')"
    "c_string (lit (ascii ''5000000000'')) = Some (ascii ''5000000000'')" by (simp_all add: literal_simps)
  have v: "digits_value 10 (map dec_val (ascii ''4294967295'')) = 4294967295"
    "\<forall>d \<in> set (ascii ''4294967295''). is_dec d" "ascii ''4294967295'' \<noteq> []"
    by (simp_all add: ascii_def digits_value_def dec_val_def is_dec_def)
  have r: "dec_to_uint32 (lit (ascii ''5000000000'')) = Some (Parsed 705032704)"
    by (simp add: ascii_def lit_def dec_to_uint32_def Let_def)
  have "dec_to_uint32 (lit (ascii ''4294967295'')) = Some (Parsed (- 1))"
    using dec_to_uint32_reads [OF s(1) refl, of 0] v by simp
  with r dec_to_uint32_reads [OF s(2) refl, of 705032704] show ?thesis by simp
qed

text \<open>
  C36. What \<open>uint32_to_hex\<close> and \<open>uint32_to_dec\<close> print, \<open>hex_to_uint32\<close> and \<open>dec_to_uint32\<close> read back: the eight
  hexadecimal digits of the value, from the highest on, and a NUL in the nine bytes of the buffer; or, at
  the end of eleven bytes, a NUL after decimal digits without a leading zero, but for the text of 0.
  Neither writes outside its buffer.
\<close>

theorem number_round_trips:
  assumes "length hbuf = 9" and "length dbuf = 11"
  shows "(\<exists>ds. uint32_to_hex v hbuf = ds @ [0] \<and> length ds = 8
        \<and> (\<forall>j < 8. ds ! j = hextab ! (unat v div 16 ^ (7 - j) mod 16))
        \<and> hex_to_uint32 (uint32_to_hex v hbuf) = Some (Parsed v))
    \<and> (\<exists>i buf' ds. uint32_to_dec v dbuf = Some (i, buf') \<and> length buf' = 11 \<and> drop i buf' = ds @ [0]
        \<and> ds \<noteq> [] \<and> (\<forall>d \<in> set ds. is_dec d) \<and> (hd ds = 48 \<longrightarrow> ds = [48])
        \<and> dec_to_uint32 (drop i buf') = Some (Parsed v))"
  using hex_prints_back [OF assms(1)] dec_prints_back [OF assms(2)] by blast

theorem number_round_trips_witness:
  "hex_to_uint32 (uint32_to_hex 0xC0FFEE (replicate 9 0)) = Some (Parsed 0xC0FFEE)
    \<and> (\<exists>i buf'. uint32_to_dec 25000000 (replicate 11 0) = Some (i, buf') \<and> length buf' = 11
        \<and> dec_to_uint32 (drop i buf') = Some (Parsed 25000000))"
  using number_round_trips [of "replicate 9 0" "replicate 11 0" "0xC0FFEE"]
    number_round_trips [of "replicate 9 0" "replicate 11 0" 25000000] by auto

text \<open>
  C37. \<open>memcpy\<close> copies the source as it was, for every count, also around the end of the address space, when
  no source byte is overwritten before it is read, and changes nothing else.
\<close>

theorem memcpy_copies:
  assumes "\<And>i. i < unat n \<Longrightarrow> \<not> in_range dest i (src + of_nat i)"
  shows "fst (memcpy dest src n m) = dest
    \<and> snd (memcpy dest src n m) a = (if in_range dest (unat n) a then m (src + (a - dest)) else m a)"
  using memcpy_loop_eq [of "unat n" dest src m a, OF _ assms] u32_bound [of n] by (simp add: memcpy_def)

theorem memcpy_copies_witness:
  "snd (memcpy 0x10000 0x10004 4 (\<lambda>a. ucast a)) 0x10001 = 5"
proof -
  have "\<not> in_range 0x10000 i (0x10004 + of_nat i)" if "i < unat (4 :: u32)" for i
  proof -
    have "i = 0 \<or> i = 1 \<or> i = 2 \<or> i = 3" using that by auto
    then show ?thesis by (auto simp: in_range_def)
  qed
  from memcpy_copies [of 4 "0x10000" "0x10004" "\<lambda>a. ucast a" "0x10001", OF this] show ?thesis by (simp add: in_range_def)
qed

section \<open>The example programs\<close>

text \<open>
  C38. \<open>hello_uart\<close> on the SoC: when a descriptor is free and the transmit FIFO has room, that is when at most two
  bytes wait in it, it returns 0, the UART has accepted the
  fourteen bytes it passes, the message and its terminating NUL, and the descriptor is closed again.
\<close>

theorem hello_on_soc:
  assumes "serving (hw s)" and "lowest_free (soc_table (hw s)) \<noteq> None" and "length (soc_waiting (hw s)) \<le> 2"
  shows "returns (\<lambda>(r, s'). r = 0 \<and> soc_sent (hw s') = soc_sent (hw s) @ hello_msg
      \<and> soc_table (hw s') = soc_table (hw s) \<and> serving (hw s')) (hello_main (soc_platform E) s)"
  by (rule hello_fits [OF assms])

theorem hello_on_soc_witness:
  "returns (\<lambda>(r, s'). r = 0 \<and> soc_sent (hw s') = ascii ''Hello VSync!'' @ [10, 0])
    (hello_main (soc_platform bench) \<lparr>hw = soc_reset [], trace = []\<rparr>)"
proof -
  have "soc_sent (soc_reset []) = []" "soc_waiting (soc_reset []) = []"
    by (simp_all add: soc_sent_def soc_waiting_def accepted_def soc_reset_def uart_reset_def fifo_reset_wf)
  with hello_on_soc [of "\<lparr>hw = soc_reset [], trace = []\<rparr>" bench] soc_reset_bootable [of "[]"] show ?thesis
    by (auto simp: bootable_def hello_msg_def lit_def elim!: returns_mono)
qed

text \<open>
  C39. \<open>gpio_blink\<close> on the SoC. When no descriptor is free it returns -1; it has sent nothing, taken no
  received byte, and changed no descriptor and no output or direction of the GPIO. Otherwise
  it never returns; it makes the LED pin an output and goes into its loop, and after n of its rounds the
  output register of the GPIO has the LED on exactly when n is odd (before the first it is as it was),
  the pin is still an output, and nothing has been sent.
\<close>

theorem blink_on_soc:
  assumes "serving (hw s)"
  shows "case lowest_free (soc_table (hw s)) of
      None \<Rightarrow> returns (\<lambda>(r, s'). r = -1 \<and> undisturbed (hw s) (hw s')
          \<and> soc_table (hw s') = soc_table (hw s)) (blink_main (soc_platform E) delay s)
    | Some i \<Rightarrow> blink_main (soc_platform E) delay s = None
        \<and> returns (\<lambda>(led, s'). led = of_bool (odd n)
            \<and> gpio_out_r (soc_gpio (hw s')) = (if n = 0 then gpio_out_r (soc_gpio (hw s)) else ucast led)
            \<and> gpio_dir_r (soc_gpio (hw s')) = ucast LED_BIT \<and> soc_sent (hw s') = soc_sent (hw s)
            \<and> soc_table (hw s') = (soc_table (hw s))(i \<mapsto> FD_TYPE_GPIO))
          (blink_upto (soc_platform E) delay n s)"
proof (cases "lowest_free (soc_table (hw s))")
  case None
  with blink_refused [OF assms] show ?thesis by simp
next
  case (Some i)
  note runs = blink_runs [OF assms Some]
  show ?thesis unfolding Some option.case by (rule conjI [OF runs])
qed

theorem blink_on_soc_witness:
  "blink_main (soc_platform bench) 0x10000 \<lparr>hw = soc_reset [], trace = []\<rparr> = None
    \<and> returns (\<lambda>(led, s'). gpio_out_r (soc_gpio (hw s')) = 1 \<and> gpio_dir_r (soc_gpio (hw s')) = 1)
        (blink_upto (soc_platform bench) 0x10000 5 \<lparr>hw = soc_reset [], trace = []\<rparr>)"
proof -
  obtain i where "lowest_free (soc_table (soc_reset [])) = Some i"
    using soc_reset_bootable [of "[]"] by (auto simp: bootable_def)
  with blink_on_soc [of "\<lparr>hw = soc_reset [], trace = []\<rparr>" bench "0x10000" 5] soc_reset_serving [of "[]"]
  show ?thesis by (auto simp: LED_BIT_def elim!: returns_mono)
qed

text \<open>
  C40. \<open>multitask\<close> on the SoC, layer and RTOS included: from a machine with a free descriptor and an RTOS that has no
  task and is not stuck in an operation (\<open>rtos_free\<close>), as after reset, whatever the timer, the core and the bus
  do, the creation of the first task returns 1, which is the number the RTOS answers. The program
  takes it for an error and returns -1.
\<close>

theorem multitask_reports_failure:
  assumes "serving (hw s)" and "lowest_free (soc_table (hw s)) \<noteq> None" and "rtos_free (soc_rtos (hw s))"
  shows "returns (\<lambda>(r, s'). r = -1 \<and> Ecall SYS_PTHREAD_CREATE [addr_task1 obj, 0, task1_entry obj, 0] 1 \<in> set (trace s'))
    (multitask_main (soc_platform E) obj s)"
  by (rule multitask_stops [OF assms])

theorem multitask_reports_failure_witness:
  "returns (\<lambda>(r, s'). r = -1) (multitask_main (soc_platform bench) demo_objects \<lparr>hw = soc_reset [], trace = []\<rparr>)"
  using multitask_reports_failure [of "\<lparr>hw = soc_reset [], trace = []\<rparr>" demo_objects bench] soc_reset_free [of "[]"]
    soc_reset_bootable [of "[]"]
  by (auto simp: bootable_def elim!: returns_mono)

section \<open>Further facts\<close>

text \<open>
  \<open>cmd_gpio\<close>: \<open>read\<close> prints the pins, \<open>write\<close> and \<open>dir\<close> store their argument in the register they
  name or report a malformed one, and anything else lists the seven registers.
\<close>

theorem gpio_on_soc:
  assumes "shell_ready E s" and "args_are s ws"
  shows "returns (\<lambda>s'. \<exists>os. gpio_does ws os \<and> shell_did E s os s') (cmd_gpio (soc_platform E) s)"
  by (rule soc.gpio_said [OF assms]) (simp_all add: soc.gpio_harmless)

text \<open>
  What the UART has accepted for transmission is never lost or reordered: along every run the bytes
  sent so far followed by those in the FIFO only grow at the end.
\<close>

theorem accepted_only_grows:
  assumes "powered E w" and "runs E w w'"
  shows "prefix (accepted (soc_uart w)) (accepted (soc_uart w'))"
  using runs_accepted [OF assms(2)] powered_inv [OF assms(1)] by (simp add: soc_inv_def)

text \<open>
  A \<open>write\<close> to a descriptor that is not open fails with EBADF, and neither the UART nor the table
  notice it.
\<close>

theorem write_needs_descriptor:
  assumes "serving (hw s)" and "soc_table (hw s) (unat fd) = None"
  shows "\<exists>w'. sys_returns SYS_WRITE [fd, v, n] POSIX_EBADF w' s (syscall3 (soc_platform E) SYS_WRITE fd v n s)
    \<and> soc_table w' = soc_table (hw s) \<and> serving w' \<and> undisturbed (hw s) w'"
  by (rule write_bad_fd [OF assms])

end
